(* ===== verification/Airy_Prelude.thy ===== *)
theory Airy_Prelude
  imports Complex_Main "HOL-Library.Word" "HOL-Library.Sublist"
begin

text \<open>
  Shared vocabulary of the development: the environment the protocol library is linked
  against, the C string functions it calls, decimal and hexadecimal printing and parsing,
  and bounded text buffers.

  A C string is the list of its characters before the terminating NUL, so \<open>strlen\<close> is
  \<open>length\<close>. A nullable pointer is an \<open>option\<close>. A function that returns a pointer into
  its argument (\<open>strchr\<close>, \<open>strstr\<close>) returns the suffix that starts there.
\<close>

unbundle bit_operations_syntax

type_synonym u8 = "8 word"
type_synonym u16 = "16 word"
type_synonym u32 = "32 word"
type_synonym u64 = "64 word"
type_synonym cstring = string

declare Let_def [simp]

named_theorems model_defs \<open>definitions that straight-line proofs unfold\<close>
named_theorems model_lookup \<open>laws of the linear searches\<close>

section \<open>The environment\<close>

text \<open>
  The library calls the separate \<open>commons\<close> repository for its error codes, its
  allocator, its bounded string copy and its clocks. They are parameters here.
  \<open>err\<close> gives the number of a named error code. \<open>mem i\<close> says whether the i-th
  allocation of a call succeeds. \<open>strncpy_term n s\<close> is the string that
  \<open>AIRY_STRNCPY_TERM(dst, s, n)\<close> leaves in \<open>dst\<close>. The clocks give the value of
  the i-th reading that a call makes.
\<close>

datatype airy_err =
    AIRY_ERR_UNKNOWN | AIRY_ERR_INVALID_PARAM | AIRY_ERR_NULL_POINTER
  | AIRY_ERR_OUT_OF_MEMORY | AIRY_ERR_BUFFER_TOO_SMALL | AIRY_ERR_NOT_FOUND
  | AIRY_ERR_TIMEOUT | AIRY_ERR_NOT_SUPPORTED | AIRY_ERR_PERMISSION_DENIED
  | AIRY_ERR_IO | AIRY_ERR_STATE_ERROR | AIRY_ERR_OVERFLOW | AIRY_ERR_PARSE_ERROR
  | AIRY_EINVAL | AIRY_EIO | AIRY_ENOTCONN

record env =
  err :: "airy_err \<Rightarrow> int"
  mem :: "nat \<Rightarrow> bool"
  strncpy_term :: "nat \<Rightarrow> cstring \<Rightarrow> cstring"
  time_s :: "nat \<Rightarrow> u64"
  time_ns :: "nat \<Rightarrow> u64"
  wall_ms :: "nat \<Rightarrow> u64"

text \<open>
  What the code relies on: error codes are negative (\<open>protocols.h\<close>: "0 on success,
  negative error codes on failure"), and the bounded copy keeps a string that fits,
  cuts one that does not, and always leaves room for the NUL.
\<close>

definition codes_ok :: "env \<Rightarrow> bool" where
  "codes_ok E \<longleftrightarrow> (\<forall>e. err E e < 0)"

definition strncpy_ok :: "env \<Rightarrow> bool" where
  "strncpy_ok E \<longleftrightarrow> (\<forall>n s. 0 < n \<longrightarrow> strncpy_term E n s = take (n - 1) s)"

definition mem_ok :: "env \<Rightarrow> bool" where
  "mem_ok E \<longleftrightarrow> (\<forall>i. mem E i)"

lemma codes_ok_nonzero [simp]: "codes_ok E \<Longrightarrow> err E e \<noteq> 0"
  by (auto simp: codes_ok_def) (metis less_irrefl)

lemma codes_ok_neg [simp]: "codes_ok E \<Longrightarrow> err E e < 0"
  by (simp add: codes_ok_def)

lemma codes_ok_nonneg [simp]: "codes_ok E \<Longrightarrow> 0 \<le> n \<Longrightarrow> err E e \<noteq> n"
  by (metis codes_ok_neg leD)

lemma strncpy_okD [simp]: "strncpy_ok E \<Longrightarrow> 0 < n \<Longrightarrow> strncpy_term E n s = take (n - 1) s"
  by (simp add: strncpy_ok_def)

lemma mem_okD [simp]: "mem_ok E \<Longrightarrow> mem E i"
  by (simp add: mem_ok_def)

text \<open>A concrete environment, for closed instances of the properties.\<close>

fun err_num :: "airy_err \<Rightarrow> int" where
  "err_num AIRY_ERR_UNKNOWN = -1"
| "err_num AIRY_ERR_INVALID_PARAM = -2"
| "err_num AIRY_ERR_NULL_POINTER = -3"
| "err_num AIRY_ERR_OUT_OF_MEMORY = -4"
| "err_num AIRY_ERR_BUFFER_TOO_SMALL = -5"
| "err_num AIRY_ERR_NOT_FOUND = -6"
| "err_num AIRY_ERR_TIMEOUT = -7"
| "err_num AIRY_ERR_NOT_SUPPORTED = -8"
| "err_num AIRY_ERR_PERMISSION_DENIED = -9"
| "err_num AIRY_ERR_IO = -10"
| "err_num AIRY_ERR_STATE_ERROR = -11"
| "err_num AIRY_ERR_OVERFLOW = -12"
| "err_num AIRY_ERR_PARSE_ERROR = -13"
| "err_num AIRY_EINVAL = -14"
| "err_num AIRY_EIO = -15"
| "err_num AIRY_ENOTCONN = -16"

definition env0 :: env where
  "env0 = \<lparr>err = err_num, mem = (\<lambda>_. True), strncpy_term = (\<lambda>n s. take (n - 1) s),
    time_s = (\<lambda>_. 1000), time_ns = (\<lambda>_. 1000000), wall_ms = (\<lambda>_. 1000000)\<rparr>"

lemma env0_sel [simp]:
  "err env0 = err_num" "mem env0 i" "strncpy_term env0 n s = take (n - 1) s"
  "time_s env0 i = 1000" "time_ns env0 i = 1000000" "wall_ms env0 i = 1000000"
  by (simp_all add: env0_def)

lemma env0_ok [simp]: "codes_ok env0" "strncpy_ok env0" "mem_ok env0"
proof -
  have "err_num e < 0" for e by (cases e) simp_all
  then show "codes_ok env0" by (simp add: codes_ok_def)
  show "strncpy_ok env0" "mem_ok env0" by (simp_all add: strncpy_ok_def mem_ok_def)
qed

text \<open>
  The environment a later part of the same call sees: the readings and allocations made
  so far are skipped.
\<close>

definition later :: "nat \<Rightarrow> env \<Rightarrow> env" where
  "later k E = E\<lparr>mem := (\<lambda>i. mem E (k + i)), time_s := (\<lambda>i. time_s E (k + i)),
     time_ns := (\<lambda>i. time_ns E (k + i)), wall_ms := (\<lambda>i. wall_ms E (k + i))\<rparr>"

lemma later_sel [simp]:
  "err (later k E) = err E" "strncpy_term (later k E) = strncpy_term E"
  "mem (later k E) i = mem E (k + i)" "time_s (later k E) i = time_s E (k + i)"
  "time_ns (later k E) i = time_ns E (k + i)" "wall_ms (later k E) i = wall_ms E (k + i)"
  by (simp_all add: later_def)

lemma later_ok [simp]:
  "codes_ok (later k E) = codes_ok E" "strncpy_ok (later k E) = strncpy_ok E"
  "mem_ok E \<Longrightarrow> mem_ok (later k E)"
  unfolding codes_ok_def strncpy_ok_def mem_ok_def later_sel by simp_all

text \<open>\<open>AIRY_STRDUP\<close> as the i-th allocation of a call: NULL when it fails.\<close>

definition strdup :: "env \<Rightarrow> nat \<Rightarrow> cstring \<Rightarrow> cstring option" where
  "strdup E i s = (if mem E i then Some s else None)"

lemma strdup_ok [simp]: "mem_ok E \<Longrightarrow> strdup E i s = Some s"
  by (simp add: strdup_def)

section \<open>Searching and comparing strings\<close>

fun strchr :: "char \<Rightarrow> cstring \<Rightarrow> cstring option" where
  "strchr c [] = None"
| "strchr c (x # xs) = (if x = c then Some (x # xs) else strchr c xs)"

fun strstr :: "cstring \<Rightarrow> cstring \<Rightarrow> cstring option" where
  "strstr [] n = (if n = [] then Some [] else None)"
| "strstr (x # xs) n = (if take (length n) (x # xs) = n then Some (x # xs) else strstr xs n)"

text \<open>\<open>strncmp(a, b, n) == 0\<close> and \<open>strcasecmp(a, b) == 0\<close> (C locale).\<close>

definition strncmp_eq :: "nat \<Rightarrow> cstring \<Rightarrow> cstring \<Rightarrow> bool" where
  "strncmp_eq n a b \<longleftrightarrow> take n a = take n b"

definition tolower :: "char \<Rightarrow> char" where
  "tolower c = (if 65 \<le> (of_char c :: nat) \<and> (of_char c :: nat) \<le> 90
     then char_of ((of_char c :: nat) + 32) else c)"

definition strcasecmp_eq :: "cstring \<Rightarrow> cstring \<Rightarrow> bool" where
  "strcasecmp_eq a b \<longleftrightarrow> map tolower a = map tolower b"

lemma strchr_Some_iff:
  "strchr c s = Some t \<longleftrightarrow> (\<exists>u v. s = u @ c # v \<and> c \<notin> set u \<and> t = c # v)"
proof (induction s)
  case Nil
  then show ?case by simp
next
  case (Cons x xs)
  show ?case
  proof (cases "x = c")
    case True
    then show ?thesis by (auto simp: Cons_eq_append_conv)
  next
    case False
    then show ?thesis using Cons by (auto simp: Cons_eq_append_conv)
  qed
qed

lemma strchr_None_iff: "strchr c s = None \<longleftrightarrow> c \<notin> set s"
  by (induction s) auto

lemma strchr_append [simp]: "c \<notin> set u \<Longrightarrow> strchr c (u @ s) = strchr c s"
  by (induction u) auto

lemma strstr_prefix [simp]: "strstr (n @ r) n = Some (n @ r)"
proof (cases "n @ r")
  case Nil
  then show ?thesis by simp
next
  case (Cons x xs)
  then have "take (length n) (x # xs) = n" by (metis append_eq_conv_conj)
  with Cons show ?thesis by simp
qed

lemma strstr_Some_suffix: "strstr h n = Some t \<Longrightarrow> suffix t h \<and> prefix n t"
proof (induction h)
  case Nil
  then show ?case by (auto split: if_splits)
next
  case (Cons x xs)
  show ?case
  proof (cases "take (length n) (x # xs) = n")
    case True
    with Cons.prems have "t = x # xs" by simp
    with True show ?thesis by (metis suffix_order.refl take_is_prefix)
  next
    case False
    with Cons.prems have "strstr xs n = Some t" by simp
    with Cons.IH show ?thesis by (auto intro: suffix_ConsI)
  qed
qed

lemma strncmp_eq_refl [simp]: "strncmp_eq n a a"
  by (simp add: strncmp_eq_def)

section \<open>Decimal and hexadecimal numerals\<close>

definition isdigit :: "char \<Rightarrow> bool" where
  "isdigit c \<longleftrightarrow> 48 \<le> (of_char c :: nat) \<and> (of_char c :: nat) \<le> 57"

definition isspace :: "char \<Rightarrow> bool" where
  "isspace c \<longleftrightarrow> (of_char c :: nat) = 32 \<or> (9 \<le> (of_char c :: nat) \<and> (of_char c :: nat) \<le> 13)"

definition digit :: "nat \<Rightarrow> char" where
  "digit d = char_of (48 + d)"

fun show_nat :: "nat \<Rightarrow> string" where
  "show_nat n = (if n < 10 then [digit n] else show_nat (n div 10) @ [digit (n mod 10)])"

declare show_nat.simps [simp del]

definition show_int :: "int \<Rightarrow> string" where
  "show_int k = (if k < 0 then CHR ''-'' # show_nat (nat (- k)) else show_nat (nat k))"

definition dval :: "string \<Rightarrow> nat" where
  "dval s = foldl (\<lambda>a c. 10 * a + (of_char c - 48)) 0 s"

text \<open>\<open>strtoull(s, NULL, 10)\<close> and \<open>strtol(s, NULL, 10)\<close>, saturating as ISO C has it.\<close>

definition split_sign :: "string \<Rightarrow> bool \<times> string" where
  "split_sign s = (case dropWhile isspace s of
      [] \<Rightarrow> (False, [])
    | c # t \<Rightarrow> if c = CHR ''-'' then (True, t) else if c = CHR ''+'' then (False, t)
               else (False, c # t))"

definition strtoull :: "string \<Rightarrow> u64" where
  "strtoull s = (let (neg, t) = split_sign s; v = dval (takeWhile isdigit t) in
     if 2 ^ 64 \<le> v then - 1 else if neg then - of_nat v else of_nat v)"

definition strtol :: "string \<Rightarrow> int" where
  "strtol s = (let (neg, t) = split_sign s; v = int (dval (takeWhile isdigit t)) in
     max (- (2 ^ 63)) (min (2 ^ 63 - 1) (if neg then - v else v)))"

lemma digit_eval [simp]:
  "digit 0 = CHR ''0''" "digit 1 = CHR ''1''" "digit 2 = CHR ''2''" "digit 3 = CHR ''3''"
  "digit 4 = CHR ''4''" "digit 5 = CHR ''5''" "digit 6 = CHR ''6''" "digit 7 = CHR ''7''"
  "digit 8 = CHR ''8''" "digit 9 = CHR ''9''" "digit (Suc 0) = CHR ''1''"
  by code_simp+

lemma of_char_digit: "d < 10 \<Longrightarrow> (of_char (digit d) :: nat) = 48 + d"
  by (simp add: digit_def)

lemma isdigit_digit: "d < 10 \<Longrightarrow> isdigit (digit d)"
  by (simp add: isdigit_def of_char_digit)

lemma show_nat_nonempty [simp]: "show_nat n \<noteq> []"
  by (subst show_nat.simps) simp

lemma show_nat_digits: "c \<in> set (show_nat n) \<Longrightarrow> isdigit c"
proof (induction n rule: show_nat.induct)
  case (1 n)
  show ?case
  proof (cases "n < 10")
    case True
    with "1.prems" show ?thesis by (simp add: show_nat.simps [of n] isdigit_digit)
  next
    case False
    with "1.prems" "1.IH" show ?thesis
      by (auto simp: show_nat.simps [of n] isdigit_digit)
  qed
qed

lemma dval_snoc: "dval (s @ [c]) = 10 * dval s + (of_char c - 48)"
  by (simp add: dval_def)

lemma dval_show_nat [simp]: "dval (show_nat n) = n"
proof (induction n rule: show_nat.induct)
  case (1 n)
  show ?case
  proof (cases "n < 10")
    case True
    then show ?thesis by (simp add: show_nat.simps [of n] dval_def of_char_digit)
  next
    case False
    with "1.IH" show ?thesis
      by (simp add: show_nat.simps [of n] dval_snoc of_char_digit)
  qed
qed

lemma show_nat_inj [simp]: "show_nat m = show_nat n \<longleftrightarrow> m = n"
  by (metis dval_show_nat)

lemma takeWhile_show_nat:
  assumes "r = [] \<or> \<not> isdigit (hd r)"
  shows "takeWhile isdigit (show_nat n @ r) = show_nat n"
proof -
  have "takeWhile isdigit (show_nat n @ r) = show_nat n @ takeWhile isdigit r"
    by (intro takeWhile_append2) (auto dest: show_nat_digits)
  with assms show ?thesis by (cases r) auto
qed

lemma show_nat_hd_digit: "isdigit (hd (show_nat n))"
  using show_nat_digits [of "hd (show_nat n)" n] by simp

lemma digit_not_sign: "isdigit c \<Longrightarrow> \<not> isspace c \<and> c \<noteq> CHR ''-'' \<and> c \<noteq> CHR ''+''"
  by (auto simp: isdigit_def isspace_def)

lemma split_sign_show_nat [simp]: "split_sign (show_nat n @ r) = (False, show_nat n @ r)"
proof -
  obtain c t where s: "show_nat n = c # t" by (cases "show_nat n") auto
  with show_nat_hd_digit [of n] have "isdigit c" by simp
  with digit_not_sign [of c] s show ?thesis by (simp add: split_sign_def)
qed

lemma split_sign_minus [simp]: "split_sign (CHR ''-'' # t) = (True, t)"
  by (simp add: split_sign_def isspace_def)

lemma strtoull_show_nat:
  assumes "r = [] \<or> \<not> isdigit (hd r)" "n < 2 ^ 64"
  shows "strtoull (show_nat n @ r) = of_nat n"
  using assms by (simp add: strtoull_def takeWhile_show_nat)

lemma strtol_show_int:
  assumes r: "r = [] \<or> \<not> isdigit (hd r)" and k: "- (2 ^ 63) \<le> k" "k < 2 ^ 63"
  shows "strtol (show_int k @ r) = k"
  using k by (auto simp: strtol_def show_int_def takeWhile_show_nat [OF r])

lemma show_int_digits: "c \<in> set (show_int k) \<Longrightarrow> isdigit c \<or> c = CHR ''-''"
  by (auto simp: show_int_def dest: show_nat_digits split: if_splits)

lemma show_nat_length: "n < 10 ^ k \<Longrightarrow> 0 < k \<Longrightarrow> length (show_nat n) \<le> k"
proof (induction n arbitrary: k rule: show_nat.induct)
  case (1 n)
  show ?case
  proof (cases "n < 10")
    case True
    with "1.prems" show ?thesis by (simp add: show_nat.simps [of n])
  next
    case False
    with "1.prems" obtain j where k: "k = Suc j" "0 < j"
      by (cases k; cases "k - 1") auto
    from False "1.prems" k have "n div 10 < 10 ^ j"
      by (simp add: less_mult_imp_div_less mult.commute)
    with False "1.IH" [of j] k show ?thesis by (simp add: show_nat.simps [of n])
  qed
qed

definition hexdigit :: "nat \<Rightarrow> char" where
  "hexdigit d = (if d < 10 then char_of (48 + d) else char_of (87 + d))"

text \<open>\<open>%08x\<close> of a 32-bit value.\<close>

definition show_hex8 :: "u32 \<Rightarrow> string" where
  "show_hex8 w = map (\<lambda>i. hexdigit (unat ((drop_bit (4 * i) w) AND 15))) [7, 6, 5, 4, 3, 2, 1, 0]"

lemma length_show_hex8 [simp]: "length (show_hex8 w) = 8"
  by (simp add: show_hex8_def)

section \<open>Bounded text\<close>

text \<open>\<open>snprintf(buf, n, ...)\<close> leaves at most \<open>n - 1\<close> characters of the text in \<open>buf\<close>.\<close>

definition snprintf :: "nat \<Rightarrow> string \<Rightarrow> string" where
  "snprintf n s = take (n - 1) s"

lemma snprintf_fits [simp]: "length s < n \<Longrightarrow> snprintf n s = s"
  by (simp add: snprintf_def)

lemma length_snprintf: "0 < n \<Longrightarrow> length (snprintf n s) < n"
  by (simp add: snprintf_def)

text \<open>
  The idiom \<open>offset += snprintf(buf + offset, cap - offset, ...)\<close>. The offset counts
  the characters the text would need, so it passes \<open>cap\<close> when the text is cut. From
  then on \<open>cap - offset\<close> wraps around and the next call writes outside the buffer:
  \<open>None\<close>.
\<close>

record sbuf =
  sb_text :: string
  sb_off :: nat

definition sb_put :: "nat \<Rightarrow> string \<Rightarrow> sbuf option \<Rightarrow> sbuf option" where
  "sb_put cap s b = (case b of
      None \<Rightarrow> None
    | Some b \<Rightarrow> if cap < sb_off b then None
        else Some \<lparr>sb_text = (if sb_off b < cap then take (cap - 1) (sb_text b @ s) else sb_text b),
                   sb_off = sb_off b + length s\<rparr>)"

definition sb_puts :: "nat \<Rightarrow> string list \<Rightarrow> sbuf option" where
  "sb_puts cap ss = fold (sb_put cap) ss (Some \<lparr>sb_text = [], sb_off = 0\<rparr>)"

lemma sb_put_None [simp]: "sb_put cap s None = None"
  by (simp add: sb_put_def)

lemma sb_puts_snoc: "sb_puts cap (ss @ [s]) = sb_put cap s (sb_puts cap ss)"
  by (simp add: sb_puts_def)

text \<open>
  The writes stay inside the buffer exactly when the text before the last piece is not
  longer than the buffer; the buffer then holds the text, cut to \<open>cap - 1\<close> characters.
\<close>

lemma sb_puts_Nil [simp]: "sb_puts cap [] = Some \<lparr>sb_text = [], sb_off = 0\<rparr>"
  by (simp add: sb_puts_def)

lemma sb_puts_eq:
  assumes "0 < cap"
  shows "sb_puts cap ss =
    (if length (concat (butlast ss)) \<le> cap
     then Some \<lparr>sb_text = take (cap - 1) (concat ss), sb_off = length (concat ss)\<rparr>
     else None)"
proof (induction ss rule: rev_induct)
  case Nil
  then show ?case by simp
next
  case (snoc s ss)
  have mono: "length (concat (butlast ss)) \<le> length (concat ss)"
    by (cases ss rule: rev_cases) auto
  show ?case
  proof (cases "length (concat ss) \<le> cap")
    case True
    then have le: "length (concat (butlast ss)) \<le> cap" using mono by simp
    show ?thesis
    proof (cases "length (concat ss) < cap")
      case True
      then show ?thesis using snoc le by (simp add: sb_puts_snoc sb_put_def)
    next
      case False
      then have "length (concat ss) = cap" using \<open>length (concat ss) \<le> cap\<close> by simp
      then show ?thesis using snoc le by (simp add: sb_puts_snoc sb_put_def)
    qed
  next
    case False
    then show ?thesis using snoc by (simp add: sb_puts_snoc sb_put_def)
  qed
qed

lemma sb_puts_fits:
  assumes "length (concat ss) < cap"
  shows "sb_puts cap ss = Some \<lparr>sb_text = concat ss, sb_off = length (concat ss)\<rparr>"
proof -
  have "length (concat (butlast ss)) \<le> length (concat ss)"
    by (cases ss rule: rev_cases) auto
  with assms show ?thesis by (simp add: sb_puts_eq)
qed

text \<open>Pieces separated by commas, as the JSON lists are written.\<close>

fun commas :: "string list \<Rightarrow> string list" where
  "commas [] = []"
| "commas [x] = [x]"
| "commas (x # y # ys) = x # '','' # commas (y # ys)"

section \<open>Linear search\<close>

text \<open>
  The tables of the library are arrays with a count, searched from the front by a key.
  \<open>find_idx p xs\<close> is the index of the first match.
\<close>

fun find_idx :: "('a \<Rightarrow> bool) \<Rightarrow> 'a list \<Rightarrow> nat option" where
  "find_idx p [] = None"
| "find_idx p (x # xs) = (if p x then Some 0 else map_option Suc (find_idx p xs))"

lemma find_idx_None [model_lookup]: "find_idx p xs = None \<longleftrightarrow> (\<forall>x \<in> set xs. \<not> p x)"
  by (induction xs) auto

lemma find_idx_Some [model_lookup]:
  "find_idx p xs = Some i \<longleftrightarrow> i < length xs \<and> p (xs ! i) \<and> (\<forall>j < i. \<not> p (xs ! j))"
proof (induction xs arbitrary: i)
  case Nil
  then show ?case by simp
next
  case (Cons x xs)
  show ?case
  proof (cases i)
    case 0
    then show ?thesis by auto
  next
    case (Suc k)
    then show ?thesis using Cons [of k] by (auto simp: All_less_Suc2)
  qed
qed

lemma find_idx_lt: "find_idx p xs = Some i \<Longrightarrow> i < length xs"
  by (simp add: find_idx_Some)

lemma find_eq_find_idx: "List.find p xs = map_option ((!) xs) (find_idx p xs)"
  by (induction xs) (auto simp: option.map_comp o_def)

lemma find_idx_append:
  "find_idx p (xs @ ys) = (case find_idx p xs of Some i \<Rightarrow> Some i
     | None \<Rightarrow> map_option (\<lambda>j. length xs + j) (find_idx p ys))"
proof (cases "find_idx p ys")
  case None
  then show ?thesis by (induction xs) (auto split: option.split)
next
  case (Some j)
  then show ?thesis by (induction xs) (auto split: option.split)
qed

text \<open>Removing an element by moving the last one into its place.\<close>

definition swap_remove :: "nat \<Rightarrow> 'a list \<Rightarrow> 'a list" where
  "swap_remove i xs = butlast (xs[i := last xs])"

lemma swap_remove_props:
  assumes "i < length xs" "distinct xs"
  shows "length (swap_remove i xs) = length xs - 1" "distinct (swap_remove i xs)"
    "set (swap_remove i xs) = set xs - {xs ! i}"
proof -
  obtain ys y where xs: "xs = ys @ [y]" using assms(1) by (cases xs rule: rev_cases) auto
  have sr: "swap_remove i xs = (if i < length ys then ys[i := y] else ys)"
    using assms(1) by (auto simp: swap_remove_def xs list_update_append butlast_append)
  show "length (swap_remove i xs) = length xs - 1" unfolding sr by (simp add: xs)
  show "distinct (swap_remove i xs)" unfolding sr using assms(2) by (auto simp: xs intro: distinct_list_update)
  show "set (swap_remove i xs) = set xs - {xs ! i}"
  proof (cases "i < length ys")
    case True
    then have "set (ys[i := y]) = insert y (set ys - {ys ! i})"
      using assms(2) by (simp add: xs set_update_distinct)
    moreover have "y \<noteq> ys ! i" using True assms(2) by (auto simp: xs)
    ultimately show ?thesis unfolding sr using True by (auto simp: xs nth_append)
  next
    case False
    then show ?thesis unfolding sr using assms by (auto simp: xs nth_append)
  qed
qed


lemma swap_remove_slots:
  assumes "k < n" "n \<le> length xs"
  shows "take (n - 1) (if k < n - 1 then xs[k := xs ! (n - 1)] else xs) = swap_remove k (take n xs)"
proof (rule nth_equalityI)
  show "length (take (n - 1) (if k < n - 1 then xs[k := xs ! (n - 1)] else xs)) = length (swap_remove k (take n xs))"
    using assms by (simp add: swap_remove_def)
next
  fix j assume "j < length (take (n - 1) (if k < n - 1 then xs[k := xs ! (n - 1)] else xs))"
  then have j: "j < n - 1" "j < length xs" using assms by (auto split: if_splits)
  have "last (take n xs) = xs ! (n - 1)" using assms by (subst last_conv_nth) auto
  then show "take (n - 1) (if k < n - 1 then xs[k := xs ! (n - 1)] else xs) ! j = swap_remove k (take n xs) ! j"
    using assms j by (auto simp: swap_remove_def nth_butlast nth_list_update)
qed

section \<open>Tables keyed by name\<close>

text \<open>
  The contract of a table whose entries are added once and removed by name. Names are
  compared after \<open>norm\<close>, the cut to the size of the name field. \<open>mk k a\<close> is the entry
  stored for the name \<open>k\<close> and the arguments \<open>a\<close>.
\<close>

datatype ('k, 'a) table_op = Ins 'k 'a | Del 'k

locale name_table =
  fixes norm :: "'k \<Rightarrow> 'k"
    and lookup :: "'t \<Rightarrow> 'k \<Rightarrow> 'v option"
    and ins :: "'k \<Rightarrow> 'a \<Rightarrow> 't \<Rightarrow> 't option"
    and mk :: "'k \<Rightarrow> 'a \<Rightarrow> 'v"
    and del :: "'k \<Rightarrow> 't \<Rightarrow> 't option"
    and inv :: "'t \<Rightarrow> bool"
  assumes inv_ins: "inv t \<Longrightarrow> ins k a t = Some t' \<Longrightarrow> inv t'"
    and inv_del: "inv t \<Longrightarrow> del k t = Some t' \<Longrightarrow> inv t'"
    and lookup_norm: "inv t \<Longrightarrow> norm j = norm k \<Longrightarrow> lookup t j = lookup t k"
    and ins_fresh: "inv t \<Longrightarrow> ins k a t = Some t' \<Longrightarrow> lookup t k = None"
    and lookup_ins: "inv t \<Longrightarrow> ins k a t = Some t' \<Longrightarrow>
      lookup t' j = (if norm j = norm k then Some (mk k a) else lookup t j)"
    and lookup_del: "inv t \<Longrightarrow> del k t = Some t' \<Longrightarrow>
      lookup t' j = (if norm j = norm k then None else lookup t j)"
    and del_total: "inv t \<Longrightarrow> (\<exists>t'. del k t = Some t') \<longleftrightarrow> lookup t k \<noteq> None"
begin

lemma lookup_same: "inv t \<Longrightarrow> ins k a t = Some t' \<Longrightarrow> lookup t' k = Some (mk k a)"
  by (simp add: lookup_ins)

lemma ins_twice_fails:
  assumes "inv t" "ins k a t = Some t'" "norm j = norm k"
  shows "ins j b t' = None"
proof (rule ccontr)
  assume "ins j b t' \<noteq> None"
  then obtain t2 where "ins j b t' = Some t2" by auto
  then have "lookup t' j = None" using ins_fresh inv_ins assms by blast
  then show False using lookup_ins assms by simp
qed

lemma ins_then_del:
  assumes "inv t" "ins k a t = Some t'"
  shows "\<exists>t2. del k t' = Some t2 \<and> (\<forall>j. lookup t2 j = lookup t j)"
proof -
  have i: "inv t'" using assms inv_ins by blast
  then obtain t2 where d: "del k t' = Some t2"
    using del_total [of t' k] lookup_same [OF assms] by auto
  have "lookup t2 j = lookup t j" for j
    using lookup_del [OF i d, of j] lookup_ins [OF assms, of j] ins_fresh [OF assms]
      lookup_norm [OF assms(1), of j k] by auto
  with d show ?thesis by blast
qed

definition exec :: "('k, 'a) table_op \<Rightarrow> 't \<Rightarrow> 't" where
  "exec op t = (case op of
      Ins k a \<Rightarrow> (case ins k a t of None \<Rightarrow> t | Some t' \<Rightarrow> t')
    | Del k \<Rightarrow> (case del k t of None \<Rightarrow> t | Some t' \<Rightarrow> t'))"

lemma exec_inv: "inv t \<Longrightarrow> inv (exec op t)"
  by (cases op) (auto simp: exec_def intro: inv_ins inv_del split: option.split)

lemma run_inv: "inv t \<Longrightarrow> inv (fold exec ops t)"
  by (induction ops arbitrary: t) (auto simp: exec_inv)

lemma lookup_origin:
  assumes "inv t" "lookup (fold exec ops t) j = Some v"
  shows "lookup t j = Some v \<or> (\<exists>k a. Ins k a \<in> set ops \<and> norm k = norm j \<and> v = mk k a)"
  using assms
proof (induction ops arbitrary: t)
  case Nil
  then show ?case by simp
next
  case (Cons op ops)
  from Cons.IH [OF exec_inv [OF Cons.prems(1)], of op] Cons.prems(2)
  have *: "lookup (exec op t) j = Some v \<or> (\<exists>k a. Ins k a \<in> set ops \<and> norm k = norm j \<and> v = mk k a)"
    by simp
  have "lookup (exec op t) j = Some v \<Longrightarrow>
    lookup t j = Some v \<or> (\<exists>k a. op = Ins k a \<and> norm k = norm j \<and> v = mk k a)"
  proof (cases op)
    case (Ins k a)
    assume l: "lookup (exec op t) j = Some v"
    show ?thesis
    proof (cases "ins k a t")
      case None
      with l Ins show ?thesis by (simp add: exec_def)
    next
      case (Some t')
      with l Ins lookup_ins [OF Cons.prems(1) Some, of j] show ?thesis
        by (auto simp: exec_def split: if_splits)
    qed
  next
    case (Del k)
    assume l: "lookup (exec op t) j = Some v"
    show ?thesis
    proof (cases "del k t")
      case None
      with l Del show ?thesis by (simp add: exec_def)
    next
      case (Some t')
      with l Del lookup_del [OF Cons.prems(1) Some, of j] show ?thesis
        by (auto simp: exec_def split: if_splits)
    qed
  qed
  with * show ?case by auto
qed

end

end
