(* ===== verification/Unified_Message.thy ===== *)
theory Unified_Message
  imports Airy_Prelude
begin

text \<open>
  The unified message of \<open>include/unified_protocol.h\<close> and its operations in
  \<open>common/src/unified_protocol.c\<close> and \<open>common/src/unified_decode.c\<close>: creation,
  validation, the JSON wire form and its decoder, and the text helpers. The main results
  are that the wire form never overflows its buffer and what decoding it gives back: the
  message, with its payload up to the first quote.

  Protocol and direction are C enumerations held in 32 bits; sizes are \<open>nat\<close>. A payload
  is the C string its pointer addresses, so bytes behind an embedded NUL are not seen.
\<close>

section \<open>Protocol types\<close>

type_synonym protocol_type = u32
type_synonym ptr = nat

abbreviation AIRY_PROTOCOL_JSON_RPC :: protocol_type where "AIRY_PROTOCOL_JSON_RPC \<equiv> 0"
abbreviation AIRY_PROTOCOL_MCP :: protocol_type where "AIRY_PROTOCOL_MCP \<equiv> 1"
abbreviation AIRY_PROTOCOL_A2A :: protocol_type where "AIRY_PROTOCOL_A2A \<equiv> 2"
abbreviation AIRY_PROTOCOL_VENDOR_BASE :: protocol_type where "AIRY_PROTOCOL_VENDOR_BASE \<equiv> 3"
abbreviation AIRY_PROTOCOL_CUSTOM :: protocol_type where "AIRY_PROTOCOL_CUSTOM \<equiv> 63"
abbreviation AIRY_PROTOCOL_COUNT :: protocol_type where "AIRY_PROTOCOL_COUNT \<equiv> 64"

definition proto_is_llm :: "protocol_type \<Rightarrow> bool" where
  "proto_is_llm t \<longleftrightarrow> AIRY_PROTOCOL_VENDOR_BASE \<le> t \<and> t < AIRY_PROTOCOL_CUSTOM"

abbreviation DIRECTION_REQUEST :: u32 where "DIRECTION_REQUEST \<equiv> 0"
abbreviation DIRECTION_RESPONSE :: u32 where "DIRECTION_RESPONSE \<equiv> 1"
abbreviation DIRECTION_NOTIFICATION :: u32 where "DIRECTION_NOTIFICATION \<equiv> 2"
abbreviation DIRECTION_ERROR :: u32 where "DIRECTION_ERROR \<equiv> 3"

text \<open>Names are matched without regard to case; vendor names are left to the registry.\<close>

fun protocol_type_from_string :: "cstring option \<Rightarrow> protocol_type" where
  "protocol_type_from_string None = AIRY_PROTOCOL_CUSTOM"
| "protocol_type_from_string (Some s) =
    (if strcasecmp_eq s ''json-rpc'' \<or> strcasecmp_eq s ''http'' then AIRY_PROTOCOL_JSON_RPC
     else if strcasecmp_eq s ''mcp'' \<or> strcasecmp_eq s ''mcp_v1'' then AIRY_PROTOCOL_MCP
     else if strcasecmp_eq s ''a2a'' \<or> strcasecmp_eq s ''a2a_v03'' then AIRY_PROTOCOL_A2A
     else AIRY_PROTOCOL_CUSTOM)"

definition protocol_type_name :: "protocol_type \<Rightarrow> cstring" where
  "protocol_type_name t =
    (if t = AIRY_PROTOCOL_JSON_RPC then ''JSON-RPC''
     else if t = AIRY_PROTOCOL_MCP then ''MCP''
     else if t = AIRY_PROTOCOL_A2A then ''A2A''
     else ''Unknown'')"

section \<open>The message\<close>

record unified_message =
  um_protocol :: protocol_type
  um_protocol_type :: protocol_type
  um_protocol_name :: cstring
  um_endpoint :: cstring
  um_method :: cstring
  um_direction :: u32
  um_message_id :: u64
  um_payload :: "cstring option"
  um_payload_size :: nat
  um_timestamp :: u64
  um_is_error :: bool
  um_error_code :: int
  um_status :: int
  um_error_msg :: cstring
  um_body :: "cstring option"
  um_body_length :: nat
  um_payload_length :: nat
  um_correlation_id :: cstring
  um_sender_id :: cstring
  um_source_agent :: cstring
  um_target_agent :: cstring
  um_trace_id :: cstring
  um_session_id :: cstring

text \<open>\<open>AIRY_MEMSET(message, 0, sizeof(unified_message_t))\<close>.\<close>

definition zero_message :: unified_message where
  "zero_message = \<lparr>um_protocol = 0, um_protocol_type = 0, um_protocol_name = [],
     um_endpoint = [], um_method = [], um_direction = 0, um_message_id = 0,
     um_payload = None, um_payload_size = 0, um_timestamp = 0, um_is_error = False,
     um_error_code = 0, um_status = 0, um_error_msg = [], um_body = None,
     um_body_length = 0, um_payload_length = 0, um_correlation_id = [],
     um_sender_id = [], um_source_agent = [], um_target_agent = [],
     um_trace_id = [], um_session_id = []\<rparr>"

text \<open>The text fields are arrays of the sizes the header gives, NUL included.\<close>

definition message_wf :: "unified_message \<Rightarrow> bool" where
  "message_wf m \<longleftrightarrow> length (um_protocol_name m) < 64 \<and> length (um_endpoint m) < 256 \<and>
     length (um_method m) < 64 \<and> length (um_error_msg m) < 256 \<and>
     length (um_correlation_id m) < 64 \<and> length (um_sender_id m) < 64 \<and>
     length (um_source_agent m) < 128 \<and> length (um_target_agent m) < 128 \<and>
     length (um_trace_id m) < 64 \<and> length (um_session_id m) < 64"

text \<open>
  Creation takes the static counter \<open>next_message_id\<close> and returns it advanced. The
  payload pointer is shared, not copied.
\<close>

definition unified_message_create ::
  "env \<Rightarrow> u64 \<Rightarrow> protocol_type \<Rightarrow> u32 \<Rightarrow> cstring option \<Rightarrow> cstring option \<Rightarrow> nat \<Rightarrow>
   unified_message \<times> u64" where
  "unified_message_create E next_message_id protocol direction endpoint payload payload_size =
    (zero_message\<lparr>um_message_id := next_message_id, um_protocol := protocol,
       um_direction := direction,
       um_endpoint := (case endpoint of None \<Rightarrow> [] | Some s \<Rightarrow> strncpy_term E 256 s),
       um_payload := payload, um_payload_size := payload_size,
       um_timestamp := time_ns E 0\<rparr>, next_message_id + 1)"

definition unified_message_destroy :: "unified_message \<Rightarrow> unified_message" where
  "unified_message_destroy m = zero_message"

definition validate_message :: "env \<Rightarrow> unified_message option \<Rightarrow> int" where
  "validate_message E message = (case message of
      None \<Rightarrow> err E AIRY_ERR_UNKNOWN
    | Some m \<Rightarrow>
        if um_protocol m < AIRY_PROTOCOL_JSON_RPC \<or> um_protocol m \<ge> AIRY_PROTOCOL_COUNT
        then err E AIRY_ERR_UNKNOWN
        else if um_direction m < DIRECTION_REQUEST \<or> um_direction m > DIRECTION_NOTIFICATION
        then err E AIRY_ERR_UNKNOWN
        else if um_endpoint m \<noteq> [] \<and> length (um_endpoint m) > 1024
        then err E AIRY_ERR_UNKNOWN
        else 0)"

lemma zero_message_wf: "message_wf zero_message"
  by (simp add: message_wf_def zero_message_def)

lemma unified_message_create_wf:
  "strncpy_ok E \<Longrightarrow> message_wf (fst (unified_message_create E n p d ep pl sz))"
  by (auto simp: unified_message_create_def message_wf_def zero_message_def min_def split: option.split)

text \<open>
  A message that respects its field sizes is accepted exactly when its protocol is in
  range and its direction is not the error direction; the endpoint test never fires.
\<close>

lemma validate_message_iff:
  assumes "codes_ok E" "message_wf m"
  shows "validate_message E (Some m) = 0 \<longleftrightarrow>
    um_protocol m < AIRY_PROTOCOL_COUNT \<and> um_direction m \<le> DIRECTION_NOTIFICATION"
  using assms by (auto simp: validate_message_def message_wf_def not_less not_le)

section \<open>The JSON wire form\<close>

text \<open>
  \<open>%.*s\<close> with the precision \<open>(int)n\<close>: what is printed ends before the first NUL and has
  at most so many characters. A negative precision is taken as none, so a size of two
  gigabytes or more prints the whole string.
\<close>

definition prec_str :: "nat \<Rightarrow> string \<Rightarrow> string" where
  "prec_str n s = (let p = sint (of_nat n :: u32) in
     takeWhile (\<lambda>c. c \<noteq> CHR 0x00) (if p < 0 then s else take (nat p) s))"

abbreviation dq :: char where "dq \<equiv> CHR 0x22"

abbreviation json_protocol_key :: string where "json_protocol_key \<equiv> ''\"protocol\":''"
abbreviation json_direction_key :: string where "json_direction_key \<equiv> ''\"direction\":''"
abbreviation json_timestamp_key :: string where "json_timestamp_key \<equiv> ''\"timestamp\":''"
abbreviation json_payload_key :: string where "json_payload_key \<equiv> ''\"payload\":\"''"

definition umsg_text :: "unified_message \<Rightarrow> string" where
  "umsg_text m = ''{\"protocol\":'' @ show_int (sint (um_protocol m)) @
     '',\"direction\":'' @ show_int (sint (um_direction m)) @
     '',\"timestamp\":'' @ show_nat (unat (um_timestamp m)) @
     '',\"payload\":\"'' @
     prec_str (um_payload_size m) (case um_payload m of None \<Rightarrow> '''' | Some p \<Rightarrow> p) @ ''\"}''"

definition umsg_to_json :: "env \<Rightarrow> unified_message \<Rightarrow> int \<times> (string \<times> nat) option" where
  "umsg_to_json E umsg =
    (let buf_size = (256 + um_payload_size umsg) mod 2 ^ 64; text = umsg_text umsg in
     if \<not> mem E 0 then (err E AIRY_ERR_OUT_OF_MEMORY, None)
     else if 2 ^ 31 \<le> length text \<or> buf_size \<le> length text then (err E AIRY_ERR_IO, None)
     else (0, Some (text, length text)))"

definition unified_decode ::
  "env \<Rightarrow> string option \<Rightarrow> nat \<Rightarrow> unified_message option \<Rightarrow> protocol_type \<Rightarrow>
   int \<times> unified_message option" where
  "unified_decode E data sz message default_protocol =
    (case (data, message) of
      (Some d, Some m) \<Rightarrow>
        if sz = 0 then (err E AIRY_ERR_INVALID_PARAM, message)
        else if \<not> mem E 0 then (err E AIRY_ERR_OUT_OF_MEMORY, message)
        else
          (let copy = takeWhile (\<lambda>c. c \<noteq> CHR 0x00) (take sz d);
               proto = (case strstr copy json_protocol_key of
                  None \<Rightarrow> default_protocol
                | Some p \<Rightarrow> word_of_int (strtol (drop 11 p)));
               dir = (case strstr copy json_direction_key of
                  None \<Rightarrow> DIRECTION_RESPONSE
                | Some p \<Rightarrow> word_of_int (strtol (drop 12 p)));
               ts = (case strstr copy json_timestamp_key of
                  None \<Rightarrow> time_s E 0
                | Some p \<Rightarrow> strtoull (drop 12 p));
               m1 = m\<lparr>um_protocol := proto, um_direction := dir, um_timestamp := ts\<rparr>
           in case strstr copy json_payload_key of
                Some p0 \<Rightarrow>
                  (let p = drop 11 p0;
                       plen = (case strchr dq p of None \<Rightarrow> length p
                                | Some e \<Rightarrow> length p - length e)
                   in if mem E 1
                      then (0, Some (m1\<lparr>um_payload := Some (take plen p), um_payload_size := plen\<rparr>))
                      else (0, Some (m1\<lparr>um_payload := None\<rparr>)))
              | None \<Rightarrow>
                  (0, Some (m1\<lparr>um_payload := (if mem E 1 then Some '''' else None),
                               um_payload_size := 0\<rparr>)))
    | _ \<Rightarrow> (err E AIRY_ERR_INVALID_PARAM, message))"

subsection \<open>The buffer is large enough\<close>

lemma prec_str_take:
  assumes "n < 2 ^ 31"
  shows "prec_str n s = takeWhile (\<lambda>c. c \<noteq> CHR 0x00) (take n s)"
proof -
  have "signed_take_bit 31 (int n) = int n"
    by (rule signed_take_bit_int_eq_self) (use assms in auto)
  then have "sint (of_nat n :: u32) = int n" by (simp add: signed_of_nat)
  then show ?thesis by (simp add: prec_str_def)
qed

lemma prec_str_length: "n < 2 ^ 31 \<Longrightarrow> length (prec_str n s) \<le> n"
  using length_takeWhile_le [of "\<lambda>c. c \<noteq> CHR 0x00" "take n s"] by (simp add: prec_str_take)

lemma show_sint_length: "length (show_int (sint (w :: u32))) \<le> 11"
proof -
  have "sint w < 2 ^ 31" "- (2 ^ 31) \<le> sint w"
    using sint_range_size [of w] by (simp_all add: word_size)
  then have "nat (sint w) < 10 ^ 10" "nat (- sint w) < 10 ^ 10" by auto
  then have "length (show_nat (nat (sint w))) \<le> 10" "length (show_nat (nat (- sint w))) \<le> 10"
    by (auto intro!: show_nat_length)
  then show ?thesis by (simp add: show_int_def)
qed

lemma show_unat_length: "length (show_nat (unat (w :: u64))) \<le> 20"
proof -
  have "unat w < 2 ^ 64" using unsigned_less [of w] by simp
  then have "unat w < 10 ^ 20" by simp
  then show ?thesis by (intro show_nat_length) auto
qed

lemma umsg_text_length: "um_payload_size m < 2 ^ 31 \<Longrightarrow> length (umsg_text m) \<le> 94 + um_payload_size m"
proof -
  assume "um_payload_size m < 2 ^ 31"
  then have "length (prec_str (um_payload_size m) (case um_payload m of None \<Rightarrow> '''' | Some p \<Rightarrow> p))
    \<le> um_payload_size m"
    by (rule prec_str_length)
  with show_sint_length [of "um_protocol m"] show_sint_length [of "um_direction m"]
    show_unat_length [of "um_timestamp m"]
  show ?thesis by (simp add: umsg_text_def)
qed

subsection \<open>Reading the fields back\<close>

lemma strstr_skip:
  assumes "n \<noteq> []" "hd n \<notin> set u"
  shows "strstr (u @ s) n = strstr s n"
  using assms(2)
proof (induction u)
  case Nil
  then show ?case by simp
next
  case (Cons x u)
  have "take (length n) (x # u @ s) \<noteq> n"
  proof
    assume eq: "take (length n) (x # u @ s) = n"
    then have "hd n = x" using assms(1) by (cases n) auto
    with Cons.prems show False by simp
  qed
  with Cons show ?case by auto
qed

lemma dq_not_in_show [simp]: "dq \<notin> set (show_int k)" "dq \<notin> set (show_nat n)"
  by (auto dest!: show_int_digits show_nat_digits simp: isdigit_def)

lemma nul_not_in_show [simp]:
  "CHR 0x00 \<notin> set (show_int k)" "CHR 0x00 \<notin> set (show_nat n)"
  by (auto dest!: show_int_digits show_nat_digits simp: isdigit_def)

lemma strstr_show_int [simp]: "n \<noteq> [] \<Longrightarrow> hd n = dq \<Longrightarrow> strstr (show_int k @ s) n = strstr s n"
  by (rule strstr_skip) auto

lemma strstr_show_nat [simp]: "n \<noteq> [] \<Longrightarrow> hd n = dq \<Longrightarrow> strstr (show_nat k @ s) n = strstr s n"
  by (rule strstr_skip) auto

lemma umsg_text_fields:
  "\<exists>r. strstr (umsg_text m) json_protocol_key =
     Some (json_protocol_key @ show_int (sint (um_protocol m)) @ CHR '','' # r)"
  "\<exists>r. strstr (umsg_text m) json_direction_key =
     Some (json_direction_key @ show_int (sint (um_direction m)) @ CHR '','' # r)"
  "\<exists>r. strstr (umsg_text m) json_timestamp_key =
     Some (json_timestamp_key @ show_nat (unat (um_timestamp m)) @ CHR '','' # r)"
  "strstr (umsg_text m) json_payload_key =
     Some (json_payload_key @
       prec_str (um_payload_size m) (case um_payload m of None \<Rightarrow> '''' | Some p \<Rightarrow> p) @ ''\"}'')"
  by (simp_all add: umsg_text_def)

lemma comma_not_digit [simp]: "\<not> isdigit (CHR '','')"
  by (simp add: isdigit_def)

lemma strtol_sint [simp]: "strtol (show_int (sint (w :: u32)) @ CHR '','' # r) = sint w"
proof -
  have "sint w < 2 ^ 31" "- (2 ^ 31) \<le> sint w"
    using sint_range_size [of w] by (simp_all add: word_size)
  then show ?thesis by (intro strtol_show_int) auto
qed

lemma strtoull_unat [simp]: "strtoull (show_nat (unat (w :: u64)) @ CHR '','' # r) = w"
proof -
  have "unat w < 2 ^ 64" using unsigned_less [of w] by simp
  then show ?thesis by (simp add: strtoull_show_nat)
qed

text \<open>What the decoder takes for the payload: it stops at the first quote or NUL.\<close>

definition payload_read :: "unified_message \<Rightarrow> string" where
  "payload_read m = takeWhile (\<lambda>c. c \<noteq> dq) (takeWhile (\<lambda>c. c \<noteq> CHR 0x00)
     (take (um_payload_size m) (case um_payload m of None \<Rightarrow> '''' | Some p \<Rightarrow> p)))"

lemma umsg_text_no_nul: "CHR 0x00 \<notin> set (umsg_text m)"
  by (auto simp: umsg_text_def prec_str_def Let_def dest: set_takeWhileD)

lemma takeWhile_neq: "c \<notin> set s \<Longrightarrow> takeWhile (\<lambda>x. x \<noteq> c) s = s"
  by (auto simp only: takeWhile_eq_all_conv)

lemma strchr_length:
  "(case strchr c s of None \<Rightarrow> length s | Some e \<Rightarrow> length s - length e) = length (takeWhile (\<lambda>x. x \<noteq> c) s)"
proof (cases "strchr c s")
  case None
  then have "c \<notin> set s" by (simp add: strchr_None_iff)
  with None show ?thesis by (simp add: takeWhile_neq)
next
  case (Some e)
  then obtain u v where "s = u @ c # v" "c \<notin> set u" "e = c # v" by (auto simp: strchr_Some_iff)
  moreover from this(2) have "takeWhile (\<lambda>x. x \<noteq> c) (u @ c # v) = u" by (auto simp: takeWhile_tail)
  ultimately show ?thesis using Some by simp
qed

lemma quoted_read:
  "take (length (takeWhile (\<lambda>x. x \<noteq> c) (t @ c # r))) (t @ c # r) = takeWhile (\<lambda>x. x \<noteq> c) t"
  by (induction t) auto

lemma umsg_decode_encode:
  assumes "mem_ok E" "um_payload_size m + 94 < 2 ^ 31"
  shows "\<exists>data n m'. umsg_to_json E m = (0, Some (data, n)) \<and>
    unified_decode E (Some data) n (Some m0) dflt = (0, Some m') \<and>
    um_protocol m' = um_protocol m \<and> um_direction m' = um_direction m \<and>
    um_timestamp m' = um_timestamp m \<and> um_payload m' = Some (payload_read m) \<and>
    um_payload_size m' = length (payload_read m)"
proof -
  let ?t = "umsg_text m"
  let ?p = "prec_str (um_payload_size m) (case um_payload m of None \<Rightarrow> '''' | Some p \<Rightarrow> p)"
  have enc: "umsg_to_json E m = (0, Some (?t, length ?t))"
    using assms umsg_text_length [of m] by (simp add: umsg_to_json_def)
  have copy: "takeWhile (\<lambda>c. c \<noteq> CHR 0x00) ?t = ?t"
    using umsg_text_no_nul [of m] by (simp add: takeWhile_eq_all_conv) metis
  obtain r1 r2 r3 where r:
    "strstr ?t json_protocol_key = Some (json_protocol_key @ show_int (sint (um_protocol m)) @ CHR '','' # r1)"
    "strstr ?t json_direction_key = Some (json_direction_key @ show_int (sint (um_direction m)) @ CHR '','' # r2)"
    "strstr ?t json_timestamp_key = Some (json_timestamp_key @ show_nat (unat (um_timestamp m)) @ CHR '','' # r3)"
    using umsg_text_fields(1-3) [of m] by blast
  have pl: "strstr ?t json_payload_key = Some (json_payload_key @ ?p @ dq # ''}'')"
    using umsg_text_fields(4) [of m] by simp
  have rd: "takeWhile (\<lambda>c. c \<noteq> dq) ?p = payload_read m"
    using assms(2) by (simp add: payload_read_def prec_str_take)
  have len: "length (takeWhile (\<lambda>c. c \<noteq> dq) (?p @ dq # ''}'')) = length (payload_read m)"
    using rd by (simp add: takeWhile_tail)
  have ne: "?t \<noteq> []" by (simp add: umsg_text_def)
  show ?thesis
    using assms(1) ne quoted_read [of dq ?p "''}''", unfolded rd len]
    by (simp add: enc unified_decode_def copy r pl Let_def strchr_length len del: takeWhile_append)
qed

subsection \<open>The codec contract\<close>

text \<open>
  What a wire format promises its users: every admissible message is encoded, and
  decoding gives an admissible message with the same visible content.
\<close>

locale wire_codec =
  fixes enc :: "'m \<Rightarrow> 'd option"
    and dec :: "'d \<Rightarrow> 'm option"
    and adm :: "'m \<Rightarrow> bool"
    and view :: "'m \<Rightarrow> 'v"
  assumes enc_total: "adm m \<Longrightarrow> \<exists>d. enc m = Some d"
    and dec_enc: "adm m \<Longrightarrow> enc m = Some d \<Longrightarrow> \<exists>m'. dec d = Some m' \<and> adm m' \<and> view m' = view m"
begin

definition hop :: "'m \<Rightarrow> 'm option" where
  "hop m = Option.bind (enc m) dec"

fun relay :: "nat \<Rightarrow> 'm \<Rightarrow> 'm option" where
  "relay 0 m = Some m"
| "relay (Suc k) m = Option.bind (hop m) (relay k)"

lemma hop_ok: "adm m \<Longrightarrow> \<exists>m'. hop m = Some m' \<and> adm m' \<and> view m' = view m"
  using enc_total dec_enc by (fastforce simp: hop_def)

lemma enc_inj: "adm m \<Longrightarrow> adm n \<Longrightarrow> enc m = enc n \<Longrightarrow> view m = view n"
proof -
  assume m: "adm m" and n: "adm n" and eq: "enc m = enc n"
  obtain d where d: "enc m = Some d" using enc_total [OF m] by blast
  from dec_enc [OF m d] dec_enc [OF n, of d] eq d show ?thesis by auto
qed

lemma relay_ok: "adm m \<Longrightarrow> \<exists>m'. relay k m = Some m' \<and> adm m' \<and> view m' = view m"
proof (induction k arbitrary: m)
  case 0
  then show ?case by simp
next
  case (Suc k)
  from hop_ok [OF Suc.prems] obtain m1 where "hop m = Some m1" "adm m1" "view m1 = view m" by blast
  with Suc.IH [of m1] show ?case by auto
qed

end

definition umsg_adm :: "env \<Rightarrow> unified_message \<Rightarrow> bool" where
  "umsg_adm E m \<longleftrightarrow> mem_ok E \<and> um_payload_size m + 94 < 2 ^ 31 \<and>
     um_payload m = Some (payload_read m) \<and> um_payload_size m = length (payload_read m)"

definition umsg_view :: "unified_message \<Rightarrow> protocol_type \<times> u32 \<times> u64 \<times> cstring option" where
  "umsg_view m = (um_protocol m, um_direction m, um_timestamp m, um_payload m)"

definition umsg_enc :: "env \<Rightarrow> unified_message \<Rightarrow> (string \<times> nat) option" where
  "umsg_enc E m = (case umsg_to_json E m of (rc, d) \<Rightarrow> if rc = 0 then d else None)"

definition umsg_dec :: "env \<Rightarrow> unified_message \<Rightarrow> protocol_type \<Rightarrow> string \<times> nat \<Rightarrow> unified_message option" where
  "umsg_dec E m0 dflt d = (case unified_decode E (Some (fst d)) (snd d) (Some m0) dflt of
     (rc, m) \<Rightarrow> if rc = 0 then m else None)"

lemma payload_read_length: "length (payload_read m) \<le> um_payload_size m"
proof -
  let ?s = "take (um_payload_size m) (case um_payload m of None \<Rightarrow> '''' | Some p \<Rightarrow> p)"
  have "length (payload_read m) \<le> length (takeWhile (\<lambda>c. c \<noteq> CHR 0x00) ?s)"
    unfolding payload_read_def by (rule length_takeWhile_le)
  also have "\<dots> \<le> length ?s" by (rule length_takeWhile_le)
  also have "\<dots> \<le> um_payload_size m" by simp
  finally show ?thesis .
qed

lemma payload_read_set: "dq \<notin> set (payload_read m)" "CHR 0x00 \<notin> set (payload_read m)"
  by (auto simp: payload_read_def dest!: set_takeWhileD)

lemma payload_read_adm:
  assumes "mem_ok E" "um_payload_size m + 94 < 2 ^ 31"
    "um_payload m' = Some (payload_read m)" "um_payload_size m' = length (payload_read m)"
  shows "umsg_adm E m'"
proof -
  have "payload_read m' = payload_read m"
    using assms(3,4) by (simp add: payload_read_def [of m'] payload_read_set takeWhile_neq)
  with assms payload_read_length [of m] show ?thesis by (simp add: umsg_adm_def)
qed

lemma payload_survives:
  "Some (payload_read m) = um_payload m \<and> length (payload_read m) = um_payload_size m \<longleftrightarrow>
    (\<exists>p. um_payload m = Some p \<and> length p = um_payload_size m \<and> dq \<notin> set p \<and> CHR 0x00 \<notin> set p)"
  (is "?l \<longleftrightarrow> ?r")
proof
  assume ?l
  then show ?r using payload_read_set [of m] by metis
next
  assume ?r
  then show ?l by (auto simp: payload_read_def takeWhile_neq)
qed

interpretation umsg: wire_codec "umsg_enc E" "umsg_dec E m0 dflt" "umsg_adm E" umsg_view
  for E m0 dflt
proof
  fix m d assume adm: "umsg_adm E m"
  then have m: "mem_ok E" "um_payload_size m + 94 < 2 ^ 31" "um_payload m = Some (payload_read m)"
      "um_payload_size m = length (payload_read m)"
    by (auto simp: umsg_adm_def)
  obtain data n m' where rt: "umsg_to_json E m = (0, Some (data, n))"
    "unified_decode E (Some data) n (Some m0) dflt = (0, Some m')" "umsg_view m' = umsg_view m"
    "um_payload m' = Some (payload_read m)" "um_payload_size m' = length (payload_read m)"
    using umsg_decode_encode [OF m(1,2), of m0 dflt] m(3) by (auto simp: umsg_view_def)
  show "\<exists>d. umsg_enc E m = Some d" by (simp add: umsg_enc_def rt)
  assume "umsg_enc E m = Some d"
  then have "d = (data, n)" by (simp add: umsg_enc_def rt)
  then have "umsg_dec E m0 dflt d = Some m'" by (simp add: umsg_dec_def rt)
  moreover have "umsg_adm E m'" by (rule payload_read_adm [OF m(1,2) rt(4,5)])
  ultimately show "\<exists>m'. umsg_dec E m0 dflt d = Some m' \<and> umsg_adm E m' \<and> umsg_view m' = umsg_view m"
    using rt(3) by blast
qed

text \<open>
  C1: every message whose payload size is below two gigabytes (less the envelope) has a JSON
  text, given memory, and decoding it gives back the protocol, the direction, the timestamp and
  the payload up to its first quote or NUL, with that length as its size: the encoder does not
  escape. The payload survives exactly when it is present, has the length of its size field and
  holds neither character. What was decoded once is not changed by any number of further relays
  that encode and decode it.
\<close>

theorem umsg_json_roundtrip:
  assumes "mem_ok E" "um_payload_size m + 94 < 2 ^ 31"
  shows "\<exists>data n m'. umsg_to_json E m = (0, Some (data, n)) \<and>
    unified_decode E (Some data) n (Some m0) dflt = (0, Some m') \<and>
    umsg_view m' = (um_protocol m, um_direction m, um_timestamp m, Some (payload_read m)) \<and>
    um_payload_size m' = length (payload_read m) \<and>
    (um_payload m' = um_payload m \<and> um_payload_size m' = um_payload_size m \<longleftrightarrow>
      (\<exists>p. um_payload m = Some p \<and> length p = um_payload_size m \<and> dq \<notin> set p \<and> CHR 0x00 \<notin> set p)) \<and>
    (\<exists>mk. umsg.relay E m0 dflt k m' = Some mk \<and> umsg_view mk = umsg_view m')"
proof -
  obtain data n m' where rt: "umsg_to_json E m = (0, Some (data, n))"
    "unified_decode E (Some data) n (Some m0) dflt = (0, Some m')"
    "umsg_view m' = (um_protocol m, um_direction m, um_timestamp m, Some (payload_read m))"
    "um_payload m' = Some (payload_read m)" "um_payload_size m' = length (payload_read m)"
    using umsg_decode_encode [OF assms, of m0 dflt] by (auto simp: umsg_view_def)
  have "\<exists>mk. umsg.relay E m0 dflt k m' = Some mk \<and> umsg_view mk = umsg_view m'"
    using umsg.relay_ok [OF payload_read_adm [OF assms rt(4,5)], of m0 dflt k] by blast
  then show ?thesis using rt payload_survives [of m] by auto
qed

theorem umsg_json_roundtrip_witness:
  "\<exists>data n m'. umsg_to_json env0 (zero_message\<lparr>um_protocol := 1, um_payload := Some ''hi'',
      um_payload_size := 2\<rparr>) = (0, Some (data, n)) \<and>
    unified_decode env0 (Some data) n (Some zero_message) 0 = (0, Some m') \<and>
    um_protocol m' = 1 \<and> um_payload m' = Some ''hi''"
  using umsg_json_roundtrip [OF env0_ok(3), of "zero_message\<lparr>um_protocol := 1, um_payload := Some ''hi'',
    um_payload_size := 2\<rparr>" zero_message 0 3]
  by (auto simp: umsg_view_def payload_read_def)

text \<open>A JSON object as payload is cut to its opening brace.\<close>

lemma object_payload_cut:
  "payload_read (zero_message\<lparr>um_payload := Some ''{\"a\":1}'', um_payload_size := 7\<rparr>) = ''{''"
  by (simp add: payload_read_def)

text \<open>
  Encoding never fails for lack of buffer space: with memory available and a payload
  size below two gigabytes less the envelope, the 256 spare bytes always hold the
  envelope, whatever the payload holds.
\<close>

theorem umsg_to_json_fits:
  assumes "mem E 0" "um_payload_size m + 94 < 2 ^ 31"
  shows "umsg_to_json E m = (0, Some (umsg_text m, length (umsg_text m)))"
  using assms umsg_text_length [of m] by (simp add: umsg_to_json_def)

theorem umsg_to_json_fits_witness:
  "umsg_to_json env0 zero_message = (0, Some (umsg_text zero_message, length (umsg_text zero_message)))"
  using umsg_to_json_fits [of env0 zero_message] by (simp add: zero_message_def)

section \<open>Text helpers\<close>

definition isalnum :: "char \<Rightarrow> bool" where
  "isalnum c \<longleftrightarrow> (let n = (of_char c :: nat) in
     (48 \<le> n \<and> n \<le> 57) \<or> (65 \<le> n \<and> n \<le> 90) \<or> (97 \<le> n \<and> n \<le> 122))"

definition word_char :: "char \<Rightarrow> bool" where
  "word_char c \<longleftrightarrow> isalnum c \<or> 128 \<le> (of_char c :: nat)"

fun uword_loop :: "nat \<Rightarrow> bool \<Rightarrow> string \<Rightarrow> nat" where
  "uword_loop words in_word [] = words"
| "uword_loop words in_word (c # text) =
    (if word_char c then uword_loop (if in_word then words else words + 1) True text
     else uword_loop words False text)"

fun uword_count :: "cstring option \<Rightarrow> nat" where
  "uword_count None = 0"
| "uword_count (Some text) = (if text = [] then 0 else
     (let words = uword_loop 0 False text in if words > 0 then words else 1))"

text \<open>The reference: word starts are the word characters not preceded by one.\<close>

definition word_starts :: "string \<Rightarrow> nat" where
  "word_starts s = card {i. i < length s \<and> word_char (s ! i) \<and> (i = 0 \<or> \<not> word_char (s ! (i - 1)))}"

definition word_starts_after :: "bool \<Rightarrow> string \<Rightarrow> nat set" where
  "word_starts_after b s = {i. i < length s \<and> word_char (s ! i) \<and>
     (if i = 0 then \<not> b else \<not> word_char (s ! (i - 1)))}"

lemma word_starts_after_finite [simp]: "finite (word_starts_after b s)"
  by (simp add: word_starts_after_def)

lemma word_starts_after_Cons:
  "word_starts_after b (c # s) =
    (if word_char c \<and> \<not> b then {0} else {}) \<union> Suc ` word_starts_after (word_char c) s"
proof (rule set_eqI)
  fix i
  show "i \<in> word_starts_after b (c # s) \<longleftrightarrow>
    i \<in> (if word_char c \<and> \<not> b then {0} else {}) \<union> Suc ` word_starts_after (word_char c) s"
  proof (cases i)
    case 0
    then show ?thesis by (auto simp: word_starts_after_def)
  next
    case (Suc k)
    then show ?thesis by (cases k) (auto simp: word_starts_after_def)
  qed
qed

lemma uword_loop_card: "uword_loop w b s = w + card (word_starts_after b s)"
proof (induction s arbitrary: w b)
  case Nil
  then show ?case by (simp add: word_starts_after_def)
next
  case (Cons c s)
  have "card (insert 0 (Suc ` word_starts_after True s)) = Suc (card (word_starts_after True s))"
    by (subst card_insert_disjoint) (auto simp: card_image)
  then show ?case using Cons by (auto simp: word_starts_after_Cons card_image)
qed

text \<open>
  \<open>uword_count\<close> is the number of maximal runs of word characters (letters, digits and
  bytes of multi-byte sequences), and one for a text that has none but is not empty.
\<close>

theorem uword_count_runs:
  "uword_count (Some s) = (if s = [] then 0 else max 1 (word_starts s))"
proof -
  have "word_starts s = card (word_starts_after False s)"
    by (auto simp: word_starts_def word_starts_after_def intro: arg_cong [where f = card])
  then show ?thesis by (auto simp: uword_loop_card max_def)
qed

text \<open>
  One round trip through an LLM callback. The callback gives a code and a response
  string; the response is copied into the caller's buffer of \<open>buf_len\<close> bytes. The
  first component of the result is the code, the second the buffer's content if it was
  written.
\<close>

definition ullm_round ::
  "env \<Rightarrow> (cstring \<Rightarrow> cstring \<Rightarrow> int \<times> cstring option) option \<Rightarrow> cstring \<Rightarrow> cstring \<Rightarrow>
   cstring option \<Rightarrow> nat \<Rightarrow> int \<times> cstring option" where
  "ullm_round E cb model prompt out_buf buf_len =
    (if out_buf = None \<or> buf_len = 0 then (err E AIRY_ERR_NULL_POINTER, out_buf)
     else case cb of
        None \<Rightarrow> (err E AIRY_ERR_OUT_OF_MEMORY, Some '''')
      | Some f \<Rightarrow> (case f prompt model of
            (rc, Some resp) \<Rightarrow>
              if rc = 0
              then (let n = (if buf_len \<le> length resp then buf_len - 1 else length resp)
                    in (0, Some (take n resp)))
              else (err E AIRY_ERR_NULL_POINTER, out_buf)
          | (rc, None) \<Rightarrow> (err E AIRY_ERR_NULL_POINTER, out_buf)))"

text \<open>
  A successful round leaves in the buffer the longest prefix of the response that
  fits with its terminating NUL.
\<close>

theorem ullm_round_ok:
  assumes "codes_ok E" "ullm_round E (Some f) model prompt (Some old) n = (0, b)"
  shows "\<exists>resp. f prompt model = (0, Some resp) \<and> b = Some (take (n - 1) resp) \<and> 0 < n"
proof -
  from assms have n: "0 < n" by (auto simp: ullm_round_def split: if_splits)
  with assms obtain resp where f: "f prompt model = (0, Some resp)"
    by (auto simp: ullm_round_def split: prod.splits option.splits if_splits)
  with assms n have "b = Some (take (n - 1) resp)"
    by (auto simp: ullm_round_def Let_def split: if_splits)
  with f n show ?thesis by auto
qed

theorem ullm_round_ok_witness:
  "\<exists>resp. (\<lambda>p m. (0 :: int, Some ''hello'')) ''p'' ''m'' = (0, Some resp) \<and> Some ''hel'' = Some (take 3 resp)"
proof -
  have "ullm_round env0 (Some (\<lambda>p m. (0, Some ''hello''))) ''m'' ''p'' (Some '''') 4 = (0, Some ''hel'')"
    by (simp add: ullm_round_def)
  from ullm_round_ok [OF env0_ok(1) this] show ?thesis by auto
qed

end
