(* ===== verification/Protocol_Registry.thy ===== *)
theory Protocol_Registry
  imports Unified_Message
begin

text \<open>
  The protocol registry of \<open>core/registry/src/protocol_registry.c\<close>: a table of at most 32
  named entries with their life-cycle state, dependencies and request statistics.

  The arrays with a count (\<open>entries\<close>/\<open>entry_count\<close>, \<open>dependencies\<close>/
  \<open>dependency_count\<close>) are lists of their used slots: a slot is cleared when it is taken,
  so nothing behind the count is ever read. A pointer to an entry is its index. Event
  callbacks are recorded as the list of events an operation reports; a callback does not
  call back into the registry. Latencies are exact real numbers.
\<close>

section \<open>Data\<close>

abbreviation PROTO_REGISTRY_MAX_ADAPTERS :: nat where "PROTO_REGISTRY_MAX_ADAPTERS \<equiv> 32"
abbreviation PROTO_REGISTRY_MAX_DEPS :: nat where "PROTO_REGISTRY_MAX_DEPS \<equiv> 16"
abbreviation PROTO_REGISTRY_NAME_MAX_LEN :: nat where "PROTO_REGISTRY_NAME_MAX_LEN \<equiv> 64"
abbreviation PROTO_REGISTRY_DESC_MAX_LEN :: nat where "PROTO_REGISTRY_DESC_MAX_LEN \<equiv> 256"

type_synonym proto_category = u32
type_synonym proto_state = u32

abbreviation PROTO_CAT_CORE :: proto_category where "PROTO_CAT_CORE \<equiv> 0"
abbreviation PROTO_CAT_STANDARD :: proto_category where "PROTO_CAT_STANDARD \<equiv> 1"
abbreviation PROTO_CAT_INTEGRATION :: proto_category where "PROTO_CAT_INTEGRATION \<equiv> 2"
abbreviation PROTO_CAT_FRAMEWORK :: proto_category where "PROTO_CAT_FRAMEWORK \<equiv> 3"
abbreviation PROTO_CAT_CUSTOM :: proto_category where "PROTO_CAT_CUSTOM \<equiv> 4"

abbreviation PROTO_STATE_UNREGISTERED :: proto_state where "PROTO_STATE_UNREGISTERED \<equiv> 0"
abbreviation PROTO_STATE_REGISTERED :: proto_state where "PROTO_STATE_REGISTERED \<equiv> 1"
abbreviation PROTO_STATE_READY :: proto_state where "PROTO_STATE_READY \<equiv> 3"
abbreviation PROTO_STATE_ACTIVE :: proto_state where "PROTO_STATE_ACTIVE \<equiv> 4"
abbreviation PROTO_STATE_ERROR :: proto_state where "PROTO_STATE_ERROR \<equiv> 6"
abbreviation PROTO_STATE_SHUTDOWN :: proto_state where "PROTO_STATE_SHUTDOWN \<equiv> 7"

record proto_dependency =
  dep_name :: cstring
  dep_state :: proto_state

record proto_registry_entry =
  re_name :: cstring
  re_version :: cstring
  re_description :: cstring
  re_category :: proto_category
  re_type :: protocol_type
  re_capabilities :: u32
  re_state :: proto_state
  re_adapter :: "ptr option"
  re_context :: "ptr option"
  re_dependencies :: "proto_dependency list"
  re_registered_at :: u64
  re_activated_at :: u64
  re_last_heartbeat :: u64
  re_request_count :: u64
  re_error_count :: u64
  re_avg_latency_ms :: real
  re_is_builtin :: bool

record registry_event =
  ev_name :: cstring
  ev_entry :: cstring
  ev_old :: proto_state
  ev_new :: proto_state

record protocol_registry =
  reg_entries :: "proto_registry_entry list"
  reg_event_callback :: "ptr option"
  reg_event_callback_data :: "ptr option"
  reg_initialized :: bool

type_synonym registry_result = "int \<times> protocol_registry option \<times> registry_event list"

definition proto_category_to_string :: "proto_category \<Rightarrow> cstring" where
  "proto_category_to_string cat =
    (let names = [''core'', ''standard'', ''integration'', ''framework'', ''custom''] in
     if unat cat < 5 then names ! unat cat else ''unknown'')"

definition proto_state_to_string :: "proto_state \<Rightarrow> cstring" where
  "proto_state_to_string st =
    (let names = [''unregistered'', ''registered'', ''initializing'', ''ready'',
                  ''active'', ''degraded'', ''error'', ''shutdown''] in
     if st \<le> PROTO_STATE_SHUTDOWN then names ! unat st else ''unknown'')"

section \<open>Life cycle of the registry\<close>

definition proto_registry_create :: "env \<Rightarrow> protocol_registry option" where
  "proto_registry_create E = (if mem E 0
     then Some \<lparr>reg_entries = [], reg_event_callback = None, reg_event_callback_data = None,
                reg_initialized = True\<rparr>
     else None)"

text \<open>
  The process-wide instance \<open>g_registry\<close> is passed as an option. \<open>proto_registry_destroy\<close>
  is given whether its argument is that instance.
\<close>

definition proto_registry_get :: "env \<Rightarrow> protocol_registry option \<Rightarrow> protocol_registry option" where
  "proto_registry_get E g_registry = (case g_registry of
      None \<Rightarrow> proto_registry_create E | Some r \<Rightarrow> Some r)"

definition proto_registry_destroy ::
  "protocol_registry option \<Rightarrow> protocol_registry option \<Rightarrow> bool \<Rightarrow> protocol_registry option" where
  "proto_registry_destroy g_registry registry same_instance =
    (case registry of None \<Rightarrow> g_registry
     | Some r \<Rightarrow> if same_instance then None else g_registry)"

section \<open>Searching\<close>

abbreviation same_name :: "cstring \<Rightarrow> cstring \<Rightarrow> bool" where
  "same_name a b \<equiv> strncmp_eq (PROTO_REGISTRY_NAME_MAX_LEN - 1) a b"

abbreviation usable :: "proto_state \<Rightarrow> bool" where
  "usable s \<equiv> s = PROTO_STATE_ACTIVE \<or> s = PROTO_STATE_READY"

definition find_entry :: "protocol_registry \<Rightarrow> cstring \<Rightarrow> nat option" where
  "find_entry r n = find_idx (\<lambda>e. same_name (re_name e) n) (reg_entries r)"

fun proto_registry_find :: "protocol_registry option \<Rightarrow> cstring option \<Rightarrow> nat option" where
  "proto_registry_find (Some r) (Some name) = find_entry r name"
| "proto_registry_find _ _ = None"

fun proto_registry_find_by_type :: "protocol_registry option \<Rightarrow> protocol_type \<Rightarrow> nat option" where
  "proto_registry_find_by_type None type = None"
| "proto_registry_find_by_type (Some r) type =
    find_idx (\<lambda>e. re_type e = type \<and> usable (re_state e)) (reg_entries r)"

fun proto_registry_find_by_capability :: "protocol_registry option \<Rightarrow> u32 \<Rightarrow> nat option" where
  "proto_registry_find_by_capability None required_caps = None"
| "proto_registry_find_by_capability (Some r) required_caps =
    find_idx (\<lambda>e. re_capabilities e AND required_caps = required_caps \<and> usable (re_state e))
      (reg_entries r)"

text \<open>The listing functions return the number of entries and the array they allocate.\<close>

fun proto_registry_list_all ::
  "env \<Rightarrow> protocol_registry option \<Rightarrow> nat \<times> proto_registry_entry list option" where
  "proto_registry_list_all E None = (0, None)"
| "proto_registry_list_all E (Some r) =
    (if \<not> mem E 0 \<and> reg_entries r \<noteq> [] then (0, None)
     else (length (reg_entries r), Some (reg_entries r)))"

text \<open>The two passes of \<open>registry_select\<close>: count, then copy at most that many matches.\<close>

fun select_count :: "(proto_registry_entry \<Rightarrow> bool) \<Rightarrow> proto_registry_entry list \<Rightarrow> nat" where
  "select_count m [] = 0"
| "select_count m (e # es) = (if m e then 1 else 0) + select_count m es"

fun select_copy ::
  "(proto_registry_entry \<Rightarrow> bool) \<Rightarrow> nat \<Rightarrow> proto_registry_entry list \<Rightarrow> proto_registry_entry list" where
  "select_copy m n [] = []"
| "select_copy m n (e # es) =
    (if n = 0 then [] else if m e then e # select_copy m (n - 1) es else select_copy m n es)"

definition match_category :: "proto_category \<Rightarrow> proto_registry_entry \<Rightarrow> bool" where
  "match_category category e = (re_category e = category)"

definition match_active :: "proto_registry_entry \<Rightarrow> bool" where
  [simp]: "match_active e = (re_state e = PROTO_STATE_ACTIVE \<or> re_state e = PROTO_STATE_READY)"

definition registry_select ::
  "env \<Rightarrow> protocol_registry option \<Rightarrow> (proto_registry_entry \<Rightarrow> bool) \<Rightarrow>
   nat \<times> proto_registry_entry list option" where
  "registry_select E registry match = (case registry of
      None \<Rightarrow> (0, None)
    | Some r \<Rightarrow>
       (let count = select_count match (reg_entries r) in
        if count = 0 then (0, None)
        else if \<not> mem E 0 then (0, None)
        else (let out = select_copy match count (reg_entries r) in (length out, Some out))))"

definition proto_registry_list_by_category where
  "proto_registry_list_by_category E registry category =
    registry_select E registry (match_category category)"

definition proto_registry_list_active where
  "proto_registry_list_active E registry = registry_select E registry match_active"

section \<open>Registering and unregistering\<close>

definition report :: "protocol_registry \<Rightarrow> cstring \<Rightarrow> cstring \<Rightarrow> proto_state \<Rightarrow> proto_state \<Rightarrow>
    registry_event list" where
  "report r ev name old new = (case reg_event_callback r of
      None \<Rightarrow> []
    | Some _ \<Rightarrow> [\<lparr>ev_name = ev, ev_entry = name, ev_old = old, ev_new = new\<rparr>])"

definition new_entry :: "env \<Rightarrow> cstring \<Rightarrow> cstring option \<Rightarrow> cstring option \<Rightarrow> proto_category \<Rightarrow>
    protocol_type \<Rightarrow> u32 \<Rightarrow> ptr option \<Rightarrow> ptr option \<Rightarrow> proto_registry_entry" where
  "new_entry E name version description category type capabilities adapter context =
    \<lparr>re_name = snprintf PROTO_REGISTRY_NAME_MAX_LEN name,
     re_version = snprintf 32 (case version of None \<Rightarrow> ''1.0.0'' | Some v \<Rightarrow> v),
     re_description = (case description of None \<Rightarrow> [] | Some d \<Rightarrow> snprintf PROTO_REGISTRY_DESC_MAX_LEN d),
     re_category = category, re_type = type, re_capabilities = capabilities,
     re_state = PROTO_STATE_REGISTERED, re_adapter = adapter, re_context = context,
     re_dependencies = [], re_registered_at = time_s E 0, re_activated_at = 0,
     re_last_heartbeat = 0, re_request_count = 0, re_error_count = 0,
     re_avg_latency_ms = 0, re_is_builtin = False\<rparr>"

fun proto_registry_register :: "env \<Rightarrow> protocol_registry option \<Rightarrow> cstring option \<Rightarrow> cstring option \<Rightarrow>
    cstring option \<Rightarrow> proto_category \<Rightarrow> protocol_type \<Rightarrow> u32 \<Rightarrow> ptr option \<Rightarrow> ptr option \<Rightarrow>
    registry_result" where
  "proto_registry_register E (Some r) (Some name) version description category type capabilities
      adapter context =
    (if PROTO_REGISTRY_MAX_ADAPTERS \<le> length (reg_entries r)
     then (err E AIRY_ERR_OVERFLOW, Some r, [])
     else if find_entry r name \<noteq> None then (err E AIRY_ERR_NULL_POINTER, Some r, [])
     else (0, Some (r\<lparr>reg_entries := reg_entries r @
                [new_entry E name version description category type capabilities adapter context]\<rparr>),
           report r ''register'' name PROTO_STATE_UNREGISTERED PROTO_STATE_REGISTERED))"
| "proto_registry_register E registry _ _ _ _ _ _ _ _ = (err E AIRY_ERR_NULL_POINTER, registry, [])"

text \<open>Removal moves the later entries down one slot.\<close>

definition remove_at :: "nat \<Rightarrow> 'a list \<Rightarrow> 'a list" where
  "remove_at i xs = take i xs @ drop (Suc i) xs"

fun proto_registry_unregister ::
  "env \<Rightarrow> protocol_registry option \<Rightarrow> cstring option \<Rightarrow> registry_result" where
  "proto_registry_unregister E (Some r) (Some name) = (case find_entry r name of
      None \<Rightarrow> (err E AIRY_ERR_OUT_OF_MEMORY, Some r, [])
    | Some i \<Rightarrow> (0, Some (r\<lparr>reg_entries := remove_at i (reg_entries r)\<rparr>),
        report r ''unregister'' name (re_state (reg_entries r ! i)) PROTO_STATE_UNREGISTERED))"
| "proto_registry_unregister E registry _ = (err E AIRY_ERR_NULL_POINTER, registry, [])"

section \<open>State, dependencies and activation\<close>

definition upd_entry ::
  "nat \<Rightarrow> (proto_registry_entry \<Rightarrow> proto_registry_entry) \<Rightarrow> protocol_registry \<Rightarrow> protocol_registry" where
  "upd_entry i f r = r\<lparr>reg_entries := (reg_entries r)[i := f (reg_entries r ! i)]\<rparr>"

definition enter_state :: "env \<Rightarrow> proto_state \<Rightarrow> proto_registry_entry \<Rightarrow> proto_registry_entry" where
  "enter_state E s e = (let e = e\<lparr>re_state := s\<rparr> in
     if s = PROTO_STATE_ACTIVE then e\<lparr>re_activated_at := time_s E 0\<rparr> else e)"

fun proto_registry_set_state ::
  "env \<Rightarrow> protocol_registry option \<Rightarrow> cstring option \<Rightarrow> proto_state \<Rightarrow> registry_result" where
  "proto_registry_set_state E (Some r) (Some name) s = (case find_entry r name of
      None \<Rightarrow> (err E AIRY_ERR_OUT_OF_MEMORY, Some r, [])
    | Some i \<Rightarrow> (0, Some (upd_entry i (enter_state E s) r),
        report r ''state_change'' name (re_state (reg_entries r ! i)) s))"
| "proto_registry_set_state E registry _ _ = (err E AIRY_ERR_NULL_POINTER, registry, [])"

fun proto_registry_add_dependency ::
  "env \<Rightarrow> protocol_registry option \<Rightarrow> cstring option \<Rightarrow> cstring option \<Rightarrow> registry_result" where
  "proto_registry_add_dependency E (Some r) (Some name) (Some dep) = (case find_entry r name of
      None \<Rightarrow> (err E AIRY_ERR_OUT_OF_MEMORY, Some r, [])
    | Some i \<Rightarrow>
        if PROTO_REGISTRY_MAX_DEPS \<le> length (re_dependencies (reg_entries r ! i))
        then (err E AIRY_ERR_OVERFLOW, Some r, [])
        else (0, Some (upd_entry i (\<lambda>e. e\<lparr>re_dependencies := re_dependencies e @
                [\<lparr>dep_name = snprintf PROTO_REGISTRY_NAME_MAX_LEN dep,
                  dep_state = PROTO_STATE_UNREGISTERED\<rparr>]\<rparr>) r), []))"
| "proto_registry_add_dependency E registry _ _ = (err E AIRY_ERR_NULL_POINTER, registry, [])"

definition proto_reg_check_deps :: "proto_registry_entry option \<Rightarrow> bool" where
  "proto_reg_check_deps entry = (case entry of None \<Rightarrow> False
     | Some e \<Rightarrow> list_all (\<lambda>d. usable (dep_state d)) (re_dependencies e))"

fun proto_registry_activate ::
  "env \<Rightarrow> protocol_registry option \<Rightarrow> cstring option \<Rightarrow> registry_result" where
  "proto_registry_activate E (Some r) (Some name) = (case find_entry r name of
      None \<Rightarrow> (err E AIRY_ERR_OUT_OF_MEMORY, Some r, [])
    | Some i \<Rightarrow>
        if \<not> proto_reg_check_deps (Some (reg_entries r ! i))
        then (case proto_registry_set_state E (Some r) (Some name) PROTO_STATE_ERROR of
                (_, r', evs) \<Rightarrow> (err E AIRY_ERR_IO, r', evs))
        else proto_registry_set_state E (Some r) (Some name) PROTO_STATE_ACTIVE)"
| "proto_registry_activate E registry _ = (err E AIRY_ERR_UNKNOWN, registry, [])"

fun proto_registry_deactivate ::
  "env \<Rightarrow> protocol_registry option \<Rightarrow> cstring option \<Rightarrow> registry_result" where
  "proto_registry_deactivate E (Some r) (Some name) = (case find_entry r name of
      None \<Rightarrow> (err E AIRY_ERR_OUT_OF_MEMORY, Some r, [])
    | Some i \<Rightarrow> proto_registry_set_state E (Some r) (Some name) PROTO_STATE_READY)"
| "proto_registry_deactivate E registry _ = (err E AIRY_ERR_NULL_POINTER, registry, [])"

text \<open>A heartbeat also copies the entry's state into every dependency record that names it.\<close>

definition refresh_deps :: "cstring \<Rightarrow> proto_state \<Rightarrow> proto_registry_entry \<Rightarrow> proto_registry_entry" where
  "refresh_deps name s e = e\<lparr>re_dependencies := map (\<lambda>d.
     if same_name (dep_name d) name then d\<lparr>dep_state := s\<rparr> else d) (re_dependencies e)\<rparr>"

fun proto_registry_heartbeat ::
  "env \<Rightarrow> protocol_registry option \<Rightarrow> cstring option \<Rightarrow> registry_result" where
  "proto_registry_heartbeat E (Some r) (Some name) = (case find_entry r name of
      None \<Rightarrow> (err E AIRY_ERR_OUT_OF_MEMORY, Some r, [])
    | Some i \<Rightarrow>
       (let r1 = upd_entry i (\<lambda>e. e\<lparr>re_last_heartbeat := time_s E 0\<rparr>) r in
        (0, Some (r1\<lparr>reg_entries :=
              map (refresh_deps name (re_state (reg_entries r1 ! i))) (reg_entries r1)\<rparr>), [])))"
| "proto_registry_heartbeat E registry _ = (err E AIRY_ERR_NULL_POINTER, registry, [])"

section \<open>Statistics\<close>

definition record_request :: "bool \<Rightarrow> real \<Rightarrow> proto_registry_entry \<Rightarrow> proto_registry_entry" where
  "record_request success latency_ms e =
    (let n = re_request_count e + 1;
         total = re_avg_latency_ms e * real (unat (n - 1)) + latency_ms
     in e\<lparr>re_request_count := n,
          re_error_count := (if success then re_error_count e else re_error_count e + 1),
          re_avg_latency_ms := total / real (unat n)\<rparr>)"

fun proto_registry_record_request ::
  "env \<Rightarrow> protocol_registry option \<Rightarrow> cstring option \<Rightarrow> bool \<Rightarrow> real \<Rightarrow> registry_result" where
  "proto_registry_record_request E (Some r) (Some name) success latency_ms =
    (case find_entry r name of
      None \<Rightarrow> (err E AIRY_ERR_OUT_OF_MEMORY, Some r, [])
    | Some i \<Rightarrow> (0, Some (upd_entry i (record_request success latency_ms) r), []))"
| "proto_registry_record_request E registry _ _ _ = (err E AIRY_ERR_UNKNOWN, registry, [])"

record proto_registry_stats =
  st_total_entries :: nat
  st_active_entries :: nat
  st_builtin_entries :: nat
  st_custom_entries :: nat
  st_total_requests :: u64
  st_total_errors :: u64
  st_total_uptime_sec :: real
  st_avg_system_latency_ms :: real

text \<open>The loop body; \<open>k\<close> counts the clock readings made so far.\<close>

fun stats_loop :: "env \<Rightarrow> nat \<Rightarrow> proto_registry_entry list \<Rightarrow> proto_registry_stats \<Rightarrow> proto_registry_stats" where
  "stats_loop E k [] s = s"
| "stats_loop E k (e # es) s =
    (let s1 = (if usable (re_state e) then s\<lparr>st_active_entries := st_active_entries s + 1\<rparr> else s);
         s2 = (if re_is_builtin e then s1\<lparr>st_builtin_entries := st_builtin_entries s1 + 1\<rparr>
               else s1\<lparr>st_custom_entries := st_custom_entries s1 + 1\<rparr>);
         s3 = s2\<lparr>st_total_requests := st_total_requests s2 + re_request_count e,
                 st_total_errors := st_total_errors s2 + re_error_count e\<rparr>;
         uptime = real_of_int (sint (time_s E k)) - real_of_int (sint (re_activated_at e));
         s4 = (if re_activated_at e > 0 \<and> uptime > st_total_uptime_sec s3
               then s3\<lparr>st_total_uptime_sec := uptime\<rparr> else s3);
         s5 = s4\<lparr>st_avg_system_latency_ms := st_avg_system_latency_ms s4 + re_avg_latency_ms e\<rparr>
     in stats_loop E (if re_activated_at e > 0 then Suc k else k) es s5)"

fun proto_registry_get_statistics :: "env \<Rightarrow> protocol_registry option \<Rightarrow> bool \<Rightarrow> int \<times> proto_registry_stats option" where
  "proto_registry_get_statistics E (Some r) True =
    (let s0 = \<lparr>st_total_entries = length (reg_entries r), st_active_entries = 0,
               st_builtin_entries = 0, st_custom_entries = 0, st_total_requests = 0,
               st_total_errors = 0, st_total_uptime_sec = 0, st_avg_system_latency_ms = 0\<rparr>;
         s = stats_loop E 0 (reg_entries r) s0
     in (0, Some (if st_active_entries s > 0
          then s\<lparr>st_avg_system_latency_ms := st_avg_system_latency_ms s / real (st_active_entries s)\<rparr>
          else s)))"
| "proto_registry_get_statistics E _ _ = (err E AIRY_ERR_NULL_POINTER, None)"

fun proto_registry_set_event_callback ::
  "env \<Rightarrow> protocol_registry option \<Rightarrow> ptr option \<Rightarrow> ptr option \<Rightarrow> registry_result" where
  "proto_registry_set_event_callback E (Some r) cb data =
    (0, Some (r\<lparr>reg_event_callback := cb, reg_event_callback_data := data\<rparr>), [])"
| "proto_registry_set_event_callback E None cb data = (err E AIRY_ERR_NULL_POINTER, None, [])"

section \<open>Built-in entries\<close>

record proto_builtin_def =
  bd_name :: cstring
  bd_version :: "cstring option"
  bd_description :: "cstring option"
  bd_category :: proto_category
  bd_type :: protocol_type
  bd_capabilities :: u32
  bd_adapter :: "ptr option"
  bd_context :: "ptr option"

text \<open>
  One turn of the loop: register, mark as built-in, activate. Each turn sees the clock
  after the readings of the turns before.
\<close>

definition reg_builtin :: "env \<Rightarrow> proto_builtin_def \<Rightarrow> protocol_registry \<Rightarrow>
    nat \<times> protocol_registry \<times> registry_event list" where
  "reg_builtin E d r =
    (case proto_registry_register E (Some r) (Some (bd_name d)) (bd_version d) (bd_description d)
            (bd_category d) (bd_type d) (bd_capabilities d) (bd_adapter d) (bd_context d) of
       (ret, Some r1, ev1) \<Rightarrow>
         if ret = 0
         then (case proto_registry_find (Some r1) (Some (bd_name d)) of
                 None \<Rightarrow> (1, r1, ev1)
               | Some i \<Rightarrow>
                  (case proto_registry_activate (later 1 E)
                          (Some (upd_entry i (\<lambda>e. e\<lparr>re_is_builtin := True\<rparr>) r1))
                          (Some (bd_name d)) of
                     (_, Some r2, ev2) \<Rightarrow> (1, r2, ev1 @ ev2)
                   | (_, None, ev2) \<Rightarrow> (1, r1, ev1 @ ev2)))
         else (0, r1, ev1)
     | (ret, None, ev1) \<Rightarrow> (0, r, ev1))"

fun reg_builtins_loop :: "env \<Rightarrow> proto_builtin_def list \<Rightarrow> protocol_registry \<Rightarrow>
    nat \<times> protocol_registry \<times> registry_event list" where
  "reg_builtins_loop E [] r = (0, r, [])"
| "reg_builtins_loop E (d # ds) r = (case reg_builtin E d r of (n, r1, evs1) \<Rightarrow>
    (case reg_builtins_loop (later 2 E) ds r1 of (m, r2, evs2) \<Rightarrow> (n + m, r2, evs1 @ evs2)))"

fun proto_reg_builtins ::
  "env \<Rightarrow> protocol_registry option \<Rightarrow> proto_builtin_def list option \<Rightarrow> registry_result" where
  "proto_reg_builtins E (Some r) (Some defs) =
    (case reg_builtins_loop E defs r of (n, r', evs) \<Rightarrow> (int n, Some r', evs))"
| "proto_reg_builtins E registry _ = (err E AIRY_ERR_NULL_POINTER, registry, [])"

section \<open>Export\<close>

definition proto_registry_version :: cstring where
  "proto_registry_version = ''2.1.0''"

text \<open>\<open>%.2f\<close>: hundredths, ties to even.\<close>

definition show_fixed2 :: "real \<Rightarrow> string" where
  "show_fixed2 x = (let y = 100 * \<bar>x\<bar>; k = nat \<lfloor>y\<rfloor>;
       h = (if y - real k < 1 / 2 \<or> (y - real k = 1 / 2 \<and> even k) then k else k + 1)
     in (if x < 0 then ''-'' else '''') @ show_nat (h div 100) @ ''.'' @
        [digit (h mod 100 div 10), digit (h mod 10)])"

definition entry_text :: "proto_registry_entry \<Rightarrow> string" where
  "entry_text e = ''{\"name\":\"'' @ re_name e @ ''\",\"ver\":\"'' @ re_version e @
     ''\",\"cat\":\"'' @ proto_category_to_string (re_category e) @
     ''\",\"type\":'' @ show_int (sint (re_type e)) @
     '',\"caps\":0x'' @ show_hex8 (re_capabilities e) @
     '',\"state\":\"'' @ proto_state_to_string (re_state e) @
     ''\",\"reqs\":'' @ show_nat (unat (re_request_count e)) @
     '',\"errs\":'' @ show_nat (unat (re_error_count e)) @
     '',\"latency\":'' @ show_fixed2 (re_avg_latency_ms e) @ ''}''"

text \<open>
  The loop condition \<open>(size_t)pos < buffer_size - 200\<close> is computed in 64 bits, so it
  wraps for buffers below 200 bytes.
\<close>

definition export_limit :: "nat \<Rightarrow> nat" where
  "export_limit buffer_size = (if 200 \<le> buffer_size then buffer_size - 200 else buffer_size + 2 ^ 64 - 200)"

fun export_loop :: "nat \<Rightarrow> bool \<Rightarrow> proto_registry_entry list \<Rightarrow> sbuf option \<Rightarrow> sbuf option" where
  "export_loop buffer_size first es None = None"
| "export_loop buffer_size first [] (Some b) = Some b"
| "export_loop buffer_size first (e # es) (Some b) =
    (if sb_off b < export_limit buffer_size
     then export_loop buffer_size False es (sb_put buffer_size (entry_text e)
            (if first then Some b else sb_put buffer_size '','' (Some b)))
     else Some b)"

definition export_header :: "nat \<Rightarrow> string" where
  "export_header entry_count = ''{\"registry_version\":\"'' @ proto_registry_version @
     ''\",\"total\":'' @ show_nat entry_count @ '',\"entries\":[''"

text \<open>\<open>None\<close> when a write leaves the buffer; otherwise the code and the text written.\<close>

fun proto_registry_export_json :: "env \<Rightarrow> protocol_registry option \<Rightarrow> bool \<Rightarrow> nat \<Rightarrow>
    (int \<times> string option) option" where
  "proto_registry_export_json E (Some r) True buffer_size =
    (if buffer_size < 128 then Some (err E AIRY_ERR_BUFFER_TOO_SMALL, None)
     else case sb_put buffer_size '']}'' (export_loop buffer_size True (reg_entries r)
            (sb_put buffer_size (export_header (length (reg_entries r))) (Some \<lparr>sb_text = [], sb_off = 0\<rparr>))) of
        None \<Rightarrow> None
      | Some b \<Rightarrow> Some (if sb_off b < buffer_size then 0 else - 2, Some (sb_text b)))"
| "proto_registry_export_json E registry json_buffer buffer_size =
    Some (err E AIRY_ERR_NULL_POINTER, None)"

section \<open>The registry invariant\<close>

definition dep_wf :: "proto_dependency \<Rightarrow> bool" where
  "dep_wf d \<longleftrightarrow> length (dep_name d) < PROTO_REGISTRY_NAME_MAX_LEN"

definition entry_wf :: "proto_registry_entry \<Rightarrow> bool" where
  "entry_wf e \<longleftrightarrow> length (re_name e) < PROTO_REGISTRY_NAME_MAX_LEN \<and> length (re_version e) < 32 \<and>
     length (re_description e) < PROTO_REGISTRY_DESC_MAX_LEN \<and>
     length (re_dependencies e) \<le> PROTO_REGISTRY_MAX_DEPS \<and> list_all dep_wf (re_dependencies e)"

text \<open>
  Every array stays inside its bounds, every string is terminated inside its array and no
  two entries carry the same name.
\<close>

definition registry_wf :: "protocol_registry \<Rightarrow> bool" where
  "registry_wf r \<longleftrightarrow> length (reg_entries r) \<le> PROTO_REGISTRY_MAX_ADAPTERS \<and>
     distinct (map re_name (reg_entries r)) \<and> list_all entry_wf (reg_entries r)"

text \<open>The abstract registry: a finite map from stored names to entries.\<close>

definition name_key :: "cstring \<Rightarrow> cstring" where
  "name_key n = take (PROTO_REGISTRY_NAME_MAX_LEN - 1) n"

definition reg_abs :: "protocol_registry \<Rightarrow> cstring \<rightharpoonup> proto_registry_entry" where
  "reg_abs r = map_of (map (\<lambda>e. (re_name e, e)) (reg_entries r))"

definition reg_lookup :: "protocol_registry \<Rightarrow> cstring \<Rightarrow> proto_registry_entry option" where
  "reg_lookup r n = map_option ((!) (reg_entries r)) (find_entry r n)"

lemma registry_wfD:
  "registry_wf r \<Longrightarrow> length (reg_entries r) \<le> PROTO_REGISTRY_MAX_ADAPTERS"
  "registry_wf r \<Longrightarrow> distinct (map re_name (reg_entries r))"
  "registry_wf r \<Longrightarrow> e \<in> set (reg_entries r) \<Longrightarrow> entry_wf e"
  by (auto simp: registry_wf_def list_all_iff)

lemma same_name_wf: "entry_wf e \<Longrightarrow> same_name (re_name e) n \<longleftrightarrow> re_name e = name_key n"
  by (auto simp: entry_wf_def strncmp_eq_def name_key_def)

lemma name_key_take: "length n < PROTO_REGISTRY_NAME_MAX_LEN \<Longrightarrow> name_key n = n"
  by (simp add: name_key_def)

lemma find_idx_cong: "(\<And>x. x \<in> set xs \<Longrightarrow> p x = q x) \<Longrightarrow> find_idx p xs = find_idx q xs"
  by (induction xs) auto

lemma find_entry_wf:
  "registry_wf r \<Longrightarrow> find_entry r n = find_idx (\<lambda>e. re_name e = name_key n) (reg_entries r)"
  unfolding find_entry_def by (intro find_idx_cong same_name_wf registry_wfD(3))

lemma find_entry_Some:
  assumes "registry_wf r" "find_entry r n = Some i"
  shows "i < length (reg_entries r)" "re_name (reg_entries r ! i) = name_key n"
    "entry_wf (reg_entries r ! i)"
  using assms by (auto simp: find_entry_wf find_idx_Some registry_wfD)

lemma map_of_find_idx:
  "map_of (map (\<lambda>e. (k e, e)) xs) n = map_option ((!) xs) (find_idx (\<lambda>e. k e = n) xs)"
  by (induction xs) (auto simp: option.map_comp o_def)

lemma reg_lookup_abs: "registry_wf r \<Longrightarrow> reg_lookup r n = reg_abs r (name_key n)"
  by (simp add: reg_lookup_def find_entry_wf reg_abs_def map_of_find_idx)

lemma find_entry_abs:
  "registry_wf r \<Longrightarrow> find_entry r n = Some i \<Longrightarrow> reg_abs r (name_key n) = Some (reg_entries r ! i)"
  using reg_lookup_abs [of r n] by (simp add: reg_lookup_def)

lemma find_entry_None_abs:
  "registry_wf r \<Longrightarrow> find_entry r n = None \<longleftrightarrow> reg_abs r (name_key n) = None"
  using reg_lookup_abs [of r n] by (auto simp: reg_lookup_def)

subsection \<open>Updating one entry\<close>

lemma map_of_upd_at:
  assumes "i < length xs" "distinct (map k xs)" "k y = k (xs ! i)"
  shows "map_of (map (\<lambda>e. (k e, e)) (xs[i := y])) = (map_of (map (\<lambda>e. (k e, e)) xs))(k y \<mapsto> y)"
  using assms
proof (induction xs arbitrary: i)
  case Nil
  then show ?case by simp
next
  case (Cons x xs)
  show ?case
  proof (cases i)
    case 0
    with Cons.prems show ?thesis by (auto simp: fun_eq_iff)
  next
    case (Suc j)
    with Cons.prems have "k x \<noteq> k (xs ! j)" by (metis Suc_less_eq distinct.simps(2) length_Cons list.simps(9) nth_map nth_mem length_map)
    with Suc Cons show ?thesis by (auto simp: fun_eq_iff)
  qed
qed

lemma upd_entry_wf:
  assumes "registry_wf r" "i < length (reg_entries r)"
    and keep: "re_name (f (reg_entries r ! i)) = re_name (reg_entries r ! i)"
    and wf: "entry_wf (f (reg_entries r ! i))"
  shows "registry_wf (upd_entry i f r)"
proof -
  have "map re_name ((reg_entries r)[i := f (reg_entries r ! i)]) = map re_name (reg_entries r)"
    using assms(2) keep by (simp add: map_update list_update_same_conv)
  moreover have "list_all entry_wf ((reg_entries r)[i := f (reg_entries r ! i)])"
    using assms(1) wf by (auto simp: registry_wf_def list_all_iff dest!: set_mp [OF set_update_subset_insert])
  ultimately show ?thesis using assms(1) by (simp add: registry_wf_def upd_entry_def)
qed

lemma upd_entry_abs:
  assumes "registry_wf r" "find_entry r n = Some i"
    and keep: "re_name (f (reg_entries r ! i)) = re_name (reg_entries r ! i)"
  shows "reg_abs (upd_entry i f r) = (reg_abs r)(name_key n \<mapsto> f (reg_entries r ! i))"
  using assms find_entry_Some [OF assms(1,2)]
  by (simp add: reg_abs_def upd_entry_def map_of_upd_at registry_wfD)

lemma entry_wf_keep [simp]:
  "entry_wf (enter_state E s e) = entry_wf e"
  "entry_wf (record_request ok l e) = entry_wf e"
  "entry_wf (e\<lparr>re_last_heartbeat := t\<rparr>) = entry_wf e"
  "entry_wf (e\<lparr>re_is_builtin := b\<rparr>) = entry_wf e"
  by (simp_all add: entry_wf_def enter_state_def record_request_def)

lemma re_name_keep [simp]:
  "re_name (enter_state E s e) = re_name e" "re_name (record_request ok l e) = re_name e"
  "re_name (refresh_deps n s e) = re_name e"
  by (simp_all add: enter_state_def record_request_def refresh_deps_def)

lemma refresh_deps_wf [simp]: "entry_wf (refresh_deps n s e) = entry_wf e"
proof -
  have "list_all dep_wf (map (\<lambda>d. if same_name (dep_name d) n then d\<lparr>dep_state := s\<rparr> else d) ds) =
    list_all dep_wf ds" for ds
    by (induction ds) (auto simp: dep_wf_def)
  then show ?thesis by (simp add: refresh_deps_def entry_wf_def)
qed

lemma new_entry_wf:
  "entry_wf (new_entry E n v d c t caps a x)" "re_name (new_entry E n v d c t caps a x) = name_key n"
  by (auto simp: new_entry_def entry_wf_def snprintf_def name_key_def min_def split: option.split)

subsection \<open>Removing one entry\<close>

lemma remove_at_props:
  "set (remove_at i xs) \<subseteq> set xs" "length (remove_at i xs) \<le> length xs"
  "distinct (map k xs) \<Longrightarrow> distinct (map k (remove_at i xs))"
proof -
  show "set (remove_at i xs) \<subseteq> set xs"
    by (auto simp: remove_at_def dest: in_set_takeD in_set_dropD)
  show "length (remove_at i xs) \<le> length xs" by (simp add: remove_at_def)
  show "distinct (map k (remove_at i xs))" if d: "distinct (map k xs)"
  proof (cases "i < length xs")
    case True
    then have "xs = take i xs @ xs ! i # drop (Suc i) xs" by (rule id_take_nth_drop)
    then have "map k xs = map k (take i xs) @ k (xs ! i) # map k (drop (Suc i) xs)"
      by (metis list.simps(9) map_append)
    with d have "distinct (map k (take i xs) @ k (xs ! i) # map k (drop (Suc i) xs))" by simp
    then show ?thesis by (simp add: remove_at_def)
  next
    case False
    with d show ?thesis by (simp add: remove_at_def)
  qed
qed

lemma map_of_remove_at:
  assumes "i < length xs" "distinct (map k xs)"
  shows "map_of (map (\<lambda>e. (k e, e)) (remove_at i xs)) = (map_of (map (\<lambda>e. (k e, e)) xs))(k (xs ! i) := None)"
  using assms
proof (induction xs arbitrary: i)
  case Nil
  then show ?case by simp
next
  case (Cons x xs)
  show ?case
  proof (cases i)
    case 0
    have "map_of (map (\<lambda>e. (k e, e)) xs) (k x) = None"
      using Cons.prems by (force simp: map_of_eq_None_iff)
    with 0 show ?thesis by (auto simp: remove_at_def fun_eq_iff)
  next
    case (Suc j)
    with Cons.prems have "k x \<noteq> k (xs ! j)" by (metis Suc_less_eq distinct.simps(2) length_Cons list.simps(9) nth_map nth_mem length_map)
    moreover have "remove_at (Suc j) (x # xs) = x # remove_at j xs" by (simp add: remove_at_def)
    ultimately show ?thesis using Suc Cons by (auto simp: fun_eq_iff)
  qed
qed

subsection \<open>Each operation keeps the invariant and acts on the abstract map\<close>

lemma register_Some:
  assumes "registry_wf r"
    "proto_registry_register E (Some r) (Some n) v d c t caps a x = (0, Some r', evs)" "codes_ok E"
  shows "registry_wf r'" "reg_abs r (name_key n) = None"
    "reg_abs r' = (reg_abs r)(name_key n \<mapsto> new_entry E n v d c t caps a x)"
proof -
  let ?e = "new_entry E n v d c t caps a x"
  from assms have len: "length (reg_entries r) < PROTO_REGISTRY_MAX_ADAPTERS"
    and f: "find_entry r n = None"
    and r': "r' = r\<lparr>reg_entries := reg_entries r @ [?e]\<rparr>"
    by (auto split: if_splits)
  show none: "reg_abs r (name_key n) = None" using f assms(1) by (simp add: find_entry_None_abs)
  then have "name_key n \<notin> re_name ` set (reg_entries r)"
    by (force simp: reg_abs_def map_of_eq_None_iff)
  with assms(1) len r' show "registry_wf r'"
    by (auto simp: registry_wf_def new_entry_wf)
  from none show "reg_abs r' = (reg_abs r)(name_key n \<mapsto> ?e)"
    by (auto simp: r' reg_abs_def new_entry_wf fun_eq_iff map_add_def split: option.split)
qed

lemma unregister_Some:
  assumes "registry_wf r" "codes_ok E"
    "proto_registry_unregister E (Some r) (Some n) = (0, Some r', evs)"
  shows "registry_wf r'" "reg_abs r' = (reg_abs r)(name_key n := None)"
proof -
  from assms obtain i where i: "find_entry r n = Some i"
    and r': "r' = r\<lparr>reg_entries := remove_at i (reg_entries r)\<rparr>"
    by (auto split: option.splits)
  note f = find_entry_Some [OF assms(1) i]
  show "registry_wf r'"
    using assms(1) remove_at_props(1,2) [of i "reg_entries r"]
      remove_at_props(3) [of re_name "reg_entries r" i]
    by (auto simp: registry_wf_def r' list_all_iff)
  show "reg_abs r' = (reg_abs r)(name_key n := None)"
    using map_of_remove_at [OF f(1) registry_wfD(2) [OF assms(1)]] f(2)
    by (simp add: r' reg_abs_def)
qed

lemma set_state_wf:
  assumes "registry_wf r" "proto_registry_set_state E (Some r) n s = (rc, Some r', evs)"
  shows "registry_wf r'"
  using assms by (cases n) (auto split: option.splits intro!: upd_entry_wf dest: find_entry_Some)

lemma set_state_abs:
  assumes "registry_wf r" "codes_ok E"
    "proto_registry_set_state E (Some r) (Some n) s = (0, Some r', evs)"
  shows "reg_abs r' = (reg_abs r)(name_key n \<mapsto> enter_state E s (the (reg_abs r (name_key n))))"
  using assms by (auto split: option.splits simp: upd_entry_abs find_entry_abs)

lemma add_dependency_wf:
  assumes "registry_wf r" "proto_registry_add_dependency E (Some r) n d = (rc, Some r', evs)"
  shows "registry_wf r'"
proof (cases "\<exists>a b i. n = Some a \<and> d = Some b \<and> find_entry r a = Some i \<and>
    length (re_dependencies (reg_entries r ! i)) < PROTO_REGISTRY_MAX_DEPS")
  case False
  with assms show ?thesis
    by (cases n; cases d) (auto split: option.splits if_splits simp: not_le)
next
  case True
  then obtain a b i where n: "n = Some a" "d = Some b" "find_entry r a = Some i"
    "length (re_dependencies (reg_entries r ! i)) < PROTO_REGISTRY_MAX_DEPS" by blast
  note f = find_entry_Some [OF assms(1) n(3)]
  let ?f = "\<lambda>e. e\<lparr>re_dependencies := re_dependencies e @
    [\<lparr>dep_name = snprintf PROTO_REGISTRY_NAME_MAX_LEN b, dep_state = PROTO_STATE_UNREGISTERED\<rparr>]\<rparr>"
  have "entry_wf (?f (reg_entries r ! i))"
    using f(3) n(4) by (simp add: entry_wf_def dep_wf_def snprintf_def)
  then have "registry_wf (upd_entry i ?f r)"
    by (intro upd_entry_wf [OF assms(1) f(1)]) simp_all
  moreover have "r' = upd_entry i ?f r" using n assms(2) by simp
  ultimately show ?thesis by simp
qed

lemma activate_wf:
  assumes "registry_wf r" "proto_registry_activate E (Some r) n = (rc, Some r', evs)"
  shows "registry_wf r'"
proof (cases n)
  case None
  with assms show ?thesis by simp
next
  case (Some a)
  then show ?thesis
    using assms set_state_wf [OF assms(1), of E "Some a" PROTO_STATE_ERROR]
      set_state_wf [OF assms(1), of E "Some a" PROTO_STATE_ACTIVE]
    by (auto simp del: proto_registry_set_state.simps split: option.splits if_splits prod.splits)
qed

lemma deactivate_wf:
  assumes "registry_wf r" "proto_registry_deactivate E (Some r) n = (rc, Some r', evs)"
  shows "registry_wf r'"
  using assms set_state_wf [OF assms(1)]
  by (cases n) (auto simp del: proto_registry_set_state.simps split: option.splits)

lemma heartbeat_wf:
  assumes "registry_wf r" "proto_registry_heartbeat E (Some r) n = (rc, Some r', evs)"
  shows "registry_wf r'"
proof (cases "\<exists>a i. n = Some a \<and> find_entry r a = Some i")
  case False
  with assms show ?thesis by (cases n) (auto split: option.splits)
next
  case True
  then obtain a i where n: "n = Some a" "find_entry r a = Some i" by blast
  let ?r1 = "upd_entry i (\<lambda>e. e\<lparr>re_last_heartbeat := time_s E 0\<rparr>) r"
  have "registry_wf ?r1"
    using find_entry_Some [OF assms(1) n(2)] by (auto intro: upd_entry_wf [OF assms(1)])
  with assms(2) n show ?thesis
    by (auto simp: registry_wf_def list_all_iff o_def)
qed

lemma record_request_wf:
  assumes "registry_wf r" "proto_registry_record_request E (Some r) n ok l = (rc, Some r', evs)"
  shows "registry_wf r'"
  using assms by (cases n) (auto split: option.splits intro!: upd_entry_wf dest: find_entry_Some)

lemma register_wf:
  assumes "registry_wf r"
    "proto_registry_register E (Some r) n v d c t caps a x = (rc, Some r', evs)" "codes_ok E"
  shows "registry_wf r'"
proof (cases "rc = 0")
  case True
  with assms show ?thesis by (cases n) (auto intro: register_Some(1) simp del: proto_registry_register.simps(1))
next
  case False
  with assms show ?thesis by (cases n) (auto split: if_splits)
qed

lemma unregister_wf:
  assumes "registry_wf r" "proto_registry_unregister E (Some r) n = (rc, Some r', evs)" "codes_ok E"
  shows "registry_wf r'"
proof (cases "rc = 0")
  case True
  with assms show ?thesis
    by (cases n) (auto intro: unregister_Some(1) simp del: proto_registry_unregister.simps(1))
next
  case False
  with assms show ?thesis by (cases n) (auto split: option.splits)
qed

section \<open>Properties of the registry\<close>

text \<open>
  The registries a program can build: one that was created, and any registry an operation
  leaves behind, whatever its arguments, the clock and the outcome of the call.
\<close>

inductive reg_reachable :: "protocol_registry \<Rightarrow> bool" where
  reach_create: "proto_registry_create E = Some r \<Longrightarrow> reg_reachable r"
| reach_register: "reg_reachable r \<Longrightarrow> codes_ok E \<Longrightarrow>
    proto_registry_register E (Some r) n v d c t caps a x = (rc, Some r', evs) \<Longrightarrow> reg_reachable r'"
| reach_unregister: "reg_reachable r \<Longrightarrow> codes_ok E \<Longrightarrow>
    proto_registry_unregister E (Some r) n = (rc, Some r', evs) \<Longrightarrow> reg_reachable r'"
| reach_set_state: "reg_reachable r \<Longrightarrow>
    proto_registry_set_state E (Some r) n s = (rc, Some r', evs) \<Longrightarrow> reg_reachable r'"
| reach_add_dependency: "reg_reachable r \<Longrightarrow>
    proto_registry_add_dependency E (Some r) n dn = (rc, Some r', evs) \<Longrightarrow> reg_reachable r'"
| reach_activate: "reg_reachable r \<Longrightarrow>
    proto_registry_activate E (Some r) n = (rc, Some r', evs) \<Longrightarrow> reg_reachable r'"
| reach_deactivate: "reg_reachable r \<Longrightarrow>
    proto_registry_deactivate E (Some r) n = (rc, Some r', evs) \<Longrightarrow> reg_reachable r'"
| reach_heartbeat: "reg_reachable r \<Longrightarrow>
    proto_registry_heartbeat E (Some r) n = (rc, Some r', evs) \<Longrightarrow> reg_reachable r'"
| reach_record_request: "reg_reachable r \<Longrightarrow>
    proto_registry_record_request E (Some r) n ok l = (rc, Some r', evs) \<Longrightarrow> reg_reachable r'"
| reach_set_event_callback: "reg_reachable r \<Longrightarrow>
    proto_registry_set_event_callback E (Some r) cb data = (rc, Some r', evs) \<Longrightarrow> reg_reachable r'"
| reach_builtins: "reg_reachable r \<Longrightarrow> codes_ok E \<Longrightarrow>
    proto_reg_builtins E (Some r) defs = (rc, Some r', evs) \<Longrightarrow> reg_reachable r'"

lemma register_result:
  "\<exists>rc r' evs. proto_registry_register E (Some r) n v d c t caps a x = (rc, Some r', evs)"
  by (cases n) auto

lemma reg_builtin_wf:
  assumes "registry_wf r" "codes_ok E" "reg_builtin E d r = (n, r', evs)"
  shows "registry_wf r'"
proof -
  obtain rc r1 ev1 where reg: "proto_registry_register E (Some r) (Some (bd_name d)) (bd_version d)
      (bd_description d) (bd_category d) (bd_type d) (bd_capabilities d) (bd_adapter d) (bd_context d)
      = (rc, Some r1, ev1)"
    using register_result by blast
  have wf1: "registry_wf r1" using register_wf [OF assms(1) reg assms(2)] .
  show ?thesis
  proof (cases "rc = 0 \<and> find_entry r1 (bd_name d) \<noteq> None")
    case False
    with assms(3) wf1 reg show ?thesis
      by (auto simp: reg_builtin_def simp del: proto_registry_register.simps split: if_splits)
  next
    case True
    then obtain i where i: "find_entry r1 (bd_name d) = Some i" by auto
    have "registry_wf (upd_entry i (\<lambda>e. e\<lparr>re_is_builtin := True\<rparr>) r1)"
      using find_entry_Some [OF wf1 i] by (auto intro: upd_entry_wf [OF wf1])
    with assms(3) True i reg wf1 activate_wf show ?thesis
      by (auto simp: reg_builtin_def
          simp del: proto_registry_register.simps proto_registry_activate.simps
          split: prod.splits option.splits)
  qed
qed

lemma reg_builtins_loop_wf:
  "registry_wf r \<Longrightarrow> codes_ok E \<Longrightarrow> reg_builtins_loop E ds r = (n, r', evs) \<Longrightarrow> registry_wf r'"
  by (induction ds arbitrary: E r n evs)
    (auto split: prod.splits dest: reg_builtin_wf, meson later_ok(1) reg_builtin_wf)

text \<open>
  C2: every registry a program can build holds at most 32 entries with pairwise different
  names, each with at most 16 dependencies, and every string ends inside its array.
\<close>

theorem reg_reachable_wf:
  assumes "reg_reachable r"
  shows "registry_wf r"
  using assms
proof (induction rule: reg_reachable.induct)
  case (reach_create E r)
  then show ?case by (auto simp: proto_registry_create_def registry_wf_def split: if_splits)
next
  case (reach_set_event_callback r E cb data rc r' evs)
  then show ?case by (auto simp: registry_wf_def)
next
  case (reach_builtins r E defs rc r' evs)
  then show ?case by (cases defs) (auto split: prod.splits dest: reg_builtins_loop_wf)
qed (auto simp del: proto_registry_register.simps proto_registry_unregister.simps
    proto_registry_set_state.simps proto_registry_add_dependency.simps proto_registry_activate.simps
    proto_registry_deactivate.simps proto_registry_heartbeat.simps proto_registry_record_request.simps
    intro: register_wf unregister_wf set_state_wf add_dependency_wf activate_wf deactivate_wf
      heartbeat_wf record_request_wf)

theorem reg_reachable_wf_witness:
  "\<exists>r. reg_reachable r \<and> registry_wf r \<and> map re_name (reg_entries r) = [''mcp'']"
proof -
  obtain r0 where c: "proto_registry_create env0 = Some r0" "reg_entries r0 = []"
    by (simp add: proto_registry_create_def)
  have r0: "reg_reachable r0" using c(1) by (rule reach_create)
  let ?r1 = "r0\<lparr>reg_entries := [new_entry env0 ''mcp'' None None 1 1 0 None None]\<rparr>"
  have reg: "proto_registry_register env0 (Some r0) (Some ''mcp'') None None 1 1 0 None None =
    (0, Some ?r1, report r0 ''register'' ''mcp'' 0 1)"
    by (simp add: c find_entry_def)
  have "reg_reachable ?r1" using reach_register [OF r0 env0_ok(1) reg] .
  from this reg_reachable_wf [OF this] show ?thesis
    by (intro exI [of _ ?r1]) (simp add: new_entry_def)
qed

subsection \<open>The registry as a table keyed by name\<close>

type_synonym reg_args = "cstring option \<times> cstring option \<times> proto_category \<times> protocol_type \<times> u32
  \<times> ptr option \<times> ptr option"

definition reg_mk :: "env \<Rightarrow> cstring \<Rightarrow> reg_args \<Rightarrow> proto_registry_entry" where
  "reg_mk E n = (\<lambda>(v, d, c, t, caps, a, x). new_entry E n v d c t caps a x)"

definition reg_ins :: "env \<Rightarrow> cstring \<Rightarrow> reg_args \<Rightarrow> protocol_registry \<Rightarrow> protocol_registry option" where
  "reg_ins E n = (\<lambda>(v, d, c, t, caps, a, x) r.
     case proto_registry_register E (Some r) (Some n) v d c t caps a x of
       (rc, r', _) \<Rightarrow> if rc = 0 then r' else None)"

definition reg_del :: "env \<Rightarrow> cstring \<Rightarrow> protocol_registry \<Rightarrow> protocol_registry option" where
  "reg_del E n r = (case proto_registry_unregister E (Some r) (Some n) of
     (rc, r', _) \<Rightarrow> if rc = 0 then r' else None)"

definition reg_inv :: "env \<Rightarrow> protocol_registry \<Rightarrow> bool" where
  "reg_inv E r \<longleftrightarrow> registry_wf r \<and> codes_ok E"

lemma reg_ins_Some:
  "reg_ins E n (v, d, c, t, caps, a, x) r = Some r' \<Longrightarrow>
   \<exists>evs. proto_registry_register E (Some r) (Some n) v d c t caps a x = (0, Some r', evs)"
  unfolding reg_ins_def by (auto simp del: proto_registry_register.simps split: prod.splits if_splits)

lemma reg_del_Some:
  "reg_del E n r = Some r' \<Longrightarrow>
   \<exists>evs. proto_registry_unregister E (Some r) (Some n) = (0, Some r', evs)"
  unfolding reg_del_def by (auto simp del: proto_registry_unregister.simps split: prod.splits if_splits)

interpretation reg: name_table name_key reg_lookup "reg_ins E" "reg_mk E" "reg_del E" "reg_inv E"
  for E
proof
  fix r r' :: protocol_registry and j k :: cstring and a :: reg_args
  assume inv: "reg_inv E r"
  then have wf: "registry_wf r" and E: "codes_ok E" by (auto simp: reg_inv_def)
  obtain v d c t caps ad x where a: "a = (v, d, c, t, caps, ad, x)" by (cases a)
  show "reg_lookup r j = reg_lookup r k" if "name_key j = name_key k"
    using that wf by (simp add: reg_lookup_abs)
  {
    assume "reg_ins E k a r = Some r'"
    then obtain evs where reg:
      "proto_registry_register E (Some r) (Some k) v d c t caps ad x = (0, Some r', evs)"
      using reg_ins_Some a by blast
    note R = register_Some [OF wf reg E]
    show "reg_inv E r'" using R E by (simp add: reg_inv_def)
    show "reg_lookup r k = None" using R wf by (simp add: reg_lookup_abs)
    show "reg_lookup r' j = (if name_key j = name_key k then Some (reg_mk E k a) else reg_lookup r j)"
      using R wf by (simp add: reg_lookup_abs reg_mk_def a)
  }
  {
    assume "reg_del E k r = Some r'"
    then obtain evs where un: "proto_registry_unregister E (Some r) (Some k) = (0, Some r', evs)"
      using reg_del_Some by blast
    note U = unregister_Some [OF wf E un]
    show "reg_inv E r'" using U E by (simp add: reg_inv_def)
    show "reg_lookup r' j = (if name_key j = name_key k then None else reg_lookup r j)"
      using U wf by (simp add: reg_lookup_abs)
  }
  show "(\<exists>r'. reg_del E k r = Some r') \<longleftrightarrow> reg_lookup r k \<noteq> None"
    using E by (auto simp: reg_del_def reg_lookup_def split: option.split)
qed

text \<open>
  C3: registering a name makes it findable with the given data, makes a second
  registration under the same first 63 characters fail, and unregistering it again
  succeeds and restores the result of every lookup.
\<close>

theorem registry_register_unregister:
  assumes "registry_wf r" "codes_ok E"
    "proto_registry_register E (Some r) (Some n) v d c t caps a x = (0, Some r1, evs)"
  shows "reg_lookup r1 n = Some (new_entry E n v d c t caps a x) \<and>
    (name_key m = name_key n \<longrightarrow>
       fst (proto_registry_register E (Some r1) (Some m) v' d' c' t' caps' a' x') \<noteq> 0) \<and>
    (\<exists>r2 evs2. proto_registry_unregister E (Some r1) (Some n) = (0, Some r2, evs2) \<and>
       (\<forall>j. reg_lookup r2 j = reg_lookup r j))"
proof -
  have inv: "reg_inv E r" using assms by (simp add: reg_inv_def)
  have ins: "reg_ins E n (v, d, c, t, caps, a, x) r = Some r1"
    using assms(3) unfolding reg_ins_def by (simp del: proto_registry_register.simps)
  have "reg_lookup r1 n = Some (new_entry E n v d c t caps a x)"
    using reg.lookup_same [OF inv ins] by (simp add: reg_mk_def)
  moreover have "fst (proto_registry_register E (Some r1) (Some m) v' d' c' t' caps' a' x') \<noteq> 0"
    if "name_key m = name_key n"
  proof -
    have "reg_ins E m (v', d', c', t', caps', a', x') r1 = None"
      using reg.ins_twice_fails [OF inv ins that] .
    moreover obtain rc r' evs' where
      "proto_registry_register E (Some r1) (Some m) v' d' c' t' caps' a' x' = (rc, Some r', evs')"
      using register_result by blast
    ultimately show ?thesis
      unfolding reg_ins_def by (auto simp del: proto_registry_register.simps split: if_splits)
  qed
  moreover obtain r2 where "reg_del E n r1 = Some r2" "\<forall>j. reg_lookup r2 j = reg_lookup r j"
    using reg.ins_then_del [OF inv ins] by blast
  ultimately show ?thesis using reg_del_Some by blast
qed

theorem registry_register_unregister_witness:
  "\<exists>r r1 evs r2 evs2.
    proto_registry_register env0 (Some r) (Some ''a2a'') None None 1 2 0 None None = (0, Some r1, evs) \<and>
    proto_registry_unregister env0 (Some r1) (Some ''a2a'') = (0, Some r2, evs2) \<and>
    (\<forall>j. reg_lookup r2 j = reg_lookup r j)"
proof -
  let ?r = "\<lparr>reg_entries = [], reg_event_callback = None, reg_event_callback_data = None,
    reg_initialized = True\<rparr>"
  have wf: "registry_wf ?r" by (simp add: registry_wf_def)
  obtain r1 evs where reg:
    "proto_registry_register env0 (Some ?r) (Some ''a2a'') None None 1 2 0 None None = (0, Some r1, evs)"
    by (simp add: find_entry_def)
  from registry_register_unregister [OF wf env0_ok(1) reg] reg show ?thesis by blast
qed

subsection \<open>Activation and dependencies\<close>

lemma activate_result:
  assumes "registry_wf r" "codes_ok E" "reg_lookup r n = Some e"
  shows "\<exists>rc r' evs. proto_registry_activate E (Some r) (Some n) = (rc, Some r', evs) \<and>
    rc = (if \<forall>d \<in> set (re_dependencies e). usable (dep_state d) then 0 else err E AIRY_ERR_IO) \<and>
    reg_abs r' = (reg_abs r)(name_key n \<mapsto>
      (if \<forall>d \<in> set (re_dependencies e). usable (dep_state d)
       then e\<lparr>re_state := PROTO_STATE_ACTIVE, re_activated_at := time_s E 0\<rparr>
       else e\<lparr>re_state := PROTO_STATE_ERROR\<rparr>))"
proof -
  obtain i where i: "find_entry r n = Some i" and e: "reg_entries r ! i = e"
    using assms(3) by (auto simp: reg_lookup_def)
  have upd: "reg_abs (upd_entry i (enter_state E s) r) = (reg_abs r)(name_key n \<mapsto> enter_state E s e)"
    for s using upd_entry_abs [OF assms(1) i, of "enter_state E s"] e by simp
  show ?thesis
    by (auto simp: i e proto_reg_check_deps_def list_all_iff upd) (simp_all add: enter_state_def)
qed

text \<open>
  C4: activating a known entry succeeds exactly when each of its dependencies is recorded
  as ready or active; the entry is then active with its activation time. Otherwise the
  call reports an I/O error and the entry is in the error state. No other entry changes.
\<close>

theorem registry_activate_gated:
  assumes "registry_wf r" "codes_ok E" "reg_lookup r n = Some e"
  shows "\<exists>rc r' evs. proto_registry_activate E (Some r) (Some n) = (rc, Some r', evs) \<and>
    rc = (if \<forall>d \<in> set (re_dependencies e). usable (dep_state d) then 0 else err E AIRY_ERR_IO) \<and>
    reg_abs r' = (reg_abs r)(name_key n \<mapsto>
      (if \<forall>d \<in> set (re_dependencies e). usable (dep_state d)
       then e\<lparr>re_state := PROTO_STATE_ACTIVE, re_activated_at := time_s E 0\<rparr>
       else e\<lparr>re_state := PROTO_STATE_ERROR\<rparr>))"
  using assms by (rule activate_result)

text \<open>A registry in which \<open>''b''\<close> is active and \<open>''a''\<close> depends on it.\<close>

definition dep_example :: protocol_registry where
  "dep_example = \<lparr>reg_entries =
     [(new_entry env0 ''a'' None None 1 1 0 None None)\<lparr>re_dependencies :=
        [\<lparr>dep_name = ''b'', dep_state = PROTO_STATE_UNREGISTERED\<rparr>]\<rparr>,
      (new_entry env0 ''b'' None None 1 2 0 None None)\<lparr>re_state := PROTO_STATE_ACTIVE\<rparr>],
     reg_event_callback = None, reg_event_callback_data = None, reg_initialized = True\<rparr>"

lemma dep_example_wf: "registry_wf dep_example"
  by (simp add: dep_example_def registry_wf_def entry_wf_def dep_wf_def new_entry_def)

lemma dep_example_lookup:
  "reg_lookup dep_example ''a'' = Some (reg_entries dep_example ! 0)"
  "reg_lookup dep_example ''b'' = Some (reg_entries dep_example ! 1)"
  by (simp_all add: reg_lookup_def find_entry_def dep_example_def new_entry_def strncmp_eq_def)

theorem registry_activate_gated_witness:
  "\<exists>r' evs. proto_registry_activate env0 (Some dep_example) (Some ''a'') = (err env0 AIRY_ERR_IO, Some r', evs) \<and>
    reg_abs r' = (reg_abs dep_example)(''a'' \<mapsto> (reg_entries dep_example ! 0)\<lparr>re_state := PROTO_STATE_ERROR\<rparr>)"
  using registry_activate_gated [OF dep_example_wf env0_ok(1) dep_example_lookup(1)]
  by (auto simp: dep_example_def name_key_def simp del: proto_registry_activate.simps)

lemma heartbeat_abs:
  assumes "registry_wf r" "reg_lookup r n = Some e"
  shows "\<exists>r'. proto_registry_heartbeat E (Some r) (Some n) = (0, Some r', []) \<and> registry_wf r' \<and>
    reg_abs r' = (\<lambda>k. map_option (refresh_deps n (re_state e))
      (((reg_abs r)(name_key n \<mapsto> e\<lparr>re_last_heartbeat := time_s E 0\<rparr>)) k))"
proof -
  obtain i where i: "find_entry r n = Some i" and e: "reg_entries r ! i = e"
    using assms(2) by (auto simp: reg_lookup_def)
  let ?f = "\<lambda>e. e\<lparr>re_last_heartbeat := time_s E 0\<rparr>"
  let ?r1 = "upd_entry i ?f r"
  let ?r' = "?r1\<lparr>reg_entries := map (refresh_deps n (re_state e)) (reg_entries ?r1)\<rparr>"
  have st: "re_state (reg_entries ?r1 ! i) = re_state e"
    using find_entry_Some(1) [OF assms(1) i] e by (simp add: upd_entry_def)
  have hb: "proto_registry_heartbeat E (Some r) (Some n) = (0, Some ?r', [])" by (simp add: i st)
  have map_of_map_val: "map_of (map (\<lambda>e. (k (g e), g e)) xs) = (\<lambda>j. map_option g (map_of (map (\<lambda>e. (k e, e)) xs) j))"
    if "\<And>e. k (g e) = k e" for k :: "proto_registry_entry \<Rightarrow> cstring" and g xs
    using that by (induction xs) auto
  have "reg_abs ?r' = (\<lambda>j. map_option (refresh_deps n (re_state e)) (reg_abs ?r1 j))"
    using map_of_map_val [of re_name "refresh_deps n (re_state e)"] by (simp add: reg_abs_def o_def)
  moreover have "reg_abs ?r1 = (reg_abs r)(name_key n \<mapsto> ?f e)"
    using upd_entry_abs [OF assms(1) i, of ?f] e by simp
  ultimately show ?thesis using hb heartbeat_wf [OF assms(1) hb] by simp
qed

text \<open>
  A heartbeat of a ready or active entry lets its dependents start: an entry whose
  other dependencies are recorded as usable is activated by the next call.
\<close>

theorem registry_heartbeat_enables:
  assumes wf: "registry_wf r" and codes: "codes_ok E"
    and n: "reg_lookup r n = Some e" "usable (re_state e)"
    and m: "reg_lookup r m = Some f" "name_key m \<noteq> name_key n"
    and deps: "\<forall>d \<in> set (re_dependencies f). usable (dep_state d) \<or> same_name (dep_name d) n"
  shows "\<exists>r1 r2 evs. proto_registry_heartbeat E (Some r) (Some n) = (0, Some r1, []) \<and>
    proto_registry_activate E (Some r1) (Some m) = (0, Some r2, evs) \<and>
    map_option re_state (reg_lookup r2 m) = Some PROTO_STATE_ACTIVE"
proof -
  obtain r1 where hb: "proto_registry_heartbeat E (Some r) (Some n) = (0, Some r1, [])"
    and wf1: "registry_wf r1"
    and abs1: "reg_abs r1 = (\<lambda>k. map_option (refresh_deps n (re_state e))
      (((reg_abs r)(name_key n \<mapsto> e\<lparr>re_last_heartbeat := time_s E 0\<rparr>)) k))"
    using heartbeat_abs [OF wf n(1)] by blast
  let ?f = "refresh_deps n (re_state e) f"
  have l1: "reg_lookup r1 m = Some ?f"
    using m reg_lookup_abs [OF wf] reg_lookup_abs [OF wf1] by (simp add: abs1)
  have "\<forall>d \<in> set (re_dependencies ?f). usable (dep_state d)"
    using deps n(2) by (auto simp: refresh_deps_def)
  then obtain r2 evs where act: "proto_registry_activate E (Some r1) (Some m) = (0, Some r2, evs)"
    and abs2: "reg_abs r2 = (reg_abs r1)(name_key m \<mapsto>
      ?f\<lparr>re_state := PROTO_STATE_ACTIVE, re_activated_at := time_s E 0\<rparr>)"
    using activate_result [OF wf1 codes l1] by (auto simp del: proto_registry_activate.simps)
  have "reg_lookup r2 m = Some (?f\<lparr>re_state := PROTO_STATE_ACTIVE, re_activated_at := time_s E 0\<rparr>)"
    using reg_lookup_abs [OF activate_wf [OF wf1 act]] by (simp add: abs2)
  with hb act show ?thesis by (auto simp del: proto_registry_activate.simps proto_registry_heartbeat.simps)
qed

theorem registry_heartbeat_enables_witness:
  "\<exists>r1 r2 evs. proto_registry_heartbeat env0 (Some dep_example) (Some ''b'') = (0, Some r1, []) \<and>
    proto_registry_activate env0 (Some r1) (Some ''a'') = (0, Some r2, evs) \<and>
    map_option re_state (reg_lookup r2 ''a'') = Some PROTO_STATE_ACTIVE"
proof (rule registry_heartbeat_enables [OF dep_example_wf env0_ok(1) dep_example_lookup(2) _
      dep_example_lookup(1)])
qed (simp_all add: dep_example_def name_key_def)

subsection \<open>Statistics and listings\<close>

text \<open>A run of recorded requests: outcome and latency of each.\<close>

fun record_all :: "env \<Rightarrow> cstring \<Rightarrow> (bool \<times> real) list \<Rightarrow> protocol_registry \<Rightarrow> protocol_registry option" where
  "record_all E n [] r = Some r"
| "record_all E n ((ok, l) # qs) r =
    (case proto_registry_record_request E (Some r) (Some n) ok l of
       (rc, Some r', _) \<Rightarrow> if rc = 0 then record_all E n qs r' else None
     | _ \<Rightarrow> None)"

declare of_nat_unat [simp del]

lemma record_request_counts:
  assumes "unat (re_request_count e) + 1 < 2 ^ 64"
  shows "unat (re_request_count (record_request ok l e)) = unat (re_request_count e) + 1"
    "re_avg_latency_ms (record_request ok l e) * real (unat (re_request_count e) + 1) =
     re_avg_latency_ms e * real (unat (re_request_count e)) + l"
    "re_error_count (record_request ok l e) = re_error_count e + (if ok then 0 else 1)"
proof -
  have c: "unat (re_request_count e + 1) = unat (re_request_count e) + 1"
    using assms by (subst unat_add_lem [THEN iffD1]) auto
  then show "unat (re_request_count (record_request ok l e)) = unat (re_request_count e) + 1"
    by (simp add: record_request_def)
  show "re_avg_latency_ms (record_request ok l e) * real (unat (re_request_count e) + 1) =
     re_avg_latency_ms e * real (unat (re_request_count e)) + l"
    using c by (simp add: record_request_def)
  show "re_error_count (record_request ok l e) = re_error_count e + (if ok then 0 else 1)"
    by (simp add: record_request_def)
qed

lemma record_all_ok:
  assumes "registry_wf r" "reg_lookup r n = Some e" "unat (re_request_count e) + length qs < 2 ^ 64"
  shows "\<exists>r' e'. record_all E n qs r = Some r' \<and> reg_lookup r' n = Some e' \<and>
    unat (re_request_count e') = unat (re_request_count e) + length qs \<and>
    re_error_count e' = re_error_count e + of_nat (length (filter (\<lambda>(ok, l). \<not> ok) qs)) \<and>
    re_avg_latency_ms e' * real (unat (re_request_count e')) =
      re_avg_latency_ms e * real (unat (re_request_count e)) + sum_list (map snd qs)"
  using assms
proof (induction qs arbitrary: r e)
  case Nil
  then show ?case by simp
next
  case (Cons q qs)
  obtain ok l where q: "q = (ok, l)" by (cases q)
  obtain i where i: "find_entry r n = Some i" and e: "reg_entries r ! i = e"
    using Cons.prems(2) by (auto simp: reg_lookup_def)
  let ?r1 = "upd_entry i (record_request ok l) r" and ?e1 = "record_request ok l e"
  have step: "proto_registry_record_request E (Some r) (Some n) ok l = (0, Some ?r1, [])"
    by (simp add: i)
  have wf1: "registry_wf ?r1" using record_request_wf [OF Cons.prems(1) step] .
  have l1: "reg_lookup ?r1 n = Some ?e1"
    using upd_entry_abs [OF Cons.prems(1) i, of "record_request ok l"] e
    by (simp add: reg_lookup_abs [OF wf1])
  note c = record_request_counts [of e ok l]
  have "unat (re_request_count ?e1) + length qs < 2 ^ 64" using Cons.prems(3) c(1) by simp
  from Cons.IH [OF wf1 l1 this] Cons.prems(3) c step show ?case
    by (auto simp: q add.assoc simp del: proto_registry_record_request.simps)
qed

text \<open>
  After any number of recorded requests, the request count is their number, the error
  count the number of failures and the average latency their mean.
\<close>

theorem registry_average_latency:
  assumes "registry_wf r" "reg_lookup r n = Some e" "re_request_count e = 0" "re_error_count e = 0"
    "qs \<noteq> []" "length qs < 2 ^ 64"
  shows "\<exists>r' e'. record_all E n qs r = Some r' \<and> reg_lookup r' n = Some e' \<and>
    re_request_count e' = of_nat (length qs) \<and>
    re_error_count e' = of_nat (length (filter (\<lambda>(ok, l). \<not> ok) qs)) \<and>
    re_avg_latency_ms e' = sum_list (map snd qs) / real (length qs)"
proof -
  obtain r' e' where run: "record_all E n qs r = Some r'" "reg_lookup r' n = Some e'"
    and c: "unat (re_request_count e') = length qs"
    and er: "re_error_count e' = of_nat (length (filter (\<lambda>(ok, l). \<not> ok) qs))"
    and avg: "re_avg_latency_ms e' * real (length qs) = sum_list (map snd qs)"
    using record_all_ok [OF assms(1,2), of qs E] assms(3,4,6) by auto
  have "re_request_count e' = of_nat (length qs)" by (simp add: of_nat_unat flip: c)
  moreover have "re_avg_latency_ms e' = sum_list (map snd qs) / real (length qs)"
    using avg assms(5) by (simp add: field_simps)
  ultimately show ?thesis using run er by blast
qed

theorem registry_average_latency_witness:
  "\<exists>r' e'. record_all env0 ''b'' [(True, 2), (False, 4)] dep_example = Some r' \<and>
    reg_lookup r' ''b'' = Some e' \<and> re_request_count e' = 2 \<and> re_avg_latency_ms e' = 3"
  using registry_average_latency [OF dep_example_wf dep_example_lookup(2), of "[(True, 2), (False, 4)]" env0]
  by (auto simp: dep_example_def new_entry_def)

lemma select_count_filter: "select_count m es = length (filter m es)"
  by (induction es) auto

lemma select_copy_filter: "length (filter m es) \<le> n \<Longrightarrow> select_copy m n es = filter m es"
  by (induction es arbitrary: n) (auto simp: filter_empty_conv)

text \<open>
  The listings by category and of active entries return exactly the matching entries
  in registration order, and the count they return is the length of the array; with no
  match, or no memory, the count is 0 and no array is given.
\<close>

theorem registry_select_filter:
  "registry_select E (Some r) m =
    (if filter m (reg_entries r) \<noteq> [] \<and> mem E 0
     then (length (filter m (reg_entries r)), Some (filter m (reg_entries r)))
     else (0, None))"
  by (auto simp: registry_select_def select_count_filter select_copy_filter)

subsection \<open>Built-in entries\<close>

text \<open>The entry a built-in definition becomes, and the entries of a whole table.\<close>

definition builtin_entry :: "env \<Rightarrow> proto_builtin_def \<Rightarrow> proto_registry_entry" where
  "builtin_entry E d = (new_entry E (bd_name d) (bd_version d) (bd_description d) (bd_category d)
     (bd_type d) (bd_capabilities d) (bd_adapter d) (bd_context d))
     \<lparr>re_is_builtin := True, re_state := PROTO_STATE_ACTIVE, re_activated_at := time_s E 1\<rparr>"

fun builtin_entries :: "env \<Rightarrow> proto_builtin_def list \<Rightarrow> proto_registry_entry list" where
  "builtin_entries E [] = []"
| "builtin_entries E (d # ds) = builtin_entry E d # builtin_entries (later 2 E) ds"

lemma same_name_new: "same_name (snprintf PROTO_REGISTRY_NAME_MAX_LEN n) m \<longleftrightarrow> name_key n = name_key m"
  by (simp add: strncmp_eq_def snprintf_def name_key_def)

lemma find_entry_append:
  assumes "find_entry r n = None" "re_name e = snprintf PROTO_REGISTRY_NAME_MAX_LEN m"
  shows "find_entry (r\<lparr>reg_entries := reg_entries r @ [e]\<rparr>) n =
    (if name_key m = name_key n then Some (length (reg_entries r)) else None)"
  using assms same_name_new [of m n] by (simp add: find_entry_def find_idx_append)

lemma reg_builtin_exact:
  assumes len: "length (reg_entries r) < PROTO_REGISTRY_MAX_ADAPTERS"
    and fresh: "find_entry r (bd_name d) = None"
  shows "\<exists>evs. reg_builtin E d r = (1, r\<lparr>reg_entries := reg_entries r @ [builtin_entry E d]\<rparr>, evs)"
proof -
  let ?n = "bd_name d" and ?i = "length (reg_entries r)"
  let ?e = "new_entry E ?n (bd_version d) (bd_description d) (bd_category d) (bd_type d)
    (bd_capabilities d) (bd_adapter d) (bd_context d)"
  let ?r1 = "r\<lparr>reg_entries := reg_entries r @ [?e]\<rparr>"
  let ?r2 = "r\<lparr>reg_entries := reg_entries r @ [?e\<lparr>re_is_builtin := True\<rparr>]\<rparr>"
  have upd: "upd_entry ?i (\<lambda>e. e\<lparr>re_is_builtin := True\<rparr>) ?r1 = ?r2" by (simp add: upd_entry_def)
  have nm: "re_name ?e = snprintf PROTO_REGISTRY_NAME_MAX_LEN ?n" by (simp add: new_entry_def)
  have f1: "find_entry ?r1 ?n = Some ?i" using find_entry_append [OF fresh nm] by simp
  have f2: "find_entry ?r2 ?n = Some ?i"
    using find_entry_append [OF fresh, of "?e\<lparr>re_is_builtin := True\<rparr>" ?n] nm by simp
  have deps: "re_dependencies ?e = []" by (simp add: new_entry_def)
  have act: "\<exists>evs. proto_registry_activate (later 1 E) (Some ?r2) (Some ?n) =
      (0, Some (r\<lparr>reg_entries := reg_entries r @ [builtin_entry E d]\<rparr>), evs)"
    by (simp add: f2 proto_reg_check_deps_def deps upd_entry_def enter_state_def builtin_entry_def)
  show ?thesis
    using len fresh f1 act unfolding reg_builtin_def
    by (auto simp: upd simp del: proto_registry_activate.simps)
qed

lemma reg_builtins_loop_exact:
  assumes "length (reg_entries r) + length defs \<le> PROTO_REGISTRY_MAX_ADAPTERS"
    "distinct (map (name_key \<circ> bd_name) defs)" "\<forall>d \<in> set defs. find_entry r (bd_name d) = None"
  shows "\<exists>evs. reg_builtins_loop E defs r =
      (length defs, r\<lparr>reg_entries := reg_entries r @ builtin_entries E defs\<rparr>, evs)"
  using assms
proof (induction defs arbitrary: E r)
  case Nil
  then show ?case by simp
next
  case (Cons d ds)
  let ?r1 = "r\<lparr>reg_entries := reg_entries r @ [builtin_entry E d]\<rparr>"
  obtain ev1 where b: "reg_builtin E d r = (1, ?r1, ev1)"
    using reg_builtin_exact [of r d E] Cons.prems by auto
  have nm: "re_name (builtin_entry E d) = snprintf PROTO_REGISTRY_NAME_MAX_LEN (bd_name d)"
    by (simp add: builtin_entry_def new_entry_def)
  have "\<forall>d' \<in> set ds. find_entry ?r1 (bd_name d') = None"
    using Cons.prems(2,3) find_entry_append [OF _ nm] by (auto simp: image_iff)
  then obtain ev2 where "reg_builtins_loop (later 2 E) ds ?r1 = (length ds,
      ?r1\<lparr>reg_entries := reg_entries ?r1 @ builtin_entries (later 2 E) ds\<rparr>, ev2)"
    using Cons.IH [of ?r1 "later 2 E"] Cons.prems by auto
  with b show ?case by simp
qed

text \<open>
  Loading built-in definitions with different names into a registry that has room for
  them and none of these names yet registers every one of them, in order, as an active
  entry marked built-in.
\<close>

theorem registry_builtins_loaded:
  assumes "length (reg_entries r) + length defs \<le> PROTO_REGISTRY_MAX_ADAPTERS"
    "distinct (map (name_key \<circ> bd_name) defs)" "\<forall>d \<in> set defs. find_entry r (bd_name d) = None"
  shows "\<exists>evs. proto_reg_builtins E (Some r) (Some defs) =
    (int (length defs), Some (r\<lparr>reg_entries := reg_entries r @ builtin_entries E defs\<rparr>), evs)"
  using reg_builtins_loop_exact [OF assms, of E] by auto

theorem registry_builtins_loaded_witness:
  "\<exists>r' evs. proto_reg_builtins env0 (Some dep_example)
      (Some [\<lparr>bd_name = ''mcp'', bd_version = None, bd_description = None, bd_category = 1,
        bd_type = 1, bd_capabilities = 0, bd_adapter = None, bd_context = None\<rparr>]) = (1, Some r', evs) \<and>
    length (reg_entries r') = 3"
  using registry_builtins_loaded [of dep_example
    "[\<lparr>bd_name = ''mcp'', bd_version = None, bd_description = None, bd_category = 1,
        bd_type = 1, bd_capabilities = 0, bd_adapter = None, bd_context = None\<rparr>]" env0]
  by (auto simp: dep_example_def find_entry_def new_entry_def strncmp_eq_def
      simp del: proto_reg_builtins.simps)

subsection \<open>The JSON export\<close>

fun entries_text :: "bool \<Rightarrow> proto_registry_entry list \<Rightarrow> string" where
  "entries_text first [] = []"
| "entries_text first (e # es) = (if first then [] else '','') @ entry_text e @ entries_text False es"

definition registry_text :: "protocol_registry \<Rightarrow> string" where
  "registry_text r = export_header (length (reg_entries r)) @ entries_text True (reg_entries r) @ '']}''"

lemma export_loop_fits:
  assumes "sb_off b = length (sb_text b)" "sb_off b + length (entries_text first es) + 200 \<le> n"
    "es = [] \<or> 0 < n"
  shows "export_loop n first es (Some b) = Some \<lparr>sb_text = sb_text b @ entries_text first es,
    sb_off = sb_off b + length (entries_text first es)\<rparr>"
  using assms
proof (induction es arbitrary: first b)
  case Nil
  then show ?case by simp
next
  case (Cons e es)
  have pos: "0 < length (entry_text e)" by (simp add: entry_text_def)
  define b' where "b' = \<lparr>sb_text = sb_text b @ (if first then [] else '','') @ entry_text e,
    sb_off = sb_off b + length ((if first then [] else '','') @ entry_text e)\<rparr>"
  have put: "sb_put n (entry_text e) (if first then Some b else sb_put n '','' (Some b)) = Some b'"
    using Cons.prems by (auto simp: sb_put_def b'_def)
  have lim: "sb_off b < export_limit n"
    using Cons.prems pos unfolding export_limit_def by (cases first) (simp_all add: less_diff_conv del: length_greater_0_conv)
  have "export_loop n False es (Some b') = Some \<lparr>sb_text = sb_text b' @ entries_text False es,
      sb_off = sb_off b' + length (entries_text False es)\<rparr>"
    using Cons.prems by (intro Cons.IH) (auto simp: b'_def split: if_splits)
  then show ?case using lim put by (simp add: b'_def split: if_splits)
qed

text \<open>
  Exporting into a buffer that has 200 bytes to spare writes the complete JSON text
  of the registry, every entry in order, and reports success.
\<close>

theorem registry_export_complete:
  assumes "length (registry_text r) + 200 \<le> n"
  shows "proto_registry_export_json E (Some r) True n = Some (0, Some (registry_text r))"
proof -
  let ?h = "export_header (length (reg_entries r))"
  have len: "length ?h + length (entries_text True (reg_entries r)) + 202 \<le> n"
    using assms by (simp add: registry_text_def)
  have put: "sb_put n ?h (Some \<lparr>sb_text = [], sb_off = 0\<rparr>) = Some \<lparr>sb_text = ?h, sb_off = length ?h\<rparr>"
    using len by (simp add: sb_put_def)
  have loop: "export_loop n True (reg_entries r) (Some \<lparr>sb_text = ?h, sb_off = length ?h\<rparr>) =
    Some \<lparr>sb_text = ?h @ entries_text True (reg_entries r),
      sb_off = length ?h + length (entries_text True (reg_entries r))\<rparr>"
    using len export_loop_fits [of "\<lparr>sb_text = ?h, sb_off = length ?h\<rparr>" True "reg_entries r" n] by simp
  have n: "\<not> n < 128" using len by simp
  show ?thesis
    unfolding proto_registry_export_json.simps put loop using len n
    by (simp add: sb_put_def registry_text_def)
qed

theorem registry_export_complete_witness:
  "proto_registry_export_json env0 (Some \<lparr>reg_entries = [], reg_event_callback = None,
      reg_event_callback_data = None, reg_initialized = True\<rparr>) True 512 =
    Some (0, Some ''{\"registry_version\":\"2.1.0\",\"total\":0,\"entries\":[]}'')"
  using registry_export_complete [of "\<lparr>reg_entries = [], reg_event_callback = None,
      reg_event_callback_data = None, reg_initialized = True\<rparr>" 512 env0]
  by (simp add: registry_text_def export_header_def proto_registry_version_def show_nat.simps
      del: proto_registry_export_json.simps)

text \<open>
  A 128-byte buffer passes the size check, but with at least one entry registered the
  export writes past its end: the check on the remaining space wraps around.
\<close>

theorem registry_export_overrun:
  assumes "reg_entries r \<noteq> []"
  shows "proto_registry_export_json E (Some r) True 128 = None"
proof -
  let ?h = "export_header (length (reg_entries r))"
  obtain e es where r: "reg_entries r = e # es" using assms by (cases "reg_entries r") auto
  have over: "128 < sb_off b \<Longrightarrow> sb_put 128 '']}'' (export_loop 128 first xs (Some b)) = None" for b first xs
    by (cases xs) (auto simp: sb_put_def)
  have len: "80 \<le> length (entry_text e)" by (simp add: entry_text_def show_fixed2_def)
  define b0 where "b0 = \<lparr>sb_text = take 127 ?h, sb_off = length ?h\<rparr>"
  have put: "sb_put 128 ?h (Some \<lparr>sb_text = [], sb_off = 0\<rparr>) = Some b0"
    by (simp add: sb_put_def b0_def)
  have "sb_put 128 '']}'' (export_loop 128 True (e # es) (Some b0)) = None"
  proof (cases "128 < sb_off b0")
    case True
    then show ?thesis by (rule over)
  next
    case False
    then obtain b1 where b1: "sb_put 128 (entry_text e) (Some b0) = Some b1"
      and off: "sb_off b1 = sb_off b0 + length (entry_text e)"
      by (auto simp: sb_put_def)
    have "49 \<le> sb_off b0" by (simp add: b0_def export_header_def proto_registry_version_def Suc_le_eq)
    then have "128 < sb_off b1" using off len by simp
    moreover have "sb_off b0 < export_limit 128" using False by (simp add: export_limit_def)
    ultimately show ?thesis by (simp add: b1 over)
  qed
  then have "sb_put 128 '']}'' (export_loop 128 True (reg_entries r)
      (sb_put 128 ?h (Some \<lparr>sb_text = [], sb_off = 0\<rparr>))) = None"
    by (simp only: put r [symmetric])
  then show ?thesis by simp
qed

theorem registry_export_overrun_witness:
  "proto_registry_export_json env0 (Some dep_example) True 128 = None"
  using registry_export_overrun [of dep_example env0] by (simp add: dep_example_def)

end
