(* ===== verification/Protocol_Catalog.thy ===== *)
theory Protocol_Catalog
  imports Protocol_Registry
begin

text \<open>
  The assembly data and the directory: the built-in table of
  \<open>catalog/src/protocol_catalog_default.c\<close>, the provider table of
  \<open>standards/src/protocol_std_providers.c\<close> and the discovery interface of
  \<open>src/airy_protocol_interface.c\<close>, which loads the table into the process-wide registry
  and answers name and type queries.

  The addresses of the two adapter structures, with the context each points to, are
  arguments. The static variables of the interface are one record.
\<close>

section \<open>The built-in table\<close>

abbreviation AIRY_PROTOCOL_OPENAI :: protocol_type where "AIRY_PROTOCOL_OPENAI \<equiv> 3"
abbreviation AIRY_PROTOCOL_OPENJIUWEN :: protocol_type where "AIRY_PROTOCOL_OPENJIUWEN \<equiv> 4"
abbreviation AIRY_PROTOCOL_CLAUDE :: protocol_type where "AIRY_PROTOCOL_CLAUDE \<equiv> 5"
abbreviation AIRY_PROTOCOL_CHINA_ECO :: protocol_type where "AIRY_PROTOCOL_CHINA_ECO \<equiv> 6"
abbreviation AIRY_PROTOCOL_OPENCLAW :: protocol_type where "AIRY_PROTOCOL_OPENCLAW \<equiv> 8"

abbreviation PROTO_CAP_STREAMING :: u32 where "PROTO_CAP_STREAMING \<equiv> 0x0002"
abbreviation PROTO_CAP_RESOURCE_ACCESS :: u32 where "PROTO_CAP_RESOURCE_ACCESS \<equiv> 0x0010"
abbreviation PROTO_CAP_AGENT_DISCOVERY :: u32 where "PROTO_CAP_AGENT_DISCOVERY \<equiv> 0x0020"
abbreviation PROTO_CAP_EMBEDDINGS :: u32 where "PROTO_CAP_EMBEDDINGS \<equiv> 0x0100"
abbreviation PROTO_CAP_BATCH :: u32 where "PROTO_CAP_BATCH \<equiv> 0x00010000"
abbreviation PROTO_CAP_TOOL_CALLING :: u32 where "PROTO_CAP_TOOL_CALLING \<equiv> 0x00020000"
abbreviation PROTO_CAP_CONSENSUS :: u32 where "PROTO_CAP_CONSENSUS \<equiv> 0x00040000"
abbreviation PROTO_CAP_BINARY :: u32 where "PROTO_CAP_BINARY \<equiv> 0x00080000"
abbreviation PROTO_CAP_LOW_LATENCY :: u32 where "PROTO_CAP_LOW_LATENCY \<equiv> 0x00100000"
abbreviation PROTO_CAP_CRC_CHECKSUM :: u32 where "PROTO_CAP_CRC_CHECKSUM \<equiv> 0x00200000"
abbreviation PROTO_CAP_MULTIMODAL :: u32 where "PROTO_CAP_MULTIMODAL \<equiv> 0x00400000"
abbreviation PROTO_CAP_VISION :: u32 where "PROTO_CAP_VISION \<equiv> 0x00800000"
abbreviation PROTO_CAP_EXTENDED_THINKING :: u32 where "PROTO_CAP_EXTENDED_THINKING \<equiv> 0x01000000"

text \<open>The descriptions are UTF-8; bytes outside ASCII are given by number.\<close>

definition g_catalog_defs :: "proto_builtin_def list" where
  "g_catalog_defs = [
     \<lparr>bd_name = ''JSON-RPC'', bd_version = Some ''2.0'',
      bd_description = Some (map char_of [0xE5, 0x8E, 0x9F, 0xE7, 0x94, 0x9F :: nat] @ ''JSON-RPC 2.0'' @ map char_of [0xE5,
        0x8D, 0x8F, 0xE8, 0xAE, 0xAE, 0xE9, 0x80, 0x82, 0xE9, 0x85, 0x8D, 0xE5,
        0x99, 0xA8 :: nat]),
      bd_category = PROTO_CAT_CORE, bd_type = AIRY_PROTOCOL_JSON_RPC,
      bd_capabilities = PROTO_CAP_STREAMING OR PROTO_CAP_BATCH,
      bd_adapter = None, bd_context = None\<rparr>,
     \<lparr>bd_name = ''MCP'', bd_version = Some ''1.0'',
      bd_description = Some (''Model Context Protocol v1.0''),
      bd_category = PROTO_CAT_STANDARD, bd_type = AIRY_PROTOCOL_MCP,
      bd_capabilities = PROTO_CAP_TOOL_CALLING OR PROTO_CAP_STREAMING OR PROTO_CAP_RESOURCE_ACCESS,
      bd_adapter = None, bd_context = None\<rparr>,
     \<lparr>bd_name = ''A2A'', bd_version = Some ''0.3'',
      bd_description = Some (''Agent-to-Agent Protocol v0.3''),
      bd_category = PROTO_CAT_STANDARD, bd_type = AIRY_PROTOCOL_A2A,
      bd_capabilities = PROTO_CAP_AGENT_DISCOVERY OR PROTO_CAP_STREAMING OR PROTO_CAP_CONSENSUS,
      bd_adapter = None, bd_context = None\<rparr>,
     \<lparr>bd_name = ''openai'', bd_version = Some ''1.0'',
      bd_description = Some (''OpenAI '' @ map char_of [0xE5, 0x85, 0xBC, 0xE5, 0xAE, 0xB9 :: nat] @ '' Chat Completions API '' @ map char_of [0xE9,
        0x80, 0x82, 0xE9, 0x85, 0x8D, 0xE5, 0x99, 0xA8 :: nat]),
      bd_category = PROTO_CAT_INTEGRATION, bd_type = AIRY_PROTOCOL_OPENAI,
      bd_capabilities = PROTO_CAP_STREAMING OR PROTO_CAP_TOOL_CALLING OR PROTO_CAP_EMBEDDINGS,
      bd_adapter = None, bd_context = None\<rparr>,
     \<lparr>bd_name = ''openjiuwen'', bd_version = Some ''1.0'',
      bd_description = Some (''OpenJiuwen '' @ map char_of [0xE8, 0x87, 0xAA, 0xE5, 0xAE, 0x9A, 0xE4,
        0xB9, 0x89, 0xE4, 0xBA, 0x8C, 0xE8, 0xBF, 0x9B, 0xE5, 0x88, 0xB6, 0xE5,
        0x8D, 0x8F, 0xE8, 0xAE, 0xAE :: nat]),
      bd_category = PROTO_CAT_INTEGRATION, bd_type = AIRY_PROTOCOL_OPENJIUWEN,
      bd_capabilities = PROTO_CAP_BINARY OR PROTO_CAP_LOW_LATENCY OR PROTO_CAP_CRC_CHECKSUM,
      bd_adapter = None, bd_context = None\<rparr>,
     \<lparr>bd_name = ''openclaw'', bd_version = Some ''1.0'',
      bd_description = Some (''OpenClaw '' @ map char_of [0xE4, 0xB9, 0x9D, 0xE9, 0x97, 0xAE, 0xE5, 0xB9,
        0xB3, 0xE5, 0x8F, 0xB0, 0xE9, 0x9B, 0x86, 0xE6, 0x88, 0x90, 0xE9, 0x80,
        0x82, 0xE9, 0x85, 0x8D, 0xE5, 0x99, 0xA8 :: nat]),
      bd_category = PROTO_CAT_INTEGRATION, bd_type = AIRY_PROTOCOL_OPENCLAW,
      bd_capabilities = PROTO_CAP_MULTIMODAL OR PROTO_CAP_STREAMING OR PROTO_CAP_AGENT_DISCOVERY OR PROTO_CAP_TOOL_CALLING,
      bd_adapter = None, bd_context = None\<rparr>,
     \<lparr>bd_name = ''Claude'', bd_version = Some ''1.0'',
      bd_description = Some (''Anthropic Claude API'' @ map char_of [0xE9, 0x80, 0x82, 0xE9, 0x85, 0x8D,
        0xE5, 0x99, 0xA8 :: nat]),
      bd_category = PROTO_CAT_INTEGRATION, bd_type = AIRY_PROTOCOL_CLAUDE,
      bd_capabilities = PROTO_CAP_STREAMING OR PROTO_CAP_TOOL_CALLING OR PROTO_CAP_VISION OR PROTO_CAP_EXTENDED_THINKING,
      bd_adapter = None, bd_context = None\<rparr>,
     \<lparr>bd_name = ''ChinaEco'', bd_version = Some ''1.0'',
      bd_description = Some (map char_of [0xE5, 0x9B, 0xBD, 0xE5, 0x86, 0x85, 0xE5, 0xA4, 0xA7, 0xE6,
        0xA8, 0xA1, 0xE5, 0x9E, 0x8B, 0xE7, 0x94, 0x9F, 0xE6, 0x80, 0x81, 0xE7,
        0xBB, 0x9F, 0xE4, 0xB8, 0x80, 0xE5, 0x85, 0xBC, 0xE5, 0xAE, 0xB9, 0xE9,
        0x80, 0x82, 0xE9, 0x85, 0x8D, 0xE5, 0x99, 0xA8 :: nat]),
      bd_category = PROTO_CAT_INTEGRATION, bd_type = AIRY_PROTOCOL_CHINA_ECO,
      bd_capabilities = PROTO_CAP_STREAMING OR PROTO_CAP_TOOL_CALLING OR PROTO_CAP_EMBEDDINGS,
      bd_adapter = None, bd_context = None\<rparr>]"


text \<open>An adapter accessor: the address of the adapter and its \<open>context\<close> field.\<close>

type_synonym adapter_ref = "ptr \<times> ptr option"

text \<open>The MCP line is compiled in when \<open>AIRY_HAS_MCP\<close> is defined.\<close>

definition proto_std_providers :: "adapter_ref \<Rightarrow> adapter_ref option \<Rightarrow> (protocol_type \<times> adapter_ref) list" where
  "proto_std_providers a2a mcp = (AIRY_PROTOCOL_A2A, a2a) #
     (case mcp of None \<Rightarrow> [] | Some m \<Rightarrow> [(AIRY_PROTOCOL_MCP, m)])"

fun catalog_adapter_of :: "(protocol_type \<times> adapter_ref) list \<Rightarrow> protocol_type \<Rightarrow> adapter_ref option" where
  "catalog_adapter_of [] type = None"
| "catalog_adapter_of (p # ps) type = (if fst p = type then Some (snd p) else catalog_adapter_of ps type)"

definition proto_catalog_defs :: "adapter_ref \<Rightarrow> adapter_ref option \<Rightarrow> proto_builtin_def list" where
  "proto_catalog_defs a2a mcp = map (\<lambda>d.
     let adapter = catalog_adapter_of (proto_std_providers a2a mcp) (bd_type d)
     in d\<lparr>bd_adapter := map_option fst adapter, bd_context := Option.bind adapter snd\<rparr>) g_catalog_defs"

section \<open>The directory\<close>

record proto_adapter_entry =
  pe_name :: "cstring option"
  pe_version :: "cstring option"
  pe_description :: "cstring option"
  pe_type :: protocol_type
  pe_capabilities :: u32
  pe_is_builtin :: bool

record proto_interface =
  if_adapters :: "proto_adapter_entry list"
  if_adapter_count :: nat
  if_registered :: bool
  if_registry :: "protocol_registry option"

definition interface_start :: proto_interface where
  "interface_start = \<lparr>if_adapters = [], if_adapter_count = 0, if_registered = False, if_registry = None\<rparr>"

text \<open>
  One directory entry per active registry entry, pushed at the front. Four allocations
  each: the node and three strings.
\<close>

fun push_entries :: "env \<Rightarrow> proto_registry_entry list \<Rightarrow> proto_interface \<Rightarrow> proto_interface" where
  "push_entries E [] s = s"
| "push_entries E (e # es) s =
    (if \<not> mem E 0 then push_entries (later 1 E) es s
     else push_entries (later 4 E) es
       (s\<lparr>if_adapters := \<lparr>pe_name = strdup E 1 (re_name e), pe_version = strdup E 2 (re_version e),
             pe_description = strdup E 3 (re_description e), pe_type = re_type e,
             pe_capabilities = re_capabilities e, pe_is_builtin = True\<rparr> # if_adapters s,
          if_adapter_count := if_adapter_count s + 1\<rparr>))"

definition proto_interface_register_builtins ::
  "env \<Rightarrow> proto_builtin_def list \<Rightarrow> proto_interface \<Rightarrow> int \<times> proto_interface" where
  "proto_interface_register_builtins E defs s =
    (if if_registered s then (0, s)
     else case proto_registry_get E (if_registry s) of
       None \<Rightarrow> (err E AIRY_EINVAL, s)
     | Some registry \<Rightarrow>
        (let s = s\<lparr>if_registry := Some registry\<rparr> in
         if defs = [] then (err E AIRY_EINVAL, s)
         else case proto_reg_builtins (later 1 E) (Some registry) (Some defs) of
           (count, registry', _) \<Rightarrow>
             (let s = s\<lparr>if_registry := registry'\<rparr>;
                  s = (if count > 0
                       then push_entries (later 2 E)
                              (case snd (proto_registry_list_active (later 1 E) registry') of
                                 None \<Rightarrow> [] | Some es \<Rightarrow> es) s
                       else s)
              in (count, s\<lparr>if_registered := True\<rparr>))))"

text \<open>Comparing with an entry whose name could not be copied dereferences NULL: \<open>None\<close>.\<close>

fun find_directory :: "proto_adapter_entry list \<Rightarrow> cstring \<Rightarrow> proto_adapter_entry option option" where
  "find_directory [] name = Some None"
| "find_directory (e # es) name = (case pe_name e of
      None \<Rightarrow> None
    | Some n \<Rightarrow> if n = name then Some (Some e) else find_directory es name)"

definition proto_interface_find ::
  "proto_interface \<Rightarrow> cstring option \<Rightarrow> proto_adapter_entry option option" where
  "proto_interface_find s name = (case name of None \<Rightarrow> Some None
     | Some n \<Rightarrow> find_directory (if_adapters s) n)"

definition dir_name_text :: "proto_adapter_entry \<Rightarrow> string" where
  "dir_name_text e = ''\"'' @ (case pe_name e of None \<Rightarrow> ''unknown'' | Some n \<Rightarrow> n) @ ''\"''"

fun dir_pieces :: "bool \<Rightarrow> proto_adapter_entry list \<Rightarrow> string list" where
  "dir_pieces first [] = []"
| "dir_pieces first (e # es) = (if first then [] else ['','']) @ dir_name_text e # dir_pieces False es"

text \<open>The outer \<open>None\<close> is a write outside the allocated buffer.\<close>

definition proto_interface_list_all :: "env \<Rightarrow> proto_interface \<Rightarrow> bool \<Rightarrow> (int \<times> string option) option" where
  "proto_interface_list_all E s json_output =
    (if \<not> json_output then Some (err E AIRY_EINVAL, None)
     else
       (let buf_size = 512 + if_adapter_count s * 256 in
        if \<not> mem E 0 then Some (err E AIRY_ERR_OUT_OF_MEMORY, None)
        else case sb_puts buf_size ([''{\"adapters\":[''] @ dir_pieces True (if_adapters s) @
               [''],\"count\":'' @ show_nat (if_adapter_count s) @ ''}'']) of
            None \<Rightarrow> None
          | Some b \<Rightarrow> Some (0, Some (sb_text b))))"

text \<open>Type queries create the registry when there is none, so they return the interface too.\<close>

definition proto_interface_type_name :: "env \<Rightarrow> proto_interface \<Rightarrow> protocol_type \<Rightarrow> cstring \<times> proto_interface" where
  "proto_interface_type_name E s type =
    (if type \<ge> AIRY_PROTOCOL_VENDOR_BASE
     then (let registry = proto_registry_get E (if_registry s);
               s' = s\<lparr>if_registry := registry\<rparr>
           in case proto_registry_find_by_type registry type of
                Some i \<Rightarrow> (let n = re_name (reg_entries (the registry) ! i)
                          in if n \<noteq> [] then (n, s') else (protocol_type_name type, s'))
              | None \<Rightarrow> (protocol_type_name type, s'))
     else (protocol_type_name type, s))"

definition proto_interface_parse_type :: "env \<Rightarrow> proto_interface \<Rightarrow> cstring option \<Rightarrow> protocol_type \<times> proto_interface" where
  "proto_interface_parse_type E s name = (case name of
      None \<Rightarrow> (AIRY_PROTOCOL_CUSTOM, s)
    | Some n \<Rightarrow>
       (let registry = proto_registry_get E (if_registry s);
            s' = s\<lparr>if_registry := registry\<rparr>
        in case proto_registry_find registry (Some n) of
             Some i \<Rightarrow> (re_type (reg_entries (the registry) ! i), s')
           | None \<Rightarrow> (protocol_type_from_string (Some n), s')))"

section \<open>Loading the table\<close>

lemma builtin_entry_sel [simp]:
  "re_name (builtin_entry E d) = name_key (bd_name d)" "re_type (builtin_entry E d) = bd_type d"
  "re_state (builtin_entry E d) = PROTO_STATE_ACTIVE"
  by (simp_all add: builtin_entry_def new_entry_def snprintf_def name_key_def)

lemma builtin_entries_maps [simp]:
  "length (builtin_entries E ds) = length ds"
  "map re_name (builtin_entries E ds) = map (name_key \<circ> bd_name) ds"
  "map re_type (builtin_entries E ds) = map bd_type ds"
  "map re_state (builtin_entries E ds) = map (\<lambda>_. PROTO_STATE_ACTIVE) ds"
  by (induction ds arbitrary: E) auto

lemma builtin_entries_nth:
  "i < length ds \<Longrightarrow> re_name (builtin_entries E ds ! i) = name_key (bd_name (ds ! i))"
  "i < length ds \<Longrightarrow> re_type (builtin_entries E ds ! i) = bd_type (ds ! i)"
  "i < length ds \<Longrightarrow> re_state (builtin_entries E ds ! i) = PROTO_STATE_ACTIVE"
proof (induction ds arbitrary: E i)
  case (Cons d ds)
  { case 1 then show ?case using Cons(1) by (cases i) auto }
  { case 2 then show ?case using Cons(2) by (cases i) auto }
  { case 3 then show ?case using Cons(3) by (cases i) auto }
qed simp_all

lemma find_type_builtin:
  assumes "distinct (map bd_type ds)" "i < length ds"
  shows "find_idx (\<lambda>e. re_type e = bd_type (ds ! i) \<and> usable (re_state e)) (builtin_entries E ds) = Some i"
  using assms by (auto simp: find_idx_Some builtin_entries_nth distinct_conv_nth)

lemma find_name_builtin:
  assumes "distinct (map (name_key \<circ> bd_name) ds)" "i < length ds" "reg_entries r = builtin_entries E ds"
  shows "find_entry r (bd_name (ds ! i)) = Some i"
  using assms
  by (auto simp: find_entry_def find_idx_Some builtin_entries_nth distinct_conv_nth strncmp_eq_def
      name_key_def)

text \<open>The parts of the table the queries depend on.\<close>

lemma catalog_names:
  "map bd_name (proto_catalog_defs a2a mcp) =
    [''JSON-RPC'', ''MCP'', ''A2A'', ''openai'', ''openjiuwen'', ''openclaw'', ''Claude'', ''ChinaEco'']"
  "map bd_type (proto_catalog_defs a2a mcp) = [0, 1, 2, 3, 4, 8, 5, 6]"
  by (simp_all add: proto_catalog_defs_def g_catalog_defs_def)

lemma catalog_length: "length (proto_catalog_defs a2a mcp) = 8"
  using arg_cong [OF catalog_names(1), of length] by simp

lemma catalog_distinct:
  "distinct (map bd_type (proto_catalog_defs a2a mcp))"
  "distinct (map (name_key \<circ> bd_name) (proto_catalog_defs a2a mcp))"
proof -
  show "distinct (map bd_type (proto_catalog_defs a2a mcp))" by (simp add: catalog_names)
  have "map (name_key \<circ> bd_name) (proto_catalog_defs a2a mcp) = map name_key (map bd_name (proto_catalog_defs a2a mcp))"
    by simp
  then show "distinct (map (name_key \<circ> bd_name) (proto_catalog_defs a2a mcp))"
    unfolding catalog_names by (simp add: name_key_def)
qed

definition dir_entry :: "proto_registry_entry \<Rightarrow> proto_adapter_entry" where
  "dir_entry e = \<lparr>pe_name = Some (re_name e), pe_version = Some (re_version e),
     pe_description = Some (re_description e), pe_type = re_type e,
     pe_capabilities = re_capabilities e, pe_is_builtin = True\<rparr>"

lemma push_entries_eq:
  "mem_ok E \<Longrightarrow> push_entries E es s = s\<lparr>if_adapters := rev (map dir_entry es) @ if_adapters s,
     if_adapter_count := if_adapter_count s + length es\<rparr>"
  by (induction es arbitrary: E s) (simp_all add: dir_entry_def)

lemma active_all:
  assumes "mem_ok E" "es \<noteq> []" "\<forall>e \<in> set es. re_state e = PROTO_STATE_ACTIVE" "reg_entries r = es"
  shows "snd (proto_registry_list_active E (Some r)) = Some es"
proof -
  have "filter (\<lambda>e. usable (re_state e)) es = es" using assms(3) by (simp add: filter_id_conv)
  with assms show ?thesis
    by (simp add: proto_registry_list_active_def registry_select_def select_count_filter select_copy_filter)
qed

definition loaded_interface :: "env \<Rightarrow> proto_builtin_def list \<Rightarrow> proto_interface" where
  "loaded_interface E defs =
    (let es = builtin_entries (later 1 E) defs in
     \<lparr>if_adapters = rev (map dir_entry es), if_adapter_count = length es, if_registered = True,
      if_registry = Some \<lparr>reg_entries = es, reg_event_callback = None,
        reg_event_callback_data = None, reg_initialized = True\<rparr>\<rparr>)"

lemma register_builtins_loaded:
  assumes E: "mem_ok E" and ds: "ds \<noteq> []" "length ds \<le> PROTO_REGISTRY_MAX_ADAPTERS"
    "distinct (map (name_key \<circ> bd_name) ds)"
  shows "proto_interface_register_builtins E ds interface_start = (int (length ds), loaded_interface E ds)"
proof -
  let ?new = "\<lparr>reg_entries = [], reg_event_callback = None, reg_event_callback_data = None,
    reg_initialized = True\<rparr>"
  let ?es = "builtin_entries (later 1 E) ds"
  let ?r = "?new\<lparr>reg_entries := ?es\<rparr>"
  have get: "proto_registry_get E None = Some ?new"
    using E by (simp add: proto_registry_get_def proto_registry_create_def)
  obtain evs where run: "reg_builtins_loop (later 1 E) ds ?new = (length ds, ?r, evs)"
    using reg_builtins_loop_exact [of ?new ds "later 1 E"] ds by (auto simp: find_entry_def)
  have act: "\<forall>e \<in> set ?es. re_state e = PROTO_STATE_ACTIVE"
    by (metis builtin_entries_maps(1) builtin_entries_nth(3) in_set_conv_nth)
  have ne: "?es \<noteq> []" using ds(1) by (metis builtin_entries_maps(1) length_0_conv)
  have lst: "snd (proto_registry_list_active (later 1 E) (Some ?r)) = Some ?es"
    by (rule active_all [OF _ ne act]) (simp_all add: E)
  show ?thesis
    using E ds(1) get run
    by (simp add: proto_interface_register_builtins_def interface_start_def push_entries_eq
        loaded_interface_def lst [simplified])
qed

lemma find_directory_rev:
  assumes "distinct (map re_name es)" "e \<in> set es"
  shows "find_directory (rev (map dir_entry es)) (re_name e) = Some (Some (dir_entry e))"
proof -
  have "find_directory (map dir_entry xs) (re_name e) = Some (Some (dir_entry e))"
    if "distinct (map re_name xs)" "e \<in> set xs" for xs
    using that by (induction xs) (auto simp: dir_entry_def)
  from this [of "rev es"] assms show ?thesis by (simp add: rev_map distinct_map)
qed

text \<open>
  After start-up every protocol of the built-in table is in the directory under its
  name with its type, its type is printed as that name, and its name is read back as that
  type.
\<close>

theorem catalog_names_types:
  assumes "mem_ok E"
  shows "\<exists>s. proto_interface_register_builtins E (proto_catalog_defs a2a mcp) interface_start = (8, s) \<and>
    (\<forall>d \<in> set (proto_catalog_defs a2a mcp).
       proto_interface_type_name E s (bd_type d) = (bd_name d, s) \<and>
       proto_interface_parse_type E s (Some (bd_name d)) = (bd_type d, s) \<and>
       (\<exists>e. proto_interface_find s (Some (bd_name d)) = Some (Some e) \<and> pe_type e = bd_type d))"
proof -
  let ?ds = "proto_catalog_defs a2a mcp"
  let ?es = "builtin_entries (later 1 E) ?ds"
  let ?s = "loaded_interface E ?ds"
  let ?r = "\<lparr>reg_entries = ?es, reg_event_callback = None, reg_event_callback_data = None,
    reg_initialized = True\<rparr>"
  have reg: "if_registry ?s = Some ?r" by (simp add: loaded_interface_def)
  have same: "?s\<lparr>if_registry := Some ?r\<rparr> = ?s" by (simp add: loaded_interface_def)
  have run: "proto_interface_register_builtins E ?ds interface_start = (8, ?s)"
    using register_builtins_loaded [OF assms, of ?ds] catalog_length [of a2a mcp] catalog_distinct(2) [of a2a mcp]
    by force
  have names: "\<forall>d \<in> set ?ds. name_key (bd_name d) = bd_name d \<and> bd_name d \<noteq> [] \<and>
      (bd_type d < AIRY_PROTOCOL_VENDOR_BASE \<longrightarrow> protocol_type_name (bd_type d) = bd_name d)"
    by (simp add: proto_catalog_defs_def g_catalog_defs_def name_key_def protocol_type_name_def)
  {
    fix d assume d: "d \<in> set ?ds"
    then obtain i where i: "i < length ?ds" "?ds ! i = d" by (auto simp: in_set_conv_nth)
    note n = builtin_entries_nth [OF i(1), of "later 1 E"]
    have byname: "find_entry ?r (bd_name d) = Some i"
      using find_name_builtin [OF catalog_distinct(2) i(1), of ?r "later 1 E"] i by simp
    have bytype: "proto_registry_find_by_type (Some ?r) (bd_type d) = Some i"
      using find_type_builtin [OF catalog_distinct(1) i(1), of "later 1 E"] i by simp
    have "proto_interface_type_name E ?s (bd_type d) = (bd_name d, ?s)"
      using d names n i bytype
      by (auto simp: proto_interface_type_name_def reg same proto_registry_get_def not_le
          simp del: proto_registry_find_by_type.simps)
    moreover have "proto_interface_parse_type E ?s (Some (bd_name d)) = (bd_type d, ?s)"
      using n i byname by (simp add: proto_interface_parse_type_def reg same proto_registry_get_def)
    moreover have "proto_interface_find ?s (Some (bd_name d)) = Some (Some (dir_entry (?es ! i)))"
      using find_directory_rev [of ?es "?es ! i"] catalog_distinct(2) [of a2a mcp] n i d names
      by (simp add: proto_interface_find_def loaded_interface_def)
    moreover have "pe_type (dir_entry (?es ! i)) = bd_type d" using n i by (simp add: dir_entry_def)
    ultimately have "proto_interface_type_name E ?s (bd_type d) = (bd_name d, ?s) \<and>
       proto_interface_parse_type E ?s (Some (bd_name d)) = (bd_type d, ?s) \<and>
       (\<exists>e. proto_interface_find ?s (Some (bd_name d)) = Some (Some e) \<and> pe_type e = bd_type d)"
      by blast
  }
  with run show ?thesis by blast
qed

theorem catalog_names_types_witness:
  "\<exists>s. proto_interface_register_builtins env0 (proto_catalog_defs (1, None) None) interface_start = (8, s) \<and>
    proto_interface_parse_type env0 s (Some ''Claude'') = (AIRY_PROTOCOL_CLAUDE, s)"
proof -
  let ?ds = "proto_catalog_defs (1, None) None"
  have "\<exists>d \<in> set ?ds. bd_name d = ''Claude'' \<and> bd_type d = AIRY_PROTOCOL_CLAUDE"
    by (simp add: proto_catalog_defs_def g_catalog_defs_def)
  with catalog_names_types [OF env0_ok(3), of "(1, None)" None] show ?thesis by metis
qed

text \<open>
  The directory invariant: the count is the length of the list and names are at most 63
  characters, as they come from the registry.
\<close>

definition interface_wf :: "proto_interface \<Rightarrow> bool" where
  "interface_wf s \<longleftrightarrow> if_adapter_count s = length (if_adapters s) \<and>
     (\<forall>e \<in> set (if_adapters s). \<forall>n. pe_name e = Some n \<longrightarrow> length n < PROTO_REGISTRY_NAME_MAX_LEN) \<and>
     (\<forall>r. if_registry s = Some r \<longrightarrow> registry_wf r)"

lemma push_entries_wf:
  "interface_wf s \<Longrightarrow> \<forall>e \<in> set es. entry_wf e \<Longrightarrow> interface_wf (push_entries E es s)"
proof (induction es arbitrary: E s)
  case Nil
  then show ?case by simp
next
  case (Cons e es)
  have "length (re_name e) < PROTO_REGISTRY_NAME_MAX_LEN" using Cons.prems(2) by (simp add: entry_wf_def)
  then have "interface_wf (s\<lparr>if_adapters := \<lparr>pe_name = strdup E 1 (re_name e), pe_version = v,
      pe_description = d, pe_type = t, pe_capabilities = c, pe_is_builtin = True\<rparr> # if_adapters s,
      if_adapter_count := if_adapter_count s + 1\<rparr>)" for v d t c
    using Cons.prems(1) by (simp add: interface_wf_def strdup_def)
  with Cons show ?case by simp
qed

lemma register_builtins_wf:
  assumes "interface_wf s" "codes_ok E" "proto_interface_register_builtins E defs s = (rc, s')"
  shows "interface_wf s'"
proof (cases "if_registered s \<or> proto_registry_get E (if_registry s) = None \<or> defs = []")
  case True
  with assms show ?thesis
    by (auto simp: proto_interface_register_builtins_def proto_registry_get_def interface_wf_def
        proto_registry_create_def registry_wf_def split: option.splits if_splits)
next
  case False
  then obtain r where r: "proto_registry_get E (if_registry s) = Some r" by auto
  then have wf: "registry_wf r"
    using assms(1) by (auto simp: proto_registry_get_def interface_wf_def proto_registry_create_def
        registry_wf_def split: option.splits if_splits)
  obtain n r' evs where b: "reg_builtins_loop (later 1 E) defs r = (n, r', evs)"
    by (metis prod_cases3)
  have wf': "registry_wf r'" using reg_builtins_loop_wf [OF wf _ b] assms(2) by simp
  let ?es = "case snd (proto_registry_list_active (later 1 E) (Some r')) of None \<Rightarrow> [] | Some es \<Rightarrow> es"
  have "set ?es \<subseteq> set (reg_entries r')"
    by (auto simp: proto_registry_list_active_def registry_select_def select_count_filter select_copy_filter)
  with wf' have es: "\<forall>e \<in> set ?es. entry_wf e" by (auto dest: registry_wfD(3))
  have s1: "interface_wf (s\<lparr>if_registry := Some r'\<rparr>)" using assms(1) wf' by (simp add: interface_wf_def)
  have keep: "interface_wf (x\<lparr>if_registered := True\<rparr>) = interface_wf x" for x
    by (simp add: interface_wf_def)
  have "s' = (if int n > 0 then push_entries (later 2 E) ?es (s\<lparr>if_registry := Some r'\<rparr>)
      else s\<lparr>if_registry := Some r'\<rparr>)\<lparr>if_registered := True\<rparr>"
    using assms(3) False r b by (auto simp: proto_interface_register_builtins_def)
  with push_entries_wf [OF s1 es, of "later 2 E"] s1 keep show ?thesis by auto
qed

lemma dir_pieces_length:
  assumes "\<forall>e \<in> set es. \<forall>n. pe_name e = Some n \<longrightarrow> length n < PROTO_REGISTRY_NAME_MAX_LEN"
  shows "length (concat (dir_pieces first es)) \<le> 66 * length es"
  using assms
proof (induction es arbitrary: first)
  case Nil
  then show ?case by simp
next
  case (Cons e es)
  have "length (dir_name_text e) \<le> 65" using Cons.prems by (auto simp: dir_name_text_def split: option.split)
  with Cons.IH [of False] Cons.prems show ?case by (auto split: if_splits)
qed

text \<open>
  Loading the table keeps the directory's invariant, and under that invariant listing
  the directory never leaves its buffer: it returns the complete JSON text, whatever the
  number of entries.
\<close>

theorem interface_list_all_complete:
  assumes "interface_wf s" "codes_ok E" "mem_ok F" "if_adapter_count s' < 10 ^ 100"
    "proto_interface_register_builtins E defs s = (rc, s')"
  shows "interface_wf s' \<and> proto_interface_list_all F s' True =
    Some (0, Some (''{\"adapters\":['' @ concat (dir_pieces True (if_adapters s')) @
      ''],\"count\":'' @ show_nat (length (if_adapters s')) @ ''}''))"
proof -
  have wf: "interface_wf s'" using register_builtins_wf [OF assms(1,2,5)] .
  let ?n = "if_adapter_count s'"
  let ?ps = "[''{\"adapters\":[''] @ dir_pieces True (if_adapters s') @ [''],\"count\":'' @ show_nat ?n @ ''}'']"
  have n: "?n = length (if_adapters s')" using wf by (simp add: interface_wf_def)
  have "length (concat (dir_pieces True (if_adapters s'))) \<le> 66 * ?n"
    using wf n dir_pieces_length [of "if_adapters s'" True] by (simp add: interface_wf_def)
  moreover have "length (show_nat ?n) \<le> 100" using assms(4) by (intro show_nat_length) auto
  ultimately have "length (concat ?ps) < 512 + ?n * 256" by simp
  from sb_puts_fits [OF this] wf assms(3) n show ?thesis by (simp add: proto_interface_list_all_def)
qed

theorem interface_list_all_complete_witness:
  "\<exists>rc s'. proto_interface_register_builtins env0 [] interface_start = (rc, s') \<and>
    proto_interface_list_all env0 s' True = Some (0, Some ''{\"adapters\":[],\"count\":0}'')"
proof -
  obtain rc s' where r: "proto_interface_register_builtins env0 [] interface_start = (rc, s')" by fastforce
  then have s: "if_adapters s' = []" "if_adapter_count s' = 0"
    by (auto simp: proto_interface_register_builtins_def interface_start_def proto_registry_get_def
        proto_registry_create_def)
  have "interface_wf interface_start" by (simp add: interface_wf_def interface_start_def)
  from interface_list_all_complete [OF this env0_ok(1,3) _ r] s r show ?thesis
    by (auto simp: show_nat.simps)
qed

end
