(* ===== verification/Protocol_Transformers.thy ===== *)
theory Protocol_Transformers
  imports Unified_Message
begin

text \<open>
  The message converters of \<open>core/transformers/src/protocol_transformers.c\<close> and their
  shared helpers in \<open>core/transformers/include/protocol_transform_inline.h\<close>, with the
  vendor table of \<open>catalog/src/protocol_catalog_transforms.c\<close>.

  A converter returns a code and the target message. The outer \<open>None\<close> is an access
  through a NULL pointer: two converters use an allocation without checking it. Pointers
  into the payload are the suffixes that start there.
\<close>

section \<open>Context and envelope\<close>

record transform_context =
  tc_source_protocol :: cstring
  tc_target_protocol :: cstring
  tc_agent_id :: cstring
  tc_session_id :: cstring
  tc_trace_id :: cstring
  tc_jsonrpc_id_counter :: int

type_synonym transform_result = "(int \<times> unified_message option) option"
type_synonym transform_fn =
  "env \<Rightarrow> unified_message option \<Rightarrow> unified_message option \<Rightarrow> transform_context option \<Rightarrow> transform_result"

definition transform_context_create :: "env \<Rightarrow> cstring option \<Rightarrow> cstring option \<Rightarrow> transform_context option" where
  "transform_context_create E src_proto tgt_proto = (if \<not> mem E 0 then None
     else Some \<lparr>tc_source_protocol = (case src_proto of None \<Rightarrow> [] | Some p \<Rightarrow> strncpy_term E 32 p),
       tc_target_protocol = (case tgt_proto of None \<Rightarrow> [] | Some p \<Rightarrow> strncpy_term E 32 p),
       tc_agent_id = [], tc_session_id = [], tc_trace_id = [], tc_jsonrpc_id_counter = 0\<rparr>)"

definition envelope_init :: "env \<Rightarrow> protocol_type \<Rightarrow> cstring \<Rightarrow> u32 \<Rightarrow> unified_message" where
  "envelope_init E protocol endpoint direction =
    zero_message\<lparr>um_protocol := protocol, um_endpoint := strncpy_term E 256 endpoint, um_direction := direction\<rparr>"

definition put_trace :: "env \<Rightarrow> transform_context option \<Rightarrow> unified_message \<Rightarrow> unified_message" where
  "put_trace E ctx t = (case ctx of None \<Rightarrow> t
     | Some c \<Rightarrow> if tc_trace_id c \<noteq> [] then t\<lparr>um_trace_id := strncpy_term E 64 (tc_trace_id c)\<rparr> else t)"

definition put_sender :: "env \<Rightarrow> transform_context option \<Rightarrow> unified_message \<Rightarrow> unified_message" where
  "put_sender E ctx t = (case ctx of None \<Rightarrow> t
     | Some c \<Rightarrow> if tc_agent_id c \<noteq> [] then t\<lparr>um_sender_id := strncpy_term E 64 (tc_agent_id c)\<rparr> else t)"

definition envelope_meta :: "env \<Rightarrow> transform_context option \<Rightarrow> unified_message \<Rightarrow> unified_message" where
  "envelope_meta E ctx t = (case ctx of None \<Rightarrow> t
     | Some c \<Rightarrow>
        (let t1 = put_trace E ctx t in
         if tc_session_id c \<noteq> [] then t1\<lparr>um_session_id := strncpy_term E 64 (tc_session_id c)\<rparr> else t1))"

definition payload_pass :: "env \<Rightarrow> unified_message \<Rightarrow> cstring \<Rightarrow> unified_message \<Rightarrow> unified_message option" where
  "payload_pass E source fallback t = (case um_payload source of
      Some p \<Rightarrow> Some (t\<lparr>um_payload_size := length p + 1, um_payload := strdup E 0 p\<rparr>)
    | None \<Rightarrow> (case strdup E 0 fallback of
          None \<Rightarrow> None
        | Some p \<Rightarrow> Some (t\<lparr>um_payload := Some p, um_payload_size := length p + 1\<rparr>)))"

text \<open>The text after the next colon, and the string between the next two quotes after it.\<close>

definition after_colon :: "cstring \<Rightarrow> cstring option" where
  "after_colon p = map_option tl (strchr CHR '':'' p)"

definition quoted_value :: "cstring \<Rightarrow> cstring option" where
  "quoted_value p = (case after_colon p of None \<Rightarrow> None
     | Some v \<Rightarrow> (case strchr dq v of None \<Rightarrow> None
        | Some start \<Rightarrow> (case strchr dq (tl start) of None \<Rightarrow> None
           | Some e \<Rightarrow> Some (take (length (tl start) - length e) (tl start)))))"

section \<open>MCP\<close>

definition mcp_params :: "env \<Rightarrow> cstring option \<Rightarrow> cstring" where
  "mcp_params E payload =
    (let name = (case payload of None \<Rightarrow> None
           | Some pl \<Rightarrow> (case strstr pl ''\"name\"'' of None \<Rightarrow> None
              | Some p \<Rightarrow> (case quoted_value p of None \<Rightarrow> None | Some n \<Rightarrow> strdup E 0 n)));
         arguments = (case payload of None \<Rightarrow> ''{}''
           | Some pl \<Rightarrow> (case strstr pl ''\"arguments\"'' of None \<Rightarrow> ''{}''
              | Some a \<Rightarrow> (case after_colon a of None \<Rightarrow> ''{}'' | Some v \<Rightarrow> v)))
     in snprintf 4096 (''{\"name\":\"'' @ (case name of None \<Rightarrow> ''unknown'' | Some n \<Rightarrow> n) @
          ''\",\"arguments\":'' @ arguments @ ''}''))"

fun transformer_jsonrpc_to_mcp_request :: transform_fn where
  "transformer_jsonrpc_to_mcp_request E (Some source) (Some target) ctx =
    (let t = zero_message\<lparr>um_protocol := AIRY_PROTOCOL_CUSTOM,
               um_protocol_name := strncpy_term E 64 ''mcp'', um_direction := DIRECTION_REQUEST,
               um_method := strncpy_term E 64 ''tools/call''\<rparr>;
         params = mcp_params E (um_payload source)
     in Some (0, Some ((put_trace E ctx t)\<lparr>um_payload_size := length params + 1,
                  um_payload := strdup E 1 params\<rparr>)))"
| "transformer_jsonrpc_to_mcp_request E source target ctx = Some (err E AIRY_ERR_NULL_POINTER, target)"

text \<open>
  The text of a successful MCP result. \<open>text_key + 5\<close> is the closing quote of the key
  itself, so the value taken is what stands between the key and the value. \<open>None\<close>: the
  copy buffer could not be allocated.
\<close>

definition mcp_output :: "env \<Rightarrow> cstring option \<Rightarrow> cstring option" where
  "mcp_output E payload = (case payload of
      None \<Rightarrow> Some ''{\"output\":\"\",\"status\":\"success\"}''
    | Some p \<Rightarrow>
       (let wrap = (\<lambda>s. snprintf 8192 (''{\"output\":'' @ s @ '',\"status\":\"success\"}'')) in
        case strstr p ''\"text\"'' of
          None \<Rightarrow> Some (wrap p)
        | Some text_key \<Rightarrow>
           (case strchr dq (drop 5 text_key) of
              None \<Rightarrow> Some ''''
            | Some val_start \<Rightarrow>
               (let content_text = tl val_start in
                case strchr dq content_text of
                  Some val_end \<Rightarrow>
                    if mem E 0 then Some (wrap (take (length content_text - length val_end) content_text))
                    else None
                | None \<Rightarrow> Some (wrap p)))))"

fun transformer_mcp_to_jsonrpc_response :: transform_fn where
  "transformer_mcp_to_jsonrpc_response E (Some source) (Some target) ctx =
    (let t = envelope_meta E ctx (envelope_init E AIRY_PROTOCOL_JSON_RPC ''jsonrpc''
               (if um_is_error source then DIRECTION_ERROR else DIRECTION_RESPONSE))
     in if um_is_error source
        then Some (0, Some (t\<lparr>um_error_code := um_error_code source,
               um_error_msg := snprintf 256 (case um_payload source of None \<Rightarrow> ''MCP error'' | Some p \<Rightarrow> p)\<rparr>))
        else case mcp_output E (um_payload source) of
          None \<Rightarrow> None
        | Some content_text \<Rightarrow> Some (0, Some (t\<lparr>um_payload_size := length content_text + 1,
              um_payload := strdup E 1 content_text\<rparr>)))"
| "transformer_mcp_to_jsonrpc_response E source target ctx = Some (err E AIRY_ERR_NULL_POINTER, target)"

text \<open>The converters that pass the payload on as it is, with their fallback text.\<close>

definition pass_through :: "cstring \<Rightarrow> transform_fn" where
  "pass_through fallback E source target ctx = (case (source, target) of
      (Some src, Some _) \<Rightarrow>
        map_option (\<lambda>t. (0, Some t)) (payload_pass E src fallback
          (envelope_meta E ctx (envelope_init E AIRY_PROTOCOL_JSON_RPC ''jsonrpc'' DIRECTION_RESPONSE)))
    | _ \<Rightarrow> Some (err E AIRY_ERR_NULL_POINTER, target))"

definition transformer_mcp_tools_list_to_jsonrpc :: transform_fn where
  "transformer_mcp_tools_list_to_jsonrpc = pass_through ''{\"skills\":[]}''"

section \<open>A2A\<close>

definition a2a_payload :: "cstring option \<Rightarrow> cstring" where
  "a2a_payload payload =
    (let description = (case payload of None \<Rightarrow> ''''
           | Some pl \<Rightarrow> (case strstr pl ''\"description\"'' of None \<Rightarrow> ''''
              | Some desc_key \<Rightarrow> (case strchr dq (drop 11 desc_key) of None \<Rightarrow> '''' | Some v \<Rightarrow> tl v)));
         input_data = (case payload of None \<Rightarrow> ''{}''
           | Some pl \<Rightarrow> (case strstr pl ''\"input\"'' of None \<Rightarrow> ''{}''
              | Some input_key \<Rightarrow> (case after_colon input_key of None \<Rightarrow> ''{}'' | Some v \<Rightarrow> v)))
     in snprintf 8192 (''{\"description\":'' @ description @ '',\"input_data\":'' @ input_data @ ''}''))"

fun transformer_jsonrpc_to_a2a_task :: transform_fn where
  "transformer_jsonrpc_to_a2a_task E (Some source) (Some target) ctx =
    (let t = (envelope_init E AIRY_PROTOCOL_CUSTOM ''a2a'' DIRECTION_REQUEST)
               \<lparr>um_method := strncpy_term E 64 ''task/delegate''\<rparr>;
         payload = a2a_payload (um_payload source)
     in Some (0, Some ((put_trace E ctx (put_sender E ctx t))\<lparr>um_payload_size := length payload + 1,
                  um_payload := strdup E 0 payload\<rparr>)))"
| "transformer_jsonrpc_to_a2a_task E source target ctx = Some (err E AIRY_ERR_NULL_POINTER, target)"

definition transformer_a2a_to_jsonrpc_response :: transform_fn where
  "transformer_a2a_to_jsonrpc_response = pass_through ''{\"result\":{}}''"

fun transformer_jsonrpc_to_a2a_discover :: transform_fn where
  "transformer_jsonrpc_to_a2a_discover E source None ctx = Some (err E AIRY_ERR_NULL_POINTER, None)"
| "transformer_jsonrpc_to_a2a_discover E source (Some target) ctx =
    Some (0, Some ((put_trace E ctx (put_sender E ctx
      (envelope_init E AIRY_PROTOCOL_CUSTOM ''a2a/agent/discover'' DIRECTION_REQUEST)))
      \<lparr>um_payload := strdup E 0 ''{}'', um_payload_size := 3\<rparr>))"

definition transformer_a2a_agents_to_jsonrpc :: transform_fn where
  "transformer_a2a_agents_to_jsonrpc = pass_through ''{\"agents\":[]}''"

section \<open>Dispatch\<close>

type_synonym proto_transform_def = "cstring \<times> cstring \<times> transform_fn"

definition g_transform_table :: "proto_transform_def list" where
  "g_transform_table = [
     (''jsonrpc'', ''mcp'', transformer_jsonrpc_to_mcp_request),
     (''mcp'', ''jsonrpc'', transformer_mcp_to_jsonrpc_response),
     (''jsonrpc'', ''a2a'', transformer_jsonrpc_to_a2a_task),
     (''a2a'', ''jsonrpc'', transformer_a2a_to_jsonrpc_response)]"

definition g_catalog_transforms :: "proto_transform_def list" where
  "g_catalog_transforms = []"

text \<open>Tables end at their sentinel. The first allocation is the context.\<close>

fun dispatch_table :: "proto_transform_def list \<Rightarrow> cstring \<Rightarrow> cstring \<Rightarrow> env \<Rightarrow>
    unified_message option \<Rightarrow> unified_message option \<Rightarrow> transform_result" where
  "dispatch_table [] from to E source target = Some (err E AIRY_ERR_NOT_FOUND, target)"
| "dispatch_table ((f, t, transform) # table) from to E source target =
    (if strcasecmp_eq f from \<and> strcasecmp_eq t to
     then transform (later 1 E) source target (transform_context_create E (Some from) (Some to))
     else dispatch_table table from to E source target)"

fun protocol_auto_transform :: "env \<Rightarrow> proto_transform_def list \<Rightarrow> unified_message option \<Rightarrow>
    unified_message option \<Rightarrow> cstring option \<Rightarrow> transform_result" where
  "protocol_auto_transform E vendor (Some source) (Some target) (Some to) =
    (let from = (if um_endpoint source \<noteq> [] then um_endpoint source else ''jsonrpc'') in
     case dispatch_table g_transform_table from to E (Some source) (Some target) of
       None \<Rightarrow> None
     | Some (ret, t1) \<Rightarrow>
        (if ret \<noteq> err E AIRY_ERR_NOT_FOUND then Some (ret, t1)
         else case dispatch_table vendor from to E (Some source) t1 of
            None \<Rightarrow> None
          | Some (ret2, t2) \<Rightarrow>
             if ret2 = err E AIRY_ERR_NOT_FOUND then Some (0, Some source) else Some (ret2, t2)))"
| "protocol_auto_transform E vendor source target name = Some (err E AIRY_ERR_NULL_POINTER, target)"

definition protocol_validate_transformed :: "env \<Rightarrow> unified_message option \<Rightarrow> int" where
  "protocol_validate_transformed E msg = (case msg of
      None \<Rightarrow> err E AIRY_ERR_NULL_POINTER
    | Some m \<Rightarrow>
        if um_endpoint m = [] then err E AIRY_ERR_INVALID_PARAM
        else if um_payload m = None \<and> um_payload_size m > 0 then err E AIRY_ERR_INVALID_PARAM
        else if um_payload m \<noteq> None \<and> um_payload_size m < 4 then err E AIRY_ERR_OUT_OF_MEMORY
        else 0)"

section \<open>Properties\<close>

lemma strcasecmp_eq_sym: "strcasecmp_eq a b = strcasecmp_eq b a"
  by (auto simp: strcasecmp_eq_def)

lemma tolower_lower [simp]: "97 \<le> (of_char c :: nat) \<Longrightarrow> tolower c = c"
  by (simp add: tolower_def)

lemma strcasecmp_eq_trans: "strcasecmp_eq a b \<Longrightarrow> strcasecmp_eq b c \<Longrightarrow> strcasecmp_eq a c"
  by (simp add: strcasecmp_eq_def)

lemma table_names_differ [simp]:
  "\<not> strcasecmp_eq ''jsonrpc'' ''a2a''" "\<not> strcasecmp_eq ''mcp'' ''a2a''"
  "\<not> strcasecmp_eq ''a2a'' ''jsonrpc''" "\<not> strcasecmp_eq ''a2a'' ''mcp''"
  "\<not> strcasecmp_eq ''mcp'' ''jsonrpc''" "\<not> strcasecmp_eq ''jsonrpc'' ''mcp''"
  by (simp_all add: strcasecmp_eq_def)

lemma dispatch_a2a:
  assumes "strcasecmp_eq ''a2a'' from" "strcasecmp_eq ''jsonrpc'' to"
  shows "dispatch_table g_transform_table from to E s t =
    transformer_a2a_to_jsonrpc_response (later 1 E) s t (transform_context_create E (Some from) (Some to))"
proof -
  have "\<not> strcasecmp_eq ''jsonrpc'' from" "\<not> strcasecmp_eq ''mcp'' from"
    using assms(1) table_names_differ(1,2) by (auto simp: strcasecmp_eq_def)
  with assms show ?thesis by (simp add: g_transform_table_def)
qed

lemma fresh_context [simp]:
  "transform_context_create E a b = Some c \<Longrightarrow> tc_trace_id c = [] \<and> tc_session_id c = [] \<and> tc_agent_id c = []"
  by (auto simp: transform_context_create_def split: if_splits)

lemma envelope_meta_fresh: "envelope_meta F (transform_context_create E a b) t = t"
  by (cases "transform_context_create E a b") (auto simp: envelope_meta_def put_trace_def)

text \<open>
  C33: an A2A message converted to JSON-RPC, with protocol names in any case. Given memory, the
  result is a JSON-RPC response with the payload of the source, or with an empty result object
  when the source has none, and the size of the text with its NUL. It passes validation exactly
  when the payload has three or more characters: \<open>{}\<close> and \<open>[]\<close> are refused.
\<close>

theorem auto_transform_a2a_response:
  assumes "mem_ok E" "strncpy_ok E" "codes_ok E"
    "strcasecmp_eq ''a2a'' (um_endpoint src)" "strcasecmp_eq ''jsonrpc'' to"
    "q = (case um_payload src of None \<Rightarrow> ''{\"result\":{}}'' | Some p \<Rightarrow> p)"
  shows "\<exists>m. protocol_auto_transform E vendor (Some src) (Some t) (Some to) = Some (0, Some m) \<and>
    um_payload m = Some q \<and> um_payload_size m = length q + 1 \<and> um_protocol m = AIRY_PROTOCOL_JSON_RPC \<and>
    um_direction m = DIRECTION_RESPONSE \<and> um_endpoint m = ''jsonrpc'' \<and>
    (protocol_validate_transformed E (Some m) = 0 \<longleftrightarrow> 3 \<le> length q)"
proof -
  have ne: "um_endpoint src \<noteq> []" using assms(4) by (auto simp: strcasecmp_eq_def)
  have nz: "0 \<noteq> err E AIRY_ERR_NOT_FOUND" "err E AIRY_ERR_OUT_OF_MEMORY \<noteq> 0" using assms(3) by (metis codes_ok_nonzero)+
  show ?thesis
    using assms(1-5) ne nz dispatch_a2a [OF assms(4,5)] unfolding assms(6)
    by (cases "um_payload src") (auto simp: transformer_a2a_to_jsonrpc_response_def pass_through_def envelope_meta_fresh
        payload_pass_def envelope_init_def protocol_validate_transformed_def)
qed

theorem auto_transform_a2a_response_witness:
  "\<exists>m. protocol_auto_transform env0 [] (Some (zero_message\<lparr>um_endpoint := ''A2A'', um_payload := Some ''{}''\<rparr>))
      (Some zero_message) (Some ''JsonRpc'') = Some (0, Some m) \<and> um_payload m = Some ''{}'' \<and>
    protocol_validate_transformed env0 (Some m) \<noteq> 0"
proof -
  have "strcasecmp_eq ''a2a'' ''A2A''" "strcasecmp_eq ''jsonrpc'' ''JsonRpc''"
    by code_simp+
  with auto_transform_a2a_response [OF env0_ok(3,2,1) _ _ refl,
      of "zero_message\<lparr>um_endpoint := ''A2A'', um_payload := Some ''{}''\<rparr>" "''JsonRpc''" "[]" zero_message]
  show ?thesis by auto
qed

text \<open>
  For a pair of protocols that neither table lists, the conversion is the identity: it
  succeeds and the target is a copy of the source.
\<close>

theorem auto_transform_identity:
  assumes "codes_ok E"
    "\<forall>(f, t, fn) \<in> set (g_transform_table @ vendor).
       \<not> (strcasecmp_eq f (if um_endpoint src \<noteq> [] then um_endpoint src else ''jsonrpc'') \<and> strcasecmp_eq t to)"
  shows "protocol_auto_transform E vendor (Some src) (Some tgt) (Some to) = Some (0, Some src)"
proof -
  have miss: "dispatch_table tab fr to E s t = Some (err E AIRY_ERR_NOT_FOUND, t)"
    if "\<forall>(f, t, fn) \<in> set tab. \<not> (strcasecmp_eq f fr \<and> strcasecmp_eq t to)" for tab fr s t
    using that by (induction tab) auto
  let ?from = "if um_endpoint src \<noteq> [] then um_endpoint src else ''jsonrpc''"
  have "dispatch_table g_transform_table ?from to E s t = Some (err E AIRY_ERR_NOT_FOUND, t)"
    "dispatch_table vendor ?from to E s t = Some (err E AIRY_ERR_NOT_FOUND, t)" for s t
    using assms(2) by (intro miss, auto)+
  then show ?thesis by (simp only: protocol_auto_transform.simps Let_def) simp
qed

theorem auto_transform_identity_witness:
  "protocol_auto_transform env0 g_catalog_transforms (Some (zero_message\<lparr>um_endpoint := ''mcp''\<rparr>))
     (Some zero_message) (Some ''a2a'') = Some (0, Some (zero_message\<lparr>um_endpoint := ''mcp''\<rparr>))"
proof (rule auto_transform_identity [OF env0_ok(1)])
  show "\<forall>(f, t, fn) \<in> set (g_transform_table @ g_catalog_transforms).
       \<not> (strcasecmp_eq f (if um_endpoint (zero_message\<lparr>um_endpoint := ''mcp''\<rparr>) \<noteq> []
            then um_endpoint (zero_message\<lparr>um_endpoint := ''mcp''\<rparr>) else ''jsonrpc'') \<and> strcasecmp_eq t ''a2a'')"
    by (simp add: g_transform_table_def g_catalog_transforms_def)
qed

text \<open>
  Converting a successful MCP result to JSON-RPC loses its text: for a payload whose
  first text field is written as a key, a colon and a quoted value, the output is the same
  malformed object whatever the value is.
\<close>

theorem mcp_response_text_lost:
  assumes "mem_ok E" "um_is_error src = False" "um_payload src = Some p"
    "strstr p ''\"text\"'' = Some (''\"text\":\"'' @ v)"
  shows "\<exists>m. transformer_mcp_to_jsonrpc_response E (Some src) (Some t) ctx = Some (0, Some m) \<and>
    um_payload m = Some ''{\"output\"::,\"status\":\"success\"}''"
  using assms by (simp add: mcp_output_def)

theorem mcp_response_text_lost_witness:
  "\<exists>m. transformer_mcp_to_jsonrpc_response env0
      (Some (zero_message\<lparr>um_payload := Some ''{\"text\":\"42\"}''\<rparr>)) (Some zero_message) None = Some (0, Some m) \<and>
    um_payload m = Some ''{\"output\"::,\"status\":\"success\"}''"
  by (rule mcp_response_text_lost [where v = "''42\"}''" and p = "''{\"text\":\"42\"}''"])
    (simp_all add: zero_message_def)

text \<open>A quoted key is not found inside a different quoted word.\<close>

lemma strstr_quoted:
  assumes "dq \<notin> set n" "dq \<notin> set k" "n \<noteq> k"
  shows "strstr (dq # n @ dq # rest) (dq # k @ [dq]) = strstr (dq # rest) (dq # k @ [dq])"
proof -
  have "take (length (dq # k @ [dq])) (dq # n @ dq # rest) \<noteq> dq # k @ [dq]"
  proof
    assume "take (length (dq # k @ [dq])) (dq # n @ dq # rest) = dq # k @ [dq]"
    then have "take (Suc (length k)) (n @ dq # rest) = k @ [dq]" by simp
    then obtain s where s: "n @ dq # rest = (k @ [dq]) @ s" by (metis append_take_drop_id)
    have "takeWhile (\<lambda>c. c \<noteq> dq) (n @ dq # rest) = n" "takeWhile (\<lambda>c. c \<noteq> dq) ((k @ [dq]) @ s) = k"
      using assms(1,2) by (auto simp: takeWhile_tail intro!: takeWhile_eq_all_conv [THEN iffD2])
    with s assms(3) show False by metis
  qed
  then have "strstr (dq # n @ dq # rest) (dq # k @ [dq]) = strstr (n @ dq # rest) (dq # k @ [dq])"
    by (metis strstr.simps(2))
  also have "\<dots> = strstr (dq # rest) (dq # k @ [dq])"
    using assms(1) by (intro strstr_skip) auto
  finally show ?thesis .
qed

text \<open>
  Converting a tool call to MCP copies the argument text up to the end of the payload,
  so the result has one closing brace too many; and the converted message never passes
  validation, because the converter leaves the endpoint empty.
\<close>

theorem mcp_request_extra_brace:
  assumes "mem_ok E" "codes_ok E" "dq \<notin> set n" "n \<noteq> ''arguments''"
    "um_payload src = Some (''{\"name\":\"'' @ n @ ''\",\"arguments\":'' @ a)"
  shows "\<exists>m. transformer_jsonrpc_to_mcp_request E (Some src) (Some t) ctx = Some (0, Some m) \<and>
    um_payload m = Some (snprintf 4096 (''{\"name\":\"'' @ n @ ''\",\"arguments\":'' @ a @ ''}'')) \<and>
    protocol_validate_transformed E (Some m) = err E AIRY_ERR_INVALID_PARAM"
proof -
  let ?p = "''{\"name\":\"'' @ n @ ''\",\"arguments\":'' @ a"
  have nm: "strstr ?p ''\"name\"'' = Some (''\"name\":\"'' @ n @ ''\",\"arguments\":'' @ a)" by simp
  have q: "quoted_value (''\"name\":\"'' @ n @ ''\",\"arguments\":'' @ a) = Some n"
    using assms(3) by (simp add: quoted_value_def after_colon_def)
  have ar: "strstr ?p ''\"arguments\"'' = Some (''\"arguments\":'' @ a)"
    using strstr_quoted [of n "''arguments''" "'',\"arguments\":'' @ a"] assms(3,4)
    by (simp del: take_append)
  have "mcp_params E (Some ?p) = snprintf 4096 (''{\"name\":\"'' @ n @ ''\",\"arguments\":'' @ a @ ''}'')"
    unfolding mcp_params_def using nm q ar assms(1) by (simp add: after_colon_def)
  moreover have "um_endpoint (put_trace E ctx m) = um_endpoint m" for m
    by (auto simp: put_trace_def split: option.split)
  ultimately show ?thesis
    using assms(1,5) by (simp add: protocol_validate_transformed_def zero_message_def)
qed

theorem mcp_request_extra_brace_witness:
  "\<exists>m. transformer_jsonrpc_to_mcp_request env0
      (Some (zero_message\<lparr>um_payload := Some ''{\"name\":\"ls\",\"arguments\":{}}''\<rparr>)) (Some zero_message) None
      = Some (0, Some m) \<and> um_payload m = Some ''{\"name\":\"ls\",\"arguments\":{}}}''"
  using mcp_request_extra_brace [OF env0_ok(3,1), of "''ls''"
    "zero_message\<lparr>um_payload := Some ''{\"name\":\"ls\",\"arguments\":{}}''\<rparr>" "''{}}''" zero_message None]
  by (auto simp del: transformer_jsonrpc_to_mcp_request.simps)

end
