(* ===== verification/Sha256.thy ===== *)
theory Sha256
  imports Airy_Prelude
begin

text \<open>
  SHA-256 and HMAC-SHA256 as written in \<open>standards/a2a/src/a2a_v03_adapter_auth.c\<close>:
  the streaming hash with its 64-byte buffer, and the keyed hash built on it. The second
  half states FIPS 180-4 and RFC 2104 independently and proves that the code computes
  them, for every input and whatever the buffer holds when the context is created.
\<close>

section \<open>The streaming hash\<close>

record a2a_sha256_ctx =
  sh_state :: "u32 list"
  sh_bitlen :: u64
  sh_data :: "u8 list"
  sh_datalen :: nat

definition a2a_sha256_k :: "u32 list" where
  "a2a_sha256_k =
    [0x428a2f98, 0x71374491, 0xb5c0fbcf, 0xe9b5dba5] @ [0x3956c25b, 0x59f111f1, 0x923f82a4, 0xab1c5ed5] @
    [0xd807aa98, 0x12835b01, 0x243185be, 0x550c7dc3] @ [0x72be5d74, 0x80deb1fe, 0x9bdc06a7, 0xc19bf174] @
    [0xe49b69c1, 0xefbe4786, 0x0fc19dc6, 0x240ca1cc] @ [0x2de92c6f, 0x4a7484aa, 0x5cb0a9dc, 0x76f988da] @
    [0x983e5152, 0xa831c66d, 0xb00327c8, 0xbf597fc7] @ [0xc6e00bf3, 0xd5a79147, 0x06ca6351, 0x14292967] @
    [0x27b70a85, 0x2e1b2138, 0x4d2c6dfc, 0x53380d13] @ [0x650a7354, 0x766a0abb, 0x81c2c92e, 0x92722c85] @
    [0xa2bfe8a1, 0xa81a664b, 0xc24b8b70, 0xc76c51a3] @ [0xd192e819, 0xd6990624, 0xf40e3585, 0x106aa070] @
    [0x19a4c116, 0x1e376c08, 0x2748774c, 0x34b0bcb5] @ [0x391c0cb3, 0x4ed8aa4a, 0x5b9cca4f, 0x682e6ff3] @
    [0x748f82ee, 0x78a5636f, 0x84c87814, 0x8cc70208] @ [0x90befffa, 0xa4506ceb, 0xbef9a3f7, 0xc67178f2]"

definition a2a_ror32 :: "u32 \<Rightarrow> nat \<Rightarrow> u32" where
  "a2a_ror32 x n = drop_bit n x OR push_bit (32 - n) x"

text \<open>The array \<open>w\<close>: sixteen words of the block, then 48 derived ones.\<close>

definition load_word :: "u8 list \<Rightarrow> nat \<Rightarrow> u32" where
  "load_word data i = push_bit 24 (ucast (data ! (i * 4))) OR push_bit 16 (ucast (data ! (i * 4 + 1))) OR
     push_bit 8 (ucast (data ! (i * 4 + 2))) OR ucast (data ! (i * 4 + 3))"

definition next_word :: "u32 list \<Rightarrow> nat \<Rightarrow> u32" where
  "next_word w i =
    (let s0 = a2a_ror32 (w ! (i - 15)) 7 XOR a2a_ror32 (w ! (i - 15)) 18 XOR drop_bit 3 (w ! (i - 15));
         s1 = a2a_ror32 (w ! (i - 2)) 17 XOR a2a_ror32 (w ! (i - 2)) 19 XOR drop_bit 10 (w ! (i - 2))
     in w ! (i - 16) + s0 + w ! (i - 7) + s1)"

definition schedule :: "u8 list \<Rightarrow> u32 list" where
  "schedule data = fold (\<lambda>i w. w @ [next_word w i]) [16..<64] (map (load_word data) [0..<16])"

text \<open>One turn of the main loop on the eight working variables.\<close>

fun round_step :: "u32 list \<Rightarrow> nat \<Rightarrow> u32 \<times> u32 \<times> u32 \<times> u32 \<times> u32 \<times> u32 \<times> u32 \<times> u32 \<Rightarrow>
    u32 \<times> u32 \<times> u32 \<times> u32 \<times> u32 \<times> u32 \<times> u32 \<times> u32" where
  "round_step w i (a, b, c, d, e, f, g, h) =
    (let S1 = a2a_ror32 e 6 XOR a2a_ror32 e 11 XOR a2a_ror32 e 25;
         ch = (e AND f) XOR (NOT e AND g);
         t1 = h + S1 + ch + a2a_sha256_k ! i + w ! i;
         S0 = a2a_ror32 a 2 XOR a2a_ror32 a 13 XOR a2a_ror32 a 22;
         maj = (a AND b) XOR (a AND c) XOR (b AND c);
         t2 = S0 + maj
     in (t1 + t2, a, b, c, d + t1, e, f, g))"

definition a2a_sha256_transform :: "a2a_sha256_ctx \<Rightarrow> a2a_sha256_ctx" where
  "a2a_sha256_transform ctx =
    (let w = schedule (sh_data ctx); s = sh_state ctx;
         (a, b, c, d, e, f, g, h) =
           fold (round_step w) [0..<64] (s ! 0, s ! 1, s ! 2, s ! 3, s ! 4, s ! 5, s ! 6, s ! 7)
     in ctx\<lparr>sh_state := [s ! 0 + a, s ! 1 + b, s ! 2 + c, s ! 3 + d, s ! 4 + e, s ! 5 + f,
               s ! 6 + g, s ! 7 + h]\<rparr>)"

text \<open>The buffer keeps what memory held before; only state and lengths are set.\<close>

definition a2a_sha256_init :: "a2a_sha256_ctx \<Rightarrow> a2a_sha256_ctx" where
  "a2a_sha256_init ctx = ctx\<lparr>sh_state := [0x6a09e667, 0xbb67ae85, 0x3c6ef372, 0xa54ff53a, 0x510e527f,
      0x9b05688c, 0x1f83d9ab, 0x5be0cd19], sh_bitlen := 0, sh_datalen := 0\<rparr>"

definition put_byte :: "u8 \<Rightarrow> a2a_sha256_ctx \<Rightarrow> a2a_sha256_ctx" where
  "put_byte b ctx = ctx\<lparr>sh_data := (sh_data ctx)[sh_datalen ctx := b], sh_datalen := sh_datalen ctx + 1\<rparr>"

definition update_byte :: "a2a_sha256_ctx \<Rightarrow> u8 \<Rightarrow> a2a_sha256_ctx" where
  "update_byte ctx b =
    (let ctx = put_byte b ctx in
     if sh_datalen ctx = 64
     then (a2a_sha256_transform ctx)\<lparr>sh_bitlen := sh_bitlen ctx + 512, sh_datalen := 0\<rparr>
     else ctx)"

definition a2a_sha256_update :: "a2a_sha256_ctx \<Rightarrow> u8 list \<Rightarrow> a2a_sha256_ctx" where
  "a2a_sha256_update ctx data = foldl update_byte ctx data"

text \<open>\<open>while (ctx->datalen < n) ctx->data[ctx->datalen++] = 0;\<close>\<close>

function fill_zero :: "nat \<Rightarrow> a2a_sha256_ctx \<Rightarrow> a2a_sha256_ctx" where
  "fill_zero n ctx = (if sh_datalen ctx < n then fill_zero n (put_byte 0 ctx) else ctx)"
  by auto
termination
  by (relation "measure (\<lambda>(n, ctx). n - sh_datalen ctx)") (auto simp: put_byte_def)

declare fill_zero.simps [simp del]

definition be64 :: "u64 \<Rightarrow> u8 list" where
  "be64 x = map (\<lambda>i. ucast (drop_bit (56 - i * 8) x)) [0..<8]"

definition be32 :: "u32 \<Rightarrow> u8 list" where
  "be32 x = [ucast (drop_bit 24 x), ucast (drop_bit 16 x), ucast (drop_bit 8 x), ucast x]"

definition a2a_sha256_final :: "a2a_sha256_ctx \<Rightarrow> u8 list" where
  "a2a_sha256_final ctx =
    (let bitlen = sh_bitlen ctx + of_nat (sh_datalen ctx) * 8;
         ctx = put_byte 0x80 ctx;
         ctx = (if sh_datalen ctx > 56
                then (a2a_sha256_transform (fill_zero 64 ctx))
                       \<lparr>sh_bitlen := sh_bitlen ctx + 512, sh_datalen := 0\<rparr>
                else ctx);
         ctx = fill_zero 56 ctx;
         ctx = ctx\<lparr>sh_data := take 56 (sh_data ctx) @ be64 bitlen\<rparr>;
         ctx = a2a_sha256_transform ctx
     in concat (map be32 (take 8 (sh_state ctx))))"

text \<open>\<open>junk\<close> is what the stack holds where the code declares its contexts.\<close>

definition sha256 :: "a2a_sha256_ctx \<Rightarrow> u8 list \<Rightarrow> u8 list" where
  "sha256 junk m = a2a_sha256_final (a2a_sha256_update (a2a_sha256_init junk) m)"

definition a2a_hmac_sha256 :: "a2a_sha256_ctx \<Rightarrow> u8 list \<Rightarrow> u8 list \<Rightarrow> u8 list" where
  "a2a_hmac_sha256 junk key msg =
    (let k = (if 64 < length key then sha256 junk key @ replicate 32 0
              else key @ replicate (64 - length key) 0);
         ipad = map (\<lambda>b. b XOR 0x36) k;
         opad = map (\<lambda>b. b XOR 0x5c) k;
         inner = a2a_sha256_final (a2a_sha256_update (a2a_sha256_update (a2a_sha256_init junk) ipad) msg)
     in a2a_sha256_final (a2a_sha256_update (a2a_sha256_update (a2a_sha256_init junk) opad) inner))"

definition a2a_const_time_eq :: "u8 list \<Rightarrow> u8 list \<Rightarrow> nat \<Rightarrow> bool" where
  "a2a_const_time_eq a b len \<longleftrightarrow> fold (\<lambda>i diff. diff OR (a ! i XOR b ! i)) [0..<len] 0 = 0"

definition a2a_simple_hash :: "u8 list \<Rightarrow> u32" where
  "a2a_simple_hash data = foldl (\<lambda>hash b. (push_bit 5 hash + hash) + ucast b) 5381 data"

section \<open>The standards\<close>

text \<open>FIPS 180-4: padding to whole blocks, and the blocks of a padded message.\<close>

definition fips_pad :: "u8 list \<Rightarrow> u8 list" where
  "fips_pad m = m @ [0x80] @ replicate ((119 - length m mod 64) mod 64) 0 @ be64 (of_nat (8 * length m))"

function blocks :: "u8 list \<Rightarrow> u8 list list" where
  "blocks m = (if length m < 64 then [] else take 64 m # blocks (drop 64 m))"
  by auto
termination
  by (relation "measure length") auto

declare blocks.simps [simp del]

text \<open>
  The constants of the standard: the first 32 bits of the fractional parts of the cube roots
  of the first 64 primes, and of the square roots of the first eight.
\<close>

definition primes64 :: "nat list" where
  "primes64 = [2, 3, 5, 7, 11, 13, 17, 19, 23, 29, 31, 37, 41, 43, 47, 53,
    59, 61, 67, 71, 73, 79, 83, 89, 97, 101, 103, 107, 109, 113, 127, 131,
    137, 139, 149, 151, 157, 163, 167, 173, 179, 181, 191, 193, 197, 199, 211, 223,
    227, 229, 233, 239, 241, 251, 257, 263, 269, 271, 277, 281, 283, 293, 307, 311]"

definition root_bits :: "nat \<Rightarrow> nat \<Rightarrow> u32" where
  "root_bits k p = word_of_int \<lfloor>2 ^ 32 * root k (real p)\<rfloor>"

definition fips_K :: "nat \<Rightarrow> u32" where
  "fips_K t = root_bits 3 (primes64 ! t)"

definition fips_H0 :: "u32 list" where
  "fips_H0 = map (root_bits 2) (take 8 primes64)"

text \<open>The message schedule, the working variables after \<open>t\<close> rounds, and the compression.\<close>

fun fips_W :: "u8 list \<Rightarrow> nat \<Rightarrow> u32" where
  "fips_W block t = (if t < 16 then ucast (block ! (4 * t)) * 2 ^ 24 + ucast (block ! (4 * t + 1)) * 2 ^ 16 +
          ucast (block ! (4 * t + 2)) * 2 ^ 8 + ucast (block ! (4 * t + 3))
     else (word_rotr 17 (fips_W block (t - 2)) XOR word_rotr 19 (fips_W block (t - 2)) XOR drop_bit 10 (fips_W block (t - 2)))
        + fips_W block (t - 7)
        + (word_rotr 7 (fips_W block (t - 15)) XOR word_rotr 18 (fips_W block (t - 15)) XOR drop_bit 3 (fips_W block (t - 15)))
        + fips_W block (t - 16))"

declare fips_W.simps [simp del]

fun fips_vars :: "u8 list \<Rightarrow> u32 list \<Rightarrow> nat \<Rightarrow> u32 list" where
  "fips_vars block H 0 = H"
| "fips_vars block H (Suc t) =
    (let v = fips_vars block H t; a = v ! 0; b = v ! 1; c = v ! 2; e = v ! 4; f = v ! 5; g = v ! 6;
         T1 = v ! 7 + (word_rotr 6 e XOR word_rotr 11 e XOR word_rotr 25 e)
                + ((e AND f) XOR (NOT e AND g)) + fips_K t + fips_W block t;
         T2 = (word_rotr 2 a XOR word_rotr 13 a XOR word_rotr 22 a)
                + ((a AND b) XOR (a AND c) XOR (b AND c))
     in [T1 + T2, a, b, c, v ! 3 + T1, e, f, g])"

definition fips_compress :: "u8 list \<Rightarrow> u32 list \<Rightarrow> u32 list" where
  "fips_compress block H = map2 (+) H (fips_vars block H 64)"

definition fips_sha256 :: "u8 list \<Rightarrow> u8 list" where
  "fips_sha256 m = concat (map be32 (fold fips_compress (blocks (fips_pad m)) fips_H0))"

text \<open>RFC 2104 with a block of 64 bytes.\<close>

definition rfc2104_hmac :: "u8 list \<Rightarrow> u8 list \<Rightarrow> u8 list" where
  "rfc2104_hmac K m =
    (let K0 = (if 64 < length K then fips_sha256 K else K);
         K1 = K0 @ replicate (64 - length K0) 0
     in fips_sha256 (map (\<lambda>b. b XOR 0x5c) K1 @ fips_sha256 (map (\<lambda>b. b XOR 0x36) K1 @ m)))"

section \<open>The constants\<close>

lemma root_bits_eq:
  assumes "0 < k" "n ^ k \<le> p * (2 ^ 32) ^ k" "p * (2 ^ 32) ^ k < (n + 1) ^ k"
  shows "root_bits k p = of_nat n"
proof -
  let ?r = "2 ^ 32 * root k (real p)"
  have r: "?r ^ k = real (p * (2 ^ 32) ^ k)" "0 \<le> ?r"
    using assms(1) by (simp_all add: power_mult_distrib mult.commute real_root_ge_zero)
  have "real n ^ k \<le> ?r ^ k" unfolding r(1) using assms(2) by (metis of_nat_le_iff of_nat_power)
  then have lo: "real n \<le> ?r" using r(2) assms(1) by (metis of_nat_0_le_iff power_mono_iff)
  have "?r ^ k < real (n + 1) ^ k" unfolding r(1) using assms(3) by (metis of_nat_less_iff of_nat_power)
  then have "?r < real (n + 1)" using r(2) by (meson of_nat_0_le_iff power_less_imp_less_base)
  with lo have "\<lfloor>?r\<rfloor> = int n" by (intro floor_unique) simp_all
  then show ?thesis by (simp add: root_bits_def)
qed

text \<open>A table entry, with the integer part of the root put in front of it.\<close>

definition root_floor :: "nat \<Rightarrow> nat \<Rightarrow> nat" where
  "root_floor k p = (if p < 2 ^ k then 1 else if p < 3 ^ k then 2 else if p < 4 ^ k then 3
     else if p < 5 ^ k then 4 else if p < 6 ^ k then 5 else 6)"

definition entry_ok :: "nat \<Rightarrow> u32 \<Rightarrow> nat \<Rightarrow> bool" where
  "entry_ok k w p \<longleftrightarrow> (let n = root_floor k p * 2 ^ 32 + unat w in
     n ^ k \<le> p * (2 ^ 32) ^ k \<and> p * (2 ^ 32) ^ k < (n + 1) ^ k)"

lemma entry_ok_root: "0 < k \<Longrightarrow> entry_ok k w p \<Longrightarrow> root_bits k p = w"
proof -
  assume "0 < k" "entry_ok k w p"
  then have "root_bits k p = of_nat (root_floor k p * 2 ^ 32 + unat w)"
    unfolding entry_ok_def Let_def by (intro root_bits_eq) simp_all
  moreover have "(2 :: u32) ^ 32 = 0" by simp
  ultimately show ?thesis by (simp del: power_numeral)
qed

lemma k_entries: "list_all2 (entry_ok 3) a2a_sha256_k primes64"
  by (simp add: a2a_sha256_k_def primes64_def entry_ok_def root_floor_def)

lemma primes64_length: "length primes64 = 64"
  by (simp add: primes64_def)

lemma k_fips: "t < 64 \<Longrightarrow> a2a_sha256_k ! t = fips_K t"
  using k_entries entry_ok_root [of 3 "a2a_sha256_k ! t" "primes64 ! t"]
  by (simp add: list_all2_conv_all_nth fips_K_def primes64_length)

lemma H0_fips: "fips_H0 = [0x6a09e667, 0xbb67ae85, 0x3c6ef372, 0xa54ff53a, 0x510e527f,
      0x9b05688c, 0x1f83d9ab, 0x5be0cd19]"
proof -
  have "list_all2 (entry_ok 2) [0x6a09e667, 0xbb67ae85, 0x3c6ef372, 0xa54ff53a, 0x510e527f,
      0x9b05688c, 0x1f83d9ab, 0x5be0cd19] (take 8 primes64)"
    by (simp add: primes64_def entry_ok_def root_floor_def)
  then show ?thesis using entry_ok_root [of 2] by (simp add: fips_H0_def primes64_def)
qed

section \<open>The block function is the FIPS compression\<close>

lemma a2a_ror32_rotr: "0 < n \<Longrightarrow> n < 32 \<Longrightarrow> a2a_ror32 x n = word_rotr n x"
proof (rule bit_word_eqI)
  fix i assume n: "0 < n" "n < 32" and i: "i < LENGTH(32)"
  show "bit (a2a_ror32 x n) i = bit (word_rotr n x) i"
  proof (cases "i + n < 32")
    case True
    then show ?thesis using n i
      by (auto simp: a2a_ror32_def bit_word_rotr_iff bit_or_iff bit_drop_bit_eq bit_push_bit_iff ac_simps)
  next
    case False
    then have "(i + n) mod 32 = i + n - 32" using n i by (simp add: mod_if)
    moreover have "\<not> bit x (i + n)" using False bit_imp_le_length [of x "i + n"] by auto
    ultimately show ?thesis using n i False
      by (auto simp: a2a_ror32_def bit_word_rotr_iff bit_or_iff bit_drop_bit_eq bit_push_bit_iff add.commute [of n i])
  qed
qed

lemma or_bytes: "n \<le> k \<Longrightarrow> push_bit k (x :: u32) OR y = push_bit k x + y" if "\<forall>i \<ge> n. \<not> bit y i" for y :: u32
proof -
  assume "n \<le> k"
  have "push_bit k x AND y = 0"
    using that \<open>n \<le> k\<close> by (intro bit_word_eqI) (auto simp: bit_and_iff bit_push_bit_iff)
  then show ?thesis by (simp add: disjunctive_add_eq_or)
qed

lemma ucast_byte_high: "8 \<le> i \<Longrightarrow> \<not> bit (ucast (b :: u8) :: u32) i"
  using bit_imp_le_length [of b i] by (auto simp: bit_ucast_iff)

lemma or_four_bytes:
  fixes a b c d :: u8
  shows "push_bit 24 (ucast a :: u32) OR push_bit 16 (ucast b) OR push_bit 8 (ucast c) OR ucast d =
    ucast a * 2 ^ 24 + ucast b * 2 ^ 16 + ucast c * 2 ^ 8 + ucast d"
proof -
  let ?x = "push_bit 8 (ucast c :: u32) OR ucast d"
  have 1: "?x = push_bit 8 (ucast c) + ucast d"
    by (rule or_bytes [of 8]) (auto dest: ucast_byte_high)
  have x: "\<not> bit ?x i" if "16 \<le> i" for i
    using that by (auto simp: bit_or_iff bit_push_bit_iff ucast_byte_high)
  have 2: "push_bit 16 (ucast b :: u32) OR ?x = push_bit 16 (ucast b) + ?x"
    by (rule or_bytes [of 16]) (use x in auto)
  have y: "\<not> bit (push_bit 16 (ucast b :: u32) OR ?x) i" if "24 \<le> i" for i
    using that x by (auto simp: bit_or_iff bit_push_bit_iff ucast_byte_high)
  have 3: "push_bit 24 (ucast a :: u32) OR (push_bit 16 (ucast b) OR ?x) =
      push_bit 24 (ucast a) + (push_bit 16 (ucast b) OR ?x)"
    by (rule or_bytes [of 24]) (use y in auto)
  have eq: "push_bit 24 (ucast a :: u32) OR push_bit 16 (ucast b) OR push_bit 8 (ucast c) OR ucast d =
      push_bit 24 (ucast a) + (push_bit 16 (ucast b) + (push_bit 8 (ucast c) + ucast d))"
    using 1 2 3 by argo
  show ?thesis unfolding eq by (simp add: push_bit_eq_mult add.assoc)
qed

lemma load_word_sum:
  "load_word d t = ucast (d ! (4 * t)) * 2 ^ 24 + ucast (d ! (4 * t + 1)) * 2 ^ 16 +
     ucast (d ! (4 * t + 2)) * 2 ^ 8 + ucast (d ! (4 * t + 3))"
  unfolding load_word_def or_four_bytes by (simp add: mult.commute)

lemma schedule_prefix:
  "16 \<le> k \<Longrightarrow> fold (\<lambda>i w. w @ [next_word w i]) [16..<k] (map (load_word d) [0..<16]) = map (fips_W d) [0..<k]"
proof (induction k rule: dec_induct)
  case base
  have "load_word d t = fips_W d t" if "t < 16" for t
    using that load_word_sum [of d t] by (simp add: fips_W.simps)
  then show ?case by (auto intro: map_cong)
next
  case (step k)
  let ?w = "map (fips_W d) [0..<k]"
  have n: "?w ! (k - j) = fips_W d (k - j)" if "0 < j" "j \<le> 16" for j using step(1) that by simp
  have "next_word ?w k = fips_W d (k - 16) + (word_rotr 7 (fips_W d (k - 15)) XOR word_rotr 18 (fips_W d (k - 15))
      XOR drop_bit 3 (fips_W d (k - 15))) + fips_W d (k - 7) + (word_rotr 17 (fips_W d (k - 2)) XOR
      word_rotr 19 (fips_W d (k - 2)) XOR drop_bit 10 (fips_W d (k - 2)))"
    unfolding next_word_def Let_def by (simp add: n a2a_ror32_rotr del: nth_map)
  also have "\<dots> = fips_W d k"
    using step(1) unfolding fips_W.simps [of d k] by (simp only: ac_simps not_less [symmetric] if_False)
  finally have "next_word ?w k = fips_W d k" .
  with step show ?case by simp
qed

lemma schedule_nth: "i < 64 \<Longrightarrow> schedule d ! i = fips_W d i"
proof -
  assume i: "i < 64"
  have "schedule d = map (fips_W d) [0..<64]" unfolding schedule_def by (rule schedule_prefix) simp
  then have "schedule d ! i = map (fips_W d) [0..<64] ! i" by (rule arg_cong)
  also have "\<dots> = fips_W d (0 + i)" using i by (intro nth_map_upt) simp
  finally show ?thesis by simp
qed

lemma fips_vars_length: "length H = 8 \<Longrightarrow> length (fips_vars block H t) = 8"
  by (cases t) simp_all

definition vars_of :: "u32 list \<Rightarrow> u32 \<times> u32 \<times> u32 \<times> u32 \<times> u32 \<times> u32 \<times> u32 \<times> u32" where
  "vars_of s = (s ! 0, s ! 1, s ! 2, s ! 3, s ! 4, s ! 5, s ! 6, s ! 7)"

lemma rounds_vars:
  "t \<le> 64 \<Longrightarrow> fold (round_step (schedule d)) [0..<t] (vars_of H) = vars_of (fips_vars d H t)"
proof (induction t)
  case 0
  then show ?case by simp
next
  case (Suc t)
  then show ?case by (simp add: vars_of_def a2a_ror32_rotr schedule_nth k_fips ac_simps)
qed

lemma list8: "length H = 8 \<Longrightarrow> H = [H ! 0, H ! 1, H ! 2, H ! 3, H ! 4, H ! 5, H ! 6, H ! 7]"
  by (intro nth_equalityI) (auto simp: less_Suc_eq numeral_eq_Suc)

lemma transform_compress:
  assumes "length (sh_state ctx) = 8"
  shows "a2a_sha256_transform ctx = ctx\<lparr>sh_state := fips_compress (sh_data ctx) (sh_state ctx)\<rparr>"
proof -
  let ?H = "sh_state ctx" and ?v = "fips_vars (sh_data ctx) (sh_state ctx) 64"
  have v: "length ?v = 8" using assms by (rule fips_vars_length)
  have "fips_compress (sh_data ctx) ?H = map2 (+) [?H ! 0, ?H ! 1, ?H ! 2, ?H ! 3, ?H ! 4, ?H ! 5, ?H ! 6, ?H ! 7]
      [?v ! 0, ?v ! 1, ?v ! 2, ?v ! 3, ?v ! 4, ?v ! 5, ?v ! 6, ?v ! 7]"
    unfolding fips_compress_def using list8 [OF assms] list8 [OF v] by metis
  moreover have "fold (round_step (schedule (sh_data ctx))) [0..<64] (vars_of ?H) = vars_of ?v"
    by (rule rounds_vars) simp
  ultimately show ?thesis
    unfolding a2a_sha256_transform_def Let_def vars_of_def [symmetric] by (simp add: vars_of_def)
qed

lemma fips_compress_length: "length H = 8 \<Longrightarrow> length (fips_compress b H) = 8"
  by (simp add: fips_compress_def fips_vars_length)

section \<open>Buffering\<close>

lemma blocks_append: "length xs mod 64 = 0 \<Longrightarrow> blocks (xs @ ys) = blocks xs @ blocks ys"
proof (induction xs rule: blocks.induct)
  case (1 xs)
  show ?case
  proof (cases "length xs < 64")
    case True
    with "1.prems" have "xs = []" by simp
    then show ?thesis by (simp add: blocks.simps)
  next
    case False
    with 1 show ?thesis
      by (simp add: blocks.simps [of "xs @ ys"] blocks.simps [of xs] le_mod_geq)
  qed
qed

lemma blocks_short: "length xs < 64 \<Longrightarrow> blocks xs = []"
  by (simp add: blocks.simps)

lemma blocks_one: "length xs = 64 \<Longrightarrow> blocks xs = [xs]"
  by (simp add: blocks.simps [of xs] blocks_short)

text \<open>
  The context after hashing \<open>m\<close>: the state has absorbed the whole blocks of \<open>m\<close>, the
  buffer starts with the rest, and the bit count is that of the whole blocks.
\<close>

definition whole :: "u8 list \<Rightarrow> u8 list" where
  "whole m = take (64 * (length m div 64)) m"

definition rest :: "u8 list \<Rightarrow> u8 list" where
  "rest m = drop (64 * (length m div 64)) m"

definition absorbed :: "u8 list \<Rightarrow> a2a_sha256_ctx \<Rightarrow> bool" where
  "absorbed m ctx \<longleftrightarrow> sh_state ctx = fold fips_compress (blocks (whole m)) fips_H0 \<and>
     length (sh_data ctx) = 64 \<and> sh_datalen ctx = length m mod 64 \<and>
     take (sh_datalen ctx) (sh_data ctx) = rest m \<and> sh_bitlen ctx = of_nat (512 * (length m div 64))"

lemma whole_rest: "whole m @ rest m = m" "length (rest m) = length m mod 64" "length (whole m) mod 64 = 0"
proof -
  have "64 * (length m div 64) \<le> length m" by simp
  then show "length (whole m) mod 64 = 0" by (simp add: whole_def)
  show "whole m @ rest m = m" by (simp add: whole_def rest_def)
  show "length (rest m) = length m mod 64" by (simp add: rest_def minus_mult_div_eq_mod)
qed

lemma fold_compress_length: "length H = 8 \<Longrightarrow> length (fold fips_compress bs H) = 8"
  by (induction bs arbitrary: H) (auto simp: fips_compress_length)

lemma whole_rest_snoc:
  "length m mod 64 \<noteq> 63 \<Longrightarrow> whole (m @ [b]) = whole m \<and> rest (m @ [b]) = rest m @ [b]"
  "length m mod 64 = 63 \<Longrightarrow> whole (m @ [b]) = whole m @ rest m @ [b] \<and> rest (m @ [b]) = []"
proof -
  have le: "64 * (length m div 64) \<le> length m" by simp
  show "whole (m @ [b]) = whole m \<and> rest (m @ [b]) = rest m @ [b]" if n: "length m mod 64 \<noteq> 63"
  proof -
    have "Suc (length m) div 64 = length m div 64" using n by (simp add: div_Suc mod_Suc)
    with le show ?thesis by (simp add: whole_def rest_def)
  qed
  show "whole (m @ [b]) = whole m @ rest m @ [b] \<and> rest (m @ [b]) = []" if n: "length m mod 64 = 63"
  proof -
    have d: "Suc (length m) div 64 = Suc (length m div 64)" using n by (simp add: div_Suc mod_Suc)
    have "64 * Suc (length m div 64) = Suc (length m)"
      using n mult_div_mod_eq [of 64 "length m"] by simp
    with d have "64 * (length (m @ [b]) div 64) = length (m @ [b])" by simp
    then have "whole (m @ [b]) = m @ [b]" "rest (m @ [b]) = []" by (simp_all add: whole_def rest_def)
    then show ?thesis using whole_rest(1) [of m] by (metis append.assoc)
  qed
qed

lemma take_upd: "i < length xs \<Longrightarrow> take (Suc i) (xs[i := b]) = take i xs @ [b]"
  by (simp add: take_Suc_conv_app_nth)

lemma fips_H0_length: "length fips_H0 = 8"
  by (simp add: H0_fips)

lemma update_byte_absorbed:
  assumes "absorbed m ctx"
  shows "absorbed (m @ [b]) (update_byte ctx b)"
proof -
  let ?c = "put_byte b ctx"
  have len: "sh_datalen ctx = length m mod 64" "length (sh_data ctx) = 64"
    using assms by (simp_all add: absorbed_def)
  have lt: "sh_datalen ctx < length (sh_data ctx)" using len by simp
  have st: "length (sh_state ?c) = 8"
    using assms fold_compress_length [OF fips_H0_length] by (simp add: absorbed_def put_byte_def)
  have "take (sh_datalen ctx) (sh_data ctx) = rest m" using assms unfolding absorbed_def by blast
  then have data: "take (Suc (sh_datalen ctx)) (sh_data ?c) = rest m @ [b]"
    using take_upd [OF lt, of b] unfolding put_byte_def by simp
  show ?thesis
  proof (cases "length m mod 64 = 63")
    case False
    then have "sh_datalen ?c \<noteq> 64" using len by (simp add: put_byte_def)
    then have u: "update_byte ctx b = ?c" by (simp add: update_byte_def)
    have "length (m @ [b]) div 64 = length m div 64" "length (m @ [b]) mod 64 = Suc (length m mod 64)"
      using False by (simp_all add: div_Suc mod_Suc)
    then show ?thesis
      using assms False data whole_rest_snoc(1) [OF False] len
      by (simp add: u absorbed_def put_byte_def)
  next
    case True
    then have d: "sh_datalen ?c = 64" using len by (simp add: put_byte_def)
    have all: "sh_data ?c = rest m @ [b]" using data True len by (simp add: put_byte_def)
    have blk: "blocks (whole (m @ [b])) = blocks (whole m) @ [rest m @ [b]]"
      using whole_rest_snoc(2) [OF True] whole_rest(2,3) [of m] True
      by (simp add: blocks_append blocks_one)
    have "length (m @ [b]) div 64 = Suc (length m div 64)" "length (m @ [b]) mod 64 = 0"
      using True by (simp_all add: div_Suc mod_Suc)
    then show ?thesis
      using assms True d all blk whole_rest_snoc(2) [OF True, of b] transform_compress [OF st] len
        whole_rest(2) [of m]
      by (simp add: update_byte_def absorbed_def put_byte_def algebra_simps)
  qed
qed

lemma update_absorbed: "absorbed m ctx \<Longrightarrow> absorbed (m @ n) (a2a_sha256_update ctx n)"
proof (induction n arbitrary: m ctx)
  case Nil
  then show ?case by (simp add: a2a_sha256_update_def)
next
  case (Cons b n)
  from Cons.IH [OF update_byte_absorbed [OF Cons.prems, of b]] show ?case
    by (simp add: a2a_sha256_update_def)
qed

lemma init_absorbed: "length (sh_data junk) = 64 \<Longrightarrow> absorbed [] (a2a_sha256_init junk)"
  by (simp add: absorbed_def a2a_sha256_init_def whole_def rest_def blocks_short H0_fips)

lemma fill_zero_eq:
  assumes "sh_datalen ctx \<le> n" "n \<le> length (sh_data ctx)"
  shows "sh_datalen (fill_zero n ctx) = n \<and> length (sh_data (fill_zero n ctx)) = length (sh_data ctx) \<and>
    sh_state (fill_zero n ctx) = sh_state ctx \<and>
    take n (sh_data (fill_zero n ctx)) =
      take (sh_datalen ctx) (sh_data ctx) @ replicate (n - sh_datalen ctx) 0"
  using assms
proof (induction n ctx rule: fill_zero.induct)
  case (1 n ctx)
  show ?case
  proof (cases "sh_datalen ctx < n")
    case False
    with "1.prems" show ?thesis by (subst fill_zero.simps) (simp add: fill_zero.simps)
  next
    case True
    let ?c = "put_byte 0 ctx"
    have lt: "sh_datalen ctx < length (sh_data ctx)" using True "1.prems" by simp
    have f: "fill_zero n ctx = fill_zero n ?c" using True by (simp add: fill_zero.simps [of n ctx])
    have rep: "replicate (n - sh_datalen ctx) (0 :: u8) = 0 # replicate (n - Suc (sh_datalen ctx)) 0"
      using True by (metis Suc_diff_Suc replicate_Suc)
    have c: "sh_datalen ?c = Suc (sh_datalen ctx)" "length (sh_data ?c) = length (sh_data ctx)"
      "sh_state ?c = sh_state ctx"
      "take (Suc (sh_datalen ctx)) (sh_data ?c) = take (sh_datalen ctx) (sh_data ctx) @ [0]"
      using take_upd [OF lt, of 0] by (simp_all add: put_byte_def)
    from "1.IH" [OF True] c True "1.prems" show ?thesis by (simp add: f rep)
  qed
qed

lemma be64_length [simp]: "length (be64 x) = 8"
  by (simp add: be64_def)

lemma pad_count:
  "k < 56 \<Longrightarrow> (119 - k) mod 64 = 55 - (k :: nat)"
  "56 \<le> k \<Longrightarrow> k < 64 \<Longrightarrow> (119 - k) mod 64 = (63 - k) + (56 :: nat)"
proof -
  show "(119 - k) mod 64 = 55 - k" if "k < 56"
  proof -
    have eq: "119 - k = (55 - k) + 64" using that by simp
    show ?thesis unfolding eq mod_add_self2 by (rule mod_less) simp
  qed
  show "(119 - k) mod 64 = (63 - k) + 56" if "56 \<le> k" "k < 64"
  proof -
    have eq: "119 - k = (63 - k) + 56" using that by simp
    show ?thesis unfolding eq by (rule mod_less) (use that in simp)
  qed
qed

lemma blocks_two: "length x = 64 \<Longrightarrow> length y = 64 \<Longrightarrow> blocks (x @ y) = [x, y]"
  by (simp add: blocks_append blocks_one)

text \<open>What the last block function call leaves, in both layouts of the padding.\<close>

lemma last_block:
  "length (sh_state d) = 8 \<Longrightarrow>
    concat (map be32 (take 8 (sh_state (a2a_sha256_transform (d\<lparr>sh_data := take 56 (sh_data d) @ b\<rparr>))))) =
    concat (map be32 (fips_compress (take 56 (sh_data d) @ b) (sh_state d)))"
  by (subst transform_compress) (simp_all add: fips_compress_length)

lemma padded:
  "fips_pad m = whole m @ (rest m @ [0x80] @ replicate ((119 - length m mod 64) mod 64) 0 @ be64 (of_nat (8 * length m)))"
  using whole_rest(1) [of m] unfolding fips_pad_def by (metis append.assoc)

lemma fips_last:
  assumes "fips_pad m = whole m @ concat bs" "\<forall>b \<in> set bs. length b = 64"
  shows "fips_sha256 m = concat (map be32 (fold fips_compress bs (fold fips_compress (blocks (whole m)) fips_H0)))"
proof -
  have "blocks (concat bs) = bs" using assms(2)
    by (induction bs) (simp_all add: blocks_short blocks_append blocks_one)
  then show ?thesis
    using whole_rest by (simp add: fips_sha256_def assms(1) blocks_append)
qed

lemma absorbed_bits:
  assumes "absorbed m ctx"
  shows "sh_bitlen ctx + of_nat (sh_datalen ctx) * 8 = of_nat (8 * length m)"
proof -
  have "512 * (length m div 64) + length m mod 64 * 8 = 8 * length m"
    using mult_div_mod_eq [of 64 "length m"] by linarith
  then have "of_nat (512 * (length m div 64)) + of_nat (length m mod 64) * 8 = (of_nat (8 * length m) :: u64)"
    by (metis of_nat_add of_nat_mult of_nat_numeral)
  then show ?thesis using assms by (simp add: absorbed_def)
qed

text \<open>The context after the padding bit has been put behind the data.\<close>

lemma absorbed_bit:
  assumes "absorbed m ctx"
  shows "sh_datalen (put_byte 0x80 ctx) = Suc (length m mod 64)" "length (sh_data (put_byte 0x80 ctx)) = 64"
    "sh_state (put_byte 0x80 ctx) = fold fips_compress (blocks (whole m)) fips_H0"
    "take (Suc (length m mod 64)) (sh_data (put_byte 0x80 ctx)) = rest m @ [0x80]"
  using assms take_upd [of "length m mod 64" "sh_data ctx" "0x80"]
  by (auto simp: absorbed_def put_byte_def)

lemma final_short:
  assumes "absorbed m ctx" "length m mod 64 < 56"
  shows "a2a_sha256_final ctx = fips_sha256 m"
proof -
  let ?r = "length m mod 64" and ?bl = "of_nat (8 * length m) :: u64"
  let ?d = "fill_zero 56 (put_byte 0x80 ctx)"
  have d: "take 56 (sh_data ?d) = rest m @ [0x80] @ replicate (55 - ?r) 0"
    "sh_state ?d = fold fips_compress (blocks (whole m)) fips_H0"
    using fill_zero_eq [of "put_byte 0x80 ctx" 56] absorbed_bit [OF assms(1)] assms(2) by simp_all
  have p: "fips_pad m = whole m @ concat [take 56 (sh_data ?d) @ be64 ?bl]"
    unfolding padded d pad_count(1) [OF assms(2)] by simp
  have "\<forall>b \<in> set [take 56 (sh_data ?d) @ be64 ?bl]. length b = 64"
    unfolding d using whole_rest assms(2) by simp
  then have "fips_sha256 m = concat (map be32 (fips_compress (take 56 (sh_data ?d) @ be64 ?bl) (sh_state ?d)))"
    by (simp only: fips_last [OF p] fold_simps d(2))
  also have "\<dots> = a2a_sha256_final ctx"
    unfolding a2a_sha256_final_def Let_def absorbed_bits [OF assms(1)]
    using absorbed_bit(1) [OF assms(1)] assms(2) last_block [of ?d] d(2) fold_compress_length [OF fips_H0_length] by simp
  finally show ?thesis ..
qed

lemma final_long:
  assumes "absorbed m ctx" "\<not> length m mod 64 < 56"
  shows "a2a_sha256_final ctx = fips_sha256 m"
proof -
  let ?r = "length m mod 64" and ?bl = "of_nat (8 * length m) :: u64"
  let ?c = "put_byte 0x80 ctx" and ?H = "fold fips_compress (blocks (whole m)) fips_H0"
  let ?f = "fill_zero 64 ?c" and ?b1 = "rest m @ [0x80] @ replicate (63 - ?r) 0"
  define e where "e = (a2a_sha256_transform ?f)\<lparr>sh_bitlen := sh_bitlen ?c + 512, sh_datalen := 0\<rparr>"
  let ?d = "fill_zero 56 e"
  have lt: "?r < 64" and H8: "length ?H = 8" by (simp_all add: fold_compress_length [OF fips_H0_length])
  have "take 64 (sh_data ?f) = ?b1" "length (sh_data ?f) = 64" and f2: "sh_state ?f = ?H"
    using fill_zero_eq [of ?c 64] absorbed_bit [OF assms(1)] lt by simp_all
  then have f1: "sh_data ?f = ?b1" by simp
  have b1: "length ?b1 = 64" using whole_rest lt by simp
  have e: "sh_state e = fips_compress ?b1 ?H" "sh_datalen e = 0" "length (sh_data e) = 64"
    using f1 f2 transform_compress [of ?f] H8 b1 by (simp_all add: e_def)
  have d: "take 56 (sh_data ?d) = replicate 56 0" "sh_state ?d = fips_compress ?b1 ?H"
    using fill_zero_eq [of e 56] e by simp_all
  have "(119 - ?r) mod 64 = (63 - ?r) + 56" using assms(2) lt by (intro pad_count(2)) auto
  then have "replicate ((119 - ?r) mod 64) (0 :: u8) = replicate (63 - ?r) 0 @ take 56 (sh_data ?d)"
    by (simp only: replicate_add d)
  then have p: "fips_pad m = whole m @ concat [?b1, take 56 (sh_data ?d) @ be64 ?bl]"
    unfolding padded by (simp del: replicate.simps)
  have q: "\<forall>b \<in> set [?b1, take 56 (sh_data ?d) @ be64 ?bl]. length b = 64" using b1 d(1) by simp
  have "fips_sha256 m = concat (map be32 (fips_compress (take 56 (sh_data ?d) @ be64 ?bl) (sh_state ?d)))"
    unfolding fips_last [OF p q] fold_simps d(2) by (rule refl)
  also have "\<dots> = concat (map be32 (take 8 (sh_state (a2a_sha256_transform
      (?d\<lparr>sh_data := take 56 (sh_data ?d) @ be64 ?bl\<rparr>)))))"
    by (rule last_block [symmetric]) (unfold d(2), rule fips_compress_length [OF H8])
  also have "\<dots> = a2a_sha256_final ctx"
    unfolding a2a_sha256_final_def Let_def absorbed_bits [OF assms(1)]
    using absorbed_bit(1) [OF assms(1)] assms(2) by (simp add: e_def)
  finally show ?thesis ..
qed

lemma final_absorbed: "absorbed m ctx \<Longrightarrow> a2a_sha256_final ctx = fips_sha256 m"
  using final_short final_long by blast

section \<open>Correctness\<close>

text \<open>
  A streaming hash: updates concatenate, and finishing gives the hash of all that was fed.
\<close>

locale stream_hash =
  fixes start :: "'c"
    and feed :: "'c \<Rightarrow> 'b list \<Rightarrow> 'c"
    and finish :: "'c \<Rightarrow> 'b list"
    and hash :: "'b list \<Rightarrow> 'b list"
  assumes feed_feed: "feed (feed c x) y = feed c (x @ y)"
    and finish_feed: "finish (feed start m) = hash m"
begin

lemma two_parts: "finish (feed (feed start x) y) = hash (x @ y)"
  by (simp add: feed_feed finish_feed)

lemma chunked: "finish (foldl feed (feed start x) ys) = hash (x @ concat ys)"
proof (induction ys arbitrary: x)
  case Nil
  then show ?case by (simp add: finish_feed)
next
  case (Cons y ys)
  then show ?case by (simp add: feed_feed)
qed

lemma nested: "finish (feed (feed start o_key) (finish (feed (feed start i_key) m))) =
    hash (o_key @ hash (i_key @ m))"
  by (simp add: two_parts)

end

text \<open>The context with a 64-byte buffer, whatever is in it.\<close>

definition buffer_ctx :: "u8 list \<Rightarrow> a2a_sha256_ctx" where
  "buffer_ctx d = \<lparr>sh_state = [], sh_bitlen = 0, sh_data = take 64 (d @ replicate 64 0), sh_datalen = 0\<rparr>"

lemma sha256_fips: "length (sh_data junk) = 64 \<Longrightarrow> sha256 junk m = fips_sha256 m"
  unfolding sha256_def using update_absorbed [OF init_absorbed, of junk m] final_absorbed by simp

interpretation sha: stream_hash "a2a_sha256_init (buffer_ctx d)" a2a_sha256_update a2a_sha256_final fips_sha256
  for d
proof
  show "a2a_sha256_update (a2a_sha256_update c x) y = a2a_sha256_update c (x @ y)" for c x y
    by (simp add: a2a_sha256_update_def)
  show "a2a_sha256_final (a2a_sha256_update (a2a_sha256_init (buffer_ctx d)) m) = fips_sha256 m" for m
    using sha256_fips [of "buffer_ctx d" m] by (simp add: sha256_def buffer_ctx_def)
qed

text \<open>
  C26: the streaming hash computes SHA-256 of FIPS 180-4: fed with any data in any number of
  pieces, and whatever the buffer held before, it returns the standard's hash of the data.
\<close>

theorem sha256_is_fips:
  "a2a_sha256_final (foldl a2a_sha256_update (a2a_sha256_init (buffer_ctx d)) pieces) = fips_sha256 (concat pieces)"
  using sha.chunked [of d "[]" pieces] by (simp add: a2a_sha256_update_def)

lemma fips_sha256_length: "length (fips_sha256 m) = 32"
proof -
  let ?H = "fold fips_compress (blocks (fips_pad m)) fips_H0"
  have "length (concat (map be32 H)) = 4 * length H" for H
    by (induction H) (simp_all add: be32_def)
  with fold_compress_length [OF fips_H0_length] show ?thesis by (simp add: fips_sha256_def)
qed

lemma init_buffer:
  "length (sh_data junk) = 64 \<Longrightarrow> a2a_sha256_init junk = a2a_sha256_init (buffer_ctx (sh_data junk))"
  by (cases junk) (simp add: a2a_sha256_init_def buffer_ctx_def)

lemma hmac_rfc: "length (sh_data junk) = 64 \<Longrightarrow> a2a_hmac_sha256 junk key msg = rfc2104_hmac key msg"
proof -
  assume l: "length (sh_data junk) = 64"
  show ?thesis
    unfolding a2a_hmac_sha256_def rfc2104_hmac_def Let_def init_buffer [OF l] sha.nested sha256_fips [OF l]
    by (simp add: fips_sha256_length)
qed

lemma rfc2104_length: "length (rfc2104_hmac key msg) = 32"
  by (simp add: rfc2104_hmac_def fips_sha256_length)

text \<open>
  C27: the keyed hash is HMAC-SHA256 of RFC 2104, for keys of any length and any message.
\<close>

theorem hmac_is_rfc2104:
  "a2a_hmac_sha256 (buffer_ctx d) key msg = rfc2104_hmac key msg"
  by (rule hmac_rfc) (simp add: buffer_ctx_def)

lemma xor_eq_0: "x XOR y = 0 \<longleftrightarrow> x = (y :: u8)"
  by (metis xor.assoc xor.left_neutral xor_self_eq)

lemma const_time_eq_iff: "a2a_const_time_eq a b len \<longleftrightarrow> (\<forall>i < len. a ! i = b ! i)"
proof -
  have "fold (\<lambda>i diff. diff OR (a ! i XOR b ! i)) xs z = 0 \<longleftrightarrow> z = 0 \<and> (\<forall>i \<in> set xs. a ! i = b ! i)"
    for xs and z :: u8
    by (induction xs arbitrary: z) (auto simp: or_eq_0_iff xor_eq_0)
  from this [of "[0..<len]" 0] show ?thesis by (auto simp: a2a_const_time_eq_def)
qed

end
