(* ===== verification/A2a_Auth.thy ===== *)
theory A2a_Auth
  imports Sha256
begin

text \<open>
  Authentication of \<open>standards/a2a/src/a2a_v03_adapter_auth.c\<close>: credentials and lockout,
  tokens, request signatures and sessions, on the hash of theory Sha256.

  The static \<open>g_a2a_auth\<close> is a record passed to and returned by the operations. Arrays
  with a count are the lists of their used slots; slots are cleared when taken. A pointer
  to a token or session is its index. The context argument is only tested for NULL. The
  wall clock gives milliseconds.
\<close>

section \<open>Data\<close>

abbreviation A2A_MAX_SESSIONS :: nat where "A2A_MAX_SESSIONS \<equiv> 128"
abbreviation A2A_MAX_TOKENS :: nat where "A2A_MAX_TOKENS \<equiv> 256"
abbreviation A2A_SESSION_ID_SIZE :: nat where "A2A_SESSION_ID_SIZE \<equiv> 36"

abbreviation A2A_AUTH_NONE :: u32 where "A2A_AUTH_NONE \<equiv> 0"
abbreviation A2A_AUTH_API_KEY :: u32 where "A2A_AUTH_API_KEY \<equiv> 1"
abbreviation A2A_AUTH_HMAC_SHA256 :: u32 where "A2A_AUTH_HMAC_SHA256 \<equiv> 2"
abbreviation A2A_AUTH_JWT_BEARER :: u32 where "A2A_AUTH_JWT_BEARER \<equiv> 3"

record a2a_auth_config =
  ac_method :: u32
  ac_shared_secret :: "u8 list"
  ac_secret_len :: nat
  ac_require_auth :: bool
  ac_max_failed_attempts :: int
  ac_token_ttl_sec :: u32
  ac_max_sessions :: nat

record a2a_auth_token =
  at_agent_id :: cstring
  at_token :: cstring
  at_issued_at :: u64
  at_expires_at :: u64
  at_permissions :: u32
  at_valid :: bool

record a2a_session =
  se_session_id :: cstring
  se_remote_agent_id :: cstring
  se_auth_method :: u32
  se_crypto_method :: u32
  se_created_at :: u64
  se_last_activity :: u64
  se_request_count :: u64
  se_authenticated :: bool
  se_encrypted :: bool

record a2a_auth_state =
  au_initialized :: bool
  au_config :: a2a_auth_config
  au_tokens :: "a2a_auth_token list"
  au_sessions :: "a2a_session list"
  au_failed_attempts :: int
  au_lockout_until :: u64

definition zero_config :: a2a_auth_config where
  "zero_config = \<lparr>ac_method = 0, ac_shared_secret = replicate 128 0, ac_secret_len = 0,
     ac_require_auth = False, ac_max_failed_attempts = 0, ac_token_ttl_sec = 0, ac_max_sessions = 0\<rparr>"

definition zero_token :: a2a_auth_token where
  "zero_token = \<lparr>at_agent_id = [], at_token = [], at_issued_at = 0, at_expires_at = 0,
     at_permissions = 0, at_valid = False\<rparr>"

definition zero_session :: a2a_session where
  "zero_session = \<lparr>se_session_id = [], se_remote_agent_id = [], se_auth_method = 0,
     se_crypto_method = 0, se_created_at = 0, se_last_activity = 0, se_request_count = 0,
     se_authenticated = False, se_encrypted = False\<rparr>"

definition zero_auth :: a2a_auth_state where
  "zero_auth = \<lparr>au_initialized = False, au_config = zero_config, au_tokens = [],
     au_sessions = [], au_failed_attempts = 0, au_lockout_until = 0\<rparr>"

section \<open>Hexadecimal text\<close>

text \<open>The bytes of a C string.\<close>

definition bytes :: "cstring \<Rightarrow> u8 list" where
  "bytes s = map (\<lambda>c. of_nat (of_char c)) s"

definition hex_char :: "nat \<Rightarrow> char" where
  "hex_char d = ''0123456789abcdef'' ! d"

text \<open>
  The loop of \<open>a2a_hex_encode\<close> on the output array, and the final NUL. The flag is false
  when that NUL is written outside the array.
\<close>

fun hex_loop :: "nat \<Rightarrow> u8 list \<Rightarrow> char list \<Rightarrow> char list" where
  "hex_loop i [] out = out"
| "hex_loop i (b # bs) out =
    (if i * 2 + 2 < length out
     then hex_loop (Suc i) bs (out[i * 2 := hex_char (unat (drop_bit 4 b AND 0x0F)),
                                   i * 2 + 1 := hex_char (unat (b AND 0x0F))])
     else out)"

definition a2a_hex_encode :: "u8 list \<Rightarrow> char list \<Rightarrow> char list \<times> bool" where
  "a2a_hex_encode data out =
    ((hex_loop 0 data out)[length data * 2 := CHR 0x00], length data * 2 < length out)"

definition cstr :: "char list \<Rightarrow> cstring" where
  "cstr buf = takeWhile (\<lambda>c. c \<noteq> CHR 0x00) buf"

section \<open>Tokens\<close>

definition raw_token :: "a2a_sha256_ctx \<Rightarrow> a2a_auth_state \<Rightarrow> cstring option \<Rightarrow> u64 \<Rightarrow> u8 list" where
  "raw_token junk st agent_id timestamp =
    (let src = take 32 (bytes (case agent_id of None \<Rightarrow> ''anonymous'' | Some a \<Rightarrow> a));
         c = au_config st
     in if au_initialized st \<and> 0 < ac_secret_len c \<and> ac_secret_len c \<le> 64
        then a2a_hmac_sha256 junk (take (ac_secret_len c) (ac_shared_secret c))
               (src @ map (\<lambda>i. ucast (drop_bit (i * 8) timestamp)) [0..<8])
        else map (\<lambda>i. ucast ((ucast (a2a_simple_hash src) :: u64) XOR drop_bit (i mod 8) timestamp XOR
                 ucast (of_nat (i * 37 + 0xAB) :: u8) XOR
                 ucast (ucast ((timestamp * of_nat (i + 1)) AND 0xFF) :: u8))) [0..<32])"

text \<open>The token text is written into the cleared array \<open>token[64]\<close> of the new slot.\<close>

definition a2a_generate_token_string ::
  "a2a_sha256_ctx \<Rightarrow> a2a_auth_state \<Rightarrow> nat \<Rightarrow> cstring option \<Rightarrow> u64 \<Rightarrow> cstring \<times> bool" where
  "a2a_generate_token_string junk st buf_size agent_id timestamp =
    (let (buf, inside) = a2a_hex_encode (raw_token junk st agent_id timestamp) (replicate buf_size (CHR 0x00))
     in (cstr (if 0 < buf_size then buf[buf_size - 1 := CHR 0x00] else buf), inside))"

definition a2a_v03_auth_init ::
  "env \<Rightarrow> bool \<Rightarrow> a2a_auth_config option \<Rightarrow> a2a_auth_state \<Rightarrow> int \<times> a2a_auth_state" where
  "a2a_v03_auth_init E ctx auth_config st = (case auth_config of
      None \<Rightarrow> (err E AIRY_ERR_UNKNOWN, st)
    | Some c \<Rightarrow>
        if \<not> ctx then (err E AIRY_ERR_UNKNOWN, st)
        else (0, zero_auth\<lparr>au_initialized := True,
               au_config := c\<lparr>ac_max_failed_attempts :=
                     (if ac_max_failed_attempts c \<le> 0 then 5 else ac_max_failed_attempts c),
                   ac_token_ttl_sec := (if ac_token_ttl_sec c = 0 then 3600 else ac_token_ttl_sec c),
                   ac_max_sessions := (if ac_max_sessions c = 0 then A2A_MAX_SESSIONS
                                       else ac_max_sessions c)\<rparr>\<rparr>))"

definition a2a_v03_auth_shutdown :: "bool \<Rightarrow> a2a_auth_state \<Rightarrow> a2a_auth_state" where
  "a2a_v03_auth_shutdown ctx st = (if ctx then zero_auth else st)"

text \<open>The credential check of \<open>a2a_v03_authenticate\<close>.\<close>

definition expect_hex :: "a2a_sha256_ctx \<Rightarrow> a2a_auth_config \<Rightarrow> cstring \<Rightarrow> char list" where
  "expect_hex junk c agent_id = fst (a2a_hex_encode
     (a2a_hmac_sha256 junk (take (ac_secret_len c) (ac_shared_secret c)) (bytes agent_id))
     (replicate 65 (CHR 0x00)))"

definition cred_valid :: "a2a_sha256_ctx \<Rightarrow> a2a_auth_config \<Rightarrow> cstring \<Rightarrow> cstring \<Rightarrow> bool" where
  "cred_valid junk c agent_id credential \<longleftrightarrow>
    (if ac_method c = A2A_AUTH_API_KEY
     then length credential = ac_secret_len c \<and>
          a2a_const_time_eq (bytes credential) (ac_shared_secret c) (ac_secret_len c)
     else if ac_method c = A2A_AUTH_HMAC_SHA256
     then \<not> (ac_secret_len c \<le> 0 \<or> ac_secret_len c > 64) \<and> length credential = 64 \<and>
          a2a_const_time_eq (bytes (expect_hex junk c agent_id)) (bytes credential) 64
     else True)"

definition wall_s :: "env \<Rightarrow> nat \<Rightarrow> u64" where
  "wall_s E i = wall_ms E i div 1000"

text \<open>A failed attempt is counted; the last one allowed locks authentication for 300 seconds.\<close>

definition fail_attempt :: "u64 \<Rightarrow> a2a_auth_state \<Rightarrow> a2a_auth_state" where
  "fail_attempt now st =
    (let st = st\<lparr>au_failed_attempts := au_failed_attempts st + 1\<rparr> in
     if au_failed_attempts st \<ge> ac_max_failed_attempts (au_config st)
     then st\<lparr>au_lockout_until := now + 300, au_failed_attempts := 0\<rparr> else st)"

text \<open>A full token table drops its first entry.\<close>

definition token_room :: "a2a_auth_state \<Rightarrow> a2a_auth_token list" where
  "token_room st = (if A2A_MAX_TOKENS \<le> length (au_tokens st) then tl (au_tokens st) else au_tokens st)"

text \<open>
  The NUL that \<open>a2a_generate_token_string\<close> writes one byte behind the 64 bytes of the field (its
  flag) falls into the padding before \<open>issued_at\<close>, which no code reads.
\<close>

definition new_token :: "env \<Rightarrow> a2a_sha256_ctx \<Rightarrow> cstring \<Rightarrow> u64 \<Rightarrow> a2a_auth_state \<Rightarrow> a2a_auth_token" where
  "new_token E junk agent now st =
    \<lparr>at_agent_id = strncpy_term E A2A_SESSION_ID_SIZE agent,
     at_token = fst (a2a_generate_token_string junk st 64 (Some agent) now),
     at_issued_at = now, at_expires_at = now + ucast (ac_token_ttl_sec (au_config st)),
     at_permissions = 0xFFFFFFFF, at_valid = True\<rparr>"

definition a2a_v03_authenticate ::
  "env \<Rightarrow> a2a_sha256_ctx \<Rightarrow> bool \<Rightarrow> cstring option \<Rightarrow> cstring option \<Rightarrow> a2a_auth_state \<Rightarrow>
   int \<times> nat option \<times> a2a_auth_state" where
  "a2a_v03_authenticate E junk args agent_id credential st = (case (agent_id, credential) of
      (Some agent, Some cred) \<Rightarrow>
        if \<not> args then (err E AIRY_ERR_UNKNOWN, None, st)
        else if \<not> au_initialized st then (err E AIRY_ERR_STATE_ERROR, None, st)
        else if au_lockout_until st > 0 \<and> wall_s E 0 < au_lockout_until st
        then (err E AIRY_ERR_PERMISSION_DENIED, None, st)
        else if \<not> cred_valid junk (au_config st) agent cred
        then (err E AIRY_ERR_BUFFER_TOO_SMALL, None, fail_attempt (wall_s E 0) st)
        else (0, Some (length (token_room st)),
              st\<lparr>au_failed_attempts := 0,
                 au_tokens := token_room st @ [new_token E junk agent (wall_s E 0) st]\<rparr>)
    | _ \<Rightarrow> (err E AIRY_ERR_UNKNOWN, None, st))"

definition find_token :: "a2a_auth_state \<Rightarrow> cstring \<Rightarrow> nat option" where
  "find_token st token_str = find_idx (\<lambda>t. at_valid t \<and> at_token t = token_str) (au_tokens st)"

definition a2a_v03_verify_token ::
  "env \<Rightarrow> bool \<Rightarrow> cstring option \<Rightarrow> a2a_auth_state \<Rightarrow> int \<times> nat option \<times> a2a_auth_state" where
  "a2a_v03_verify_token E args token_str st = (case token_str of
      None \<Rightarrow> (err E AIRY_ERR_UNKNOWN, None, st)
    | Some s \<Rightarrow>
        if \<not> args then (err E AIRY_ERR_UNKNOWN, None, st)
        else if \<not> au_initialized st then (err E AIRY_ERR_STATE_ERROR, None, st)
        else case find_token st s of
          None \<Rightarrow> (err E AIRY_ERR_UNKNOWN, None, st)
        | Some i \<Rightarrow>
            if wall_s E 0 \<ge> at_expires_at (au_tokens st ! i)
            then (err E AIRY_ERR_UNKNOWN, None,
                  st\<lparr>au_tokens := (au_tokens st)[i := (au_tokens st ! i)\<lparr>at_valid := False\<rparr>]\<rparr>)
            else (0, Some i, st))"

definition a2a_v03_invalidate_token ::
  "env \<Rightarrow> bool \<Rightarrow> cstring option \<Rightarrow> a2a_auth_state \<Rightarrow> int \<times> a2a_auth_state" where
  "a2a_v03_invalidate_token E ctx token_str st = (case token_str of
      None \<Rightarrow> (err E AIRY_ERR_UNKNOWN, st)
    | Some s \<Rightarrow>
        if \<not> ctx then (err E AIRY_ERR_UNKNOWN, st)
        else case find_token st s of
          None \<Rightarrow> (err E AIRY_ERR_NULL_POINTER, st)
        | Some i \<Rightarrow> (0, st\<lparr>au_tokens := (au_tokens st)[i := zero_token]\<rparr>))"

section \<open>Signatures\<close>

text \<open>
  The signature text, \<open>None\<close> when the call fails. Both branches with a secret compute the
  same keyed hash.
\<close>

definition sign_text :: "cstring \<Rightarrow> cstring \<Rightarrow> cstring option \<Rightarrow> cstring" where
  "sign_text method params_json token_str =
    method @ ''|'' @ params_json @ ''|'' @ (case token_str of None \<Rightarrow> '''' | Some t \<Rightarrow> t)"

definition a2a_v03_sign_request ::
  "a2a_sha256_ctx \<Rightarrow> bool \<Rightarrow> cstring option \<Rightarrow> cstring option \<Rightarrow> cstring option \<Rightarrow> nat \<Rightarrow> a2a_auth_state \<Rightarrow>
   cstring option" where
  "a2a_v03_sign_request junk args method params_json token_str sig_buf_size st =
    (case (method, params_json) of
      (Some m, Some p) \<Rightarrow>
        if \<not> args \<or> sig_buf_size < 65 then None
        else if \<not> au_initialized st then None
        else
          (let sign_data = sign_text m p token_str; c = au_config st in
           if 4096 \<le> length sign_data then None
           else if ac_method c = A2A_AUTH_HMAC_SHA256 \<and> 0 < ac_secret_len c \<and> ac_secret_len c \<le> 64
           then Some (cstr (fst (a2a_hex_encode (a2a_hmac_sha256 junk
                  (take (ac_secret_len c) (ac_shared_secret c)) (bytes sign_data)) (replicate sig_buf_size (CHR 0x00)))))
           else if 0 < ac_secret_len c \<and> ac_secret_len c \<le> 64
           then Some (cstr (fst (a2a_hex_encode (a2a_hmac_sha256 junk
                  (take (ac_secret_len c) (ac_shared_secret c)) (bytes sign_data)) (replicate sig_buf_size (CHR 0x00)))))
           else
             (let hash = a2a_simple_hash (bytes sign_data)
              in Some (snprintf sig_buf_size (show_hex8 hash @ show_hex8 (hash XOR 0xA5A5A5A5) @
                    show_hex8 (hash XOR 0x5A5A5A5A) @ show_hex8 (hash XOR 0x12345678)))))
    | _ \<Rightarrow> None)"

text \<open>
  Verification compares 64 bytes of the array \<open>expected[65]\<close>; behind its NUL the array
  holds whatever was on the stack, here \<open>tail\<close>.
\<close>

definition a2a_v03_verify_signature ::
  "env \<Rightarrow> a2a_sha256_ctx \<Rightarrow> char list \<Rightarrow> bool \<Rightarrow> cstring option \<Rightarrow> cstring option \<Rightarrow> cstring option \<Rightarrow>
   cstring option \<Rightarrow> a2a_auth_state \<Rightarrow> int" where
  "a2a_v03_verify_signature E junk tail ctx method params_json signature token_str st =
    (if \<not> ctx \<or> method = None \<or> params_json = None then err E AIRY_ERR_UNKNOWN
     else case signature of
       None \<Rightarrow> err E AIRY_ERR_UNKNOWN
     | Some sig \<Rightarrow>
        (case a2a_v03_sign_request junk ctx method params_json token_str 65 st of
           None \<Rightarrow> err E AIRY_ERR_NULL_POINTER
         | Some expected \<Rightarrow>
             if 64 \<le> length sig \<and>
                a2a_const_time_eq (bytes (expected @ CHR 0x00 # tail)) (bytes sig) 64
             then 0 else err E AIRY_ERR_UNKNOWN))"

section \<open>Sessions\<close>

text \<open>The least recently used session, as the scan finds it.\<close>

fun oldest_loop :: "nat \<Rightarrow> a2a_session list \<Rightarrow> nat \<Rightarrow> u64 \<Rightarrow> nat" where
  "oldest_loop i [] oldest_idx oldest_time = oldest_idx"
| "oldest_loop i (s # ss) oldest_idx oldest_time =
    (if se_last_activity s < oldest_time then oldest_loop (Suc i) ss i (se_last_activity s)
     else oldest_loop (Suc i) ss oldest_idx oldest_time)"

definition evict :: "a2a_session list \<Rightarrow> a2a_session list" where
  "evict ss = (let i = oldest_loop 0 ss 0 (- 1) in
     butlast ((ss[i := zero_session])[i := last (ss[i := zero_session])]))"

text \<open>The outer \<open>None\<close> is a slot outside the array of 128 sessions.\<close>

definition a2a_v03_create_session ::
  "env \<Rightarrow> bool \<Rightarrow> cstring option \<Rightarrow> u32 \<Rightarrow> u32 \<Rightarrow> a2a_auth_state \<Rightarrow>
   (int \<times> nat option \<times> a2a_auth_state) option" where
  "a2a_v03_create_session E args remote_agent_id auth_method crypto_method st = (case remote_agent_id of
      None \<Rightarrow> Some (err E AIRY_ERR_UNKNOWN, None, st)
    | Some remote \<Rightarrow>
        if \<not> args then Some (err E AIRY_ERR_UNKNOWN, None, st)
        else if \<not> au_initialized st then Some (err E AIRY_ERR_STATE_ERROR, None, st)
        else
          (let ss = (if ac_max_sessions (au_config st) \<le> length (au_sessions st)
                     then evict (au_sessions st) else au_sessions st);
               now = wall_ms E 0;
               sess = \<lparr>se_session_id = snprintf A2A_SESSION_ID_SIZE (''sess_'' @ remote @ ''_'' @
                         show_nat (unat (now div 1000)) @ ''_'' @ show_hex8 (a2a_simple_hash (bytes remote))),
                       se_remote_agent_id = strncpy_term E 64 remote,
                       se_auth_method = auth_method, se_crypto_method = crypto_method,
                       se_created_at = now, se_last_activity = now, se_request_count = 0,
                       se_authenticated = (auth_method \<noteq> A2A_AUTH_NONE),
                       se_encrypted = (crypto_method \<noteq> 0)\<rparr>
           in if A2A_MAX_SESSIONS \<le> length ss then None
              else Some (0, Some (length ss), st\<lparr>au_sessions := ss @ [sess]\<rparr>)))"

definition find_session :: "a2a_auth_state \<Rightarrow> cstring \<Rightarrow> nat option" where
  "find_session st session_id =
     find_idx (\<lambda>s. strncmp_eq A2A_SESSION_ID_SIZE (se_session_id s) session_id) (au_sessions st)"

definition a2a_v03_validate_session ::
  "env \<Rightarrow> bool \<Rightarrow> cstring option \<Rightarrow> a2a_auth_state \<Rightarrow> int \<times> nat option \<times> a2a_auth_state" where
  "a2a_v03_validate_session E args session_id st = (case session_id of
      None \<Rightarrow> (err E AIRY_ERR_UNKNOWN, None, st)
    | Some sid \<Rightarrow>
        if \<not> args then (err E AIRY_ERR_UNKNOWN, None, st)
        else case find_session st sid of
          None \<Rightarrow> (err E AIRY_ERR_UNKNOWN, None, st)
        | Some i \<Rightarrow>
            (let sess = au_sessions st ! i; now = wall_ms E 0;
                 age_sec = (now - se_created_at sess) div 1000
             in if age_sec > ucast (ac_token_ttl_sec (au_config st)) * 2
                then (err E AIRY_ERR_STATE_ERROR, None,
                      st\<lparr>au_sessions := (au_sessions st)[i := zero_session]\<rparr>)
                else (0, Some i, st\<lparr>au_sessions := (au_sessions st)[i :=
                        sess\<lparr>se_last_activity := now, se_request_count := se_request_count sess + 1\<rparr>]\<rparr>)))"

definition a2a_v03_destroy_session :: "bool \<Rightarrow> cstring option \<Rightarrow> a2a_auth_state \<Rightarrow> a2a_auth_state" where
  "a2a_v03_destroy_session ctx session_id st = (case session_id of
      None \<Rightarrow> st
    | Some sid \<Rightarrow> if \<not> ctx then st else (case find_session st sid of
          None \<Rightarrow> st | Some i \<Rightarrow> st\<lparr>au_sessions := (au_sessions st)[i := zero_session]\<rparr>))"

definition a2a_v03_get_active_session_count :: "a2a_auth_state \<Rightarrow> nat" where
  "a2a_v03_get_active_session_count st = length (au_sessions st)"

definition a2a_auth_method_string :: "u32 \<Rightarrow> cstring" where
  "a2a_auth_method_string method =
    (if method = A2A_AUTH_NONE then ''none'' else if method = A2A_AUTH_API_KEY then ''api_key''
     else if method = A2A_AUTH_HMAC_SHA256 then ''hmac-sha256''
     else if method = A2A_AUTH_JWT_BEARER then ''jwt-bearer'' else ''unknown'')"

definition a2a_crypto_method_string :: "u32 \<Rightarrow> cstring" where
  "a2a_crypto_method_string method =
    (if method = 0 then ''none'' else if method = 1 then ''aes-128-gcm''
     else if method = 2 then ''aes-256-gcm'' else ''unknown'')"

section \<open>Hexadecimal output\<close>

definition hexs :: "u8 list \<Rightarrow> cstring" where
  "hexs bs = concat (map (\<lambda>b. [hex_char (unat (drop_bit 4 b AND 0x0F)), hex_char (unat (b AND 0x0F))]) bs)"

lemma hexs_length [simp]: "length (hexs bs) = 2 * length bs"
  by (induction bs) (simp_all add: hexs_def)

lemma hexs_Cons: "hexs (b # bs) = hex_char (unat (drop_bit 4 b AND 0x0F)) # hex_char (unat (b AND 0x0F)) # hexs bs"
  by (simp add: hexs_def)

lemma nibble: "unat (w AND 0x0F :: u8) < 16"
proof -
  have "w AND 0x0F \<le> (0x0F :: u8)" by (rule word_and_le1)
  then show ?thesis by (simp add: word_le_nat_alt)
qed

lemma hex_char_nonzero: "d < 16 \<Longrightarrow> hex_char d \<noteq> CHR 0x00"
proof -
  assume "d < 16"
  then have "hex_char d \<in> set ''0123456789abcdef''" unfolding hex_char_def by (intro nth_mem) simp
  then show ?thesis by auto
qed

lemma hexs_no_nul: "CHR 0x00 \<notin> set (hexs bs)"
proof (induction bs)
  case Nil
  then show ?case by (simp add: hexs_def)
next
  case (Cons b bs)
  with hex_char_nonzero [OF nibble [of b]] hex_char_nonzero [OF nibble [of "drop_bit 4 b"]] show ?case
    by (auto simp: hexs_Cons)
qed

lemma hex_loop_length [simp]: "length (hex_loop i bs out) = length out"
  by (induction bs arbitrary: i out) auto

lemma hex_loop_take:
  "i * 2 + 2 * length bs < length out \<Longrightarrow>
   take (i * 2 + 2 * length bs) (hex_loop i bs out) = take (i * 2) out @ hexs bs"
proof (induction bs arbitrary: i out)
  case Nil
  then show ?case by (simp add: hexs_def)
next
  case (Cons b bs)
  let ?out = "out[i * 2 := hex_char (unat (drop_bit 4 b AND 0x0F)), i * 2 + 1 := hex_char (unat (b AND 0x0F))]"
  have "take (Suc i * 2) ?out = take (i * 2) out @
      [hex_char (unat (drop_bit 4 b AND 0x0F)), hex_char (unat (b AND 0x0F))]"
    using Cons.prems by (simp add: take_Suc_conv_app_nth)
  moreover have "take (Suc i * 2 + 2 * length bs) (hex_loop (Suc i) bs ?out) = take (Suc i * 2) ?out @ hexs bs"
    using Cons.prems by (intro Cons.IH) simp
  ultimately show ?case using Cons.prems by (simp add: hexs_Cons)
qed

lemma cstr_terminated: "CHR 0x00 \<notin> set s \<Longrightarrow> take (length s) buf = s \<Longrightarrow> buf ! length s = CHR 0x00 \<Longrightarrow>
    length s < length buf \<Longrightarrow> cstr buf = s"
proof -
  assume a: "CHR 0x00 \<notin> set s" "take (length s) buf = s" "buf ! length s = CHR 0x00" "length s < length buf"
  then have "buf = s @ CHR 0x00 # drop (Suc (length s)) buf" by (metis id_take_nth_drop)
  moreover have "takeWhile (\<lambda>c. c \<noteq> CHR 0x00) (s @ CHR 0x00 # t) = s" for t
    using a(1) by (subst takeWhile_append2) auto
  ultimately show ?thesis unfolding cstr_def by metis
qed

lemma hex_encode_fits:
  assumes "2 * length bs < length out"
  shows "cstr (fst (a2a_hex_encode bs out)) = hexs bs" "snd (a2a_hex_encode bs out)"
    "take (2 * length bs) (fst (a2a_hex_encode bs out)) = hexs bs"
proof -
  have t: "take (2 * length bs) (hex_loop 0 bs out) = hexs bs"
    using hex_loop_take [of 0 bs out] assms by simp
  then show "take (2 * length bs) (fst (a2a_hex_encode bs out)) = hexs bs"
    by (simp add: a2a_hex_encode_def mult.commute)
  then show "cstr (fst (a2a_hex_encode bs out)) = hexs bs"
    using assms by (intro cstr_terminated) (auto simp: hexs_no_nul a2a_hex_encode_def mult.commute)
  show "snd (a2a_hex_encode bs out)" using assms by (simp add: a2a_hex_encode_def)
qed

lemma hex_loop_stop: "length out \<le> i * 2 + 2 \<Longrightarrow> hex_loop i bs out = out"
  by (cases bs) auto

lemma hex_loop_append:
  "hex_loop i (xs @ ys) out = (if xs = [] \<or> (i + length xs) * 2 < length out
     then hex_loop (i + length xs) ys (hex_loop i xs out) else hex_loop i xs out)"
proof (induction xs arbitrary: i out)
  case Nil
  then show ?case by simp
next
  case (Cons x xs)
  show ?case
  proof (cases "i * 2 + 2 < length out")
    case True
    then show ?thesis using Cons by auto
  next
    case False
    then show ?thesis by auto
  qed
qed

lemma byte_of_char: "unat (of_nat (of_char c) :: u8) = of_char c"
  by (simp add: unsigned_of_nat take_bit_eq_mod)

lemma bytes_inj [simp]: "bytes s = bytes t \<longleftrightarrow> s = t"
proof -
  have "inj (\<lambda>c. of_nat (of_char c) :: u8)"
    by (rule injI) (metis byte_of_char of_char_eq_iff)
  then show ?thesis by (simp add: bytes_def inj_map_eq_map)
qed

lemma bytes_simps [simp]: "length (bytes s) = length s" "i < length s \<Longrightarrow> bytes s ! i = of_nat (of_char (s ! i))"
  by (simp_all add: bytes_def)

lemma const_time_take:
  assumes "n \<le> length a" "n \<le> length b"
  shows "a2a_const_time_eq (bytes a) (bytes b) n \<longleftrightarrow> take n a = take n b"
proof -
  have "a2a_const_time_eq (bytes a) (bytes b) n \<longleftrightarrow> take n (bytes a) = take n (bytes b)"
    using assms by (auto simp: const_time_eq_iff list_eq_iff_nth_eq)
  also have "\<dots> \<longleftrightarrow> bytes (take n a) = bytes (take n b)" by (simp add: bytes_def take_map)
  finally show ?thesis by simp
qed

section \<open>Credentials and lockout\<close>

lemma expect_hex_take:
  assumes "length (sh_data junk) = 64"
  shows "length (expect_hex junk c agent) = 65"
    "take 64 (expect_hex junk c agent) = hexs (rfc2104_hmac (take (ac_secret_len c) (ac_shared_secret c)) (bytes agent))"
proof -
  let ?h = "rfc2104_hmac (take (ac_secret_len c) (ac_shared_secret c)) (bytes agent)"
  have l: "length ?h = 32" by (rule rfc2104_length)
  have "take (2 * length ?h) (fst (a2a_hex_encode ?h (replicate 65 (CHR 0x00)))) = hexs ?h"
    by (rule hex_encode_fits(3)) (simp add: l)
  then show "take 64 (expect_hex junk c agent) = hexs ?h"
    unfolding expect_hex_def hmac_rfc [OF assms] by (simp add: l)
  show "length (expect_hex junk c agent) = 65" by (simp add: expect_hex_def a2a_hex_encode_def)
qed

lemma cred_valid_hmac:
  assumes "length (sh_data junk) = 64" "ac_method c = A2A_AUTH_HMAC_SHA256"
    "0 < ac_secret_len c" "ac_secret_len c \<le> 64"
  shows "cred_valid junk c agent cred \<longleftrightarrow>
    cred = hexs (rfc2104_hmac (take (ac_secret_len c) (ac_shared_secret c)) (bytes agent))"
proof -
  let ?h = "rfc2104_hmac (take (ac_secret_len c) (ac_shared_secret c)) (bytes agent)"
  have l: "length (hexs ?h) = 64" by (simp add: rfc2104_length)
  have "cred_valid junk c agent cred \<longleftrightarrow> length cred = 64 \<and>
      a2a_const_time_eq (bytes (expect_hex junk c agent)) (bytes cred) 64"
    using assms(2-4) by (simp add: cred_valid_def)
  also have "\<dots> \<longleftrightarrow> length cred = 64 \<and> take 64 (expect_hex junk c agent) = take 64 cred"
    using const_time_take [of 64 "expect_hex junk c agent" cred] expect_hex_take(1) [OF assms(1)] by auto
  also have "\<dots> \<longleftrightarrow> cred = hexs ?h" using expect_hex_take(2) [OF assms(1)] l by auto
  finally show ?thesis .
qed

lemma authenticate_cases:
  assumes "au_initialized st" "au_lockout_until st = 0 \<or> au_lockout_until st \<le> wall_s E 0" "codes_ok E"
  shows "fst (a2a_v03_authenticate E junk True (Some agent) (Some cred) st) = 0 \<longleftrightarrow>
    cred_valid junk (au_config st) agent cred"
  using assms by (auto simp: a2a_v03_authenticate_def not_less)

text \<open>
  C28: with the HMAC method, an agent that is not locked out is authenticated exactly by the
  hexadecimal HMAC-SHA256 of its identifier under the shared secret.
\<close>

theorem authenticate_hmac_exact:
  assumes "length (sh_data junk) = 64" "codes_ok E" "au_initialized st"
    "ac_method (au_config st) = A2A_AUTH_HMAC_SHA256"
    "0 < ac_secret_len (au_config st)" "ac_secret_len (au_config st) \<le> 64"
    "au_lockout_until st = 0 \<or> au_lockout_until st \<le> wall_s E 0"
  shows "fst (a2a_v03_authenticate E junk True (Some agent) (Some cred) st) = 0 \<longleftrightarrow>
    cred = hexs (rfc2104_hmac (take (ac_secret_len (au_config st)) (ac_shared_secret (au_config st))) (bytes agent))"
  using authenticate_cases [OF assms(3,7,2)] cred_valid_hmac [OF assms(1,4,5,6)] by simp

definition hmac_state :: a2a_auth_state where
  "hmac_state = zero_auth\<lparr>au_initialized := True, au_config := zero_config\<lparr>ac_method := A2A_AUTH_HMAC_SHA256,
     ac_secret_len := 4, ac_max_failed_attempts := 2, ac_token_ttl_sec := 3600, ac_max_sessions := 8\<rparr>\<rparr>"

lemma hmac_state_sel [simp]:
  "au_initialized hmac_state" "ac_method (au_config hmac_state) = A2A_AUTH_HMAC_SHA256"
  "ac_secret_len (au_config hmac_state) = 4" "au_lockout_until hmac_state = 0"
  "au_failed_attempts hmac_state = 0" "ac_max_failed_attempts (au_config hmac_state) = 2"
  "au_tokens hmac_state = []" "au_sessions hmac_state = []" "ac_max_sessions (au_config hmac_state) = 8"
  "ac_token_ttl_sec (au_config hmac_state) = 3600"
  by (simp_all add: hmac_state_def zero_auth_def)

lemma buffer_ctx_len [simp]: "length (sh_data (buffer_ctx d)) = 64"
  by (simp add: buffer_ctx_def)

theorem authenticate_hmac_exact_witness:
  "fst (a2a_v03_authenticate env0 (buffer_ctx []) True (Some ''bob'') (Some ''guess'') hmac_state) \<noteq> 0"
proof -
  have "length (hexs (rfc2104_hmac k m)) \<noteq> length ''guess''" for k m by (simp add: rfc2104_length)
  then have "''guess'' \<noteq> hexs (rfc2104_hmac k m)" for k m by metis
  with authenticate_hmac_exact [OF buffer_ctx_len env0_ok(1), of hmac_state "[]" "''bob''" "''guess''"]
  show ?thesis by auto
qed

fun attempt_all :: "a2a_sha256_ctx \<Rightarrow> (env \<times> cstring \<times> cstring) list \<Rightarrow> a2a_auth_state \<Rightarrow> a2a_auth_state" where
  "attempt_all junk [] st = st"
| "attempt_all junk ((E, agent, cred) # xs) st =
    attempt_all junk xs (snd (snd (a2a_v03_authenticate E junk True (Some agent) (Some cred) st)))"

lemma failing_attempts:
  assumes "au_initialized st" "au_lockout_until st = 0" "0 \<le> au_failed_attempts st"
    "xs \<noteq> []" "au_failed_attempts st + int (length xs) = ac_max_failed_attempts (au_config st)"
    "\<forall>(E, agent, cred) \<in> set xs. \<not> cred_valid junk (au_config st) agent cred"
  shows "au_lockout_until (attempt_all junk xs st) = wall_s (fst (last xs)) 0 + 300 \<and>
    au_initialized (attempt_all junk xs st)"
  using assms
proof (induction xs arbitrary: st)
  case Nil
  then show ?case by simp
next
  case (Cons x xs)
  obtain E agent cred where x: "x = (E, agent, cred)" by (cases x)
  let ?st = "snd (snd (a2a_v03_authenticate E junk True (Some agent) (Some cred) st))"
  have bad: "\<not> cred_valid junk (au_config st) agent cred" using Cons.prems(6) x by auto
  show ?case
  proof (cases "xs = []")
    case True
    then show ?thesis using Cons.prems bad by (simp add: x a2a_v03_authenticate_def fail_attempt_def)
  next
    case False
    then have lt: "au_failed_attempts st + 1 < ac_max_failed_attempts (au_config st)"
      using Cons.prems(5) by (cases xs) auto
    then have st: "?st = st\<lparr>au_failed_attempts := au_failed_attempts st + 1\<rparr>"
      using Cons.prems bad by (simp add: a2a_v03_authenticate_def fail_attempt_def)
    have "au_lockout_until (attempt_all junk xs ?st) = wall_s (fst (last xs)) 0 + 300 \<and>
        au_initialized (attempt_all junk xs ?st)"
      unfolding st using Cons.prems False by (intro Cons.IH) auto
    then show ?thesis using False by (simp add: x)
  qed
qed

lemma lockout_positive: "wall_s E 0 < wall_s E 0 + 300"
proof -
  have "unat (wall_ms E 0) < 2 ^ 64" using unsigned_less [of "wall_ms E 0"] by simp
  then have "unat (wall_s E 0) < 2 ^ 64 div 1000 + 1"
    by (simp add: wall_s_def unat_div_distrib less_Suc_eq_le div_le_mono)
  then have "unat (wall_s E 0) + 300 < 2 ^ 64" by simp
  then have "unat (wall_s E 0 + 300) = unat (wall_s E 0) + 300"
    by (subst unat_add_lem [THEN iffD1]) auto
  then show ?thesis by (simp add: word_less_nat_alt)
qed

text \<open>
  C29: as many failed attempts in a row as the configuration allows lock authentication for
  300 seconds: until then every attempt is refused, even one with the right credential,
  and the state does not change.
\<close>

theorem lockout_after_failures:
  assumes "au_initialized st" "au_lockout_until st = 0" "au_failed_attempts st = 0"
    "xs \<noteq> []" "int (length xs) = ac_max_failed_attempts (au_config st)"
    "\<forall>(E, agent, cred) \<in> set xs. \<not> cred_valid junk (au_config st) agent cred"
    "wall_s F 0 < wall_s (fst (last xs)) 0 + 300"
  shows "a2a_v03_authenticate F junk True (Some agent) (Some cred) (attempt_all junk xs st) =
    (err F AIRY_ERR_PERMISSION_DENIED, None, attempt_all junk xs st)"
proof -
  have l: "au_lockout_until (attempt_all junk xs st) = wall_s (fst (last xs)) 0 + 300"
    "au_initialized (attempt_all junk xs st)"
    using failing_attempts [of st xs junk] assms(1-6) by auto
  have "0 < wall_s (fst (last xs)) 0 + 300"
    using lockout_positive [of "fst (last xs)"] by (metis word_gt_0 word_not_simps(1))
  with l assms(7) show ?thesis by (simp add: a2a_v03_authenticate_def)
qed

theorem lockout_after_failures_witness:
  "\<forall>c. fst (a2a_v03_authenticate env0 (buffer_ctx []) True (Some ''bob'') (Some c)
     (attempt_all (buffer_ctx []) [(env0, ''bob'', ''x''), (env0, ''bob'', ''y'')] hmac_state))
   = err env0 AIRY_ERR_PERMISSION_DENIED"
proof -
  have "\<not> cred_valid (buffer_ctx []) (au_config hmac_state) ''bob'' s" if "length s \<noteq> 64" for s
    using that by (simp add: cred_valid_def)
  with lockout_after_failures [of hmac_state "[(env0, ''bob'', ''x''), (env0, ''bob'', ''y'')]" "buffer_ctx []"
      env0 "''bob''"] lockout_positive [of env0]
  show ?thesis by simp
qed

section \<open>Tokens\<close>

text \<open>
  The specification: the times at which the valid tokens with a text expire, in the order of the
  table.
\<close>

definition token_times :: "a2a_auth_state \<Rightarrow> cstring \<Rightarrow> u64 list" where
  "token_times st s = map at_expires_at (filter (\<lambda>t. at_valid t \<and> at_token t = s) (au_tokens st))"

lemma drop_first_match:
  assumes "find_idx P xs = Some i" "\<not> P y"
  shows "filter P (xs[i := y]) = tl (filter P xs)" "filter P xs = xs ! i # tl (filter P xs)"
proof -
  have "filter P (xs[i := y]) = tl (filter P xs) \<and> filter P xs = xs ! i # tl (filter P xs)"
    using assms by (induction xs arbitrary: i) (auto split: if_splits)
  then show "filter P (xs[i := y]) = tl (filter P xs)" "filter P xs = xs ! i # tl (filter P xs)" by simp_all
qed

lemma drop_other_match:
  assumes "i < length xs" "\<not> Q (xs ! i)" "\<not> Q y"
  shows "filter Q (xs[i := y]) = filter Q xs"
  using assms by (induction xs arbitrary: i) (auto simp: nth_Cons split: nat.splits)

lemma token_dropped:
  assumes "find_token st s = Some i" "\<not> at_valid x"
  shows "token_times (st\<lparr>au_tokens := (au_tokens st)[i := x]\<rparr>) s' = (if s' = s then tl (token_times st s) else token_times st s')"
    "\<exists>es. token_times st s = at_expires_at (au_tokens st ! i) # es"
proof -
  have i: "i < length (au_tokens st)" "at_token (au_tokens st ! i) = s" "at_valid (au_tokens st ! i)"
    using assms(1) by (auto simp: find_token_def find_idx_Some)
  note f = drop_first_match [OF assms(1) [unfolded find_token_def], of x]
  have "token_times (st\<lparr>au_tokens := (au_tokens st)[i := x]\<rparr>) s = tl (token_times st s)"
    unfolding token_times_def map_tl [symmetric] using f(1) assms(2) by simp
  moreover have "token_times (st\<lparr>au_tokens := (au_tokens st)[i := x]\<rparr>) s' = token_times st s'" if "s' \<noteq> s"
    unfolding token_times_def using drop_other_match [OF i(1), of "\<lambda>t. at_valid t \<and> at_token t = s'" x] i(2) assms(2) that by simp
  ultimately show "token_times (st\<lparr>au_tokens := (au_tokens st)[i := x]\<rparr>) s' = (if s' = s then tl (token_times st s) else token_times st s')"
    by simp
  show "\<exists>es. token_times st s = at_expires_at (au_tokens st ! i) # es"
  proof -
    from f(2) assms(2) obtain ys where "filter (\<lambda>t. at_valid t \<and> at_token t = s) (au_tokens st) = au_tokens st ! i # ys" by blast
    then show ?thesis by (simp add: token_times_def)
  qed
qed

lemma find_token_None: "find_token st s = None \<longleftrightarrow> token_times st s = []"
  by (auto simp: find_token_def token_times_def find_idx_None filter_empty_conv)

lemma token_times_login:
  "token_times (st\<lparr>au_failed_attempts := k, au_tokens := toks @ [new_token E junk agent now st]\<rparr>) s =
    token_times (st\<lparr>au_tokens := toks\<rparr>) s @
    (if s = fst (a2a_generate_token_string junk st 64 (Some agent) now)
     then [now + ucast (ac_token_ttl_sec (au_config st))] else [])"
  by (auto simp: token_times_def new_token_def)

lemma login_eq:
  assumes "codes_ok E" "a2a_v03_authenticate E junk True (Some agent) (Some cred) st = (rc, out, st1)"
  shows "token_times st1 s = (if rc = 0
      then token_times (st\<lparr>au_tokens := (if 256 \<le> length (au_tokens st) then tl (au_tokens st) else au_tokens st)\<rparr>) s @
        (if s = fst (a2a_generate_token_string junk st 64 (Some agent) (wall_s E 0))
         then [wall_s E 0 + ucast (ac_token_ttl_sec (au_config st))] else [])
      else token_times st s)"
proof -
  have "token_times (fail_attempt now st) s = token_times st s" for now
    by (simp add: fail_attempt_def Let_def token_times_def)
  then show ?thesis using assms token_times_login
    by (auto simp: a2a_v03_authenticate_def token_room_def split: if_splits)
qed

lemma login_config:
  assumes "codes_ok E" "a2a_v03_authenticate E junk True (Some agent) (Some cred) st = (0, out, st1)"
  shows "au_config st1 = au_config st \<and> au_initialized st1 = au_initialized st \<and> length (au_tokens st1) \<le> Suc (length (au_tokens st)) \<and>
    a2a_generate_token_string junk st1 = a2a_generate_token_string junk st"
  using assms
  by (auto simp: a2a_v03_authenticate_def token_room_def fun_eq_iff a2a_generate_token_string_def raw_token_def split: if_splits)

lemma verify_eq:
  assumes "au_initialized st" "codes_ok F"
  shows "(case a2a_v03_verify_token F True (Some s) st of (rc, out, st2) \<Rightarrow>
      (rc = 0 \<longleftrightarrow> (\<exists>e es. token_times st s = e # es \<and> wall_s F 0 < e)) \<and>
      (rc = 0 \<longrightarrow> st2 = st) \<and>
      (\<forall>s'. token_times st2 s' = (if s' = s \<and> rc \<noteq> 0 then tl (token_times st s) else token_times st s')))"
proof (cases "find_token st s")
  case None
  then show ?thesis using assms find_token_None [of st s] by (simp add: a2a_v03_verify_token_def)
next
  case (Some i)
  obtain es where "token_times st s = at_expires_at (au_tokens st ! i) # es" using token_dropped(2) [OF Some, of zero_token] by (auto simp: zero_token_def)
  then show ?thesis
    using assms Some token_dropped(1) [OF Some, of "(au_tokens st ! i)\<lparr>at_valid := False\<rparr>"]
    by (auto simp: a2a_v03_verify_token_def not_less)
qed

lemma invalidate_eq:
  assumes "codes_ok G"
  shows "case a2a_v03_invalidate_token G True (Some s) st of (rc, st3) \<Rightarrow>
      (rc = 0 \<longleftrightarrow> token_times st s \<noteq> []) \<and>
      (\<forall>s'. token_times st3 s' = (if s' = s then tl (token_times st s) else token_times st s'))"
proof (cases "find_token st s")
  case None
  then show ?thesis using assms find_token_None [of st s] by (simp add: a2a_v03_invalidate_token_def)
next
  case (Some i)
  have "\<not> at_valid zero_token" by (simp add: zero_token_def)
  from token_dropped [OF Some this] Some show ?thesis by (auto simp: a2a_v03_invalidate_token_def)
qed

text \<open>
  C30: the token table, in every state and whatever tokens share a text. For each text it
  behaves as the list of the times at which its tokens expire. A successful login appends one
  time, its own second plus the lifetime, to the list of the text it issues, after a full table of
  256 tokens has dropped its first entry, valid or not. A verification accepts exactly when the
  first time of the text is still to come; when it refuses, that token is dropped. An
  invalidation drops the first token of its text and no other, and succeeds exactly when there is
  one. Nothing else changes any list.
\<close>

theorem token_lifetime:
  assumes "codes_ok E" "codes_ok F" "codes_ok G" "au_initialized st"
  shows "(case a2a_v03_authenticate E junk True (Some agent) (Some cred) st of (rc, out, st1) \<Rightarrow>
      \<forall>s. token_times st1 s = (if rc = 0
        then token_times (st\<lparr>au_tokens := (if 256 \<le> length (au_tokens st) then tl (au_tokens st) else au_tokens st)\<rparr>) s @
          (if s = fst (a2a_generate_token_string junk st 64 (Some agent) (wall_s E 0))
           then [wall_s E 0 + ucast (ac_token_ttl_sec (au_config st))] else [])
        else token_times st s)) \<and>
    (case a2a_v03_verify_token F True (Some s) st of (rc, out, st2) \<Rightarrow>
      (rc = 0 \<longleftrightarrow> (\<exists>e es. token_times st s = e # es \<and> wall_s F 0 < e)) \<and>
      (rc = 0 \<longrightarrow> st2 = st) \<and>
      (\<forall>s'. token_times st2 s' = (if s' = s \<and> rc \<noteq> 0 then tl (token_times st s) else token_times st s'))) \<and>
    (case a2a_v03_invalidate_token G True (Some s) st of (rc, st3) \<Rightarrow>
      (rc = 0 \<longleftrightarrow> token_times st s \<noteq> []) \<and>
      (\<forall>s'. token_times st3 s' = (if s' = s then tl (token_times st s) else token_times st s')))"
proof -
  have "case a2a_v03_authenticate E junk True (Some agent) (Some cred) st of (rc, out, st1) \<Rightarrow>
      \<forall>s. token_times st1 s = (if rc = 0
        then token_times (st\<lparr>au_tokens := (if 256 \<le> length (au_tokens st) then tl (au_tokens st) else au_tokens st)\<rparr>) s @
          (if s = fst (a2a_generate_token_string junk st 64 (Some agent) (wall_s E 0))
           then [wall_s E 0 + ucast (ac_token_ttl_sec (au_config st))] else [])
        else token_times st s)"
    using login_eq [OF assms(1)] by (auto split: prod.split)
  then show ?thesis using verify_eq [OF assms(4,2), of s] invalidate_eq [OF assms(3), where s = s and st = st] by blast
qed

text \<open>
  Two logins of one agent within a second have one text: after one of them is invalidated the text
  is still accepted.
\<close>

lemma same_second_logins:
  assumes "codes_ok E" "codes_ok F" "codes_ok G" "au_initialized st" "length (au_tokens st) < 255"
    "a2a_v03_authenticate E junk True (Some agent) (Some cred) st = (0, i, st1)"
    "a2a_v03_authenticate E junk True (Some agent) (Some cred) st1 = (0, j, st2)"
    "s = fst (a2a_generate_token_string junk st 64 (Some agent) (wall_s E 0))" "token_times st s = []"
    "a2a_v03_invalidate_token G True (Some s) st2 = (rc, st3)"
    "wall_s F 0 < wall_s E 0 + ucast (ac_token_ttl_sec (au_config st))"
  shows "rc = 0 \<and> fst (a2a_v03_verify_token F True (Some s) st3) = 0"
proof -
  let ?e = "wall_s E 0 + ucast (ac_token_ttl_sec (au_config st))"
  note c1 = login_config [OF assms(1,6)] and c2 = login_config [OF assms(1,7)]
  have "token_times st1 s = [?e]" using login_eq [OF assms(1,6), of s] assms(5,8,9) by simp
  then have t: "token_times st2 s = [?e, ?e]" using login_eq [OF assms(1,7), of s] assms(5,8) c1 by simp
  have "au_initialized st3"
    using assms(4,10) c1 c2 by (auto simp: a2a_v03_invalidate_token_def split: option.splits)
  moreover have "rc = 0 \<and> token_times st3 s = [?e]" using invalidate_eq [OF assms(3), where s = s and st = st2] assms(10) t by simp
  ultimately show ?thesis
    using verify_eq [OF _ assms(2), of st3 s] assms(11) by (cases "a2a_v03_verify_token F True (Some s) st3") auto
qed

lemma hex_loop_untouched: "(i + length bs) * 2 \<le> k \<Longrightarrow> hex_loop i bs out ! k = out ! k"
  by (induction bs arbitrary: i out) auto

lemma raw_token_length: "length (sh_data junk) = 64 \<Longrightarrow> length (raw_token junk st a ts) = 32"
  by (simp add: raw_token_def hmac_rfc rfc2104_length)

text \<open>
  Writing a token text into the 64-byte field of a token always puts the closing NUL
  one byte behind the field, and only 31 of the 32 hash bytes, 62 characters, are kept.
\<close>

theorem token_text_overrun:
  assumes "length (sh_data junk) = 64"
  shows "a2a_generate_token_string junk st 64 agent ts = (hexs (take 31 (raw_token junk st agent ts)), False)"
proof -
  let ?r = "raw_token junk st agent ts" and ?z = "replicate 64 (CHR 0x00)"
  have l: "length ?r = 32" using raw_token_length [OF assms] .
  have "length (drop 31 ?r) = Suc 0" using l by simp
  then obtain b where "drop 31 ?r = [b]" by (metis length_0_conv length_Suc_conv)
  then have r: "?r = take 31 ?r @ [b]" by (metis append_take_drop_id)
  have "hex_loop 0 (take 31 ?r @ [b]) ?z = hex_loop 0 (take 31 ?r) ?z"
    using l by (simp add: hex_loop_append hex_loop_stop)
  then have loop: "hex_loop 0 ?r ?z = hex_loop 0 (take 31 ?r) ?z" using r by metis
  let ?o = "hex_loop 0 (take 31 ?r) ?z"
  have t62: "take 62 ?o = hexs (take 31 ?r)" using hex_loop_take [of 0 "take 31 ?r" ?z] l by simp
  have z: "?o ! 62 = CHR 0x00" using hex_loop_untouched [of 0 "take 31 ?r" 62 ?z] l by simp
  have "cstr (?o[63 := CHR 0x00]) = hexs (take 31 ?r)"
    using t62 z l by (intro cstr_terminated) (simp_all add: hexs_no_nul)
  then show ?thesis
    unfolding a2a_generate_token_string_def a2a_hex_encode_def loop
    using list_update_beyond [of ?o 64] by (simp add: l)
qed

theorem token_text_overrun_witness:
  "snd (a2a_generate_token_string (buffer_ctx []) hmac_state 64 (Some ''bob'') 0) = False"
  using token_text_overrun [OF buffer_ctx_len, of "[]" hmac_state "Some ''bob''" 0] by simp

theorem token_lifetime_witness:
  "\<exists>st1. a2a_v03_authenticate env0 (buffer_ctx []) True (Some ''bob'') (Some ''x'') (zero_auth\<lparr>au_initialized := True\<rparr>)
      = (0, Some 0, st1) \<and>
    token_times st1 (fst (a2a_generate_token_string (buffer_ctx []) (zero_auth\<lparr>au_initialized := True\<rparr>) 64 (Some ''bob'') (wall_s env0 0))) =
      [wall_s env0 0]"
proof -
  let ?st = "zero_auth\<lparr>au_initialized := True\<rparr>"
  have "cred_valid (buffer_ctx []) (au_config ?st) ''bob'' ''x''"
    by (simp add: cred_valid_def zero_auth_def zero_config_def)
  then have "\<exists>st1. a2a_v03_authenticate env0 (buffer_ctx []) True (Some ''bob'') (Some ''x'') ?st = (0, Some 0, st1)"
    by (simp add: a2a_v03_authenticate_def zero_auth_def token_room_def)
  then obtain st1 where
    a: "a2a_v03_authenticate env0 (buffer_ctx []) True (Some ''bob'') (Some ''x'') ?st = (0, Some 0, st1)" by blast
  have "au_initialized ?st" "token_times ?st s = []" "au_tokens ?st = []" "ucast (ac_token_ttl_sec (au_config ?st)) = (0 :: u64)" for s
    by (simp_all add: token_times_def zero_auth_def zero_config_def)
  with token_lifetime [OF env0_ok(1,1,1), of ?st "buffer_ctx []" "''bob''" "''x''"] a show ?thesis
    by (simp add: token_times_def)
qed

section \<open>Signatures\<close>

lemma take_eq_iff: "length x = n \<Longrightarrow> n \<le> length s \<and> x = take n s \<longleftrightarrow> take n s = x"
  by (auto dest: arg_cong [where f = length])

lemma sign_request_hmac:
  assumes "length (sh_data junk) = 64" "au_initialized st" "0 < ac_secret_len (au_config st)"
    "ac_secret_len (au_config st) \<le> 64" "length (sign_text m p t) < 4096" "65 \<le> n"
  shows "a2a_v03_sign_request junk True (Some m) (Some p) t n st = Some (hexs (rfc2104_hmac
    (take (ac_secret_len (au_config st)) (ac_shared_secret (au_config st))) (bytes (sign_text m p t))))"
proof -
  let ?h = "rfc2104_hmac (take (ac_secret_len (au_config st)) (ac_shared_secret (au_config st))) (bytes (sign_text m p t))"
  have "cstr (fst (a2a_hex_encode ?h (replicate n (CHR 0x00)))) = hexs ?h"
    using assms(6) by (intro hex_encode_fits) (simp add: rfc2104_length)
  then show ?thesis
    using assms by (simp add: a2a_v03_sign_request_def hmac_rfc [OF assms(1)])
qed

text \<open>
  C31: with a secret configured, a signature is accepted exactly when its first 64
  characters are the hexadecimal HMAC-SHA256 of method, parameters and token under that
  secret; so what one side signs, the other accepts.
\<close>

theorem signature_exact:
  assumes "length (sh_data junk) = 64" "codes_ok E" "au_initialized st" "0 < ac_secret_len (au_config st)"
    "ac_secret_len (au_config st) \<le> 64" "length (sign_text m p t) < 4096"
  shows "(a2a_v03_verify_signature E junk tail True (Some m) (Some p) (Some sig) t st = 0 \<longleftrightarrow>
      take 64 sig = hexs (rfc2104_hmac (take (ac_secret_len (au_config st)) (ac_shared_secret (au_config st)))
        (bytes (sign_text m p t)))) \<and>
    (a2a_v03_sign_request junk True (Some m) (Some p) t 65 st = Some sig \<longrightarrow>
      a2a_v03_verify_signature E junk tail True (Some m) (Some p) (Some sig) t st = 0)"
proof -
  let ?x = "hexs (rfc2104_hmac (take (ac_secret_len (au_config st)) (ac_shared_secret (au_config st)))
        (bytes (sign_text m p t)))"
  have l: "length ?x = 64" by (simp add: rfc2104_length)
  have sign: "a2a_v03_sign_request junk True (Some m) (Some p) t 65 st = Some ?x"
    using sign_request_hmac [OF assms(1,3,4,5,6)] by simp
  have "a2a_v03_verify_signature E junk tail True (Some m) (Some p) (Some sig) t st = 0 \<longleftrightarrow>
      64 \<le> length sig \<and> a2a_const_time_eq (bytes (?x @ CHR 0x00 # tail)) (bytes sig) 64"
    using assms(2) by (simp add: a2a_v03_verify_signature_def sign)
  also have "\<dots> \<longleftrightarrow> 64 \<le> length sig \<and> ?x = take 64 sig"
    using const_time_take [of 64 "?x @ CHR 0x00 # tail" sig] l by auto
  also have "\<dots> \<longleftrightarrow> take 64 sig = ?x" by (rule take_eq_iff [OF l])
  finally show ?thesis using sign l by auto
qed

theorem signature_exact_witness:
  "\<exists>sig. a2a_v03_sign_request (buffer_ctx []) True (Some ''task'') (Some ''{}'') None 65 hmac_state = Some sig \<and>
    a2a_v03_verify_signature env0 (buffer_ctx []) [] True (Some ''task'') (Some ''{}'') (Some sig) None hmac_state = 0"
proof -
  have "length (sign_text ''task'' ''{}'' None) < 4096" by (simp add: sign_text_def)
  with signature_exact [OF buffer_ctx_len env0_ok(1), of hmac_state "''task''" "''{}''" None "[]" "[]"]
    sign_request_hmac [OF buffer_ctx_len, of hmac_state "''task''" "''{}''" None 65 "[]"]
  show ?thesis by (auto simp: rfc2104_length)
qed

text \<open>
  Without a usable secret no signature is ever accepted, not even the one the same
  configuration produces: the fallback text has 32 characters, verification compares 64.
\<close>

theorem signature_fallback_rejected:
  assumes "codes_ok E" "ac_secret_len (au_config st) = 0 \<or> 64 < ac_secret_len (au_config st)"
    "CHR 0x00 \<notin> set sig"
  shows "a2a_v03_verify_signature E junk tail True (Some m) (Some p) (Some sig) t st \<noteq> 0"
proof (cases "a2a_v03_sign_request junk True (Some m) (Some p) t 65 st")
  case None
  then show ?thesis using assms(1) by (simp add: a2a_v03_verify_signature_def)
next
  case (Some e)
  then have l: "length e = 32"
    using assms(2) by (auto simp: a2a_v03_sign_request_def split: if_splits)
  have "\<not> a2a_const_time_eq (bytes (e @ CHR 0x00 # tail)) (bytes sig) 64" if n: "64 \<le> length sig"
  proof
    assume "a2a_const_time_eq (bytes (e @ CHR 0x00 # tail)) (bytes sig) 64"
    then have "bytes (e @ CHR 0x00 # tail) ! 32 = bytes sig ! 32" by (simp add: const_time_eq_iff)
    then have "(of_nat (of_char (CHR 0x00)) :: u8) = of_nat (of_char (sig ! 32))"
      using l n by (simp add: nth_append)
    then have "sig ! 32 = CHR 0x00" by (metis byte_of_char of_char_eq_iff)
    moreover have "sig ! 32 \<in> set sig" using n by (intro nth_mem) simp
    ultimately show False using assms(3) by simp
  qed
  then show ?thesis using Some assms(1) by (auto simp: a2a_v03_verify_signature_def)
qed

theorem signature_fallback_rejected_witness:
  "a2a_v03_verify_signature env0 (buffer_ctx []) [] True (Some ''task'') (Some ''{}'')
     (Some (replicate 64 (CHR ''0''))) None (zero_auth\<lparr>au_initialized := True\<rparr>) \<noteq> 0"
  by (rule signature_fallback_rejected) (simp_all add: zero_auth_def zero_config_def)

section \<open>Sessions\<close>

lemma evict_length: "ss \<noteq> [] \<Longrightarrow> length (evict ss) = length ss - 1"
  by (simp add: evict_def)

text \<open>
  C32: with a limit of at most 128 sessions, creating a session never leaves the session
  array and the limit is kept. A limit above 128, which initialisation accepts, lets the
  129th session be written behind the array.
\<close>

theorem session_bounds:
  assumes "au_initialized st" "0 < ac_max_sessions (au_config st)"
    "length (au_sessions st) \<le> min A2A_MAX_SESSIONS (ac_max_sessions (au_config st))"
  shows "(if ac_max_sessions (au_config st) \<le> A2A_MAX_SESSIONS
     then \<exists>i st'. a2a_v03_create_session E True (Some remote) am cm st = Some (0, Some i, st') \<and>
       length (au_sessions st') \<le> ac_max_sessions (au_config st')
     else length (au_sessions st) = A2A_MAX_SESSIONS \<longrightarrow>
       a2a_v03_create_session E True (Some remote) am cm st = None)"
proof (cases "ac_max_sessions (au_config st) \<le> length (au_sessions st)")
  case True
  then have "au_sessions st \<noteq> []" using assms(2) by auto
  with True assms show ?thesis by (auto simp: a2a_v03_create_session_def evict_length)
next
  case False
  with assms show ?thesis by (auto simp: a2a_v03_create_session_def)
qed

theorem session_bounds_witness:
  "a2a_v03_create_session env0 True (Some ''bob'') 0 0 (hmac_state\<lparr>au_config := (au_config hmac_state)\<lparr>ac_max_sessions := 200\<rparr>,
     au_sessions := replicate 128 zero_session\<rparr>) = None"
  using session_bounds [of "hmac_state\<lparr>au_config := (au_config hmac_state)\<lparr>ac_max_sessions := 200\<rparr>,
     au_sessions := replicate 128 zero_session\<rparr>" env0 "''bob''" 0 0] by simp

end
