(* ===== verification/A2a_Adapter.thy ===== *)
theory A2a_Adapter
  imports Unified_Message
begin

text \<open>
  The A2A v0.3 adapter: agents (\<open>a2a_v03_adapter_agent.c\<close>), tasks
  (\<open>a2a_v03_adapter_task.c\<close>), messages and handlers (\<open>a2a_v03_adapter_msg.c\<close>), the
  context's life (\<open>a2a_v03_adapter.c\<close>) and the stack callbacks that move data
  (\<open>a2a_v03_adapter_cb.c\<close>).

  The agent array is modelled with all its 256 slots, because a slot that is used again
  keeps what its last owner left in it. The task array holds pointers that are only ever
  appended, so it is the list of its used slots. A handler is a function of the outside
  state \<open>'w\<close>; it does not change the context itself.
\<close>

section \<open>Data\<close>

abbreviation (input) A2A_V03_MAX_AGENTS :: nat where "A2A_V03_MAX_AGENTS \<equiv> 256"
abbreviation (input) A2A_V03_MAX_TASKS :: nat where "A2A_V03_MAX_TASKS \<equiv> 4096"
abbreviation (input) A2A_TASK_ID_SIZE :: nat where "A2A_TASK_ID_SIZE \<equiv> 40"
abbreviation (input) A2A_V03_FRAME_HDR_MAX :: nat where "A2A_V03_FRAME_HDR_MAX \<equiv> 256"
abbreviation A2A_DEFAULT_TIMEOUT_MS :: int where "A2A_DEFAULT_TIMEOUT_MS \<equiv> 60000"

abbreviation A2A_CAP_TASK_EXECUTION :: u32 where "A2A_CAP_TASK_EXECUTION \<equiv> 0x01"
abbreviation A2A_CAP_STREAMING :: u32 where "A2A_CAP_STREAMING \<equiv> 0x02"
abbreviation A2A_CAP_PUSH_NOTIFICATIONS :: u32 where "A2A_CAP_PUSH_NOTIFICATIONS \<equiv> 0x04"
abbreviation A2A_CAP_NEGOTIATION :: u32 where "A2A_CAP_NEGOTIATION \<equiv> 0x08"
abbreviation A2A_CAP_MULTI_TURN :: u32 where "A2A_CAP_MULTI_TURN \<equiv> 0x10"
abbreviation A2A_CAP_STATE_TRANSITION :: u32 where "A2A_CAP_STATE_TRANSITION \<equiv> 0x20"

datatype a2a_task_state =
    A2A_TASK_SUBMITTED | A2A_TASK_WORKING | A2A_TASK_INPUT_REQUIRED | A2A_TASK_COMPLETED
  | A2A_TASK_CANCELED | A2A_TASK_FAILED | A2A_TASK_REJECTED

datatype a2a_message_type = A2A_MSG_TEXT | A2A_MSG_FILE | A2A_MSG_STRUCTURED | A2A_MSG_ERROR

datatype a2a_negotiation_action =
    A2A_NEGOTIATE_PROPOSE | A2A_NEGOTIATE_ACCEPT | A2A_NEGOTIATE_REJECT | A2A_NEGOTIATE_COUNTER

type_synonym a2a_skill = "cstring option \<times> cstring option \<times> cstring option"

record a2a_agent_card =
  cd_id :: "cstring option"
  cd_name :: "cstring option"
  cd_description :: "cstring option"
  cd_url :: "cstring option"
  cd_version :: "cstring option"
  cd_protocol_version :: int
  cd_capabilities :: u32
  cd_skills :: "a2a_skill list"
  cd_provider_name :: "cstring option"
  cd_provider_url :: "cstring option"
  cd_documentation_url :: "cstring option"
  cd_authentication_schemes_json :: "cstring option"
  cd_capabilities_json :: "cstring option"
  cd_available :: bool

definition zero_card :: a2a_agent_card where
  "zero_card = \<lparr>cd_id = None, cd_name = None, cd_description = None, cd_url = None, cd_version = None,
     cd_protocol_version = 0, cd_capabilities = 0, cd_skills = [], cd_provider_name = None,
     cd_provider_url = None, cd_documentation_url = None, cd_authentication_schemes_json = None,
     cd_capabilities_json = None, cd_available = False\<rparr>"

record a2a_internal_card =
  ic_id :: cstring
  ic_name :: cstring
  ic_url :: cstring
  ic_capabilities :: cstring
  ic_version :: int
  ic_protocol_version :: int
  ic_available :: bool
  ic_capabilities_json :: "cstring option"
  ic_capabilities_mask :: u32

definition zero_internal :: a2a_internal_card where
  "zero_internal = \<lparr>ic_id = [], ic_name = [], ic_url = [], ic_capabilities = [], ic_version = 0,
     ic_protocol_version = 0, ic_available = False, ic_capabilities_json = None, ic_capabilities_mask = 0\<rparr>"

record a2a_task =
  tk_id :: cstring
  tk_session_id :: "cstring option"
  tk_agent_id :: "cstring option"
  tk_state :: a2a_task_state
  tk_description :: "cstring option"
  tk_input_json :: "cstring option"
  tk_output_json :: "cstring option"
  tk_created_at :: u64
  tk_updated_at :: u64
  tk_progress :: real
  tk_error_message :: "cstring option"
  tk_assigned_agent :: "a2a_agent_card option"

record a2a_message =
  mg_role :: "cstring option"
  mg_type :: a2a_message_type
  mg_content_json :: "cstring option"
  mg_mime_type :: "cstring option"
  mg_file_name :: "cstring option"
  mg_file_data :: "u8 list option"
  mg_file_data_size :: nat

record a2a_negotiation =
  ng_action :: a2a_negotiation_action
  ng_task_id :: "cstring option"
  ng_agent_id :: "cstring option"
  ng_terms_json :: "cstring option"
  ng_counter_proposal_json :: "cstring option"
  ng_reason :: "cstring option"

record a2a_notification =
  nt_event_type :: "cstring option"
  nt_task_id :: "cstring option"
  nt_agent_id :: "cstring option"
  nt_data_json :: "cstring option"
  nt_timestamp :: u64

record a2a_v03_config =
  vc_capabilities :: u32
  vc_default_timeout_ms :: u32
  vc_max_agents :: nat
  vc_max_tasks :: nat
  vc_max_message_size :: nat
  vc_enable_negotiation :: bool
  vc_enable_streaming :: bool
  vc_enable_push_notifications :: bool
  vc_require_authentication :: bool
  vc_default_authentication :: "cstring option"

text \<open>
  The handlers. A nullable output parameter is a flag that says whether it was given; what
  a handler writes through it is an option.
\<close>

type_synonym 'w task_handler =
  "a2a_task \<Rightarrow> a2a_task_state \<Rightarrow> ptr option \<Rightarrow> 'w \<Rightarrow> int \<times> a2a_task_state \<times> cstring option \<times> 'w"
type_synonym 'w message_handler =
  "cstring \<Rightarrow> a2a_message \<Rightarrow> bool \<Rightarrow> bool \<Rightarrow> ptr option \<Rightarrow> 'w \<Rightarrow> int \<times> a2a_message list option \<times> 'w"
type_synonym 'w negotiation_handler =
  "a2a_negotiation \<Rightarrow> bool \<Rightarrow> bool \<Rightarrow> ptr option \<Rightarrow> 'w \<Rightarrow>
     int \<times> a2a_negotiation_action option \<times> cstring option option \<times> 'w"
type_synonym 'w notification_handler = "a2a_notification \<Rightarrow> ptr option \<Rightarrow> 'w \<Rightarrow> 'w"
type_synonym 'w streaming_handler =
  "cstring \<Rightarrow> real \<Rightarrow> cstring option \<Rightarrow> bool \<Rightarrow> ptr option \<Rightarrow> 'w \<Rightarrow> 'w"
type_synonym 'w transport_write = "ptr option \<Rightarrow> char list \<Rightarrow> 'w \<Rightarrow> int \<times> 'w"
type_synonym 'w transport_read = "ptr option \<Rightarrow> u32 \<Rightarrow> 'w \<Rightarrow> int \<times> (cstring option \<times> nat) \<times> 'w"

record 'w a2a_adapter =
  aa_agents :: "a2a_internal_card list"
  aa_agent_count :: nat
  aa_task_counter :: u64
  aa_active_task_count :: nat
  aa_completed_task_count :: nat
  aa_failed_task_count :: nat
  aa_total_delegation_ms :: u64
  aa_total_consensus_ms :: u64
  aa_initialized :: bool
  aa_config :: a2a_v03_config
  aa_tasks :: "a2a_task list"
  aa_notification_handler :: "('w notification_handler) option"
  aa_notification_handler_user_data :: "ptr option"
  aa_task_handler :: "('w task_handler) option"
  aa_task_handler_user_data :: "ptr option"
  aa_message_handler :: "('w message_handler) option"
  aa_message_handler_user_data :: "ptr option"
  aa_negotiation_handler :: "('w negotiation_handler) option"
  aa_negotiation_handler_user_data :: "ptr option"
  aa_streaming_handler :: "('w streaming_handler) option"
  aa_streaming_handler_user_data :: "ptr option"
  aa_transport_write :: "('w transport_write) option"
  aa_transport_read :: "('w transport_read) option"
  aa_transport_ctx :: "ptr option"
  aa_connected :: bool
  aa_bytes_sent :: u64
  aa_messages_sent :: u64
  aa_bytes_received :: u64
  aa_messages_received :: u64

definition zero_v03_config :: a2a_v03_config where
  "zero_v03_config = \<lparr>vc_capabilities = 0, vc_default_timeout_ms = 0, vc_max_agents = 0, vc_max_tasks = 0,
     vc_max_message_size = 0, vc_enable_negotiation = False, vc_enable_streaming = False,
     vc_enable_push_notifications = False, vc_require_authentication = False,
     vc_default_authentication = None\<rparr>"

definition zero_adapter_state :: "'w a2a_adapter" where
  "zero_adapter_state = \<lparr>aa_agents = replicate A2A_V03_MAX_AGENTS zero_internal, aa_agent_count = 0,
     aa_task_counter = 0, aa_active_task_count = 0, aa_completed_task_count = 0,
     aa_failed_task_count = 0, aa_total_delegation_ms = 0, aa_total_consensus_ms = 0,
     aa_initialized = False, aa_config = zero_v03_config, aa_tasks = [],
     aa_notification_handler = None, aa_notification_handler_user_data = None,
     aa_task_handler = None, aa_task_handler_user_data = None,
     aa_message_handler = None, aa_message_handler_user_data = None,
     aa_negotiation_handler = None, aa_negotiation_handler_user_data = None,
     aa_streaming_handler = None, aa_streaming_handler_user_data = None,
     aa_transport_write = None, aa_transport_read = None, aa_transport_ctx = None,
     aa_connected = False, aa_bytes_sent = 0, aa_messages_sent = 0,
     aa_bytes_received = 0, aa_messages_received = 0\<rparr>"

section \<open>The context\<close>

definition a2a_v03_config_default :: a2a_v03_config where
  "a2a_v03_config_default = zero_v03_config\<lparr>
     vc_capabilities := A2A_CAP_TASK_EXECUTION OR A2A_CAP_STREAMING OR A2A_CAP_NEGOTIATION OR
       A2A_CAP_PUSH_NOTIFICATIONS OR A2A_CAP_MULTI_TURN OR A2A_CAP_STATE_TRANSITION,
     vc_max_agents := 256, vc_max_tasks := 4096, vc_max_message_size := 65536,
     vc_default_timeout_ms := 60000, vc_enable_negotiation := True, vc_enable_streaming := True,
     vc_enable_push_notifications := True, vc_require_authentication := False,
     vc_default_authentication := None\<rparr>"

definition a2a_v03_create :: "env \<Rightarrow> u32 \<Rightarrow> int \<times> 'w a2a_adapter option" where
  "a2a_v03_create E default_timeout_ms =
    (if \<not> mem E 0 then (err E AIRY_ERR_OUT_OF_MEMORY, None)
     else
       (let adapter = zero_adapter_state;
            adapter = (if default_timeout_ms > 0
              then adapter\<lparr>aa_config := (aa_config adapter)\<lparr>vc_default_timeout_ms := default_timeout_ms\<rparr>\<rparr>
              else adapter)
        in (0, Some (adapter\<lparr>aa_agent_count := 0, aa_task_counter := 1, aa_initialized := True\<rparr>))))"

fun a2a_v03_context_create :: "env \<Rightarrow> a2a_v03_config option \<Rightarrow> 'w a2a_adapter option" where
  "a2a_v03_context_create E None = None"
| "a2a_v03_context_create E (Some config) =
    (case a2a_v03_create E (vc_default_timeout_ms config) of
       (rc, handle) \<Rightarrow> if rc \<noteq> 0 then None else handle)"

text \<open>The static card that \<open>a2a_v03_get_agent_card\<close> fills is cleared with the context.\<close>

fun a2a_v03_ctx_clear :: "'w a2a_adapter option \<Rightarrow> a2a_agent_card \<Rightarrow> 'w a2a_adapter option \<times> a2a_agent_card" where
  "a2a_v03_ctx_clear None cached = (None, cached)"
| "a2a_v03_ctx_clear (Some a) cached =
    (Some (a\<lparr>aa_initialized := False,
       aa_agents := map (\<lambda>c. c\<lparr>ic_capabilities_json := None\<rparr>) (take (aa_agent_count a) (aa_agents a)) @
         drop (aa_agent_count a) (aa_agents a),
       aa_agent_count := 0, aa_tasks := []\<rparr>), zero_card)"

definition a2a_v03_is_initialized :: "'w a2a_adapter option \<Rightarrow> bool" where
  "a2a_v03_is_initialized handle = (case handle of None \<Rightarrow> False | Some a \<Rightarrow> aa_initialized a)"

text \<open>The guard of the entry points, and the version of the adapter.\<close>

fun a2a_v03_ctx_ready :: "'w a2a_adapter option \<Rightarrow> bool" where
  "a2a_v03_ctx_ready None = False"
| "a2a_v03_ctx_ready (Some a) = aa_initialized a"

definition a2a_v03_version :: cstring where
  "a2a_v03_version = ''AgentRT-A2A/'' @ ''0.3''"

definition a2a_v03_get_agent_count :: "'w a2a_adapter option \<Rightarrow> nat" where
  "a2a_v03_get_agent_count ctx = (case ctx of None \<Rightarrow> 0 | Some a \<Rightarrow> aa_agent_count a)"

definition a2a_v03_get_task_count :: "'w a2a_adapter option \<Rightarrow> nat" where
  "a2a_v03_get_task_count ctx = (case ctx of None \<Rightarrow> 0 | Some a \<Rightarrow> length (aa_tasks a))"

definition a2a_v03_get_capabilities :: "'w a2a_adapter option \<Rightarrow> u32" where
  "a2a_v03_get_capabilities ctx = (case ctx of None \<Rightarrow> 0 | Some a \<Rightarrow> vc_capabilities (aa_config a))"

section \<open>Agents\<close>

definition find_agent :: "'w a2a_adapter \<Rightarrow> cstring \<Rightarrow> nat option" where
  "find_agent a i = find_idx (\<lambda>c. ic_id c = i) (take (aa_agent_count a) (aa_agents a))"

text \<open>The fields that a registration writes, new or repeated. Without capability text the slot keeps its own.\<close>

definition fill_card :: "env \<Rightarrow> a2a_agent_card \<Rightarrow> a2a_internal_card \<Rightarrow> a2a_internal_card" where
  "fill_card E info ic = ic\<lparr>
     ic_name := strncpy_term E 128 (case cd_name info of None \<Rightarrow> ''Unknown'' | Some n \<Rightarrow> n),
     ic_url := strncpy_term E 512 (case cd_url info of None \<Rightarrow> '''' | Some u \<Rightarrow> u),
     ic_capabilities := (case cd_capabilities_json info of None \<Rightarrow> ic_capabilities ic
                          | Some c \<Rightarrow> strncpy_term E 1024 c),
     ic_version := (if 0 < cd_protocol_version info then cd_protocol_version info else 3),
     ic_available := cd_available info\<rparr>"

definition given_id :: "a2a_agent_card \<Rightarrow> cstring option" where
  "given_id info = (case cd_id info of None \<Rightarrow> None | Some i \<Rightarrow> if i = [] then None else Some i)"

definition add_agent :: "env \<Rightarrow> a2a_agent_card \<Rightarrow> 'w a2a_adapter \<Rightarrow> 'w a2a_adapter" where
  "add_agent E info a =
    (let n = aa_agent_count a;
         (i, counter) = (case given_id info of
            Some i \<Rightarrow> (strncpy_term E 64 i, aa_task_counter a)
          | None \<Rightarrow> (snprintf 64 (''agent_'' @ show_nat (n + 1) @ ''_'' @ show_nat (unat (aa_task_counter a))),
                     aa_task_counter a + 1));
         slot = (fill_card E info ((aa_agents a ! n)\<lparr>ic_id := i\<rparr>))\<lparr>ic_capabilities_mask := cd_capabilities info\<rparr>
     in a\<lparr>aa_agents := (aa_agents a)[n := slot], aa_agent_count := n + 1, aa_task_counter := counter\<rparr>)"

definition merge_agent :: "env \<Rightarrow> a2a_agent_card \<Rightarrow> nat \<Rightarrow> 'w a2a_adapter \<Rightarrow> 'w a2a_adapter" where
  "merge_agent E info k a =
    (let ic = aa_agents a ! k
     in a\<lparr>aa_agents := (aa_agents a)[k := (fill_card E info ic)\<lparr>
          ic_capabilities_mask := ic_capabilities_mask ic OR cd_capabilities info\<rparr>]\<rparr>)"

fun a2a_v03_register_agent ::
  "env \<Rightarrow> 'w a2a_adapter option \<Rightarrow> a2a_agent_card option \<Rightarrow> int \<times> 'w a2a_adapter option" where
  "a2a_v03_register_agent E (Some a) (Some info) =
    (if \<not> a2a_v03_ctx_ready (Some a) then (err E AIRY_ERR_STATE_ERROR, Some a)
     else case (case given_id info of None \<Rightarrow> None | Some i \<Rightarrow> find_agent a i) of
         Some k \<Rightarrow> (0, Some (merge_agent E info k a))
       | None \<Rightarrow>
           if A2A_V03_MAX_AGENTS \<le> aa_agent_count a then (err E AIRY_ERR_BUFFER_TOO_SMALL, Some a)
           else (0, Some (add_agent E info a)))"
| "a2a_v03_register_agent E ctx info = (err E AIRY_ERR_UNKNOWN, ctx)"

definition agent_matches :: "cstring option \<Rightarrow> a2a_internal_card \<Rightarrow> bool" where
  "agent_matches capability info \<longleftrightarrow> ic_available info \<and>
     (case capability of None \<Rightarrow> True
      | Some c \<Rightarrow> c = [] \<or> strstr (ic_capabilities info) c \<noteq> None)"

text \<open>The first pass counts at most 256 matches, the second allocates and copies them.\<close>

fun discover_count :: "cstring option \<Rightarrow> a2a_internal_card list \<Rightarrow> nat \<Rightarrow> nat" where
  "discover_count capability [] matched = matched"
| "discover_count capability (c # cs) matched =
    (if matched < A2A_V03_MAX_AGENTS
     then discover_count capability cs (if agent_matches capability c then matched + 1 else matched)
     else matched)"

definition copy_card :: "env \<Rightarrow> a2a_internal_card \<Rightarrow> a2a_agent_card" where
  "copy_card E info = zero_card\<lparr>cd_id := strdup E 0 (ic_id info), cd_name := strdup E 1 (ic_name info),
     cd_url := strdup E 2 (ic_url info), cd_capabilities_json := strdup E 3 (ic_capabilities info),
     cd_protocol_version := ic_version info\<rparr>"

fun discover_fill :: "env \<Rightarrow> cstring option \<Rightarrow> nat \<Rightarrow> a2a_internal_card list \<Rightarrow> a2a_agent_card list" where
  "discover_fill E capability room [] = []"
| "discover_fill E capability room (c # cs) =
    (if room = 0 then []
     else if \<not> agent_matches capability c then discover_fill E capability room cs
     else if mem E 0 then copy_card (later 1 E) c # discover_fill (later 5 E) capability (room - 1) cs
     else discover_fill (later 1 E) capability room cs)"

text \<open>
  The result array has \<open>matched\<close> entries; those that could not be allocated leave NULL
  pointers at its end. \<open>skill_name\<close> is not looked at.
\<close>

fun a2a_v03_discover_agents ::
  "env \<Rightarrow> 'w a2a_adapter option \<Rightarrow> cstring option \<Rightarrow> cstring option \<Rightarrow> bool \<Rightarrow>
   int \<times> a2a_agent_card option list option" where
  "a2a_v03_discover_agents E (Some a) capability skill_name True =
    (if \<not> a2a_v03_ctx_ready (Some a) then (err E AIRY_ERR_STATE_ERROR, None)
     else
       (let agents = take (aa_agent_count a) (aa_agents a);
            matched = discover_count capability agents 0
        in if 0 < matched
           then if \<not> mem E 0 then (err E AIRY_ERR_OUT_OF_MEMORY, Some [])
             else (let filled = discover_fill (later 1 E) capability matched agents
                   in (0, Some (map Some filled @ replicate (matched - length filled) None)))
           else (0, Some [])))"
| "a2a_v03_discover_agents E ctx capability skill_name outs = (err E AIRY_ERR_UNKNOWN, None)"

text \<open>The last argument and result is the static card; a card that is returned is that one.\<close>

fun a2a_v03_get_agent_card ::
  "env \<Rightarrow> 'w a2a_adapter option \<Rightarrow> cstring option \<Rightarrow> a2a_agent_card \<Rightarrow> a2a_agent_card option \<times> a2a_agent_card" where
  "a2a_v03_get_agent_card E None None cached = (None, zero_card)"
| "a2a_v03_get_agent_card E (Some a) (Some agent_id) cached =
    (if \<not> aa_initialized a then (None, cached)
     else case find_agent a agent_id of
         None \<Rightarrow> (None, cached)
       | Some k \<Rightarrow>
          (let ic = aa_agents a ! k;
               info = (copy_card E ic)\<lparr>cd_capabilities := ic_capabilities_mask ic, cd_available := ic_available ic\<rparr>
           in (Some info, info)))"
| "a2a_v03_get_agent_card E ctx agent_id cached = (None, cached)"

fun a2a_v03_unregister_agent ::
  "env \<Rightarrow> 'w a2a_adapter option \<Rightarrow> cstring option \<Rightarrow> int \<times> 'w a2a_adapter option" where
  "a2a_v03_unregister_agent E (Some a) (Some agent_id) =
    (if \<not> a2a_v03_ctx_ready (Some a) then (err E AIRY_ERR_STATE_ERROR, Some a)
     else case find_agent a agent_id of
         None \<Rightarrow> (err E AIRY_ERR_NOT_FOUND, Some a)
       | Some k \<Rightarrow>
          (let last = aa_agent_count a - 1
           in (0, Some (a\<lparr>aa_agents := (if k < last then (aa_agents a)[k := aa_agents a ! last] else aa_agents a),
                aa_agent_count := last\<rparr>))))"
| "a2a_v03_unregister_agent E ctx agent_id = (err E AIRY_ERR_UNKNOWN, ctx)"

section \<open>Delegation, negotiation, consensus and streaming\<close>

text \<open>
  \<open>fl\<close> rounds a real number to the nearest \<open>float\<close>. \<open>None\<close> as a whole result: the code
  passes NULL to \<open>snprintf\<close> or \<open>strlen\<close>, writes outside an array, or overflows an \<open>int\<close>.
\<close>

type_synonym 'w stream_callback = "cstring \<Rightarrow> nat \<Rightarrow> bool \<Rightarrow> ptr option \<Rightarrow> 'w \<Rightarrow> 'w"

record 'w a2a_task_request =
  rq_task_id :: "cstring option"
  rq_target_agent_id :: "cstring option"
  rq_description :: "cstring option"
  rq_timeout_ms :: int
  rq_callback :: "('w stream_callback) option"
  rq_user_data :: "ptr option"

record a2a_task_response =
  rp_task_id :: cstring
  rp_status :: int
  rp_result_json :: "cstring option"
  rp_accepted_by :: cstring
  rp_negotiation_rounds :: int
  rp_estimated_duration_ms :: int

definition zero_response :: a2a_task_response where
  "zero_response = \<lparr>rp_task_id = [], rp_status = 0, rp_result_json = None, rp_accepted_by = [],
     rp_negotiation_rounds = 0, rp_estimated_duration_ms = 0\<rparr>"

definition delegate_response :: "env \<Rightarrow> u64 \<Rightarrow> 'w a2a_task_request \<Rightarrow> a2a_task_response" where
  "delegate_response E counter request = zero_response\<lparr>
     rp_task_id := snprintf 64 (''task_'' @ show_nat (unat counter)),
     rp_status := 4,
     rp_accepted_by := strncpy_term E 64
       (case rq_target_agent_id request of None \<Rightarrow> ''coordinator'' | Some t \<Rightarrow> t),
     rp_negotiation_rounds := 0,
     rp_estimated_duration_ms := (if 0 < rq_timeout_ms request then rq_timeout_ms request div 2
                                  else A2A_DEFAULT_TIMEOUT_MS div 2)\<rparr>"

fun a2a_v03_delegate_task ::
  "env \<Rightarrow> 'w a2a_adapter option \<Rightarrow> 'w a2a_task_request option \<Rightarrow> a2a_task_response option \<Rightarrow>
   (int \<times> a2a_task_response option \<times> 'w a2a_adapter option) option" where
  "a2a_v03_delegate_task E (Some a) (Some request) (Some out) =
    (if \<not> a2a_v03_ctx_ready (Some a) then Some (err E AIRY_ERR_STATE_ERROR, Some out, Some a)
     else
       (let r = delegate_response E (aa_task_counter a) request;
            a1 = a\<lparr>aa_task_counter := aa_task_counter a + 1\<rparr>
        in case rq_description request of
             None \<Rightarrow> Some (0, Some r, Some a1)
           | Some d \<Rightarrow>
              if \<not> mem E 0 then None
              else Some (0, Some (r\<lparr>rp_result_json := Some (snprintf 512
                     (''{\"task_id\":\"'' @ rp_task_id r @ ''\",\"status\":\"delegated\",\"description\":\"'' @ d @ ''\"}''))\<rparr>),
                     Some a1)))"
| "a2a_v03_delegate_task E ctx request out = Some (err E AIRY_ERR_UNKNOWN, out, ctx)"

record a2a_proposal =
  po_type :: int
  po_proposed_cost :: real
  po_proposed_timeout_ms :: int
  po_proposed_priority :: int

record a2a_negotiation_result =
  nr_task_id :: cstring
  nr_outcome :: int
  nr_final_cost :: real
  nr_final_timeout_ms :: int
  nr_counter_priority :: int
  nr_round_number :: int

definition zero_result :: a2a_negotiation_result where
  "zero_result = \<lparr>nr_task_id = [], nr_outcome = 0, nr_final_cost = 0, nr_final_timeout_ms = 0,
     nr_counter_priority = 0, nr_round_number = 0\<rparr>"

definition int_ok :: "int \<Rightarrow> bool" where
  "int_ok k \<longleftrightarrow> - (2 ^ 31) \<le> k \<and> k < 2 ^ 31"

text \<open>Conversion of a floating number to \<open>int\<close> drops the fraction.\<close>

definition to_int :: "real \<Rightarrow> int" where
  "to_int x = (if 0 \<le> x then \<lfloor>x\<rfloor> else \<lceil>x\<rceil>)"

definition answer_proposal :: "(real \<Rightarrow> real) \<Rightarrow> a2a_proposal \<Rightarrow> a2a_negotiation_result \<Rightarrow> a2a_negotiation_result option" where
  "answer_proposal fl p r =
    (if po_type p = 1 then Some (r\<lparr>nr_outcome := 1, nr_final_cost := fl (po_proposed_cost p * fl 1.1)\<rparr>)
     else if po_type p = 2 then
       (let t = to_int (fl (fl (real_of_int (po_proposed_timeout_ms p)) * fl 1.2))
        in if int_ok t then Some (r\<lparr>nr_outcome := 1, nr_final_timeout_ms := t\<rparr>) else None)
     else if po_type p = 3 then
       (let q = po_proposed_priority p + 10
        in if int_ok q then Some (r\<lparr>nr_outcome := 2, nr_counter_priority := q\<rparr>) else None)
     else Some (r\<lparr>nr_outcome := 3\<rparr>))"

fun a2a_v03_negotiate_task ::
  "env \<Rightarrow> (real \<Rightarrow> real) \<Rightarrow> 'w a2a_adapter option \<Rightarrow> cstring option \<Rightarrow> a2a_proposal option \<Rightarrow>
   a2a_negotiation_result option \<Rightarrow> (int \<times> a2a_negotiation_result option) option" where
  "a2a_v03_negotiate_task E fl (Some a) (Some task_id) (Some proposal) (Some out) =
    (if \<not> a2a_v03_ctx_ready (Some a) then Some (err E AIRY_ERR_STATE_ERROR, Some out)
     else case answer_proposal fl proposal (zero_result\<lparr>nr_task_id := strncpy_term E 64 task_id\<rparr>) of
         None \<Rightarrow> None
       | Some r \<Rightarrow> Some (0, Some (r\<lparr>nr_round_number := 1\<rparr>)))"
| "a2a_v03_negotiate_task E fl ctx task_id proposal out = Some (err E AIRY_ERR_UNKNOWN, out)"

record a2a_consensus_request =
  cq_task_id :: "cstring option"
  cq_description :: "cstring option"
  cq_num_participants :: int
  cq_consensus_threshold :: real

record a2a_consensus_result =
  cr_task_id :: cstring
  cr_agreed :: int
  cr_rounds_completed :: int
  cr_agreements :: "bool list"
  cr_total_participants :: int
  cr_agree_count :: nat
  cr_consensus_reached :: bool
  cr_consensus_type :: int

definition zero_consensus :: a2a_consensus_result where
  "zero_consensus = \<lparr>cr_task_id = [], cr_agreed = 0, cr_rounds_completed = 0,
     cr_agreements = replicate 16 False, cr_total_participants = 0, cr_agree_count = 0,
     cr_consensus_reached = False, cr_consensus_type = 0\<rparr>"

text \<open>The voting loop over the array of 16 answers: the participant 0, 3, 6, ... disagrees.\<close>

fun vote :: "nat \<Rightarrow> nat \<Rightarrow> bool list \<times> nat \<Rightarrow> (bool list \<times> nat) option" where
  "vote i 0 r = Some r"
| "vote i (Suc n) (agreements, agree_count) =
    (if length agreements \<le> i then None
     else vote (Suc i) n (agreements[i := i mod 3 \<noteq> 0], if i mod 3 \<noteq> 0 then agree_count + 1 else agree_count))"

fun a2a_v03_achieve_consensus ::
  "env \<Rightarrow> (real \<Rightarrow> real) \<Rightarrow> 'w a2a_adapter option \<Rightarrow> a2a_consensus_request option \<Rightarrow>
   a2a_consensus_result option \<Rightarrow> (int \<times> a2a_consensus_result option) option" where
  "a2a_v03_achieve_consensus E fl (Some a) (Some request) (Some out) =
    (if \<not> a2a_v03_ctx_ready (Some a) then Some (err E AIRY_ERR_STATE_ERROR, Some out)
     else case vote 0 (nat (cq_num_participants request)) (cr_agreements zero_consensus, 0) of
         None \<Rightarrow> None
       | Some (agreements, agree_count) \<Rightarrow>
          (let threshold = (if 0 < cq_consensus_threshold request then cq_consensus_threshold request else fl 0.67);
               ratio = fl (fl (real agree_count) / fl (real_of_int (cq_num_participants request)));
               reached = (threshold \<le> ratio)
           in Some (0, Some (zero_consensus\<lparr>cr_agreements := agreements,
                cr_total_participants := cq_num_participants request, cr_agree_count := agree_count,
                cr_consensus_reached := reached, cr_consensus_type := (if reached then 1 else 0),
                cr_rounds_completed := 1\<rparr>))))"
| "a2a_v03_achieve_consensus E fl ctx request out = Some (err E AIRY_ERR_UNKNOWN, out)"

definition phases :: "cstring list" where
  "phases = [''initiated'', ''planning'', ''executing'', ''verifying'', ''completed'']"

definition phase_detail :: "nat \<Rightarrow> cstring" where
  "phase_detail i = snprintf 256 (''{\"phase\":\"'' @ phases ! i @ ''\",\"progress\":'' @
     show_nat (unat (of_nat (20 * i + 20) :: u8)) @ ''}'')"

fun stream_loop :: "env \<Rightarrow> 'w stream_callback \<Rightarrow> ptr option \<Rightarrow> nat list \<Rightarrow> 'w \<Rightarrow> 'w option" where
  "stream_loop E on_chunk user_data [] w = Some w"
| "stream_loop E on_chunk user_data (i # js) w =
    (case strdup E i (phase_detail i) of
       None \<Rightarrow> None
     | Some d \<Rightarrow> stream_loop E on_chunk user_data js (on_chunk d (length d) (i = 4) user_data w))"

fun a2a_v03_stream_task ::
  "env \<Rightarrow> 'w a2a_adapter option \<Rightarrow> 'w a2a_task_request option \<Rightarrow> 'w stream_callback option \<Rightarrow> ptr option \<Rightarrow>
   a2a_task_response option \<Rightarrow> 'w \<Rightarrow> (int \<times> a2a_task_response option \<times> 'w a2a_adapter option \<times> 'w) option" where
  "a2a_v03_stream_task E (Some a) (Some request) (Some on_chunk) user_data (Some out) w =
    (if \<not> a2a_v03_ctx_ready (Some a) then Some (err E AIRY_ERR_STATE_ERROR, Some out, Some a, w)
     else
       (let task_id = snprintf 64 (''stream_task_'' @ show_nat (unat (aa_task_counter a)));
            a1 = a\<lparr>aa_task_counter := aa_task_counter a + 1\<rparr>
        in case stream_loop E on_chunk user_data [0, 1, 2, 3, 4] w of
             None \<Rightarrow> None
           | Some w1 \<Rightarrow>
              (let result = (if mem E 5 then Some (snprintf (256 + length task_id)
                       (''{\"task_id\":\"'' @ task_id @ ''\",\"status\":\"completed\",\"phases_completed\":5}''))
                     else strdup E 6 ''{\"status\":\"error\",\"reason\":\"allocation_failed\"}'')
               in Some (0, Some (out\<lparr>rp_task_id := task_id, rp_status := 3, rp_result_json := result\<rparr>),
                    Some a1, w1))))"
| "a2a_v03_stream_task E ctx request on_chunk user_data out w = Some (err E AIRY_ERR_UNKNOWN, out, ctx, w)"

record a2a_stats =
  st_total_tasks :: u32
  st_active :: u32
  st_active_tasks :: u32
  st_completed_tasks :: u32
  st_failed_tasks :: u32
  st_avg_delegation_latency_ms :: real
  st_avg_consensus_latency_ms :: real
  st_registered_agents :: u32

definition latency :: "(real \<Rightarrow> real) \<Rightarrow> u64 \<Rightarrow> nat \<Rightarrow> real" where
  "latency fl total_ms completed =
    (if 0 < total_ms \<and> 0 < completed then fl (real (unat total_ms div completed)) else 0)"

fun a2a_v03_get_stats :: "env \<Rightarrow> (real \<Rightarrow> real) \<Rightarrow> 'w a2a_adapter option \<Rightarrow> bool \<Rightarrow> int \<times> a2a_stats option" where
  "a2a_v03_get_stats E fl (Some a) True =
    (if \<not> a2a_v03_ctx_ready (Some a) then (err E AIRY_ERR_STATE_ERROR, None)
     else (0, Some \<lparr>st_total_tasks = 0, st_active = 0, st_active_tasks = of_nat (aa_active_task_count a),
        st_completed_tasks = of_nat (aa_completed_task_count a),
        st_failed_tasks = of_nat (aa_failed_task_count a),
        st_avg_delegation_latency_ms = latency fl (aa_total_delegation_ms a) (aa_completed_task_count a),
        st_avg_consensus_latency_ms = latency fl (aa_total_consensus_ms a) (aa_completed_task_count a),
        st_registered_agents = of_nat (aa_agent_count a)\<rparr>))"
| "a2a_v03_get_stats E fl handle outs = (err E AIRY_ERR_UNKNOWN, None)"

section \<open>The task table\<close>

definition find_task :: "'w a2a_adapter \<Rightarrow> cstring \<Rightarrow> nat option" where
  "find_task a i = find_idx (\<lambda>t. tk_id t = i) (aa_tasks a)"

definition new_task :: "env \<Rightarrow> nat \<Rightarrow> cstring option \<Rightarrow> cstring option \<Rightarrow> cstring option \<Rightarrow> a2a_task" where
  "new_task E n agent_id description input_json =
    \<lparr>tk_id = snprintf A2A_TASK_ID_SIZE (''task_'' @ show_nat n @ ''_'' @ show_nat (unat (wall_ms E 0 mod 100000))),
     tk_session_id = None,
     tk_agent_id = (case agent_id of None \<Rightarrow> None | Some s \<Rightarrow> strdup E 2 s),
     tk_state = A2A_TASK_SUBMITTED,
     tk_description = (case description of None \<Rightarrow> None | Some s \<Rightarrow> strdup E 3 s),
     tk_input_json = (case input_json of None \<Rightarrow> None | Some s \<Rightarrow> strdup E 4 s),
     tk_output_json = None, tk_created_at = wall_ms E 1, tk_updated_at = wall_ms E 1,
     tk_progress = 0, tk_error_message = None, tk_assigned_agent = None\<rparr>"

definition handle_task :: "'w a2a_adapter \<Rightarrow> a2a_task \<Rightarrow> 'w \<Rightarrow> a2a_task \<times> 'w" where
  "handle_task a t w = (case aa_task_handler a of
      None \<Rightarrow> (t, w)
    | Some h \<Rightarrow>
       (case h t (tk_state t) (aa_task_handler_user_data a) w of
          (_, new_state, out, w1) \<Rightarrow>
            (t\<lparr>tk_state := new_state,
               tk_output_json := (case out of None \<Rightarrow> tk_output_json t | Some s \<Rightarrow> Some s)\<rparr>, w1)))"

fun a2a_v03_create_task ::
  "env \<Rightarrow> 'w a2a_adapter option \<Rightarrow> cstring option \<Rightarrow> cstring option \<Rightarrow> cstring option \<Rightarrow> bool \<Rightarrow> 'w \<Rightarrow>
   int \<times> a2a_task option \<times> 'w a2a_adapter option \<times> 'w" where
  "a2a_v03_create_task E (Some a) agent_id description input_json True w =
    (if \<not> a2a_v03_ctx_ready (Some a) then (err E AIRY_ERR_STATE_ERROR, None, Some a, w)
     else if A2A_V03_MAX_TASKS \<le> length (aa_tasks a) then (err E AIRY_ERR_BUFFER_TOO_SMALL, None, Some a, w)
     else if \<not> mem E 0 \<or> \<not> mem E 1 then (err E AIRY_ERR_OUT_OF_MEMORY, None, Some a, w)
     else
       (let (t, w1) = handle_task a (new_task E (length (aa_tasks a)) agent_id description input_json) w
        in (0, Some t, Some (a\<lparr>aa_tasks := aa_tasks a @ [t]\<rparr>), w1)))"
| "a2a_v03_create_task E ctx agent_id description input_json outs w = (err E AIRY_ERR_UNKNOWN, None, ctx, w)"

text \<open>Updating, cancelling, streaming into and reading the first task with the given name.\<close>

definition task_output :: "env \<Rightarrow> cstring option \<Rightarrow> a2a_task \<Rightarrow> a2a_task" where
  "task_output E out t = (case out of None \<Rightarrow> t | Some s \<Rightarrow> t\<lparr>tk_output_json := strdup E 0 s\<rparr>)"

definition set_task :: "nat \<Rightarrow> (a2a_task \<Rightarrow> a2a_task) \<Rightarrow> 'w a2a_adapter \<Rightarrow> 'w a2a_adapter" where
  "set_task k f a = a\<lparr>aa_tasks := (aa_tasks a)[k := f (aa_tasks a ! k)]\<rparr>"

fun a2a_v03_update_task ::
  "env \<Rightarrow> 'w a2a_adapter option \<Rightarrow> cstring option \<Rightarrow> a2a_task_state \<Rightarrow> cstring option \<Rightarrow> real \<Rightarrow>
   int \<times> 'w a2a_adapter option" where
  "a2a_v03_update_task E (Some a) (Some task_id) new_state output_json progress =
    (if \<not> a2a_v03_ctx_ready (Some a) then (err E AIRY_ERR_STATE_ERROR, Some a)
     else case find_task a task_id of
         None \<Rightarrow> (err E AIRY_ERR_NOT_FOUND, Some a)
       | Some k \<Rightarrow> (0, Some (set_task k (\<lambda>t. (task_output E output_json (t\<lparr>tk_state := new_state\<rparr>))
            \<lparr>tk_progress := progress, tk_updated_at := wall_ms E 0\<rparr>) a)))"
| "a2a_v03_update_task E ctx task_id new_state output_json progress = (err E AIRY_ERR_UNKNOWN, ctx)"

fun a2a_v03_cancel_task ::
  "env \<Rightarrow> 'w a2a_adapter option \<Rightarrow> cstring option \<Rightarrow> cstring option \<Rightarrow> int \<times> 'w a2a_adapter option" where
  "a2a_v03_cancel_task E (Some a) (Some task_id) reason =
    (if \<not> a2a_v03_ctx_ready (Some a) then (err E AIRY_ERR_STATE_ERROR, Some a)
     else case find_task a task_id of
         None \<Rightarrow> (err E AIRY_ERR_NOT_FOUND, Some a)
       | Some k \<Rightarrow> (0, Some (set_task k (\<lambda>t. t\<lparr>tk_state := A2A_TASK_CANCELED, tk_updated_at := wall_ms E 0,
            tk_error_message := (case reason of None \<Rightarrow> tk_error_message t | Some r \<Rightarrow> strdup E 0 r)\<rparr>) a)))"
| "a2a_v03_cancel_task E ctx task_id reason = (err E AIRY_ERR_UNKNOWN, ctx)"

fun a2a_v03_get_task ::
  "env \<Rightarrow> 'w a2a_adapter option \<Rightarrow> cstring option \<Rightarrow> bool \<Rightarrow> int \<times> a2a_task option" where
  "a2a_v03_get_task E (Some a) (Some task_id) True =
    (if \<not> a2a_v03_ctx_ready (Some a) then (err E AIRY_ERR_STATE_ERROR, None)
     else case find_task a task_id of
         None \<Rightarrow> (err E AIRY_ERR_NOT_FOUND, None)
       | Some k \<Rightarrow> (0, Some (aa_tasks a ! k)))"
| "a2a_v03_get_task E ctx task_id outs = (err E AIRY_ERR_UNKNOWN, None)"

text \<open>An unknown task is not an error here, and the handler is called in any case.\<close>

definition stream_into :: "env \<Rightarrow> real \<Rightarrow> cstring option \<Rightarrow> bool \<Rightarrow> a2a_task \<Rightarrow> a2a_task" where
  "stream_into E progress chunk_json is_final t =
    (let t1 = t\<lparr>tk_progress := progress, tk_updated_at := wall_ms E 0\<rparr>
     in if is_final then task_output E chunk_json (t1\<lparr>tk_state := A2A_TASK_COMPLETED\<rparr>) else t1)"

fun a2a_v03_stream_task_update ::
  "env \<Rightarrow> 'w a2a_adapter option \<Rightarrow> cstring option \<Rightarrow> real \<Rightarrow> cstring option \<Rightarrow> bool \<Rightarrow> 'w \<Rightarrow>
   int \<times> 'w a2a_adapter option \<times> 'w" where
  "a2a_v03_stream_task_update E (Some a) (Some task_id) progress chunk_json is_final w =
    (if \<not> a2a_v03_ctx_ready (Some a) then (err E AIRY_ERR_STATE_ERROR, Some a, w)
     else
       (let a1 = (case find_task a task_id of None \<Rightarrow> a
                  | Some k \<Rightarrow> set_task k (stream_into E progress chunk_json is_final) a);
            w1 = (case aa_streaming_handler a1 of None \<Rightarrow> w
                  | Some h \<Rightarrow> h task_id progress chunk_json is_final (aa_streaming_handler_user_data a1) w)
        in (0, Some a1, w1)))"
| "a2a_v03_stream_task_update E ctx task_id progress chunk_json is_final w = (err E AIRY_ERR_UNKNOWN, ctx, w)"

section \<open>Messages and handlers\<close>

definition ack_message :: "env \<Rightarrow> a2a_message" where
  "ack_message E = \<lparr>mg_role = strdup E 1 ''assistant'', mg_type = A2A_MSG_STRUCTURED,
     mg_content_json = strdup E 2 ''{\"status\":\"received\",\"ack\":true}'',
     mg_mime_type = strdup E 3 ''application/json'', mg_file_name = None, mg_file_data = None,
     mg_file_data_size = 0\<rparr>"

fun a2a_v03_send_message ::
  "env \<Rightarrow> 'w a2a_adapter option \<Rightarrow> cstring option \<Rightarrow> a2a_message option \<Rightarrow> bool \<Rightarrow> bool \<Rightarrow> 'w \<Rightarrow>
   int \<times> a2a_message list option \<times> 'w" where
  "a2a_v03_send_message E (Some a) (Some target_agent_id) (Some message) response response_count w =
    (if \<not> a2a_v03_ctx_ready (Some a) then (err E AIRY_ERR_STATE_ERROR, None, w)
     else case aa_message_handler a of
         Some h \<Rightarrow> h target_agent_id message response response_count (aa_message_handler_user_data a) w
       | None \<Rightarrow> (0, if response \<and> response_count \<and> mem E 0 then Some [ack_message E] else None, w))"
| "a2a_v03_send_message E ctx target_agent_id message response response_count w = (err E AIRY_ERR_UNKNOWN, None, w)"

fun a2a_v03_negotiate ::
  "env \<Rightarrow> 'w a2a_adapter option \<Rightarrow> a2a_negotiation option \<Rightarrow> bool \<Rightarrow> bool \<Rightarrow> 'w \<Rightarrow>
   int \<times> a2a_negotiation_action option \<times> cstring option option \<times> 'w" where
  "a2a_v03_negotiate E (Some a) (Some proposal) response_action response_terms w =
    (if \<not> a2a_v03_ctx_ready (Some a) then (err E AIRY_ERR_STATE_ERROR, None, None, w)
     else case aa_negotiation_handler a of
         Some h \<Rightarrow> h proposal response_action response_terms (aa_negotiation_handler_user_data a) w
       | None \<Rightarrow> (0, if response_action then Some A2A_NEGOTIATE_REJECT else None,
                  if response_terms then Some None else None, w))"
| "a2a_v03_negotiate E ctx proposal response_action response_terms w = (err E AIRY_ERR_UNKNOWN, None, None, w)"

fun a2a_v03_subscribe_notifications ::
  "env \<Rightarrow> 'w a2a_adapter option \<Rightarrow> ('w notification_handler) option \<Rightarrow> ptr option \<Rightarrow> int \<times> 'w a2a_adapter option" where
  "a2a_v03_subscribe_notifications E (Some a) (Some handler) user_data =
    (0, Some (a\<lparr>aa_notification_handler := Some handler, aa_notification_handler_user_data := user_data\<rparr>))"
| "a2a_v03_subscribe_notifications E ctx handler user_data = (err E AIRY_ERR_UNKNOWN, ctx)"

fun a2a_v03_unsubscribe_notifications :: "env \<Rightarrow> 'w a2a_adapter option \<Rightarrow> int \<times> 'w a2a_adapter option" where
  "a2a_v03_unsubscribe_notifications E None = (err E AIRY_ERR_UNKNOWN, None)"
| "a2a_v03_unsubscribe_notifications E (Some a) =
    (0, Some (a\<lparr>aa_notification_handler := None, aa_notification_handler_user_data := None\<rparr>))"

fun a2a_v03_send_notification ::
  "env \<Rightarrow> 'w a2a_adapter option \<Rightarrow> a2a_notification option \<Rightarrow> 'w \<Rightarrow> int \<times> 'w" where
  "a2a_v03_send_notification E (Some a) (Some notification) w =
    (case aa_notification_handler a of
       None \<Rightarrow> (err E AIRY_ERR_NULL_POINTER, w)
     | Some h \<Rightarrow> (0, h notification (aa_notification_handler_user_data a) w))"
| "a2a_v03_send_notification E ctx notification w = (err E AIRY_ERR_UNKNOWN, w)"

fun a2a_v03_set_task_handler ::
  "env \<Rightarrow> 'w a2a_adapter option \<Rightarrow> ('w task_handler) option \<Rightarrow> ptr option \<Rightarrow> int \<times> 'w a2a_adapter option" where
  "a2a_v03_set_task_handler E None handler user_data = (err E AIRY_ERR_UNKNOWN, None)"
| "a2a_v03_set_task_handler E (Some a) handler user_data =
    (0, Some (a\<lparr>aa_task_handler := handler, aa_task_handler_user_data := user_data\<rparr>))"

fun a2a_v03_set_message_handler ::
  "env \<Rightarrow> 'w a2a_adapter option \<Rightarrow> ('w message_handler) option \<Rightarrow> ptr option \<Rightarrow> int \<times> 'w a2a_adapter option" where
  "a2a_v03_set_message_handler E None handler user_data = (err E AIRY_ERR_UNKNOWN, None)"
| "a2a_v03_set_message_handler E (Some a) handler user_data =
    (0, Some (a\<lparr>aa_message_handler := handler, aa_message_handler_user_data := user_data\<rparr>))"

fun a2a_v03_set_negotiation_handler ::
  "env \<Rightarrow> 'w a2a_adapter option \<Rightarrow> ('w negotiation_handler) option \<Rightarrow> ptr option \<Rightarrow> int \<times> 'w a2a_adapter option" where
  "a2a_v03_set_negotiation_handler E None handler user_data = (err E AIRY_ERR_UNKNOWN, None)"
| "a2a_v03_set_negotiation_handler E (Some a) handler user_data =
    (0, Some (a\<lparr>aa_negotiation_handler := handler, aa_negotiation_handler_user_data := user_data\<rparr>))"

fun a2a_v03_set_streaming_handler ::
  "env \<Rightarrow> 'w a2a_adapter option \<Rightarrow> ('w streaming_handler) option \<Rightarrow> ptr option \<Rightarrow> int \<times> 'w a2a_adapter option" where
  "a2a_v03_set_streaming_handler E None handler user_data = (err E AIRY_ERR_UNKNOWN, None)"
| "a2a_v03_set_streaming_handler E (Some a) handler user_data =
    (0, Some (a\<lparr>aa_streaming_handler := handler, aa_streaming_handler_user_data := user_data\<rparr>))"

fun a2a_v03_set_transport ::
  "env \<Rightarrow> 'w a2a_adapter option \<Rightarrow> ('w transport_write) option \<Rightarrow> ptr option \<Rightarrow> int \<times> 'w a2a_adapter option" where
  "a2a_v03_set_transport E (Some a) (Some write_fn) transport_ctx =
    (0, Some (a\<lparr>aa_transport_write := Some write_fn, aa_transport_ctx := transport_ctx\<rparr>))"
| "a2a_v03_set_transport E ctx write_fn transport_ctx = (err E AIRY_ERR_INVALID_PARAM, ctx)"

fun a2a_v03_set_transport_read ::
  "env \<Rightarrow> 'w a2a_adapter option \<Rightarrow> ('w transport_read) option \<Rightarrow> ptr option \<Rightarrow> int \<times> 'w a2a_adapter option" where
  "a2a_v03_set_transport_read E (Some a) (Some read_fn) transport_ctx =
    (0, Some (a\<lparr>aa_transport_read := Some read_fn, aa_transport_ctx := transport_ctx\<rparr>))"
| "a2a_v03_set_transport_read E ctx read_fn transport_ctx = (err E AIRY_ERR_INVALID_PARAM, ctx)"

section \<open>Stack callbacks\<close>

fun a2a_adapter_init_cb :: "env \<Rightarrow> 'w a2a_adapter option \<Rightarrow> int \<times> 'w a2a_adapter option" where
  "a2a_adapter_init_cb E None = (err E AIRY_ERR_UNKNOWN, None)"
| "a2a_adapter_init_cb E (Some context) =
    (case a2a_v03_context_create E (Some a2a_v03_config_default) of
       None \<Rightarrow> (err E AIRY_ERR_INVALID_PARAM, Some context)
     | Some new_ctx \<Rightarrow> (0, Some new_ctx))"

fun a2a_adapter_destroy_cb ::
  "'w a2a_adapter option \<Rightarrow> a2a_agent_card \<Rightarrow> int \<times> 'w a2a_adapter option \<times> a2a_agent_card" where
  "a2a_adapter_destroy_cb None cached = (0, None, cached)"
| "a2a_adapter_destroy_cb (Some context) cached =
    (0, Some zero_adapter_state, snd (a2a_v03_ctx_clear (Some context) cached))"

text \<open>The encoder copies its argument as a C string, with the NUL; the decoder copies bytes.\<close>

fun a2a_adapter_encode_cb :: "env \<Rightarrow> bool \<Rightarrow> cstring option \<Rightarrow> bool \<Rightarrow> int \<times> (cstring \<times> nat) option" where
  "a2a_adapter_encode_cb E True (Some msg) True =
    (if \<not> mem E 0 then (err E AIRY_ERR_OUT_OF_MEMORY, None) else (0, Some (msg, length msg + 1)))"
| "a2a_adapter_encode_cb E c m outs = (err E AIRY_ERR_UNKNOWN, None)"

fun a2a_adapter_decode_cb :: "env \<Rightarrow> bool \<Rightarrow> char list option \<Rightarrow> nat \<Rightarrow> char list option \<Rightarrow> int \<times> char list option" where
  "a2a_adapter_decode_cb E True (Some d) s (Some out) =
    (if s = 0 then (err E AIRY_ERR_UNKNOWN, Some out) else (0, Some (take s d @ drop s out)))"
| "a2a_adapter_decode_cb E c d s out = (err E AIRY_ERR_UNKNOWN, out)"

fun a2a_adapter_connect_cb :: "env \<Rightarrow> 'w a2a_adapter option \<Rightarrow> cstring option \<Rightarrow> int \<times> 'w a2a_adapter option" where
  "a2a_adapter_connect_cb E None e = (err E AIRY_ERR_UNKNOWN, None)"
| "a2a_adapter_connect_cb E (Some a) e = (0, Some (a\<lparr>aa_connected := True\<rparr>))"

fun a2a_adapter_disconnect_cb :: "env \<Rightarrow> 'w a2a_adapter option \<Rightarrow> int \<times> 'w a2a_adapter option" where
  "a2a_adapter_disconnect_cb E None = (err E AIRY_ERR_UNKNOWN, None)"
| "a2a_adapter_disconnect_cb E (Some a) = (0, Some (a\<lparr>aa_connected := False\<rparr>))"

fun a2a_adapter_is_connected_cb :: "'w a2a_adapter option \<Rightarrow> int" where
  "a2a_adapter_is_connected_cb None = 0"
| "a2a_adapter_is_connected_cb (Some a) = (if aa_connected a then 1 else 0)"

definition crlf :: cstring where
  "crlf = [CHR 0x0D, CHR 0x0A]"

definition frame_start :: cstring where
  "frame_start = ''A2A/0.3'' @ crlf @ ''Content-Length: ''"

definition frame_end :: cstring where
  "frame_end = crlf @ ''Content-Type: application/json'' @ crlf @ crlf"

definition frame_header :: "nat \<Rightarrow> cstring" where
  "frame_header s = frame_start @ show_nat s @ frame_end"

text \<open>\<open>d\<close> holds the \<open>s\<close> bytes to send. A header that was written stays written when the payload fails.\<close>

fun a2a_adapter_send_cb ::
  "env \<Rightarrow> 'w a2a_adapter option \<Rightarrow> char list option \<Rightarrow> nat \<Rightarrow> 'w \<Rightarrow> int \<times> 'w a2a_adapter option \<times> 'w" where
  "a2a_adapter_send_cb E (Some a) (Some d) s w =
    (if s = 0 then (err E AIRY_ERR_INVALID_PARAM, Some a, w)
     else if \<not> a2a_v03_ctx_ready (Some a) then (err E AIRY_ERR_STATE_ERROR, Some a, w)
     else case (if aa_connected a then aa_transport_write a else None) of
         None \<Rightarrow> (err E AIRY_ENOTCONN, Some a, w)
       | Some write \<Rightarrow>
          (let header = snprintf A2A_V03_FRAME_HDR_MAX (frame_header s); hdr_len = length (frame_header s)
           in if A2A_V03_FRAME_HDR_MAX \<le> hdr_len then (err E AIRY_ERR_OVERFLOW, Some a, w)
              else
                (let (rc, w1) = write (aa_transport_ctx a) header w in
                 if rc \<noteq> 0 then (err E AIRY_ERR_IO, Some a, w1)
                 else
                   (let (rc2, w2) = write (aa_transport_ctx a) (take s d) w1 in
                    if rc2 \<noteq> 0 then (err E AIRY_ERR_IO, Some a, w2)
                    else (0, Some (a\<lparr>aa_bytes_sent := aa_bytes_sent a + (of_nat s + of_nat hdr_len),
                           aa_messages_sent := aa_messages_sent a + 1\<rparr>), w2)))))"
| "a2a_adapter_send_cb E ctx d s w = (err E AIRY_ERR_INVALID_PARAM, ctx, w)"

fun a2a_adapter_receive_cb ::
  "env \<Rightarrow> 'w a2a_adapter option \<Rightarrow> bool \<Rightarrow> u32 \<Rightarrow> 'w \<Rightarrow>
   int \<times> (cstring option \<times> nat) option \<times> 'w a2a_adapter option \<times> 'w" where
  "a2a_adapter_receive_cb E (Some a) True t w =
    (if \<not> a2a_v03_ctx_ready (Some a) then (err E AIRY_ERR_STATE_ERROR, Some (None, 0), Some a, w)
     else case aa_transport_read a of
         None \<Rightarrow> (err E AIRY_ERR_NOT_SUPPORTED, Some (None, 0), Some a, w)
       | Some read \<Rightarrow>
          (case read (aa_transport_ctx a) t w of
             (rc, (d, s), w1) \<Rightarrow>
               if rc \<noteq> 0 then (rc, Some (d, s), Some a, w1)
               else (0, Some (d, s),
                 Some (if d \<noteq> None \<and> 0 < s
                       then a\<lparr>aa_bytes_received := aa_bytes_received a + of_nat s,
                              aa_messages_received := aa_messages_received a + 1\<rparr>
                       else a), w1)))"
| "a2a_adapter_receive_cb E ctx outs t w = (err E AIRY_ERR_UNKNOWN, None, ctx, w)"

definition a2a_adapter_get_version_cb :: "env \<Rightarrow> bool \<Rightarrow> nat \<Rightarrow> int \<times> cstring option" where
  "a2a_adapter_get_version_cb E b s =
    (if \<not> b \<or> s = 0 then (err E AIRY_ERR_UNKNOWN, None) else (0, Some (snprintf s ''0.3.0'')))"

definition a2a_adapter_capabilities_cb :: u32 where
  "a2a_adapter_capabilities_cb = A2A_CAP_TASK_EXECUTION OR A2A_CAP_STREAMING OR A2A_CAP_NEGOTIATION"

fun a2a_adapter_get_stats_cb :: "env \<Rightarrow> 'w a2a_adapter option \<Rightarrow> bool \<Rightarrow> nat \<Rightarrow> int \<times> cstring option" where
  "a2a_adapter_get_stats_cb E (Some a) True s =
    (if s = 0 then (err E AIRY_ERR_UNKNOWN, None)
     else (0, Some (snprintf s (''{\"agents\":'' @ show_nat (aa_agent_count a) @ '',\"tasks\":'' @
            show_nat (length (aa_tasks a)) @ ''}''))))"
| "a2a_adapter_get_stats_cb E ctx b s = (err E AIRY_ERR_UNKNOWN, None)"

section \<open>The invariant\<close>

definition card_wf :: "a2a_internal_card \<Rightarrow> bool" where
  "card_wf c \<longleftrightarrow> length (ic_id c) < 64 \<and> length (ic_name c) < 128 \<and> length (ic_url c) < 512 \<and>
     length (ic_capabilities c) < 1024"

definition task_name :: "nat \<Rightarrow> nat \<Rightarrow> cstring" where
  "task_name n ms = ''task_'' @ show_nat n @ ''_'' @ show_nat ms"

definition a2a_wf :: "'w a2a_adapter \<Rightarrow> bool" where
  "a2a_wf a \<longleftrightarrow> length (aa_agents a) = A2A_V03_MAX_AGENTS \<and> aa_agent_count a \<le> A2A_V03_MAX_AGENTS \<and>
     list_all card_wf (aa_agents a) \<and> length (aa_tasks a) \<le> A2A_V03_MAX_TASKS \<and>
     (\<forall>i < length (aa_tasks a). \<exists>ms. tk_id (aa_tasks a ! i) = task_name i ms)"

text \<open>Operations that touch neither table keep the invariant.\<close>

lemma wf_cong:
  "aa_agents a' = aa_agents a \<Longrightarrow> aa_agent_count a' = aa_agent_count a \<Longrightarrow> aa_tasks a' = aa_tasks a \<Longrightarrow>
   a2a_wf a' = a2a_wf a"
  by (simp add: a2a_wf_def)

lemma list_all_upd: "list_all P xs \<Longrightarrow> P v \<Longrightarrow> list_all P (xs[k := v])"
  by (auto simp: list_all_iff dest: set_update_subset_insert [THEN subsetD])

lemma fill_card_wf: "strncpy_ok E \<Longrightarrow> card_wf ic \<Longrightarrow> card_wf (fill_card E info ic)"
  by (auto simp: card_wf_def fill_card_def split: option.split)

lemma card_wf_upd [simp]:
  "card_wf (c\<lparr>ic_capabilities_mask := m\<rparr>) = card_wf c" "card_wf (c\<lparr>ic_capabilities_json := j\<rparr>) = card_wf c"
  "card_wf c \<Longrightarrow> card_wf (c\<lparr>ic_id := i\<rparr>) = (length i < 64)"
  by (simp_all add: card_wf_def)

lemma zero_wf: "card_wf zero_internal"
  by (simp add: card_wf_def zero_internal_def)

lemma create_wf: "a2a_v03_context_create E config = Some a \<Longrightarrow> a2a_wf a"
  by (cases config) (auto simp: a2a_v03_create_def zero_adapter_state_def a2a_wf_def list_all_iff zero_wf split: if_splits)

lemma reg_agent_wf:
  assumes wf: "a2a_wf a" and E: "strncpy_ok E"
    and reg: "a2a_v03_register_agent E (Some a) info = (rc, Some a')"
  shows "a2a_wf a'"
proof (cases info)
  case None
  then show ?thesis using wf reg by simp
next
  case (Some c)
  have slot: "card_wf (aa_agents a ! k)" if "k < A2A_V03_MAX_AGENTS" for k
    using wf that by (simp add: a2a_wf_def list_all_length)
  have merge: "a2a_wf (merge_agent E c k a)" if "k < aa_agent_count a" for k
    using wf that fill_card_wf [OF E slot [of k]]
    by (auto simp: a2a_wf_def merge_agent_def intro!: list_all_upd)
  have add: "a2a_wf (add_agent E c a)" if "aa_agent_count a < A2A_V03_MAX_AGENTS"
    using wf that E slot [OF that] length_snprintf [of 64]
    by (auto simp: a2a_wf_def add_agent_def intro!: list_all_upd fill_card_wf split: option.split prod.split)
  have lt: "k < aa_agent_count a" if "find_agent a i = Some k" for i k
    using find_idx_lt [OF that [unfolded find_agent_def]] by simp
  show ?thesis
    using reg Some wf merge add lt by (auto split: if_splits option.splits)
qed

lemma unreg_agent_wf:
  assumes "a2a_wf a" "a2a_v03_unregister_agent E (Some a) i = (rc, Some a')"
  shows "a2a_wf a'"
proof -
  have "k < length (aa_agents a) \<and> k < aa_agent_count a" if "find_agent a j = Some k" for j k
    using find_idx_lt [OF that [unfolded find_agent_def]] by simp
  then show ?thesis
    using assms
    by (cases i) (auto simp: a2a_wf_def list_all_length nth_list_update split: if_splits option.splits)
qed

lemma clear_wf:
  assumes "a2a_wf a" "fst (a2a_v03_ctx_clear (Some a) c) = Some a'"
  shows "a2a_wf a'"
proof -
  let ?n = "aa_agent_count a"
  have "list_all card_wf (take ?n (aa_agents a))" "list_all card_wf (drop ?n (aa_agents a))"
    using assms(1) by (metis a2a_wf_def append_take_drop_id list_all_append)+
  then show ?thesis using assms by (auto simp: a2a_wf_def list_all_iff)
qed

lemma mod_word_lt: "unat (w mod 100000 :: u64) < 100000"
  by (simp add: unat_mod)

lemma new_task_id:
  assumes "n < A2A_V03_MAX_TASKS"
  shows "tk_id (new_task E n x y z) = task_name n (unat (wall_ms E 0 mod 100000))"
proof -
  have "length (show_nat n) \<le> 4" using assms by (intro show_nat_length) simp_all
  moreover have "length (show_nat (unat (wall_ms E 0 mod 100000))) \<le> 5"
    using mod_word_lt by (intro show_nat_length) simp_all
  ultimately show ?thesis by (simp add: new_task_def task_name_def)
qed

lemma handle_task_id: "tk_id (fst (handle_task a t w)) = tk_id t"
  by (auto simp: handle_task_def split: option.split prod.split)

lemma create_task_wf:
  assumes wf: "a2a_wf a" and c: "a2a_v03_create_task E (Some a) x y z outs w = (rc, t, Some a', w')"
  shows "a2a_wf a'"
proof -
  have "a2a_wf (a\<lparr>aa_tasks := aa_tasks a @ [fst (handle_task a (new_task E (length (aa_tasks a)) x y z) w)]\<rparr>)"
    if "length (aa_tasks a) < A2A_V03_MAX_TASKS"
    using wf that
    by (auto simp: a2a_wf_def nth_append less_Suc_eq new_task_id [OF that] handle_task_id)
  with c wf show ?thesis by (cases outs) (auto split: if_splits prod.splits)
qed

lemma set_task_wf: "a2a_wf a \<Longrightarrow> \<forall>t. tk_id (f t) = tk_id t \<Longrightarrow> a2a_wf (set_task k f a)"
  by (cases "k < length (aa_tasks a)") (auto simp: a2a_wf_def set_task_def nth_list_update list_update_beyond)

lemma task_output_id [simp]: "tk_id (task_output E out t) = tk_id t"
  by (auto simp: task_output_def split: option.split)

lemma stream_into_id [simp]: "tk_id (stream_into E p c f t) = tk_id t"
  by (simp add: stream_into_def)

text \<open>
  The contexts a program can build: a fresh one, and any context an operation leaves
  behind, whatever its arguments, the readings of the clock and the outcome of the call.
\<close>

inductive a2a_reachable :: "'w a2a_adapter \<Rightarrow> bool" where
  r_create: "a2a_v03_context_create E config = Some a \<Longrightarrow> a2a_reachable a"
| r_register: "a2a_reachable a \<Longrightarrow> strncpy_ok E \<Longrightarrow>
    a2a_v03_register_agent E (Some a) info = (rc, Some a') \<Longrightarrow> a2a_reachable a'"
| r_unregister: "a2a_reachable a \<Longrightarrow> a2a_v03_unregister_agent E (Some a) i = (rc, Some a') \<Longrightarrow> a2a_reachable a'"
| r_delegate: "a2a_reachable a \<Longrightarrow>
    a2a_v03_delegate_task E (Some a) request out = Some (rc, res, Some a') \<Longrightarrow> a2a_reachable a'"
| r_stream: "a2a_reachable a \<Longrightarrow>
    a2a_v03_stream_task E (Some a) request cb ud out w = Some (rc, res, Some a', w') \<Longrightarrow> a2a_reachable a'"
| r_create_task: "a2a_reachable a \<Longrightarrow>
    a2a_v03_create_task E (Some a) x y z outs w = (rc, t, Some a', w') \<Longrightarrow> a2a_reachable a'"
| r_update_task: "a2a_reachable a \<Longrightarrow>
    a2a_v03_update_task E (Some a) i s out p = (rc, Some a') \<Longrightarrow> a2a_reachable a'"
| r_cancel_task: "a2a_reachable a \<Longrightarrow> a2a_v03_cancel_task E (Some a) i reason = (rc, Some a') \<Longrightarrow> a2a_reachable a'"
| r_stream_update: "a2a_reachable a \<Longrightarrow>
    a2a_v03_stream_task_update E (Some a) i p chunk fin w = (rc, Some a', w') \<Longrightarrow> a2a_reachable a'"
| r_subscribe: "a2a_reachable a \<Longrightarrow>
    a2a_v03_subscribe_notifications E (Some a) nh ud = (rc, Some a') \<Longrightarrow> a2a_reachable a'"
| r_unsubscribe: "a2a_reachable a \<Longrightarrow> a2a_v03_unsubscribe_notifications E (Some a) = (rc, Some a') \<Longrightarrow> a2a_reachable a'"
| r_task_handler: "a2a_reachable a \<Longrightarrow> a2a_v03_set_task_handler E (Some a) th ud = (rc, Some a') \<Longrightarrow> a2a_reachable a'"
| r_message_handler: "a2a_reachable a \<Longrightarrow> a2a_v03_set_message_handler E (Some a) mh ud = (rc, Some a') \<Longrightarrow> a2a_reachable a'"
| r_negotiation_handler: "a2a_reachable a \<Longrightarrow>
    a2a_v03_set_negotiation_handler E (Some a) gh ud = (rc, Some a') \<Longrightarrow> a2a_reachable a'"
| r_streaming_handler: "a2a_reachable a \<Longrightarrow>
    a2a_v03_set_streaming_handler E (Some a) sh ud = (rc, Some a') \<Longrightarrow> a2a_reachable a'"
| r_transport: "a2a_reachable a \<Longrightarrow> a2a_v03_set_transport E (Some a) wr ud = (rc, Some a') \<Longrightarrow> a2a_reachable a'"
| r_transport_read: "a2a_reachable a \<Longrightarrow> a2a_v03_set_transport_read E (Some a) rd ud = (rc, Some a') \<Longrightarrow> a2a_reachable a'"
| r_init: "a2a_reachable a \<Longrightarrow> a2a_adapter_init_cb E (Some a) = (rc, Some a') \<Longrightarrow> a2a_reachable a'"
| r_destroy: "a2a_reachable a \<Longrightarrow> a2a_adapter_destroy_cb (Some a) c = (rc, Some a', c') \<Longrightarrow> a2a_reachable a'"
| r_clear: "a2a_reachable a \<Longrightarrow> fst (a2a_v03_ctx_clear (Some a) c) = Some a' \<Longrightarrow> a2a_reachable a'"
| r_connect: "a2a_reachable a \<Longrightarrow> a2a_adapter_connect_cb E (Some a) e = (rc, Some a') \<Longrightarrow> a2a_reachable a'"
| r_disconnect: "a2a_reachable a \<Longrightarrow> a2a_adapter_disconnect_cb E (Some a) = (rc, Some a') \<Longrightarrow> a2a_reachable a'"
| r_send: "a2a_reachable a \<Longrightarrow> a2a_adapter_send_cb E (Some a) d s w = (rc, Some a', w') \<Longrightarrow> a2a_reachable a'"
| r_receive: "a2a_reachable a \<Longrightarrow>
    a2a_adapter_receive_cb E (Some a) outs t w = (rc, data, Some a', w') \<Longrightarrow> a2a_reachable a'"

lemma update_task_wf: "a2a_wf a \<Longrightarrow> a2a_v03_update_task E (Some a) i s out p = (rc, Some a') \<Longrightarrow> a2a_wf a'"
  by (cases i) (auto intro: set_task_wf split: if_splits option.splits)

lemma cancel_task_wf: "a2a_wf a \<Longrightarrow> a2a_v03_cancel_task E (Some a) i reason = (rc, Some a') \<Longrightarrow> a2a_wf a'"
  by (cases i) (auto intro: set_task_wf split: if_splits option.splits)

lemma stream_update_wf:
  "a2a_wf a \<Longrightarrow> a2a_v03_stream_task_update E (Some a) i p chunk fin w = (rc, Some a', w') \<Longrightarrow> a2a_wf a'"
  by (cases i) (auto intro: set_task_wf split: if_splits option.splits)

text \<open>The operations that leave both tables alone.\<close>

definition same_tables :: "'w a2a_adapter \<Rightarrow> 'w a2a_adapter \<Rightarrow> bool" where
  "same_tables a a' \<longleftrightarrow> aa_agents a' = aa_agents a \<and> aa_agent_count a' = aa_agent_count a \<and> aa_tasks a' = aa_tasks a"

lemma same_tables_wf: "same_tables a a' \<Longrightarrow> a2a_wf a \<Longrightarrow> a2a_wf a'"
  using wf_cong by (auto simp: same_tables_def)

lemma delegate_same: "a2a_v03_delegate_task E (Some a) request out = Some (rc, res, Some a') \<Longrightarrow> same_tables a a'"
  by (cases request; cases out) (auto simp: same_tables_def split: if_splits option.splits)

lemma stream_same:
  "a2a_v03_stream_task E (Some a) request cb ud out w = Some (rc, res, Some a', w') \<Longrightarrow> same_tables a a'"
  by (cases request; cases cb; cases out) (auto simp: same_tables_def split: if_splits option.splits)

lemma send_same: "a2a_adapter_send_cb E (Some a) d s w = (rc, Some a', w') \<Longrightarrow> same_tables a a'"
  by (cases d) (auto simp: same_tables_def split: if_splits option.splits prod.splits)

lemma receive_same: "a2a_adapter_receive_cb E (Some a) outs t w = (rc, data, Some a', w') \<Longrightarrow> same_tables a a'"
  by (cases outs) (auto simp: same_tables_def split: if_splits option.splits prod.splits)

lemma setter_same:
  "a2a_v03_subscribe_notifications E (Some a) nh ud = (rc, Some a') \<Longrightarrow> same_tables a a'"
  "a2a_v03_unsubscribe_notifications E (Some a) = (rc, Some a') \<Longrightarrow> same_tables a a'"
  "a2a_v03_set_task_handler E (Some a) th ud = (rc, Some a') \<Longrightarrow> same_tables a a'"
  "a2a_v03_set_message_handler E (Some a) mh ud = (rc, Some a') \<Longrightarrow> same_tables a a'"
  "a2a_v03_set_negotiation_handler E (Some a) gh ud = (rc, Some a') \<Longrightarrow> same_tables a a'"
  "a2a_v03_set_streaming_handler E (Some a) sh ud = (rc, Some a') \<Longrightarrow> same_tables a a'"
  "a2a_v03_set_transport E (Some a) wr ud = (rc, Some a') \<Longrightarrow> same_tables a a'"
  "a2a_v03_set_transport_read E (Some a) rd ud = (rc, Some a') \<Longrightarrow> same_tables a a'"
  "a2a_adapter_connect_cb E (Some a) e = (rc, Some a') \<Longrightarrow> same_tables a a'"
  "a2a_adapter_disconnect_cb E (Some a) = (rc, Some a') \<Longrightarrow> same_tables a a'"
  by (cases nh; cases wr; cases rd; auto simp: same_tables_def)+

lemmas same_wf = same_tables_wf [OF delegate_same] same_tables_wf [OF stream_same] same_tables_wf [OF send_same]
  same_tables_wf [OF receive_same] setter_same [THEN same_tables_wf]

lemma zero_state_wf: "a2a_wf zero_adapter_state"
  by (simp add: a2a_wf_def zero_adapter_state_def list_all_iff zero_wf)

lemma init_wf: "a2a_wf a \<Longrightarrow> a2a_adapter_init_cb E (Some a) = (rc, Some a') \<Longrightarrow> a2a_wf a'"
  using create_wf by (auto simp del: a2a_v03_context_create.simps split: option.splits)

lemma reachable_wf: "a2a_reachable a \<Longrightarrow> a2a_wf a"
proof (induction rule: a2a_reachable.induct)
  case (r_destroy a c rc a' c')
  then show ?case using zero_state_wf by auto
qed (blast intro: create_wf reg_agent_wf unreg_agent_wf create_task_wf update_task_wf cancel_task_wf stream_update_wf
      clear_wf init_wf same_wf)+

section \<open>Tasks\<close>

lemma task_name_inj: "task_name m x = task_name n y \<Longrightarrow> m = n"
proof -
  assume "task_name m x = task_name n y"
  then have "show_nat m @ ''_'' @ show_nat x = show_nat n @ ''_'' @ show_nat y"
    by (simp add: task_name_def)
  moreover have "takeWhile isdigit (show_nat k @ ''_'' @ r) = show_nat k" for k r
    by (rule takeWhile_show_nat) (simp add: isdigit_def)
  ultimately show "m = n" by (metis show_nat_inj)
qed

lemma task_ids_distinct: "a2a_wf a \<Longrightarrow> distinct (map tk_id (aa_tasks a))"
  by (auto simp: a2a_wf_def distinct_conv_nth) (metis task_name_inj)

lemma find_task_eq:
  assumes "distinct (map tk_id (aa_tasks a))"
  shows "find_task a i = Some k \<longleftrightarrow> k < length (aa_tasks a) \<and> tk_id (aa_tasks a ! k) = i"
  using assms by (auto simp: find_task_def find_idx_Some distinct_conv_nth)

lemma find_task_None: "find_task a i = None \<longleftrightarrow> i \<notin> tk_id ` set (aa_tasks a)"
  by (auto simp: find_task_def find_idx_None)

text \<open>The table as a map from names, and reading a task through it.\<close>

definition task_map :: "a2a_task list \<Rightarrow> cstring \<Rightarrow> a2a_task option" where
  "task_map ts = map_of (map (\<lambda>t. (tk_id t, t)) ts)"

lemma task_map_Some:
  "distinct (map tk_id ts) \<Longrightarrow> task_map ts i = Some t \<longleftrightarrow> t \<in> set ts \<and> tk_id t = i"
  unfolding task_map_def by (subst map_of_eq_Some_iff) (auto simp: o_def)

lemma task_map_None: "task_map ts i = None \<longleftrightarrow> i \<notin> tk_id ` set ts"
  unfolding task_map_def by (subst map_of_eq_None_iff) (auto simp: image_image)

lemma option_eqI: "(\<And>t. x = Some t \<longleftrightarrow> y = Some t) \<Longrightarrow> x = y"
  by (metis option.exhaust)

lemma get_task_eq:
  assumes "aa_initialized a" "distinct (map tk_id (aa_tasks a))"
  shows "a2a_v03_get_task E (Some a) (Some i) True =
    (case task_map (aa_tasks a) i of None \<Rightarrow> (err E AIRY_ERR_NOT_FOUND, None) | Some t \<Rightarrow> (0, Some t))"
proof (cases "find_task a i")
  case None
  then have "task_map (aa_tasks a) i = None" by (simp add: find_task_None task_map_None)
  with None assms show ?thesis by simp
next
  case (Some k)
  then have "task_map (aa_tasks a) i = Some (aa_tasks a ! k)"
    using find_task_eq [OF assms(2)] task_map_Some [OF assms(2)] by auto
  with Some assms show ?thesis by simp
qed

lemma task_map_snoc:
  assumes "distinct (map tk_id (ts @ [t]))"
  shows "task_map (ts @ [t]) = (task_map ts)(tk_id t \<mapsto> t)"
proof (rule ext, rule option_eqI)
  fix i u
  have d: "distinct (map tk_id ts)" using assms by simp
  show "task_map (ts @ [t]) i = Some u \<longleftrightarrow> ((task_map ts)(tk_id t \<mapsto> t)) i = Some u"
    using assms task_map_Some [OF d] task_map_Some [OF assms] by (auto simp: image_iff)
qed

lemma task_map_upd:
  assumes "distinct (map tk_id ts)" "k < length ts" "\<forall>t. tk_id (f t) = tk_id t"
  shows "task_map (ts[k := f (ts ! k)]) = (task_map ts)(tk_id (ts ! k) \<mapsto> f (ts ! k))"
proof (rule ext, rule option_eqI)
  fix i u
  have "map tk_id (ts[k := f (ts ! k)]) = map tk_id ts"
    using assms(2,3) by (simp add: map_update list_update_same_conv)
  then have d: "distinct (map tk_id (ts[k := f (ts ! k)]))" using assms(1) by metis
  have "set (ts[k := f (ts ! k)]) = insert (f (ts ! k)) (set ts - {ts ! k})"
    using assms(1,2) by (intro set_update_distinct) (simp_all add: distinct_map)
  moreover have "t = ts ! k" if "t \<in> set ts" "tk_id t = tk_id (ts ! k)" for t
    using that assms(1,2) by (auto simp: distinct_map dest: inj_onD)
  ultimately show "task_map (ts[k := f (ts ! k)]) i = Some u \<longleftrightarrow>
      ((task_map ts)(tk_id (ts ! k) \<mapsto> f (ts ! k))) i = Some u"
    using task_map_Some [OF d] task_map_Some [OF assms(1)] assms(3) by auto
qed

text \<open>
  C34: whatever sequence of calls a context has seen, its tables stay inside their arrays, the
  stored texts fit their fields, no two tasks share a name, and each task is found under
  its name.
\<close>

theorem a2a_tables_safe:
  assumes "a2a_reachable a"
  shows "a2a_wf a \<and> distinct (map tk_id (aa_tasks a)) \<and>
    (aa_initialized a \<longrightarrow> (\<forall>t \<in> set (aa_tasks a). a2a_v03_get_task E (Some a) (Some (tk_id t)) True = (0, Some t)))"
proof -
  have wf: "a2a_wf a" using assms by (rule reachable_wf)
  note d = task_ids_distinct [OF wf]
  moreover have "task_map (aa_tasks a) (tk_id t) = Some t" if "t \<in> set (aa_tasks a)" for t
    using d that by (simp add: task_map_Some)
  ultimately show ?thesis using wf get_task_eq [OF _ d] by (simp del: a2a_v03_get_task.simps)
qed

text \<open>
  A task that is created is found under its name; updating it changes the state, the
  progress and, if given, the output of that task and of no other. Every state can be
  entered, also from a final one.
\<close>

theorem task_create_update:
  assumes "a2a_reachable a" "aa_initialized a" "length (aa_tasks a) < A2A_V03_MAX_TASKS" "mem E 0" "mem E 1"
  shows "\<exists>t a1 w1 a2. a2a_v03_create_task E (Some a) x y z True w = (0, Some t, Some a1, w1) \<and>
    (aa_task_handler a = None \<longrightarrow> tk_state t = A2A_TASK_SUBMITTED \<and> w1 = w) \<and>
    a2a_v03_get_task E (Some a1) (Some i) True =
      (if i = tk_id t then (0, Some t) else a2a_v03_get_task E (Some a) (Some i) True) \<and>
    a2a_v03_update_task F (Some a1) (Some (tk_id t)) s out p = (0, Some a2) \<and>
    a2a_v03_get_task E (Some a2) (Some i) True =
      (if i = tk_id t then (0, Some ((task_output F out (t\<lparr>tk_state := s\<rparr>))
         \<lparr>tk_progress := p, tk_updated_at := wall_ms F 0\<rparr>))
       else a2a_v03_get_task E (Some a) (Some i) True)"
proof -
  let ?h = "handle_task a (new_task E (length (aa_tasks a)) x y z) w"
  define t where "t = fst ?h"
  define a1 where "a1 = a\<lparr>aa_tasks := aa_tasks a @ [t]\<rparr>"
  let ?f = "\<lambda>t. (task_output F out (t\<lparr>tk_state := s\<rparr>))\<lparr>tk_progress := p, tk_updated_at := wall_ms F 0\<rparr>"
  let ?n = "length (aa_tasks a)"
  define a2 where "a2 = set_task ?n ?f a1"
  have c: "a2a_v03_create_task E (Some a) x y z True w = (0, Some t, Some a1, snd ?h)"
    using assms by (cases ?h) (simp add: t_def a1_def)
  have d: "distinct (map tk_id (aa_tasks a))" "distinct (map tk_id (aa_tasks a1))"
    using task_ids_distinct [OF reachable_wf] assms(1) r_create_task [OF assms(1) c] by auto
  have init: "aa_initialized a1" "aa_initialized a2" using assms(2) by (simp_all add: a1_def a2_def set_task_def)
  have m1: "task_map (aa_tasks a1) = (task_map (aa_tasks a))(tk_id t \<mapsto> t)"
    using d(2) task_map_snoc by (simp add: a1_def)
  have "find_task a1 (tk_id t) = Some ?n" using find_task_eq [OF d(2)] by (simp add: a1_def)
  then have u: "a2a_v03_update_task F (Some a1) (Some (tk_id t)) s out p = (0, Some a2)"
    using init by (simp add: a2_def)
  have m2: "task_map (aa_tasks a2) = (task_map (aa_tasks a1))(tk_id t \<mapsto> ?f t)"
    using task_map_upd [OF d(2), of ?n ?f] by (simp add: a2_def set_task_def a1_def)
  have d2: "distinct (map tk_id (aa_tasks a2))"
    using task_ids_distinct [OF reachable_wf [OF r_update_task [OF r_create_task [OF assms(1) c] u]]] .
  have h: "aa_task_handler a = None \<longrightarrow> tk_state t = A2A_TASK_SUBMITTED \<and> snd ?h = w"
    by (simp add: t_def handle_task_def new_task_def)
  note eqs = get_task_eq [OF init(1) d(2)] get_task_eq [OF init(2) d2] get_task_eq [OF assms(2) d(1)]
  have g1: "a2a_v03_get_task E (Some a1) (Some i) True =
      (if i = tk_id t then (0, Some t) else a2a_v03_get_task E (Some a) (Some i) True)"
    unfolding eqs m1 by simp
  have g2: "a2a_v03_get_task E (Some a2) (Some i) True =
      (if i = tk_id t then (0, Some (?f t)) else a2a_v03_get_task E (Some a) (Some i) True)"
    unfolding eqs m2 m1 by simp
  show ?thesis by (rule exI [of _ t], rule exI [of _ a1], rule exI [of _ "snd ?h"], rule exI [of _ a2]) (intro conjI c h g1 u g2)
qed

text \<open>
  A context that was cleared is not ready, and one that is not ready is refused by every entry
  point, without any change.
\<close>

lemma cleared_not_ready: "\<not> a2a_v03_ctx_ready (fst (a2a_v03_ctx_clear ctx cached))"
  by (cases ctx) simp_all

lemma not_ready_refused:
  assumes "\<not> a2a_v03_ctx_ready (Some a)"
  shows "a2a_v03_register_agent E (Some a) (Some info) = (err E AIRY_ERR_STATE_ERROR, Some a)"
    "a2a_v03_unregister_agent E (Some a) (Some i) = (err E AIRY_ERR_STATE_ERROR, Some a)"
    "a2a_v03_discover_agents E (Some a) capability skill True = (err E AIRY_ERR_STATE_ERROR, None)"
    "a2a_v03_delegate_task E (Some a) (Some request) (Some out) = Some (err E AIRY_ERR_STATE_ERROR, Some out, Some a)"
    "a2a_v03_create_task E (Some a) agent description input True w = (err E AIRY_ERR_STATE_ERROR, None, Some a, w)"
    "a2a_v03_update_task E (Some a) (Some i) new_state output_json progress = (err E AIRY_ERR_STATE_ERROR, Some a)"
    "a2a_v03_cancel_task E (Some a) (Some i) reason = (err E AIRY_ERR_STATE_ERROR, Some a)"
    "a2a_v03_get_task E (Some a) (Some i) True = (err E AIRY_ERR_STATE_ERROR, None)"
    "a2a_v03_stream_task_update E (Some a) (Some i) progress chunk final w = (err E AIRY_ERR_STATE_ERROR, Some a, w)"
    "a2a_v03_send_message E (Some a) (Some i) (Some message) response n w = (err E AIRY_ERR_STATE_ERROR, None, w)"
    "a2a_v03_negotiate E (Some a) (Some proposal) action terms w = (err E AIRY_ERR_STATE_ERROR, None, None, w)"
    "s \<noteq> 0 \<Longrightarrow> a2a_adapter_send_cb E (Some a) (Some d) s w = (err E AIRY_ERR_STATE_ERROR, Some a, w)"
    "a2a_adapter_receive_cb E (Some a) True t w = (err E AIRY_ERR_STATE_ERROR, Some (None, 0), Some a, w)"
  using assms by simp_all

text \<open>A fresh context, for the closed instances.\<close>

definition fresh_a2a :: "unit a2a_adapter" where
  "fresh_a2a = the (a2a_v03_context_create env0 (Some a2a_v03_config_default))"

lemma fresh_a2a: "a2a_reachable fresh_a2a" "aa_initialized fresh_a2a" "aa_tasks fresh_a2a = []"
  "aa_agent_count fresh_a2a = 0" "aa_task_handler fresh_a2a = None"
proof -
  have "a2a_v03_context_create env0 (Some a2a_v03_config_default) = Some fresh_a2a"
    by (simp add: fresh_a2a_def a2a_v03_create_def)
  then show "a2a_reachable fresh_a2a" by (rule r_create)
qed (simp_all add: fresh_a2a_def a2a_v03_create_def zero_adapter_state_def)

theorem task_create_update_witness:
  "\<exists>t a1. a2a_v03_create_task env0 (Some fresh_a2a) None None None True () = (0, Some t, Some a1, ()) \<and>
    a2a_v03_get_task env0 (Some a1) (Some ''task_0_0'') True =
      (if ''task_0_0'' = tk_id t then (0, Some t) else a2a_v03_get_task env0 (Some fresh_a2a) (Some ''task_0_0'') True)"
proof -
  have "length (aa_tasks fresh_a2a) < A2A_V03_MAX_TASKS" by (simp add: fresh_a2a(3))
  from task_create_update [OF fresh_a2a(1,2) this env0_sel(2,2), of None None None "()" "''task_0_0''" env0
      A2A_TASK_WORKING None 0]
  show ?thesis by (metis unit.exhaust)
qed

theorem a2a_tables_safe_witness: "a2a_wf fresh_a2a"
  using a2a_tables_safe [OF fresh_a2a(1)] by blast

section \<open>Agents as a table keyed by name\<close>

abbreviation used_agents :: "'w a2a_adapter \<Rightarrow> a2a_internal_card list" where
  "used_agents a \<equiv> take (aa_agent_count a) (aa_agents a)"

text \<open>What a caller reads of an agent, less the capability text, which depends on the slot.\<close>

type_synonym agent_info = "cstring option \<times> cstring option \<times> int \<times> bool \<times> u32"

definition agent_view :: "env \<Rightarrow> 'w a2a_adapter \<Rightarrow> cstring \<Rightarrow> agent_info option" where
  "agent_view E a i = map_option (\<lambda>c. (cd_name c, cd_url c, cd_protocol_version c, cd_available c, cd_capabilities c))
     (fst (a2a_v03_get_agent_card E (Some a) (Some i) zero_card))"

definition card_view :: "a2a_internal_card \<Rightarrow> agent_info" where
  "card_view c = (Some (ic_name c), Some (ic_url c), ic_version c, ic_available c, ic_capabilities_mask c)"

definition given_view :: "a2a_agent_card \<Rightarrow> agent_info" where
  "given_view info = (Some (take 127 (case cd_name info of None \<Rightarrow> ''Unknown'' | Some n \<Rightarrow> n)),
     Some (take 511 (case cd_url info of None \<Rightarrow> '''' | Some u \<Rightarrow> u)),
     if 0 < cd_protocol_version info then cd_protocol_version info else 3,
     cd_available info, cd_capabilities info)"

definition env_ok :: "env \<Rightarrow> bool" where
  "env_ok E \<longleftrightarrow> codes_ok E \<and> strncpy_ok E \<and> mem_ok E"

definition agents_ok :: "'w a2a_adapter \<Rightarrow> bool" where
  "agents_ok a \<longleftrightarrow> aa_initialized a \<and> a2a_wf a \<and> distinct (map ic_id (used_agents a))"

lemma agent_view_eq:
  assumes "env_ok E" "aa_initialized a"
  shows "agent_view E a i = map_option card_view (List.find (\<lambda>c. ic_id c = i) (used_agents a))"
  using assms find_idx_lt [of "\<lambda>c. ic_id c = i" "used_agents a"]
  by (auto simp: agent_view_def env_ok_def find_agent_def find_eq_find_idx copy_card_def card_view_def zero_card_def
      split: option.split)

lemma agent_view_Some:
  assumes "env_ok E" "agents_ok a"
  shows "agent_view E a i = Some v \<longleftrightarrow> (\<exists>c \<in> set (used_agents a). ic_id c = i \<and> card_view c = v)"
proof -
  have "List.find (\<lambda>c. ic_id c = i) cs = Some c \<longleftrightarrow> c \<in> set cs \<and> ic_id c = i" if "distinct (map ic_id cs)" for cs c
    using that by (induction cs) (auto simp: image_iff)
  with assms show ?thesis unfolding agents_ok_def by (auto simp: agent_view_eq)
qed

lemma agent_view_None:
  assumes "env_ok E" "aa_initialized a"
  shows "agent_view E a i = None \<longleftrightarrow> find_agent a i = None"
  using assms by (simp add: agent_view_def find_agent_def split: option.split)

lemma add_agent_used:
  assumes "aa_agent_count a < length (aa_agents a)"
  shows "\<exists>s. used_agents (add_agent E info a) = used_agents a @ [s] \<and>
    (\<forall>i. given_id info = Some i \<longrightarrow> ic_id s = strncpy_term E 64 i) \<and>
    (strncpy_ok E \<longrightarrow> card_view s = given_view info) \<and>
    (\<forall>c. cd_capabilities_json info = Some c \<longrightarrow> ic_capabilities s = strncpy_term E 1024 c) \<and>
    (cd_capabilities_json info = None \<longrightarrow> ic_capabilities s = ic_capabilities (aa_agents a ! aa_agent_count a))"
  using assms
  by (auto simp: add_agent_def take_Suc_conv_app_nth fill_card_def card_view_def given_view_def
      split: option.splits)

lemma unregister_used:
  assumes "agents_ok a" "find_agent a i = Some k"
  shows "a2a_v03_unregister_agent E (Some a) (Some i) = (0, Some (a\<lparr>aa_agents :=
      (if k < aa_agent_count a - 1 then (aa_agents a)[k := aa_agents a ! (aa_agent_count a - 1)] else aa_agents a),
      aa_agent_count := aa_agent_count a - 1\<rparr>))"
    "k < length (used_agents a)" "ic_id (used_agents a ! k) = i"
proof -
  show "a2a_v03_unregister_agent E (Some a) (Some i) = (0, Some (a\<lparr>aa_agents :=
      (if k < aa_agent_count a - 1 then (aa_agents a)[k := aa_agents a ! (aa_agent_count a - 1)] else aa_agents a),
      aa_agent_count := aa_agent_count a - 1\<rparr>))"
    using assms by (simp add: agents_ok_def)
  show "k < length (used_agents a)" "ic_id (used_agents a ! k) = i"
    using assms(2) by (auto simp: find_agent_def find_idx_Some)
qed

lemma unregister_ok:
  assumes "agents_ok a" "a2a_v03_unregister_agent E (Some a) (Some i) = (0, Some a')" "codes_ok E"
  obtains k where "k < length (used_agents a)" "ic_id (used_agents a ! k) = i"
    "used_agents a' = swap_remove k (used_agents a)" "agents_ok a'" "aa_agent_count a' = aa_agent_count a - 1"
proof -
  have init: "aa_initialized a" using assms(1) by (simp add: agents_ok_def)
  obtain k where k: "find_agent a i = Some k" using assms(2,3) init by (auto split: option.splits)
  note u = unregister_used [OF assms(1) k]
  let ?n = "aa_agent_count a"
  have k2: "k < ?n" "?n \<le> length (aa_agents a)" using u(2) assms(1) by (auto simp: agents_ok_def a2a_wf_def)
  have a': "a' = a\<lparr>aa_agents := (if k < ?n - 1 then (aa_agents a)[k := aa_agents a ! (?n - 1)] else aa_agents a),
      aa_agent_count := ?n - 1\<rparr>" using u(1) assms(2) by simp
  have r: "used_agents a' = swap_remove k (used_agents a)"
    using swap_remove_slots [OF k2] by (simp add: a')
  have dm: "distinct (map ic_id (used_agents a))" using assms(1) by (simp add: agents_ok_def)
  have "map ic_id (swap_remove k (used_agents a)) = swap_remove k (map ic_id (used_agents a))"
    using u(2) by (cases "used_agents a" rule: rev_cases)
      (auto simp: swap_remove_def map_butlast map_update last_map list_update_append)
  then have "distinct (map ic_id (used_agents a'))"
    using swap_remove_props(2) [OF _ dm] u(2) unfolding r by simp
  moreover have "a2a_wf a'" using unreg_agent_wf [OF _ assms(2)] assms(1) by (simp add: agents_ok_def)
  moreover have "aa_initialized a'" using init by (simp add: a')
  ultimately show thesis using that [OF u(2,3) r] by (simp add: agents_ok_def a')
qed

definition agent_ins :: "env \<Rightarrow> cstring \<Rightarrow> a2a_agent_card \<Rightarrow> 'w a2a_adapter \<Rightarrow> 'w a2a_adapter option" where
  "agent_ins E i info a =
    (if i \<noteq> [] \<and> length i < 64 \<and> agent_view E a i = None
     then (case a2a_v03_register_agent E (Some a) (Some (info\<lparr>cd_id := Some i\<rparr>)) of
             (rc, a') \<Rightarrow> if rc = 0 then a' else None)
     else None)"

definition agent_del :: "env \<Rightarrow> cstring \<Rightarrow> 'w a2a_adapter \<Rightarrow> 'w a2a_adapter option" where
  "agent_del E i a = (case a2a_v03_unregister_agent E (Some a) (Some i) of (rc, a') \<Rightarrow> if rc = 0 then a' else None)"

definition agent_inv :: "env \<Rightarrow> 'w a2a_adapter \<Rightarrow> bool" where
  "agent_inv E a \<longleftrightarrow> agents_ok a \<and> env_ok E"

lemma given_id_upd: "i \<noteq> [] \<Longrightarrow> given_id (info\<lparr>cd_id := Some i\<rparr>) = Some i"
  by (simp add: given_id_def)

lemma given_view_upd [simp]: "given_view (info\<lparr>cd_id := x\<rparr>) = given_view info"
  by (simp add: given_view_def)

lemma agent_ins_Some:
  assumes "agent_inv E a" "agent_ins E i info a = Some a'"
  shows "agents_ok a'" "agent_view E a i = None"
    "\<exists>s. used_agents a' = used_agents a @ [s] \<and> ic_id s = i \<and> card_view s = given_view info"
    "aa_agent_count a' = aa_agent_count a + 1"
proof -
  let ?info = "info\<lparr>cd_id := Some i\<rparr>"
  have ok: "agents_ok a" "env_ok E" and E: "codes_ok E" "strncpy_ok E" and init: "aa_initialized a"
    using assms(1) by (auto simp: agent_inv_def env_ok_def agents_ok_def)
  have i: "i \<noteq> []" "length i < 64" "agent_view E a i = None"
    and reg: "a2a_v03_register_agent E (Some a) (Some ?info) = (0, Some a')"
    using assms(2) by (auto simp: agent_ins_def simp del: a2a_v03_register_agent.simps split: if_splits prod.splits)
  have f: "find_agent a i = None" using i(3) ok(2) init by (simp add: agent_view_None)
  with reg init i(1) E(1) have n: "aa_agent_count a < 256" and a': "a' = add_agent E ?info a"
    by (auto simp: given_id_upd split: if_splits)
  obtain s where s: "used_agents a' = used_agents a @ [s]" "ic_id s = i" "card_view s = given_view info"
    using add_agent_used [of a E ?info] n ok(1) i E(2)
    by (auto simp: a' given_id_upd agents_ok_def a2a_wf_def simp del: take_update_cancel)
  then show "\<exists>s. used_agents a' = used_agents a @ [s] \<and> ic_id s = i \<and> card_view s = given_view info" by blast
  have "i \<notin> set (map ic_id (used_agents a))" using f by (auto simp: find_agent_def find_idx_None)
  moreover have "a2a_wf a'" using reg_agent_wf [OF _ E(2) reg] ok(1) by (simp add: agents_ok_def)
  moreover have "aa_initialized a'" using init by (simp add: a' add_agent_def split: prod.split)
  ultimately show "agents_ok a'" using s ok(1) by (simp add: agents_ok_def)
  show "agent_view E a i = None" by (rule i(3))
  show "aa_agent_count a' = aa_agent_count a + 1" by (simp add: a' add_agent_def split: prod.split)
qed

interpretation agents: name_table id "agent_view E" "agent_ins E" "\<lambda>i. given_view" "agent_del E" "agent_inv E"
  for E
proof
  fix a a' :: "'w a2a_adapter" and i j :: cstring and info :: a2a_agent_card
  assume inv: "agent_inv E a"
  then have ok: "agents_ok a" "env_ok E" "codes_ok E" "aa_initialized a"
    by (auto simp: agent_inv_def env_ok_def agents_ok_def)
  show "id j = id i \<Longrightarrow> agent_view E a j = agent_view E a i" by simp
  {
    assume ins: "agent_ins E i info a = Some a'"
    note I = agent_ins_Some [OF inv ins]
    show "agent_inv E a'" using I ok by (simp add: agent_inv_def)
    show "agent_view E a i = None" by (rule I(2))
    obtain s where s: "used_agents a' = used_agents a @ [s]" "ic_id s = i" "card_view s = given_view info"
      using I(3) by blast
    have "i \<notin> set (map ic_id (used_agents a))"
      using I(2) ok by (auto simp: agent_view_None find_agent_def find_idx_None)
    then show "agent_view E a' j = (if id j = id i then Some (given_view info) else agent_view E a j)"
      using agent_view_Some [OF ok(2) I(1)] agent_view_Some [OF ok(2,1)] s
      by (intro option_eqI) (auto simp: image_iff)
  }
  {
    assume del: "agent_del E i a = Some a'"
    then have u: "a2a_v03_unregister_agent E (Some a) (Some i) = (0, Some a')"
      by (auto simp: agent_del_def simp del: a2a_v03_unregister_agent.simps split: prod.splits if_splits)
    obtain k where k: "k < length (used_agents a)" "ic_id (used_agents a ! k) = i"
      "used_agents a' = swap_remove k (used_agents a)" "agents_ok a'"
      using unregister_ok [OF ok(1) u ok(3)] by blast
    show "agent_inv E a'" using k ok by (simp add: agent_inv_def)
    have d: "distinct (map ic_id (used_agents a))" using ok(1) by (simp add: agents_ok_def)
    have set: "set (used_agents a') = set (used_agents a) - {used_agents a ! k}"
      unfolding k(3) using swap_remove_props(3) [OF k(1)] d by (simp add: distinct_map)
    have "c = used_agents a ! k" if "c \<in> set (used_agents a)" "ic_id c = i" for c
      using that d k(1,2) by (metis distinct_map inj_onD nth_mem)
    then show "agent_view E a' j = (if id j = id i then None else agent_view E a j)"
      using agent_view_Some [OF ok(2) k(4)] agent_view_Some [OF ok(2,1)] set k(1,2)
      by (intro option_eqI) auto
  }
  show "(\<exists>a'. agent_del E i a = Some a') \<longleftrightarrow> agent_view E a i \<noteq> None"
    using ok by (auto simp: agent_del_def agent_view_None split: option.split)
qed

lemma register_new:
  assumes "agents_ok a" "env_ok E" "i \<noteq> []" "length i < 64" "cd_id info = Some i" "agent_view E a i = None"
    "aa_agent_count a < A2A_V03_MAX_AGENTS"
  shows "a2a_v03_register_agent E (Some a) (Some info) = (0, Some (add_agent E info a))"
    "agent_ins E i info a = Some (add_agent E info a)"
proof -
  have init: "aa_initialized a" using assms(1) by (simp add: agents_ok_def)
  have self: "info\<lparr>cd_id := Some i\<rparr> = info" using assms(5) by simp
  have "find_agent a i = None" using assms(2,6) init by (simp add: agent_view_None)
  then show reg: "a2a_v03_register_agent E (Some a) (Some info) = (0, Some (add_agent E info a))"
    using init assms(3,5,7) by (simp add: given_id_def)
  show "agent_ins E i info a = Some (add_agent E info a)"
    using assms(3,4,6) reg by (simp add: agent_ins_def self del: a2a_v03_register_agent.simps)
qed

text \<open>
  An agent that is registered under a new name of at most 63 characters is added to
  the table and read back with its data, cut to the size of its fields, and every other
  agent as before; unregistering it succeeds and restores what every lookup returns.
\<close>

theorem agent_register_unregister:
  assumes "agents_ok a" "env_ok E" "i \<noteq> []" "length i < 64" "cd_id info = Some i"
    "a2a_v03_get_agent_card E (Some a) (Some i) zero_card = (None, zero_card)"
    "a2a_v03_get_agent_count (Some a) < A2A_V03_MAX_AGENTS"
  shows "\<exists>a1 a2. a2a_v03_register_agent E (Some a) (Some info) = (0, Some a1) \<and>
    a2a_v03_get_agent_count (Some a1) = a2a_v03_get_agent_count (Some a) + 1 \<and>
    agent_view E a1 j = (if j = i then Some (given_view info) else agent_view E a j) \<and>
    a2a_v03_unregister_agent E (Some a1) (Some i) = (0, Some a2) \<and>
    a2a_v03_get_agent_count (Some a2) = a2a_v03_get_agent_count (Some a) \<and>
    agent_view E a2 j = agent_view E a j"
proof -
  have inv: "agent_inv E a" and init: "aa_initialized a" and E: "codes_ok E"
    using assms(1,2) by (simp_all add: agent_inv_def agents_ok_def env_ok_def)
  let ?a1 = "add_agent E info a"
  have none: "agent_view E a i = None" using assms(6) by (simp add: agent_view_def)
  note reg = register_new(1) [OF assms(1-5) none] and ins = register_new(2) [OF assms(1-5) none]
  have n: "aa_agent_count a < A2A_V03_MAX_AGENTS" using assms(7) by (simp add: a2a_v03_get_agent_count_def)
  note reg = reg [OF n] and ins = ins [OF n]
  obtain a2 where d: "agent_del E i ?a1 = Some a2" "\<forall>j. agent_view E a2 j = agent_view E a j"
    using agents.ins_then_del [OF inv ins] by blast
  then have un: "a2a_v03_unregister_agent E (Some ?a1) (Some i) = (0, Some a2)"
    by (auto simp: agent_del_def simp del: a2a_v03_unregister_agent.simps split: prod.splits if_splits)
  have ok1: "agents_ok ?a1" using agent_ins_Some(1) [OF inv ins] .
  have n1: "aa_agent_count ?a1 = aa_agent_count a + 1" using agent_ins_Some(4) [OF inv ins] .
  have n2: "aa_agent_count a2 = aa_agent_count a" using unregister_ok [OF ok1 un E] n1 by fastforce
  have l: "agent_view E ?a1 j = (if j = i then Some (given_view info) else agent_view E a j)"
    using agents.lookup_ins [OF inv ins, of j] by simp
  show ?thesis
    by (rule exI [of _ ?a1], rule exI [of _ a2])
      (simp add: reg l un d(2) n1 n2 a2a_v03_get_agent_count_def
        del: a2a_v03_register_agent.simps a2a_v03_unregister_agent.simps)
qed

lemma fresh_agents: "agents_ok fresh_a2a" "env_ok env0"
  using fresh_a2a reachable_wf [OF fresh_a2a(1)] by (simp_all add: agents_ok_def env_ok_def)

theorem agent_register_unregister_witness:
  "\<exists>a1. a2a_v03_register_agent env0 (Some fresh_a2a) (Some (zero_card\<lparr>cd_id := Some ''planner''\<rparr>)) = (0, Some a1) \<and>
    agent_view env0 a1 ''planner'' = Some (Some ''Unknown'', Some '''', 3, False, 0)"
proof -
  have "a2a_v03_get_agent_card env0 (Some fresh_a2a) (Some ''planner'') zero_card = (None, zero_card)"
    using fresh_a2a by (simp add: find_agent_def)
  from agent_register_unregister [OF fresh_agents, of "''planner''" "zero_card\<lparr>cd_id := Some ''planner''\<rparr>" "''planner''",
      OF _ _ _ this]
  show ?thesis
    using fresh_a2a(4)
    by (auto simp: a2a_v03_get_agent_count_def given_view_def zero_card_def
        simp del: a2a_v03_register_agent.simps a2a_v03_unregister_agent.simps)
qed

text \<open>
  Registering a known name again never adds an agent: the entry gets the new data, and
  its capability mask is the union of the old and the new one.
\<close>

theorem agent_register_again:
  assumes "agents_ok a" "env_ok E" "i \<noteq> []" "cd_id info = Some i"
    "agent_view E a i = Some (n, u, v, av, old)"
  shows "\<exists>a1. a2a_v03_register_agent E (Some a) (Some info) = (0, Some a1) \<and>
    a2a_v03_get_agent_count (Some a1) = a2a_v03_get_agent_count (Some a) \<and>
    agent_view E a1 j = (if j = i then Some (given_view (info\<lparr>cd_capabilities := old OR cd_capabilities info\<rparr>))
      else agent_view E a j)"
proof -
  have init: "aa_initialized a" and d: "distinct (map ic_id (used_agents a))"
    using assms(1) by (simp_all add: agents_ok_def)
  obtain k where k: "find_agent a i = Some k"
    using assms(5) agent_view_None [OF assms(2) init, of i] by auto
  then have k2: "k < length (aa_agents a)" "k < aa_agent_count a" "ic_id (aa_agents a ! k) = i"
    by (auto simp: find_agent_def find_idx_Some)
  define s where "s = (fill_card E info (aa_agents a ! k))\<lparr>ic_capabilities_mask :=
    ic_capabilities_mask (aa_agents a ! k) OR cd_capabilities info\<rparr>"
  let ?a1 = "merge_agent E info k a"
  have reg: "a2a_v03_register_agent E (Some a) (Some info) = (0, Some ?a1)"
    using init assms(3,4) k by (simp add: given_id_def)
  have u: "used_agents ?a1 = (used_agents a)[k := s]"
    by (simp add: merge_agent_def s_def take_update_swap)
  have id: "ic_id s = i" using k2 by (simp add: s_def fill_card_def)
  have "map ic_id (used_agents ?a1) = map ic_id (used_agents a)"
    unfolding u using id k2 by (simp add: map_update list_update_same_conv)
  moreover have "a2a_wf ?a1" using reg_agent_wf [OF _ _ reg] assms(1,2) by (simp add: agents_ok_def env_ok_def)
  ultimately have ok1: "agents_ok ?a1" using d init by (simp add: agents_ok_def merge_agent_def)
  have "agent_view E a i = Some (card_view (aa_agents a ! k))"
    unfolding agent_view_Some [OF assms(2,1)] using k2 nth_mem [of k "used_agents a"] by auto
  then have m: "ic_capabilities_mask (aa_agents a ! k) = old" using assms(5) by (simp add: card_view_def)
  have cv: "card_view s = given_view (info\<lparr>cd_capabilities := old OR cd_capabilities info\<rparr>)"
    using assms(2) by (simp add: s_def m card_view_def given_view_def fill_card_def env_ok_def)
  have set: "set (used_agents ?a1) = insert s (set (used_agents a) - {aa_agents a ! k})"
    unfolding u using set_update_distinct [of "used_agents a" k s] d k2 by (simp add: distinct_map)
  have uniq: "c = aa_agents a ! k" if "c \<in> set (used_agents a)" "ic_id c = i" for c
    using that d k2 nth_mem [of k "used_agents a"] by (auto simp: distinct_map dest: inj_onD)
  have "agent_view E ?a1 j = (if j = i then Some (card_view s) else agent_view E a j)"
    using agent_view_Some [OF assms(2) ok1] agent_view_Some [OF assms(2,1)] set uniq id k2(3)
    by (intro option_eqI) auto
  then show ?thesis using reg
    by (intro exI [of _ ?a1]) (simp add: cv a2a_v03_get_agent_count_def merge_agent_def
        del: a2a_v03_register_agent.simps)
qed

theorem agent_register_again_witness:
  "\<exists>a a1 :: unit a2a_adapter. agent_view env0 a ''planner'' \<noteq> None \<and>
    a2a_v03_register_agent env0 (Some a) (Some (zero_card\<lparr>cd_id := Some ''planner''\<rparr>)) = (0, Some a1) \<and>
    a2a_v03_get_agent_count (Some a1) = a2a_v03_get_agent_count (Some a)"
proof -
  let ?c = "zero_card\<lparr>cd_id := Some ''planner''\<rparr>"
  have inv: "agent_inv env0 fresh_a2a" using fresh_agents by (simp add: agent_inv_def)
  have "agent_view env0 fresh_a2a ''planner'' = None"
    using fresh_a2a by (simp add: agent_view_def find_agent_def)
  then have ins: "agent_ins env0 ''planner'' ?c fresh_a2a = Some (add_agent env0 ?c fresh_a2a)" (is "_ = Some ?a")
    using fresh_a2a(4) by (intro register_new(2) fresh_agents) simp_all
  obtain n u v av old where l: "agent_view env0 ?a ''planner'' = Some (n, u, v, av, old)"
    using agents.lookup_same [OF inv ins] by (cases "given_view ?c") simp
  from agent_register_again [OF agent_ins_Some(1) [OF inv ins] fresh_agents(2) _ _ l, of ?c] l
  show ?thesis by fastforce
qed

lemma discover_count_eq:
  "m + length cs \<le> A2A_V03_MAX_AGENTS \<Longrightarrow>
   discover_count cap cs m = m + length (filter (agent_matches cap) cs)"
  by (induction cs arbitrary: m) auto

lemma discover_fill_eq:
  "mem_ok E \<Longrightarrow> length (filter (agent_matches cap) cs) \<le> room \<Longrightarrow>
   discover_fill E cap room cs = map (copy_card env0) (filter (agent_matches cap) cs)"
  by (induction cs arbitrary: E room) (auto simp: copy_card_def)

text \<open>
  C38: discovery returns a copy of every available agent whose capability text contains the
  wanted one, in the order of the table and no other; the skill that is asked for has no
  influence.
\<close>

theorem discover_exact:
  assumes "a2a_reachable a" "aa_initialized a" "mem_ok E"
  shows "a2a_v03_discover_agents E (Some a) cap skill True =
    (0, Some (map (\<lambda>c. Some (zero_card\<lparr>cd_id := Some (ic_id c), cd_name := Some (ic_name c),
        cd_url := Some (ic_url c), cd_capabilities_json := Some (ic_capabilities c),
        cd_protocol_version := ic_version c\<rparr>))
      (filter (\<lambda>c. ic_available c \<and> (\<forall>t. cap = Some t \<longrightarrow> t \<noteq> [] \<longrightarrow> strstr (ic_capabilities c) t \<noteq> None))
        (used_agents a))))"
proof -
  have "agent_matches cap = (\<lambda>c. ic_available c \<and> (\<forall>t. cap = Some t \<longrightarrow> t \<noteq> [] \<longrightarrow> strstr (ic_capabilities c) t \<noteq> None))"
    by (auto simp: agent_matches_def fun_eq_iff split: option.splits)
  moreover have "length (used_agents a) \<le> A2A_V03_MAX_AGENTS"
    using reachable_wf [OF assms(1)] by (simp add: a2a_wf_def)
  moreover have "copy_card env0 = (\<lambda>c. zero_card\<lparr>cd_id := Some (ic_id c), cd_name := Some (ic_name c),
        cd_url := Some (ic_url c), cd_capabilities_json := Some (ic_capabilities c),
        cd_protocol_version := ic_version c\<rparr>)"
    by (simp add: copy_card_def fun_eq_iff)
  ultimately show ?thesis
    using assms by (simp add: discover_count_eq [of 0] discover_fill_eq o_def)
qed

theorem discover_exact_witness:
  "a2a_v03_discover_agents env0 (Some fresh_a2a) (Some ''plan'') None True = (0, Some [])"
  using discover_exact [OF fresh_a2a(1,2) env0_ok(3), of "Some ''plan''" None] fresh_a2a(4) by simp

section \<open>Frames on the wire\<close>

text \<open>A reader of the frame format, as a specification of what the peer has to do.\<close>

definition strip :: "cstring \<Rightarrow> cstring \<Rightarrow> cstring option" where
  "strip p s = (if take (length p) s = p then Some (drop (length p) s) else None)"

definition read_frame :: "char list \<Rightarrow> (char list \<times> char list) option" where
  "read_frame s = (case strip frame_start s of None \<Rightarrow> None
     | Some r \<Rightarrow>
        (let ds = takeWhile isdigit r; n = dval ds in
         case strip frame_end (drop (length ds) r) of None \<Rightarrow> None
         | Some body \<Rightarrow> if length body < n then None else Some (take n body, drop n body)))"

function read_frames :: "char list \<Rightarrow> char list list" where
  "read_frames s = (case read_frame s of None \<Rightarrow> []
     | Some (d, r) \<Rightarrow> if length r < length s then d # read_frames r else [])"
  by auto
termination
  by (relation "measure length") auto

declare read_frames.simps [simp del]

lemma strip_append [simp]: "strip p (p @ s) = Some s"
  by (simp add: strip_def)

lemma read_frame_sent: "read_frame (frame_header (length d) @ d @ r) = Some (d, r)"
proof -
  have tw: "takeWhile isdigit (show_nat (length d) @ frame_end @ d @ r) = show_nat (length d)"
    by (rule takeWhile_show_nat) (simp add: frame_end_def crlf_def isdigit_def)
  show ?thesis by (simp add: read_frame_def frame_header_def tw)
qed

lemma header_length: "s < 2 ^ 64 \<Longrightarrow> length (frame_header s) < A2A_V03_FRAME_HDR_MAX"
proof -
  assume "s < 2 ^ 64"
  then have "length (show_nat s) \<le> 20" by (intro show_nat_length) simp_all
  then show ?thesis by (simp add: frame_header_def frame_start_def frame_end_def crlf_def)
qed

text \<open>A transport that accepts everything and keeps the bytes in order.\<close>

definition append_transport :: "char list transport_write" where
  "append_transport ctx d w = (0, w @ d)"

fun send_all :: "env \<Rightarrow> char list a2a_adapter \<Rightarrow> char list list \<Rightarrow> char list \<Rightarrow> char list a2a_adapter \<times> char list" where
  "send_all E a [] w = (a, w)"
| "send_all E a (d # ds) w = (case a2a_adapter_send_cb E (Some a) (Some d) (length d) w of
     (rc, Some a1, w1) \<Rightarrow> send_all E a1 ds w1 | (rc, None, w1) \<Rightarrow> (a, w1))"

definition sendable :: "char list a2a_adapter \<Rightarrow> bool" where
  "sendable a \<longleftrightarrow> aa_initialized a \<and> aa_connected a \<and> aa_transport_write a = Some append_transport"

lemma send_one:
  assumes "sendable a" "d \<noteq> []" "length d < 2 ^ 64"
  shows "a2a_adapter_send_cb E (Some a) (Some d) (length d) w =
    (0, Some (a\<lparr>aa_bytes_sent := aa_bytes_sent a + (of_nat (length d) + of_nat (length (frame_header (length d)))),
        aa_messages_sent := aa_messages_sent a + 1\<rparr>), w @ frame_header (length d) @ d)"
  using assms header_length [OF assms(3)] by (simp add: sendable_def append_transport_def)

lemma send_all_stream:
  assumes "sendable a" "list_all (\<lambda>d. d \<noteq> [] \<and> length d < 2 ^ 64) ds"
  shows "snd (send_all E a ds w) = w @ concat (map (\<lambda>d. frame_header (length d) @ d) ds) \<and>
    aa_messages_sent (fst (send_all E a ds w)) = aa_messages_sent a + of_nat (length ds)"
  using assms
proof (induction ds arbitrary: a w)
  case Nil
  then show ?case by simp
next
  case (Cons d ds)
  let ?a = "a\<lparr>aa_bytes_sent := aa_bytes_sent a + (of_nat (length d) + of_nat (length (frame_header (length d)))),
        aa_messages_sent := aa_messages_sent a + 1\<rparr>"
  have "sendable ?a" using Cons.prems(1) by (simp add: sendable_def)
  from Cons.IH [OF this, of "w @ frame_header (length d) @ d"] Cons.prems send_one [of a d E w]
  show ?case by (simp del: a2a_adapter_send_cb.simps)
qed

text \<open>
  Over a transport that keeps bytes in order, the messages that are sent can be read
  back from the stream, each whole and in order: the frame header always fits its buffer
  and gives the exact length of what follows. The message counter counts them.
\<close>

theorem a2a_frames_delimited:
  assumes "sendable a" "list_all (\<lambda>d. d \<noteq> [] \<and> length d < 2 ^ 64) ds"
  shows "read_frames (snd (send_all E a ds [])) = ds \<and>
    aa_messages_sent (fst (send_all E a ds [])) = aa_messages_sent a + of_nat (length ds)"
proof -
  have "read_frames (concat (map (\<lambda>d. frame_header (length d) @ d) ds)) = ds"
  proof (induction ds)
    case Nil
    then show ?case by (simp add: read_frames.simps read_frame_def strip_def frame_start_def)
  next
    case (Cons d ds)
    have "0 < length (frame_header (length d))" by (simp add: frame_header_def)
    then show ?case using Cons by (subst read_frames.simps) (simp add: read_frame_sent)
  qed
  then show ?thesis using send_all_stream [OF assms, of E "[]"] by simp
qed

theorem a2a_frames_delimited_witness:
  "\<exists>a. read_frames (snd (send_all env0 a [''{}'', ''[1]''] [])) = [''{}'', ''[1]'']"
proof -
  let ?a = "zero_adapter_state\<lparr>aa_initialized := True, aa_connected := True,
    aa_transport_write := Some append_transport\<rparr>"
  have "sendable ?a" by (simp add: sendable_def)
  from a2a_frames_delimited [OF this, of "[''{}'', ''[1]'']" env0] show ?thesis by (intro exI [of _ ?a]) simp
qed

section \<open>Consensus\<close>

fun agreeing :: "nat \<Rightarrow> nat \<Rightarrow> nat" where
  "agreeing i 0 = 0"
| "agreeing i (Suc n) = (if i mod 3 \<noteq> 0 then 1 else 0) + agreeing (Suc i) n"

lemma vote_count: "i + n \<le> length g \<Longrightarrow> \<exists>g'. vote i n (g, c) = Some (g', c + agreeing i n)"
proof (induction n arbitrary: i g c)
  case 0
  then show ?case by simp
next
  case (Suc n)
  then show ?case
    using Suc.IH [of "Suc i" "g[i := i mod 3 \<noteq> 0]" "if i mod 3 \<noteq> 0 then c + 1 else c"]
    by (cases "i mod 3 = 0") simp_all
qed

lemma agreeing_bound: "3 * agreeing i n \<le> 2 * n + (3 - i mod 3) mod 3"
proof (induction n arbitrary: i)
  case 0
  then show ?case by simp
next
  case (Suc n)
  have "i mod 3 = 0 \<or> i mod 3 = 1 \<or> i mod 3 = 2" by auto
  then show ?case using Suc [of "Suc i"] by (auto simp: mod_Suc)
qed

lemma vote_outside: "i \<le> length g \<Longrightarrow> length g < i + n \<Longrightarrow> vote i n (g, c) = None"
proof (induction n arbitrary: i g c)
  case 0
  then show ?case by simp
next
  case (Suc n)
  then show ?case by (cases "i = length g") simp_all
qed

text \<open>
  With more than 16 participants the voting loop writes outside its array. With up to
  16, and the default threshold, consensus is never reached: one in three participants
  always disagrees, so at most two thirds agree, less than the default of 0.67.
\<close>

theorem consensus_default_unreachable:
  assumes "aa_initialized a" "0 < cq_num_participants q" "cq_consensus_threshold q \<le> 0"
    "mono fl" "\<forall>k \<le> 16. fl (real k) = real k" "fl (2 / 3) < fl 0.67"
  shows "if 16 < cq_num_participants q
    then a2a_v03_achieve_consensus E fl (Some a) (Some q) (Some out) = None
    else \<exists>r. a2a_v03_achieve_consensus E fl (Some a) (Some q) (Some out) = Some (0, Some r) \<and>
      \<not> cr_consensus_reached r \<and> 3 * cr_agree_count r \<le> 2 * nat (cq_num_participants q)"
proof (cases "16 < cq_num_participants q")
  case True
  then show ?thesis
    using assms(1) vote_outside [of 0 "replicate 16 False" "nat (cq_num_participants q)" 0]
    by (simp add: zero_consensus_def)
next
  case False
  let ?n = "nat (cq_num_participants q)" and ?k = "agreeing 0 (nat (cq_num_participants q))"
  have n: "?n \<le> 16" "0 < ?n" using False assms(2) by simp_all
  obtain g where v: "vote 0 ?n (replicate 16 False, 0) = Some (g, ?k)"
    using vote_count [of 0 ?n "replicate 16 False" 0] n by auto
  have k: "3 * ?k \<le> 2 * ?n" "?k \<le> 16" using agreeing_bound [of 0 ?n] n(1) by simp_all
  then have "3 * real ?k \<le> 2 * real ?n" using of_nat_le_iff [where 'a = real, of "3 * ?k" "2 * ?n"] by simp
  then have "real ?k / real ?n \<le> 2 / 3" using n(2) by (simp add: field_simps)
  then have "fl (real ?k / real ?n) < fl 0.67" using monoD [OF assms(4)] assms(6) by (meson le_less_trans)
  moreover have "fl (real ?k) = real ?k" "fl (real_of_int (cq_num_participants q)) = real ?n"
    using assms(2,5) k(2) n(1) by (auto simp: of_nat_nat [symmetric] simp del: of_nat_nat)
  ultimately show ?thesis
    using False assms(1,3) v k(1) by (simp add: zero_consensus_def)
qed

theorem consensus_default_unreachable_witness:
  "\<exists>r. a2a_v03_achieve_consensus env0 (\<lambda>x. x) (Some fresh_a2a)
      (Some \<lparr>cq_task_id = None, cq_description = None, cq_num_participants = 3, cq_consensus_threshold = 0\<rparr>)
      (Some zero_consensus) = Some (0, Some r) \<and> \<not> cr_consensus_reached r"
  using consensus_default_unreachable [OF fresh_a2a(2), of
      "\<lparr>cq_task_id = None, cq_description = None, cq_num_participants = 3, cq_consensus_threshold = 0\<rparr>"
      "\<lambda>x. x" env0 zero_consensus]
  by (auto simp: mono_def simp del: a2a_v03_achieve_consensus.simps)

end
