(* ===== verification/Cjson.thy ===== *)
theory Cjson
  imports Airy_Prelude
begin

text \<open>
  The cJSON library as the sources use it. It is not part of the repository, so it is a
  parameter: a record of its functions over JSON trees. A tree is what the library's
  documentation calls an item. \<open>cj_new\<close> says which of the objects and arrays of a call are
  created; adding a member to one succeeds. \<open>cj_parse_len\<close> reads the given bytes, which need
  not end with a NUL, and \<open>cj_item_cs\<close> looks a member up by its exact name.
\<close>

section \<open>JSON trees\<close>

datatype json =
    JNull | JBool bool | JNum real | JStr cstring | JArr "json list" | JObj "(cstring \<times> json) list"

record cjson =
  cj_parse :: "cstring \<Rightarrow> json option"
  cj_item :: "json \<Rightarrow> cstring \<Rightarrow> json option"
  cj_valueint :: "real \<Rightarrow> int"
  cj_print :: "json \<Rightarrow> cstring option"
  cj_new :: "nat \<Rightarrow> bool"
  cj_parse_len :: "char list \<Rightarrow> json option"
  cj_item_cs :: "json \<Rightarrow> cstring \<Rightarrow> json option"

text \<open>The string or number value of a member, \<open>None\<close> when it is absent or of another kind.\<close>

definition str_of :: "json option \<Rightarrow> cstring option" where
  "str_of j = (case j of Some (JStr s) \<Rightarrow> Some s | _ \<Rightarrow> None)"

definition num_of :: "json option \<Rightarrow> real option" where
  "num_of j = (case j of Some (JNum x) \<Rightarrow> Some x | _ \<Rightarrow> None)"

definition item_str :: "cjson \<Rightarrow> json \<Rightarrow> cstring \<Rightarrow> cstring option" where
  "item_str C doc key = str_of (cj_item C doc key)"

definition item_num :: "cjson \<Rightarrow> json \<Rightarrow> cstring \<Rightarrow> real option" where
  "item_num C doc key = num_of (cj_item C doc key)"

text \<open>The library with memory available: every object is created and every tree printed.\<close>

definition cjson_ok :: "cjson \<Rightarrow> bool" where
  "cjson_ok C \<longleftrightarrow> (\<forall>i. cj_new C i) \<and> (\<forall>j. cj_print C j \<noteq> None)"

text \<open>A concrete library, for the closed instances: members by name, a printer, and a reader
  for the texts of given documents.\<close>

fun json_text :: "json \<Rightarrow> cstring" where
  "json_text JNull = ''null''"
| "json_text (JBool b) = (if b then ''true'' else ''false'')"
| "json_text (JNum x) = show_int (floor x)"
| "json_text (JStr s) = CHR 0x22 # s @ [CHR 0x22]"
| "json_text (JArr js) = ''['' @ concat (map (\<lambda>j. json_text j @ '','') js) @ '']''"
| "json_text (JObj ms) = ''{'' @ concat (map (\<lambda>(k, j). CHR 0x22 # k @ CHR 0x22 # '':'' @ json_text j @ '','') ms) @ ''}''"

definition cjson_reading :: "json list \<Rightarrow> cjson" where
  "cjson_reading docs = \<lparr>cj_parse = map_of (map (\<lambda>d. (json_text d, d)) docs),
     cj_item = (\<lambda>j k. case j of JObj ms \<Rightarrow> map_of ms k | _ \<Rightarrow> None), cj_valueint = floor,
     cj_print = (\<lambda>j. Some (json_text j)), cj_new = (\<lambda>_. True),
     cj_parse_len = map_of (map (\<lambda>d. (json_text d, d)) docs),
     cj_item_cs = (\<lambda>j k. case j of JObj ms \<Rightarrow> map_of ms k | _ \<Rightarrow> None)\<rparr>"

lemma cjson_reading [simp]: "cjson_ok (cjson_reading docs)"
  by (simp add: cjson_ok_def cjson_reading_def)

end
