(* ===== verification/A2a_Route.thy ===== *)
theory A2a_Route
  imports A2a_Adapter Cjson
begin

text \<open>
  The request router of the A2A adapter (\<open>a2a_v03_adapter_route.c\<close>) and the callback that
  feeds it with unified messages (\<open>a2a_adapter_handle_request_cb\<close>).

  \<open>None\<close> as a whole result: a task is given a state number outside the enumeration, which
  the code stores unchecked and for which the task type of the model has no value, or the reply of
  a message handler has two or more messages, whose release reads freed memory. Numbers
  that become doubles are below \<open>2 ^ 53\<close>, where that is exact.
\<close>

section \<open>The JSON forms\<close>

definition a2a_add_str :: "cstring \<Rightarrow> cstring option \<Rightarrow> cstring \<times> json" where
  "a2a_add_str key val = (key, case val of None \<Rightarrow> JNull | Some s \<Rightarrow> JStr s)"

definition a2a_card_json :: "a2a_agent_card \<Rightarrow> json" where
  "a2a_card_json info = JObj [a2a_add_str ''id'' (cd_id info), a2a_add_str ''name'' (cd_name info),
     a2a_add_str ''description'' (cd_description info), a2a_add_str ''url'' (cd_url info),
     a2a_add_str ''version'' (cd_version info), (''protocol_version'', JNum (of_int (cd_protocol_version info))),
     (''capabilities'', JNum (of_int (sint (cd_capabilities info)))), (''available'', JBool (cd_available info))]"

fun task_state_num :: "a2a_task_state \<Rightarrow> int" where
  "task_state_num A2A_TASK_SUBMITTED = 0"
| "task_state_num A2A_TASK_WORKING = 1"
| "task_state_num A2A_TASK_INPUT_REQUIRED = 2"
| "task_state_num A2A_TASK_COMPLETED = 3"
| "task_state_num A2A_TASK_CANCELED = 4"
| "task_state_num A2A_TASK_FAILED = 5"
| "task_state_num A2A_TASK_REJECTED = 6"

definition task_states :: "a2a_task_state list" where
  "task_states = [A2A_TASK_SUBMITTED, A2A_TASK_WORKING, A2A_TASK_INPUT_REQUIRED, A2A_TASK_COMPLETED,
     A2A_TASK_CANCELED, A2A_TASK_FAILED, A2A_TASK_REJECTED]"

definition task_state_of :: "int \<Rightarrow> a2a_task_state option" where
  "task_state_of n = List.find (\<lambda>s. task_state_num s = n) task_states"

definition a2a_task_json :: "a2a_task \<Rightarrow> json" where
  "a2a_task_json task = JObj [(''id'', JStr (tk_id task)), a2a_add_str ''session_id'' (tk_session_id task),
     a2a_add_str ''agent_id'' (tk_agent_id task), (''state'', JNum (of_int (task_state_num (tk_state task)))),
     a2a_add_str ''description'' (tk_description task), a2a_add_str ''input_json'' (tk_input_json task),
     a2a_add_str ''output_json'' (tk_output_json task), (''progress'', JNum (tk_progress task)),
     (''created_at'', JNum (of_nat (unat (tk_created_at task)))),
     (''updated_at'', JNum (of_nat (unat (tk_updated_at task)))),
     a2a_add_str ''error_message'' (tk_error_message task)]"

fun message_type_num :: "a2a_message_type \<Rightarrow> int" where
  "message_type_num A2A_MSG_TEXT = 0"
| "message_type_num A2A_MSG_FILE = 1"
| "message_type_num A2A_MSG_STRUCTURED = 2"
| "message_type_num A2A_MSG_ERROR = 3"

definition a2a_msg_json :: "a2a_message \<Rightarrow> json" where
  "a2a_msg_json msg = JObj [a2a_add_str ''role'' (mg_role msg), (''type'', JNum (of_int (message_type_num (mg_type msg)))),
     a2a_add_str ''content_json'' (mg_content_json msg), a2a_add_str ''mime_type'' (mg_mime_type msg)]"

section \<open>The routes\<close>

text \<open>
  A route works on the adapter, the static card of \<open>a2a_v03_get_agent_card\<close> and the world of
  the handlers. Its result: the code, the response or NULL, and the new state.
\<close>

type_synonym 'w route_state = "'w a2a_adapter \<times> a2a_agent_card \<times> 'w"
type_synonym 'w route_result = "(int \<times> cstring option \<times> 'w route_state) option"
type_synonym 'w a2a_route_fn = "env \<Rightarrow> cjson \<Rightarrow> cstring option \<Rightarrow> 'w route_state \<Rightarrow> 'w route_result"

definition a2a_json_out :: "env \<Rightarrow> cjson \<Rightarrow> json \<Rightarrow> int \<times> cstring option" where
  "a2a_json_out E C obj = (case cj_print C obj of
      None \<Rightarrow> (err E AIRY_ERR_OUT_OF_MEMORY, None)
    | Some str \<Rightarrow> (case strdup E 0 str of None \<Rightarrow> (err E AIRY_ERR_OUT_OF_MEMORY, None) | Some s \<Rightarrow> (0, Some s)))"

text \<open>\<open>obj\<close> is the i-th object of the call, the object around it the next one.\<close>

definition a2a_obj_out :: "env \<Rightarrow> cjson \<Rightarrow> nat \<Rightarrow> json \<Rightarrow> cstring \<Rightarrow> int \<times> cstring option" where
  "a2a_obj_out E C i obj key =
    (if \<not> cj_new C i \<or> \<not> cj_new C (i + 1) then (err E AIRY_ERR_OUT_OF_MEMORY, None)
     else a2a_json_out E C (JObj [(key, obj)]))"

definition parse_params :: "cjson \<Rightarrow> cstring option \<Rightarrow> json option" where
  "parse_params C params_json = cj_parse C (case params_json of None \<Rightarrow> ''{}'' | Some p \<Rightarrow> if p = [] then ''{}'' else p)"

definition reply :: "int \<times> cstring option \<Rightarrow> 'w route_state \<Rightarrow> 'w route_result" where
  "reply r st = Some (fst r, snd r, st)"

text \<open>A result object that is created last, or the error when it is not.\<close>

definition object_out :: "env \<Rightarrow> cjson \<Rightarrow> nat \<Rightarrow> json \<Rightarrow> int \<times> cstring option" where
  "object_out E C i obj = (if \<not> cj_new C i then (err E AIRY_ERR_OUT_OF_MEMORY, None) else a2a_json_out E C obj)"

definition route_card :: "cjson \<Rightarrow> json \<Rightarrow> cstring \<Rightarrow> cstring \<Rightarrow> a2a_agent_card" where
  "route_card C doc i name = zero_card\<lparr>cd_id := Some i, cd_name := Some name, cd_url := item_str C doc ''url'',
     cd_protocol_version := (case item_num C doc ''protocol_version'' of None \<Rightarrow> 3 | Some x \<Rightarrow> cj_valueint C x),
     cd_capabilities := (case item_num C doc ''capabilities'' of None \<Rightarrow> 0 | Some x \<Rightarrow> word_of_int (cj_valueint C x)),
     cd_available := (case cj_item C doc ''available'' of None \<Rightarrow> True | Some v \<Rightarrow> v = JBool True)\<rparr>"

definition a2a_route_reg :: "'w a2a_route_fn" where
  "a2a_route_reg E C params_json st = (case st of (a, cached, w) \<Rightarrow>
     (case parse_params C params_json of
        None \<Rightarrow> reply (err E AIRY_ERR_INVALID_PARAM, None) st
      | Some doc \<Rightarrow>
         (case (item_str C doc ''id'', item_str C doc ''name'') of
            (Some i, Some name) \<Rightarrow>
              if i = [] then reply (err E AIRY_ERR_INVALID_PARAM, None) st
              else (case a2a_v03_register_agent E (Some a) (Some (route_card C doc i name)) of
                 (rc, Some a') \<Rightarrow>
                   if rc \<noteq> 0 then reply (rc, None) (a', cached, w)
                   else reply (object_out E C 0 (JObj [(''registered'', JBool True), (''agent_id'', JStr i)])) (a', cached, w)
               | (rc, None) \<Rightarrow> None)
          | _ \<Rightarrow> reply (err E AIRY_ERR_INVALID_PARAM, None) st)))"

definition a2a_route_unreg :: "'w a2a_route_fn" where
  "a2a_route_unreg E C params_json st = (case st of (a, cached, w) \<Rightarrow>
     (case parse_params C params_json of
        None \<Rightarrow> reply (err E AIRY_ERR_INVALID_PARAM, None) st
      | Some doc \<Rightarrow>
         (case item_str C doc ''agent_id'' of
            None \<Rightarrow> reply (err E AIRY_ERR_INVALID_PARAM, None) st
          | Some agent_id \<Rightarrow>
             (case a2a_v03_unregister_agent E (Some a) (Some agent_id) of
                (rc, Some a') \<Rightarrow>
                  if rc \<noteq> 0 then reply (rc, None) (a', cached, w)
                  else reply (object_out E C 0 (JObj [(''unregistered'', JBool True)])) (a', cached, w)
              | (rc, None) \<Rightarrow> None))))"

text \<open>The items whose creation succeeds; the array is object 0, the i-th result object \<open>1 + i\<close>.\<close>

definition kept_items :: "cjson \<Rightarrow> (nat \<times> json) list \<Rightarrow> json list" where
  "kept_items C js = map snd (filter (\<lambda>(i, j). cj_new C (1 + i)) js)"

definition a2a_route_disc :: "'w a2a_route_fn" where
  "a2a_route_disc E C params_json st = (case st of (a, cached, w) \<Rightarrow>
     (case parse_params C params_json of
        None \<Rightarrow> reply (err E AIRY_ERR_INVALID_PARAM, None) st
      | Some doc \<Rightarrow>
         (case a2a_v03_discover_agents E (Some a) (item_str C doc ''capability'') (item_str C doc ''skill'') True of
            (rc, results) \<Rightarrow>
              if rc \<noteq> 0 then reply (rc, None) st
              else
                (let cards = (case results of None \<Rightarrow> [] | Some cs \<Rightarrow> cs);
                     n = length cards;
                     items = kept_items C (concat (map2 (\<lambda>i c. case c of None \<Rightarrow> [] | Some info \<Rightarrow> [(i, a2a_card_json info)])
                               [0..<n] cards)) in
                 if \<not> cj_new C 0 then reply (err E AIRY_ERR_OUT_OF_MEMORY, None) st
                 else reply (object_out (later (1 + 5 * n) E) C (1 + n)
                   (JObj [(''agents'', JArr items), (''count'', JNum (of_nat n))])) st))))"

definition a2a_route_new :: "'w a2a_route_fn" where
  "a2a_route_new E C params_json st = (case st of (a, cached, w) \<Rightarrow>
     (case parse_params C params_json of
        None \<Rightarrow> reply (err E AIRY_ERR_INVALID_PARAM, None) st
      | Some doc \<Rightarrow>
         (case (item_str C doc ''agent_id'', item_str C doc ''description'') of
            (Some agent_id, Some description) \<Rightarrow>
              (case a2a_v03_create_task E (Some a) (Some agent_id) (Some description) (item_str C doc ''input'') True w of
                 (rc, task, Some a', w') \<Rightarrow>
                   (case task of
                      Some t \<Rightarrow> if rc \<noteq> 0 then reply (rc, None) (a', cached, w')
                        else reply (a2a_obj_out (later 5 E) C 0 (a2a_task_json t) ''task'') (a', cached, w')
                    | None \<Rightarrow> reply (rc, None) (a', cached, w'))
               | (rc, task, None, w') \<Rightarrow> None)
          | _ \<Rightarrow> reply (err E AIRY_ERR_INVALID_PARAM, None) st)))"

text \<open>A number outside the enumeration matters only when it reaches a task.\<close>

definition a2a_route_upd :: "'w a2a_route_fn" where
  "a2a_route_upd E C params_json st = (case st of (a, cached, w) \<Rightarrow>
     (case parse_params C params_json of
        None \<Rightarrow> reply (err E AIRY_ERR_INVALID_PARAM, None) st
      | Some doc \<Rightarrow>
         (case (item_str C doc ''task_id'', item_num C doc ''state'') of
            (Some task_id, Some x) \<Rightarrow>
              (let new_state = task_state_of (cj_valueint C x) in
               case a2a_v03_update_task E (Some a) (Some task_id)
                  (case new_state of None \<Rightarrow> A2A_TASK_SUBMITTED | Some s \<Rightarrow> s) (item_str C doc ''output'')
                  (case item_num C doc ''progress'' of None \<Rightarrow> 0 | Some p \<Rightarrow> p) of
                 (rc, Some a') \<Rightarrow>
                   if rc \<noteq> 0 then reply (rc, None) (a', cached, w)
                   else if new_state = None then None
                   else reply (object_out (later 1 E) C 0 (JObj [(''updated'', JBool True)])) (a', cached, w)
               | (rc, None) \<Rightarrow> None)
          | _ \<Rightarrow> reply (err E AIRY_ERR_INVALID_PARAM, None) st)))"

definition a2a_route_cncl :: "'w a2a_route_fn" where
  "a2a_route_cncl E C params_json st = (case st of (a, cached, w) \<Rightarrow>
     (case parse_params C params_json of
        None \<Rightarrow> reply (err E AIRY_ERR_INVALID_PARAM, None) st
      | Some doc \<Rightarrow>
         (case item_str C doc ''task_id'' of
            None \<Rightarrow> reply (err E AIRY_ERR_INVALID_PARAM, None) st
          | Some task_id \<Rightarrow>
             (case a2a_v03_cancel_task E (Some a) (Some task_id) (item_str C doc ''reason'') of
                (rc, Some a') \<Rightarrow>
                  if rc \<noteq> 0 then reply (rc, None) (a', cached, w)
                  else reply (object_out (later 1 E) C 0 (JObj [(''canceled'', JBool True)])) (a', cached, w)
              | (rc, None) \<Rightarrow> None))))"

definition a2a_route_get :: "'w a2a_route_fn" where
  "a2a_route_get E C params_json st = (case st of (a, cached, w) \<Rightarrow>
     (case parse_params C params_json of
        None \<Rightarrow> reply (err E AIRY_ERR_INVALID_PARAM, None) st
      | Some doc \<Rightarrow>
         (case item_str C doc ''task_id'' of
            None \<Rightarrow> reply (err E AIRY_ERR_INVALID_PARAM, None) st
          | Some task_id \<Rightarrow>
             (case a2a_v03_get_task E (Some a) (Some task_id) True of
                (rc, Some t) \<Rightarrow>
                  if rc \<noteq> 0 then reply (rc, None) st
                  else reply (a2a_obj_out E C 0 (a2a_task_json t) ''task'') st
              | (rc, None) \<Rightarrow> reply (rc, None) st))))"

text \<open>
  A reply is given back with \<open>a2a_msgs_free\<close>, which frees the whole array with its first message and
  then reads the others: with two or more messages the route has no result.
\<close>

definition a2a_route_send :: "'w a2a_route_fn" where
  "a2a_route_send E C params_json st = (case st of (a, cached, w) \<Rightarrow>
     (case parse_params C params_json of
        None \<Rightarrow> reply (err E AIRY_ERR_INVALID_PARAM, None) st
      | Some doc \<Rightarrow>
         (case (item_str C doc ''target_agent_id'', item_str C doc ''role'', item_str C doc ''content'') of
            (Some target, Some role, Some content) \<Rightarrow>
              (let message = \<lparr>mg_role = Some role, mg_type = A2A_MSG_TEXT, mg_content_json = Some content,
                     mg_mime_type = None, mg_file_name = None, mg_file_data = None, mg_file_data_size = 0\<rparr> in
               case a2a_v03_send_message E (Some a) (Some target) (Some message) True True w of
                 (rc, response, w') \<Rightarrow>
                   if rc \<noteq> 0 then reply (rc, None) (a, cached, w')
                   else
                     (let msgs = (case response of None \<Rightarrow> [] | Some ms \<Rightarrow> ms); n = length msgs;
                          items = kept_items C (zip [0..<n] (map a2a_msg_json msgs)) in
                      if 2 \<le> n then None
                      else if \<not> cj_new C 0 then reply (err E AIRY_ERR_OUT_OF_MEMORY, None) (a, cached, w')
                      else reply (object_out (later 4 E) C (1 + n)
                        (JObj [(''responses'', JArr items), (''count'', JNum (of_nat n))])) (a, cached, w')))
          | _ \<Rightarrow> reply (err E AIRY_ERR_INVALID_PARAM, None) st)))"

definition a2a_route_stats :: "env \<Rightarrow> cjson \<Rightarrow> bool \<Rightarrow> 'w route_state \<Rightarrow> 'w route_result" where
  "a2a_route_stats E C with_caps st = (case st of (a, cached, w) \<Rightarrow>
     reply (object_out E C 0 (JObj ([(''agent_count'', JNum (of_nat (a2a_v03_get_agent_count (Some a)))),
       (''task_count'', JNum (of_nat (a2a_v03_get_task_count (Some a))))] @
       (if with_caps then [(''capabilities'', JNum (of_nat (unat (a2a_v03_get_capabilities (Some a)))))] else [])))) st)"

definition a2a_route_cnt :: "'w a2a_route_fn" where
  "a2a_route_cnt E C params_json st = a2a_route_stats E C False st"

definition a2a_route_sta :: "'w a2a_route_fn" where
  "a2a_route_sta E C params_json st = a2a_route_stats E C True st"

definition a2a_route_card :: "'w a2a_route_fn" where
  "a2a_route_card E C params_json st = (case st of (a, cached, w) \<Rightarrow>
     (case parse_params C params_json of
        None \<Rightarrow> reply (err E AIRY_ERR_INVALID_PARAM, None) st
      | Some doc \<Rightarrow>
         (case item_str C doc ''agent_id'' of
            None \<Rightarrow> reply (err E AIRY_ERR_INVALID_PARAM, None) st
          | Some agent_id \<Rightarrow>
             (case a2a_v03_get_agent_card E (Some a) (Some agent_id) cached of
                (None, cached') \<Rightarrow> reply (err E AIRY_ERR_NOT_FOUND, None) (a, cached', w)
              | (Some info, cached') \<Rightarrow>
                  reply (a2a_obj_out (later 4 E) C 0 (a2a_card_json info) ''agent'') (a, cached', w)))))"

definition a2a_routes :: "(cstring \<times> 'w a2a_route_fn) list" where
  "a2a_routes = [(''register_agent'', a2a_route_reg), (''unregister_agent'', a2a_route_unreg),
     (''discover_agents'', a2a_route_disc), (''get_agent_card'', a2a_route_card),
     (''create_task'', a2a_route_new), (''update_task'', a2a_route_upd), (''cancel_task'', a2a_route_cncl),
     (''get_task'', a2a_route_get), (''send_message'', a2a_route_send), (''count'', a2a_route_cnt),
     (''stats'', a2a_route_sta)]"

definition a2a_no_method_text :: cstring where
  "a2a_no_method_text = ''{\"error\":{\"code\":-32601,\"message\":\"Method not found\"}}''"

text \<open>
  The response cell is set to NULL first, and again when the route fails. A NULL context is
  the state \<open>None\<close>; \<open>outs\<close> says whether the response pointer was given.
\<close>

fun a2a_v03_route_request ::
  "env \<Rightarrow> cjson \<Rightarrow> 'w route_state option \<Rightarrow> cstring option \<Rightarrow> cstring option \<Rightarrow> bool \<Rightarrow>
   (int \<times> cstring option \<times> 'w route_state option) option" where
  "a2a_v03_route_request E C (Some st) (Some meth) params_json True =
    (case map_of a2a_routes meth of
       Some f \<Rightarrow> (case f E C params_json st of
          None \<Rightarrow> None
        | Some (rc, response_json, st') \<Rightarrow>
            if rc \<noteq> 0 then Some (rc, None, Some st') else Some (rc, response_json, Some st'))
     | None \<Rightarrow> Some (err E AIRY_ERR_INVALID_PARAM, strdup E 0 a2a_no_method_text, Some st))"
| "a2a_v03_route_request E C st meth params_json outs = Some (err E AIRY_ERR_UNKNOWN, None, st)"

definition a2a_request_failed :: cstring where
  "a2a_request_failed = ''{\"error\":\"request failed\"}''"

text \<open>The callback; its own allocation, made last, is number 0 of \<open>E\<close>, the route uses the others.\<close>

fun a2a_adapter_handle_request_cb ::
  "env \<Rightarrow> cjson \<Rightarrow> 'w route_state option \<Rightarrow> unified_message option \<Rightarrow> bool \<Rightarrow>
   (int \<times> cstring option \<times> 'w route_state option) option" where
  "a2a_adapter_handle_request_cb E C (Some st) (Some msg) True =
    (let meth = (if um_method msg \<noteq> [] then um_method msg else ''stats'');
         params = (case um_payload msg of None \<Rightarrow> ''{}'' | Some p \<Rightarrow> p) in
     case a2a_v03_route_request (later 1 E) C (Some st) (Some meth) (Some params) True of
       None \<Rightarrow> None
     | Some (result, response_json, st') \<Rightarrow>
        if result = 0 \<and> response_json \<noteq> None then Some (0, response_json, st')
        else Some (if result = 0 then err E AIRY_ERR_UNKNOWN else result, strdup E 0 a2a_request_failed, st'))"
| "a2a_adapter_handle_request_cb E C st msg outs = Some (err E AIRY_ERR_UNKNOWN, None, st)"

section \<open>Every request is answered\<close>

lemma json_out_some: "a2a_json_out E C j = (0, r) \<Longrightarrow> codes_ok E \<Longrightarrow> r \<noteq> None"
  by (cases "cj_print C j"; cases "strdup E 0 (the (cj_print C j))") (auto simp: a2a_json_out_def)

lemma object_out_some: "object_out E C i j = (0, r) \<Longrightarrow> codes_ok E \<Longrightarrow> r \<noteq> None"
  by (auto simp: object_out_def dest: json_out_some split: if_splits)

lemma obj_out_some: "a2a_obj_out E C i j k = (0, r) \<Longrightarrow> codes_ok E \<Longrightarrow> r \<noteq> None"
  by (auto simp: a2a_obj_out_def dest: json_out_some split: if_splits)

lemma reply_eq: "reply r st = Some (rc, out, st') \<longleftrightarrow> r = (rc, out) \<and> st' = st"
  by (cases r) (auto simp: reply_def)

text \<open>A route that succeeds leaves a response.\<close>

definition answers :: "'w a2a_route_fn \<Rightarrow> bool" where
  "answers f \<longleftrightarrow> (\<forall>E C ps st out st'. codes_ok E \<longrightarrow> f E C ps st = Some (0, out, st') \<longrightarrow> out \<noteq> None)"

lemma answersI:
  "(\<And>E C ps a cached w out st'. codes_ok E \<Longrightarrow> f E C ps (a, cached, w) = Some (0, out, st') \<Longrightarrow> out \<noteq> None) \<Longrightarrow> answers f"
  unfolding answers_def by (metis prod_cases3)

lemmas route_outs = object_out_some obj_out_some

lemma reg_answers: "answers a2a_route_reg"
  by (rule answersI)
    (auto simp: a2a_route_reg_def reply_eq dest: route_outs simp del: a2a_v03_register_agent.simps
      split: option.splits if_splits prod.splits)

lemma unreg_answers: "answers a2a_route_unreg"
  by (rule answersI)
    (auto simp: a2a_route_unreg_def reply_eq dest: route_outs simp del: a2a_v03_unregister_agent.simps
      split: option.splits if_splits prod.splits)

lemma disc_answers: "answers a2a_route_disc"
  by (rule answersI)
    (auto simp: a2a_route_disc_def reply_eq Let_def dest: route_outs simp del: a2a_v03_discover_agents.simps
      split: option.splits if_splits prod.splits)

lemma new_answers: "answers a2a_route_new"
  by (rule answersI)
    (auto simp: a2a_route_new_def reply_eq dest: route_outs split: option.splits if_splits prod.splits)

lemma upd_answers: "answers a2a_route_upd"
  by (rule answersI)
    (auto simp: a2a_route_upd_def reply_eq Let_def dest: route_outs simp del: a2a_v03_update_task.simps
      split: option.splits if_splits prod.splits)

lemma cncl_answers: "answers a2a_route_cncl"
  by (rule answersI)
    (auto simp: a2a_route_cncl_def reply_eq dest: route_outs simp del: a2a_v03_cancel_task.simps
      split: option.splits if_splits prod.splits)

lemma get_answers: "answers a2a_route_get"
  by (rule answersI)
    (auto simp: a2a_route_get_def reply_eq dest: route_outs split: option.splits if_splits prod.splits)

lemma send_answers: "answers a2a_route_send"
  by (rule answersI)
    (auto simp: a2a_route_send_def reply_eq Let_def dest: route_outs simp del: a2a_v03_send_message.simps
      split: option.splits if_splits prod.splits)

lemma card_answers: "answers a2a_route_card"
  by (rule answersI)
    (auto simp: a2a_route_card_def reply_eq dest: route_outs simp del: a2a_v03_get_agent_card.simps
      split: option.splits if_splits prod.splits)

lemma stats_answers: "answers a2a_route_cnt" "answers a2a_route_sta"
  by (rule answersI; auto simp: a2a_route_cnt_def a2a_route_sta_def a2a_route_stats_def reply_eq dest: route_outs)+

lemmas each_answers = reg_answers unreg_answers disc_answers new_answers upd_answers cncl_answers get_answers
  send_answers card_answers stats_answers

lemma route_answers: "map_of a2a_routes m = Some f \<Longrightarrow> answers f"
  by (auto simp: a2a_routes_def each_answers split: if_splits)

section \<open>No request breaks the adapter\<close>

text \<open>A route works on reachable contexts, and it has a result on every input.\<close>

definition keeps :: "'w a2a_route_fn \<Rightarrow> bool" where
  "keeps f \<longleftrightarrow> (\<forall>E C ps a cached w rc out a' cached' w'. strncpy_ok E \<longrightarrow> a2a_reachable a \<longrightarrow>
     f E C ps (a, cached, w) = Some (rc, out, (a', cached', w')) \<longrightarrow> a2a_reachable a')"

definition total_route :: "'w a2a_route_fn \<Rightarrow> bool" where
  "total_route f \<longleftrightarrow> (\<forall>E C ps st. f E C ps st \<noteq> None)"

lemma ops_give_ctx:
  "a2a_v03_register_agent E (Some a) info = (rc, None) \<Longrightarrow> False"
  "a2a_v03_unregister_agent E (Some a) i = (rc, None) \<Longrightarrow> False"
  "a2a_v03_cancel_task E (Some a) i r = (rc, None) \<Longrightarrow> False"
  "a2a_v03_update_task E (Some a) i s out p = (rc, None) \<Longrightarrow> False"
  by (cases info; auto simp: Let_def split: option.splits if_splits)
    (cases i; auto simp: Let_def split: option.splits if_splits)+

lemma reg_total: "total_route a2a_route_reg"
  by (auto simp: total_route_def a2a_route_reg_def reply_def simp del: a2a_v03_register_agent.simps
      split: option.splits if_splits prod.splits dest: ops_give_ctx)

lemma unreg_total: "total_route a2a_route_unreg"
  by (auto simp: total_route_def a2a_route_unreg_def reply_def simp del: a2a_v03_unregister_agent.simps
      split: option.splits if_splits prod.splits dest: ops_give_ctx)

lemma cncl_total: "total_route a2a_route_cncl"
  by (auto simp: total_route_def a2a_route_cncl_def reply_def simp del: a2a_v03_cancel_task.simps
      split: option.splits if_splits prod.splits dest: ops_give_ctx)

lemma new_total: "total_route a2a_route_new"
  by (auto simp: total_route_def a2a_route_new_def reply_def split: option.split if_split prod.split)

lemma read_total:
  "total_route a2a_route_disc" "total_route a2a_route_get"
  "total_route a2a_route_card" "total_route a2a_route_cnt" "total_route a2a_route_sta"
  by (simp_all add: total_route_def a2a_route_disc_def a2a_route_get_def a2a_route_card_def
      a2a_route_cnt_def a2a_route_sta_def a2a_route_stats_def reply_def Let_def
      del: a2a_v03_discover_agents.simps a2a_v03_get_task.simps
        a2a_v03_get_agent_card.simps split: option.split if_split prod.split)

lemma route_total: "map_of a2a_routes m = Some f \<Longrightarrow> m \<noteq> ''update_task'' \<Longrightarrow> m \<noteq> ''send_message'' \<Longrightarrow> total_route f"
  by (auto simp: a2a_routes_def reg_total unreg_total cncl_total new_total read_total split: if_splits)

lemma upd_defined:
  "a2a_route_upd E C ps st = None \<Longrightarrow>
   \<exists>doc x. parse_params C ps = Some doc \<and> item_num C doc ''state'' = Some x \<and> task_state_of (cj_valueint C x) = None"
  by (auto simp: a2a_route_upd_def reply_def Let_def simp del: a2a_v03_update_task.simps
      split: option.splits if_splits prod.splits dest: ops_give_ctx)

lemma send_defined:
  "a2a_route_send E C ps (a, cached, w) = None \<Longrightarrow>
   \<exists>target message ms w'. a2a_v03_send_message E (Some a) (Some target) (Some message) True True w = (0, Some ms, w') \<and> 2 \<le> length ms"
  by (auto simp: a2a_route_send_def reply_def Let_def simp del: a2a_v03_send_message.simps
      split: option.splits if_splits prod.splits)

text \<open>
  The two requests that may have no result: one that stores a state number outside the enumeration
  in a task, and one whose message handler replies with two or more messages.
\<close>

definition goes_wrong :: "env \<Rightarrow> cjson \<Rightarrow> cstring option \<Rightarrow> 'w route_state \<Rightarrow> cstring \<Rightarrow> bool" where
  "goes_wrong E C ps st m \<longleftrightarrow>
    m = ''update_task'' \<and> (\<exists>doc x. parse_params C ps = Some doc \<and> item_num C doc ''state'' = Some x \<and>
        task_state_of (cj_valueint C x) = None) \<or>
    m = ''send_message'' \<and> (\<exists>target message ms w'. a2a_v03_send_message E (Some (fst st)) (Some target) (Some message)
        True True (snd (snd st)) = (0, Some ms, w') \<and> 2 \<le> length ms)"

lemma route_defined: "map_of a2a_routes m = Some f \<Longrightarrow> f E C ps st = None \<Longrightarrow> goes_wrong E C ps st m"
proof -
  assume f: "map_of a2a_routes m = Some f" "f E C ps st = None"
  then have m: "m = ''update_task'' \<or> m = ''send_message''" using route_total [OF f(1)] unfolding total_route_def by blast
  obtain a cached w where st: "st = (a, cached, w)" by (cases st)
  from m show ?thesis
  proof
    assume "m = ''update_task''"
    moreover from this f have "a2a_route_upd E C ps st = None" by (simp add: a2a_routes_def)
    ultimately show ?thesis using upd_defined unfolding goes_wrong_def by blast
  next
    assume m: "m = ''send_message''"
    with f have "a2a_route_send E C ps (a, cached, w) = None" by (simp add: a2a_routes_def st)
    from send_defined [OF this] show ?thesis unfolding goes_wrong_def st m by simp
  qed
qed

text \<open>Without a message handler the adapter replies with one message.\<close>

lemma ack_not_wrong: "aa_message_handler a = None \<Longrightarrow> \<not> goes_wrong E C ps (a, cached, w) ''send_message''"
  by (auto simp: goes_wrong_def split: if_splits option.splits)

lemma reg_keeps: "keeps a2a_route_reg"
  unfolding keeps_def
  by (auto simp: a2a_route_reg_def reply_eq simp del: a2a_v03_register_agent.simps
      split: option.splits if_splits prod.splits dest: ops_give_ctx intro: a2a_reachable.r_register)

lemma unreg_keeps: "keeps a2a_route_unreg"
  unfolding keeps_def
  by (auto simp: a2a_route_unreg_def reply_eq simp del: a2a_v03_unregister_agent.simps
      split: option.splits if_splits prod.splits dest: ops_give_ctx intro: a2a_reachable.r_unregister)

lemma new_keeps: "keeps a2a_route_new"
  unfolding keeps_def
  by (auto simp: a2a_route_new_def reply_eq simp del: a2a_v03_create_task.simps
      split: option.splits if_splits prod.splits intro: a2a_reachable.r_create_task)

lemma upd_keeps: "keeps a2a_route_upd"
  unfolding keeps_def
  by (auto simp: a2a_route_upd_def reply_eq Let_def simp del: a2a_v03_update_task.simps
      split: option.splits if_splits prod.splits intro: a2a_reachable.r_update_task)

lemma cncl_keeps: "keeps a2a_route_cncl"
  unfolding keeps_def
  by (auto simp: a2a_route_cncl_def reply_eq simp del: a2a_v03_cancel_task.simps
      split: option.splits if_splits prod.splits intro: a2a_reachable.r_cancel_task)

lemma read_keeps:
  "keeps a2a_route_disc" "keeps a2a_route_get" "keeps a2a_route_send" "keeps a2a_route_card" "keeps a2a_route_cnt"
  "keeps a2a_route_sta"
  unfolding keeps_def
  by (auto simp: a2a_route_disc_def a2a_route_get_def a2a_route_send_def a2a_route_card_def
      a2a_route_cnt_def a2a_route_sta_def a2a_route_stats_def reply_eq Let_def
      simp del: a2a_v03_discover_agents.simps a2a_v03_get_task.simps a2a_v03_send_message.simps
        a2a_v03_get_agent_card.simps split: option.splits if_splits prod.splits)

lemma route_keeps: "map_of a2a_routes m = Some f \<Longrightarrow> keeps f"
  by (auto simp: a2a_routes_def reg_keeps unreg_keeps new_keeps upd_keeps cncl_keeps read_keeps split: if_splits)

text \<open>The router in terms of the table, once the pointers are there.\<close>

lemma route_request_eq:
  "a2a_v03_route_request E C (Some st) (Some m) ps True =
    (case map_of a2a_routes m of
       None \<Rightarrow> Some (err E AIRY_ERR_INVALID_PARAM, strdup E 0 a2a_no_method_text, Some st)
     | Some f \<Rightarrow> map_option (\<lambda>(rc, out, st'). (rc, if rc \<noteq> 0 then None else out, Some st')) (f E C ps st))"
  by (auto split: option.split)

lemma requestD:
  fixes st :: "'w route_state"
  assumes "a2a_v03_route_request E C (Some st) (Some m) ps True = Some (rc, out, st')"
  shows "((map_of a2a_routes m :: 'w a2a_route_fn option) = None \<and> rc = err E AIRY_ERR_INVALID_PARAM \<and> out = strdup E 0 a2a_no_method_text \<and>
      st' = Some st) \<or>
    (\<exists>f r s. map_of a2a_routes m = Some f \<and> f E C ps st = Some (rc, r, s) \<and> out = (if rc \<noteq> 0 then None else r) \<and>
      st' = Some s)"
  using assms by (auto simp del: a2a_v03_route_request.simps simp: route_request_eq split: option.splits)

text \<open>
  C19: no request, with whatever method and parameters, takes the adapter out of the states
  its operations can reach, so its tables keep their bounds and their task names stay
  distinct; and every request has a result, except possibly one that writes a state number
  outside the enumeration into a task, and one whose message handler replies with two or more
  messages.
\<close>

theorem a2a_request_safe:
  assumes "strncpy_ok E" "a2a_reachable a"
  shows "(\<forall>rc out st'. a2a_v03_route_request E C (Some (a, cached, w)) m ps outs = Some (rc, out, st') \<longrightarrow>
      (\<exists>a' cached' w'. st' = Some (a', cached', w') \<and> a2a_reachable a' \<and> a2a_wf a')) \<and>
    (a2a_v03_route_request E C (Some (a, cached, w)) m ps outs = None \<longrightarrow>
      (\<exists>i. m = Some i \<and> goes_wrong E C ps (a, cached, w) i))"
proof (cases "outs \<and> m \<noteq> None")
  case False
  then show ?thesis using reachable_wf [OF assms(2)] assms(2) by (cases m; cases outs) auto
next
  case True
  then obtain i where m: "outs" "m = Some i" by auto
  let ?r = "a2a_v03_route_request E C (Some (a, cached, w)) (Some i) ps True"
  have keep: "\<exists>a' cached' w'. st' = Some (a', cached', w') \<and> a2a_reachable a' \<and> a2a_wf a'"
    if r: "?r = Some (rc, out, st')" for rc out st'
    using requestD [OF r]
  proof (elim disjE exE conjE)
    fix f r s assume f: "map_of a2a_routes i = Some f" "f E C ps (a, cached, w) = Some (rc, r, s)" "st' = Some s"
    obtain a' cached' w' where s: "s = (a', cached', w')" by (cases s)
    have "a2a_reachable a'" using route_keeps [OF f(1)] assms f(2) unfolding keeps_def s by blast
    then show ?thesis using reachable_wf f(3) s by auto
  qed (use assms(2) reachable_wf in auto)
  have "goes_wrong E C ps (a, cached, w) i" if r: "?r = None"
  proof -
    obtain f where f: "map_of a2a_routes i = Some f" "f E C ps (a, cached, w) = None"
      using r by (auto simp: route_request_eq simp del: a2a_v03_route_request.simps split: option.splits)
    then show ?thesis by (rule route_defined)
  qed
  with keep show ?thesis unfolding m(2) using m(1) by simp
qed

text \<open>
  C20: what a unified message gets, exactly. With memory available every one gets a response,
  unless it stores a state number outside the enumeration or its message handler replies with
  two or more messages. A request that succeeds gets the text of its route; one that fails gets
  the fixed failure text with the code of the failure; an unknown method does so and changes
  nothing. A message without a method asks for the statistics.
\<close>

theorem a2a_request_answered:
  assumes "codes_ok E" "mem_ok E" "m = (if um_method msg = [] then ''stats'' else um_method msg)"
    "ps = Some (case um_payload msg of None \<Rightarrow> ''{}'' | Some p \<Rightarrow> p)"
  shows "a2a_adapter_handle_request_cb E C (Some st) (Some msg) True =
      (case map_of a2a_routes m of
         None \<Rightarrow> Some (err E AIRY_ERR_INVALID_PARAM, Some a2a_request_failed, Some st)
       | Some f \<Rightarrow> map_option (\<lambda>(rc, r, s). (rc, if rc = 0 then r else Some a2a_request_failed, Some s)) (f (later 1 E) C ps st)) \<and>
    (\<not> goes_wrong (later 1 E) C ps st m \<longrightarrow>
      (\<exists>rc t st'. a2a_adapter_handle_request_cb E C (Some st) (Some msg) True = Some (rc, Some t, st')))"
proof -
  let ?cb = "a2a_adapter_handle_request_cb E C (Some st) (Some msg) True"
  have cb: "?cb = (case a2a_v03_route_request (later 1 E) C (Some st) (Some m) ps True of None \<Rightarrow> None
     | Some (result, response_json, st') \<Rightarrow>
        if result = 0 \<and> response_json \<noteq> None then Some (0, response_json, st')
        else Some (if result = 0 then err E AIRY_ERR_UNKNOWN else result, Some a2a_request_failed, st'))"
  proof -
    have d: "strdup E 0 a2a_request_failed = Some a2a_request_failed" using assms(2) by simp
    show ?thesis unfolding a2a_adapter_handle_request_cb.simps Let_def d assms(3,4)
      by (cases "um_method msg = []") (simp_all del: a2a_v03_route_request.simps)
  qed
  show ?thesis
  proof (cases "map_of a2a_routes m :: 'a a2a_route_fn option")
    case None
    then show ?thesis using assms(1,2) by (simp add: cb route_request_eq del: a2a_v03_route_request.simps a2a_adapter_handle_request_cb.simps)
  next
    case (Some f)
    have "r \<noteq> None" if "f (later 1 E) C ps st = Some (0, r, s)" for r s
      using route_answers [OF Some] that assms(1) unfolding answers_def by (metis later_ok(1))
    moreover have "\<not> goes_wrong (later 1 E) C ps st m \<Longrightarrow> f (later 1 E) C ps st \<noteq> None"
      using route_defined [OF Some] by blast
    ultimately show ?thesis using Some
      by (cases "f (later 1 E) C ps st")
        (auto simp: cb route_request_eq simp del: a2a_v03_route_request.simps a2a_adapter_handle_request_cb.simps)
  qed
qed

section \<open>A task over the wire\<close>

lemma json_out_ok: "cjson_ok C \<Longrightarrow> mem_ok E \<Longrightarrow> a2a_json_out E C j = (0, cj_print C j)"
proof -
  assume ok: "cjson_ok C" "mem_ok E"
  then obtain s where "cj_print C j = Some s" unfolding cjson_ok_def by blast
  with ok(2) show ?thesis by (simp add: a2a_json_out_def)
qed

lemma obj_out_ok: "cjson_ok C \<Longrightarrow> mem_ok E \<Longrightarrow> a2a_obj_out E C i j k = (0, cj_print C (JObj [(k, j)]))"
  by (simp add: a2a_obj_out_def json_out_ok) (simp add: cjson_ok_def)

lemma object_out_ok: "cjson_ok C \<Longrightarrow> mem_ok E \<Longrightarrow> object_out E C i j = (0, cj_print C j)"
  by (simp add: object_out_def json_out_ok) (simp add: cjson_ok_def)

lemma route_pick:
  "map_of a2a_routes ''create_task'' = Some a2a_route_new" "map_of a2a_routes ''get_task'' = Some a2a_route_get"
  "map_of a2a_routes ''cancel_task'' = Some a2a_route_cncl"
  by (simp_all add: a2a_routes_def)

text \<open>Reading one of the tasks of a reachable context, and cancelling it.\<close>

lemma get_task_request:
  assumes "cjson_ok C" "mem_ok E" "a2a_reachable a" "aa_initialized a" "t \<in> set (aa_tasks a)"
    and "parse_params C ps = Some doc" "item_str C doc ''task_id'' = Some (tk_id t)"
  shows "a2a_v03_route_request E C (Some (a, cached, w)) (Some ''get_task'') ps True =
    Some (0, cj_print C (JObj [(''task'', a2a_task_json t)]), Some (a, cached, w))"
proof -
  have d: "distinct (map tk_id (aa_tasks a))" using task_ids_distinct [OF reachable_wf] assms(3) .
  then have "task_map (aa_tasks a) (tk_id t) = Some t" using assms(5) by (simp add: task_map_Some)
  then have "a2a_v03_get_task E (Some a) (Some (tk_id t)) True = (0, Some t)"
    using get_task_eq [OF assms(4) d] by simp
  then show ?thesis
    using assms(1,2,6,7)
    by (simp add: route_request_eq route_pick a2a_route_get_def obj_out_ok reply_def
        del: a2a_v03_route_request.simps a2a_v03_get_task.simps)
qed

lemma cancel_task_request:
  assumes "cjson_ok C" "mem_ok E" "a2a_reachable a" "aa_initialized a" "k < length (aa_tasks a)"
    and "parse_params C ps = Some doc" "item_str C doc ''task_id'' = Some (tk_id (aa_tasks a ! k))"
    and "item_str C doc ''reason'' = Some r"
  shows "a2a_v03_route_request E C (Some (a, cached, w)) (Some ''cancel_task'') ps True =
    Some (0, cj_print C (JObj [(''canceled'', JBool True)]),
      Some (set_task k (\<lambda>t. t\<lparr>tk_state := A2A_TASK_CANCELED, tk_updated_at := wall_ms E 0,
        tk_error_message := Some r\<rparr>) a, cached, w))"
proof -
  have "find_task a (tk_id (aa_tasks a ! k)) = Some k"
    using find_task_eq [OF task_ids_distinct [OF reachable_wf [OF assms(3)]]] assms(5) by simp
  then show ?thesis
    using assms(1,2,4,6,7,8)
    by (simp add: route_request_eq route_pick a2a_route_cncl_def object_out_ok reply_def del: a2a_v03_route_request.simps)
qed

text \<open>
  C21: a task over the wire. With memory available, \<open>create_task\<close> appends one task to the
  table and answers with its JSON form; \<open>get_task\<close> with the name of that task answers with
  the same text and changes nothing. After \<open>cancel_task\<close>, \<open>get_task\<close> shows the task in the
  state canceled (number 4) with the given reason, everything else but the time unchanged.
\<close>

theorem task_wire_roundtrip:
  assumes "cjson_ok C" "codes_ok E" "mem_ok E" "a2a_reachable a" "aa_initialized a"
    "length (aa_tasks a) < A2A_V03_MAX_TASKS"
    and new: "parse_params C new = Some doc" "item_str C doc ''agent_id'' = Some ag"
      "item_str C doc ''description'' = Some d"
  shows "\<exists>t a1 w1. a2a_v03_route_request E C (Some (a, cached, w)) (Some ''create_task'') new True =
      Some (0, cj_print C (JObj [(''task'', a2a_task_json t)]), Some (a1, cached, w1)) \<and>
    aa_tasks a1 = aa_tasks a @ [t] \<and>
    (\<forall>q doc' r. parse_params C q = Some doc' \<and> item_str C doc' ''task_id'' = Some (tk_id t) \<and>
        item_str C doc' ''reason'' = Some r \<longrightarrow>
      a2a_v03_route_request E C (Some (a1, cached, w1)) (Some ''get_task'') q True =
        Some (0, cj_print C (JObj [(''task'', a2a_task_json t)]), Some (a1, cached, w1)) \<and>
      (\<exists>out a2. a2a_v03_route_request E C (Some (a1, cached, w1)) (Some ''cancel_task'') q True =
          Some (0, out, Some (a2, cached, w1)) \<and>
        a2a_v03_route_request E C (Some (a2, cached, w1)) (Some ''get_task'') q True =
          Some (0, cj_print C (JObj [(''task'', a2a_task_json (t\<lparr>tk_state := A2A_TASK_CANCELED,
            tk_updated_at := wall_ms E 0, tk_error_message := Some r\<rparr>))]), Some (a2, cached, w1))))"
proof -
  let ?h = "handle_task a (new_task E (length (aa_tasks a)) (Some ag) (Some d) (item_str C doc ''input'')) w"
  define t where "t = fst ?h"
  define a1 where "a1 = a\<lparr>aa_tasks := aa_tasks a @ [t]\<rparr>"
  have c: "a2a_v03_create_task E (Some a) (Some ag) (Some d) (item_str C doc ''input'') True w = (0, Some t, Some a1, snd ?h)"
    using assms by (cases ?h) (simp add: t_def a1_def mem_ok_def)
  have r1: "a2a_reachable a1" by (rule r_create_task [OF assms(4) c])
  have i1: "aa_initialized a1" "t \<in> set (aa_tasks a1)" using assms(5) by (simp_all add: a1_def)
  have "a2a_v03_route_request E C (Some (a, cached, w)) (Some ''create_task'') new True =
      Some (0, cj_print C (JObj [(''task'', a2a_task_json t)]), Some (a1, cached, snd ?h))"
    using c new assms(1,3)
    by (simp add: route_request_eq route_pick a2a_route_new_def obj_out_ok reply_def
        del: a2a_v03_route_request.simps a2a_v03_create_task.simps)
  moreover have "\<exists>out a2. a2a_v03_route_request E C (Some (a1, cached, snd ?h)) (Some ''cancel_task'') q True =
          Some (0, out, Some (a2, cached, snd ?h)) \<and>
        a2a_v03_route_request E C (Some (a2, cached, snd ?h)) (Some ''get_task'') q True =
          Some (0, cj_print C (JObj [(''task'', a2a_task_json (t\<lparr>tk_state := A2A_TASK_CANCELED,
            tk_updated_at := wall_ms E 0, tk_error_message := Some r\<rparr>))]), Some (a2, cached, snd ?h))"
    if q: "parse_params C q = Some doc'" "item_str C doc' ''task_id'' = Some (tk_id t)"
      "item_str C doc' ''reason'' = Some r" for q doc' r
  proof -
    let ?n = "length (aa_tasks a)"
    let ?f = "\<lambda>t :: a2a_task. t\<lparr>tk_state := A2A_TASK_CANCELED, tk_updated_at := wall_ms E 0, tk_error_message := Some r\<rparr>"
    let ?a2 = "set_task ?n ?f a1"
    have n: "?n < length (aa_tasks a1)" "aa_tasks a1 ! ?n = t" by (simp_all add: a1_def)
    have "find_task a1 (tk_id t) = Some ?n"
      using find_task_eq [OF task_ids_distinct [OF reachable_wf [OF r1]]] n by simp
    then have "a2a_v03_cancel_task E (Some a1) (Some (tk_id t)) (Some r) = (0, Some ?a2)"
      using i1(1) assms(3) by simp
    then have r2: "a2a_reachable ?a2" by (rule r_cancel_task [OF r1])
    have i2: "aa_initialized ?a2" "?f t \<in> set (aa_tasks ?a2)"
      using i1(1) n by (auto simp: set_task_def a1_def)
    note cancel_task_request [OF assms(1,3) r1 i1(1) n(1) q(1) _ q(3), of cached "snd ?h"]
    with q(2) n(2) get_task_request [OF assms(1,3) r2 i2 q(1), of cached "snd ?h"] show ?thesis by auto
  qed
  ultimately show ?thesis
    using get_task_request [OF assms(1,3) r1 i1] by (intro exI [of _ t] exI [of _ a1] exI [of _ "snd ?h"]) (auto simp: a1_def)
qed

section \<open>Closed instances\<close>

text \<open>A concrete library that reads three texts.\<close>

definition doc_new :: json where
  "doc_new = JObj [(''agent_id'', JStr ''planner''), (''description'', JStr ''survey'')]"

definition doc_task :: json where
  "doc_task = JObj [(''task_id'', JStr ''task_0_1000000''), (''reason'', JStr ''late'')]"

definition cjson0 :: cjson where
  "cjson0 = cjson_reading [JObj [], doc_new, doc_task]"

lemma cjson0: "cjson_ok cjson0"
  by (simp add: cjson0_def)

lemma cjson0_docs:
  "parse_params cjson0 (Some (json_text doc_new)) = Some doc_new" "item_str cjson0 doc_new ''agent_id'' = Some ''planner''"
  "item_str cjson0 doc_new ''description'' = Some ''survey''"
  by (simp_all add: parse_params_def cjson0_def cjson_reading_def doc_new_def doc_task_def item_str_def str_of_def)

theorem task_wire_roundtrip_witness:
  "\<exists>t a1. a2a_v03_route_request env0 cjson0 (Some (fresh_a2a, zero_card, ())) (Some ''create_task'')
      (Some (json_text doc_new)) True = Some (0, cj_print cjson0 (JObj [(''task'', a2a_task_json t)]), Some (a1, zero_card, ())) \<and>
    aa_tasks a1 = [t]"
proof -
  have "length (aa_tasks fresh_a2a) < A2A_V03_MAX_TASKS" by (simp add: fresh_a2a(3))
  from task_wire_roundtrip [OF cjson0 env0_ok(1,3) fresh_a2a(1,2) this cjson0_docs, of zero_card "()"]
  show ?thesis unfolding fresh_a2a(3) append_Nil by auto
qed

theorem a2a_request_safe_witness:
  "a2a_v03_route_request env0 cjson0 (Some (fresh_a2a, zero_card, ())) (Some ''stats'') None True \<noteq> None"
  using a2a_request_safe [OF env0_ok(2) fresh_a2a(1), of cjson0 zero_card "()" "Some ''stats''" None True]
  by (auto simp: goes_wrong_def simp del: a2a_v03_route_request.simps)

theorem a2a_request_answered_witness:
  "\<exists>st'. a2a_adapter_handle_request_cb env0 cjson0 (Some (fresh_a2a, zero_card, ()))
      (Some (zero_message\<lparr>um_method := ''ping''\<rparr>)) True = Some (err env0 AIRY_ERR_INVALID_PARAM, Some a2a_request_failed, st') \<and>
    st' = Some (fresh_a2a, zero_card, ())"
proof -
  have "(map_of a2a_routes ''ping'' :: unit a2a_route_fn option) = None" by (simp add: a2a_routes_def)
  with a2a_request_answered [OF env0_ok(1,3) refl refl, where msg = "zero_message\<lparr>um_method := ''ping''\<rparr>" and C = cjson0 and st = "(fresh_a2a, zero_card, ())"]
  show ?thesis by (simp del: a2a_adapter_handle_request_cb.simps)
qed

end
