(* ===== verification/Mcp_Frame.thy ===== *)
theory Mcp_Frame
  imports Airy_Prelude
begin

text \<open>
  The message frames of the MCP client: the incremental parser of
  \<open>mcp_client_frame.c\<close> and the reading and writing loops of \<open>mcp_client_stdio.c\<close>.

  What the operating system answers to \<open>poll\<close>, \<open>read\<close> and \<open>write\<close> is a list of events that
  the loops consume; a loop that needs an event when there is none left is still waiting,
  and its result is \<open>None\<close>. \<open>cp b off n\<close> is what \<open>AIRY_MEMCPY(b, b + off, n)\<close> leaves in the
  first \<open>n\<close> bytes of \<open>b\<close>; the code relies on it also where the two ranges overlap.
\<close>

abbreviation (input) MCP_CLIENT_READ_CHUNK :: nat where "MCP_CLIENT_READ_CHUNK \<equiv> 4096"
abbreviation (input) MCP_CLIENT_HEADER_MAX :: nat where "MCP_CLIENT_HEADER_MAX \<equiv> 8192"
abbreviation (input) MCP_CLIENT_MAX_MESSAGE_SIZE :: nat where "MCP_CLIENT_MAX_MESSAGE_SIZE \<equiv> 10485760"
abbreviation MCP_CLIENT_ERR_PROCESS_EXIT :: int where "MCP_CLIENT_ERR_PROCESS_EXIT \<equiv> - 2001"
abbreviation MCP_CLIENT_ERR_FRAME :: int where "MCP_CLIENT_ERR_FRAME \<equiv> - 2005"
abbreviation CR :: char where "CR \<equiv> CHR 0x0D"
abbreviation LF :: char where "LF \<equiv> CHR 0x0A"
abbreviation NUL :: char where "NUL \<equiv> CHR 0x00"

section \<open>The parser\<close>

datatype mcp_frame_state = MCP_FRAME_STATE_HEADER | MCP_FRAME_STATE_BODY

text \<open>\<open>fp_buf\<close> is the part of the buffer that is in use, the first \<open>len\<close> bytes.\<close>

record mcp_frame_parser =
  fp_buf :: "char list"
  fp_cap :: nat
  fp_state :: mcp_frame_state
  fp_hdr_end :: nat
  fp_body_expected :: nat
  fp_header_text :: "cstring option"

type_synonym overlap_copy = "char list \<Rightarrow> nat \<Rightarrow> nat \<Rightarrow> char list"

text \<open>The offset behind the first empty line.\<close>

fun find_header_end :: "char list \<Rightarrow> nat option" where
  "find_header_end (a # b # c # d # r) =
    (if a = CR \<and> b = LF \<and> c = CR \<and> d = LF then Some 4
     else map_option Suc (find_header_end (b # c # d # r)))"
| "find_header_end _ = None"

text \<open>The length of the first line, without its end.\<close>

fun line_end :: "char list \<Rightarrow> nat option" where
  "line_end (a # b # r) = (if a = CR \<and> b = LF then Some 0 else map_option Suc (line_end (b # r)))"
| "line_end _ = None"

lemma line_end_lt: "line_end s = Some k \<Longrightarrow> k + 2 \<le> length s"
  by (induction s arbitrary: k rule: line_end.induct) (auto split: if_splits)

definition strtoul :: "cstring \<Rightarrow> nat" where
  "strtoul ds = min (dval ds) (2 ^ 64 - 1)"

text \<open>\<open>None\<close>: no such header, or no number in it.\<close>

function parse_content_length :: "char list \<Rightarrow> nat option" where
  "parse_content_length hdr = (case line_end hdr of None \<Rightarrow> None
     | Some line_len \<Rightarrow>
        if 15 \<le> line_len \<and> strcasecmp_eq (take 15 hdr) ''content-length:''
        then (let v = dropWhile (\<lambda>c. c = CHR '' '' \<or> c = CHR 0x09) (drop 15 (take line_len hdr));
                  num_buf = take 31 (takeWhile isdigit v)
              in if num_buf = [] then None else Some (strtoul num_buf))
        else parse_content_length (drop (line_len + 2) hdr))"
  by auto
termination
  by (relation "measure length") (auto dest!: line_end_lt)

declare parse_content_length.simps [simp del]

definition frame_parser_init :: mcp_frame_parser where
  "frame_parser_init = \<lparr>fp_buf = [], fp_cap = 0, fp_state = MCP_FRAME_STATE_HEADER, fp_hdr_end = 0,
     fp_body_expected = 0, fp_header_text = None\<rparr>"

definition frame_parser_destroy :: "mcp_frame_parser option \<Rightarrow> mcp_frame_parser option" where
  "frame_parser_destroy p = map_option (\<lambda>_. frame_parser_init) p"

text \<open>\<open>while (new_cap < need) new_cap *= 2;\<close>, started with a positive number.\<close>

function grow_cap :: "nat \<Rightarrow> nat \<Rightarrow> nat" where
  "grow_cap new_cap need = (if 0 < new_cap \<and> new_cap < need then grow_cap (new_cap * 2) need else new_cap)"
  by auto
termination
  by (relation "measure (\<lambda>(c, n). n - c)") auto

declare grow_cap.simps [simp del]

definition frame_parser_append :: "env \<Rightarrow> mcp_frame_parser \<Rightarrow> char list \<Rightarrow> int \<times> mcp_frame_parser" where
  "frame_parser_append E p data =
    (let len = length (fp_buf p); n = length data in
     if n = 0 then (0, p)
     else if MCP_CLIENT_MAX_MESSAGE_SIZE + MCP_CLIENT_HEADER_MAX < len + n then (err E AIRY_ERR_OVERFLOW, p)
     else if fp_cap p < len + n
       then if \<not> mem E 0 then (err E AIRY_ERR_OUT_OF_MEMORY, p)
         else (0, p\<lparr>fp_buf := fp_buf p @ data,
           fp_cap := grow_cap (if fp_cap p = 0 then MCP_CLIENT_READ_CHUNK else fp_cap p) (len + n)\<rparr>)
     else (0, p\<lparr>fp_buf := fp_buf p @ data\<rparr>))"

text \<open>\<open>AIRY_STRNDUP\<close> stops at a NUL byte.\<close>

definition strndup :: "env \<Rightarrow> nat \<Rightarrow> char list \<Rightarrow> nat \<Rightarrow> cstring option" where
  "strndup E i s n = strdup E i (takeWhile (\<lambda>c. c \<noteq> NUL) (take n s))"

text \<open>The body part of a take: 0 with the body, or 1 when it is not complete.\<close>

definition take_body :: "env \<Rightarrow> overlap_copy \<Rightarrow> mcp_frame_parser \<Rightarrow> int \<times> cstring option \<times> mcp_frame_parser" where
  "take_body E cp p =
    (let frame_total = fp_hdr_end p + fp_body_expected p; len = length (fp_buf p) in
     if len < frame_total then (1, None, p)
     else case strndup E 1 (drop (fp_hdr_end p) (fp_buf p)) (fp_body_expected p) of
         None \<Rightarrow> (err E AIRY_ERR_OUT_OF_MEMORY, None, p)
       | Some body \<Rightarrow>
          (let remain = len - frame_total
           in (0, Some body, p\<lparr>fp_buf := (if 0 < remain then cp (fp_buf p) frame_total remain else []),
                fp_state := MCP_FRAME_STATE_HEADER, fp_hdr_end := 0, fp_body_expected := 0\<rparr>)))"

definition frame_parser_take_frame ::
  "env \<Rightarrow> overlap_copy \<Rightarrow> mcp_frame_parser \<Rightarrow> int \<times> cstring option \<times> mcp_frame_parser" where
  "frame_parser_take_frame E cp p =
    (if fp_state p = MCP_FRAME_STATE_HEADER
     then case find_header_end (fp_buf p) of
         None \<Rightarrow> (1, None, p)
       | Some hdr_end \<Rightarrow>
          (case parse_content_length (take hdr_end (fp_buf p)) of
             None \<Rightarrow> (MCP_CLIENT_ERR_FRAME, None, p)
           | Some clen \<Rightarrow>
              if clen = 0 \<or> MCP_CLIENT_MAX_MESSAGE_SIZE < clen then (MCP_CLIENT_ERR_FRAME, None, p)
              else case strndup E 0 (fp_buf p) hdr_end of
                  None \<Rightarrow> (err E AIRY_ERR_OUT_OF_MEMORY, None, p\<lparr>fp_header_text := None\<rparr>)
                | Some h \<Rightarrow> take_body E cp (p\<lparr>fp_header_text := Some h, fp_state := MCP_FRAME_STATE_BODY,
                    fp_hdr_end := hdr_end, fp_body_expected := clen\<rparr>))
     else take_body E cp p)"

section \<open>Standard input and output\<close>

datatype write_event =
    W_poll_timeout | W_poll_intr | W_poll_fail | W_poll_err | W_intr | W_again | W_fail | Wrote nat

text \<open>The result: the code, the bytes that were accepted, and the events that are left.\<close>

fun write_all_with_timeout :: "env \<Rightarrow> write_event list \<Rightarrow> char list \<Rightarrow> (int \<times> char list \<times> write_event list) option" where
  "write_all_with_timeout E evs [] = Some (0, [], evs)"
| "write_all_with_timeout E [] (x # xs) = None"
| "write_all_with_timeout E (ev # evs) (x # xs) = (case ev of
      W_poll_timeout \<Rightarrow> Some (err E AIRY_ERR_TIMEOUT, [], evs)
    | W_poll_fail \<Rightarrow> Some (err E AIRY_ERR_IO, [], evs)
    | W_poll_err \<Rightarrow> Some (err E AIRY_ERR_IO, [], evs)
    | W_fail \<Rightarrow> Some (err E AIRY_ERR_IO, [], evs)
    | W_poll_intr \<Rightarrow> write_all_with_timeout E evs (x # xs)
    | W_intr \<Rightarrow> write_all_with_timeout E evs (x # xs)
    | W_again \<Rightarrow> write_all_with_timeout E evs (x # xs)
    | Wrote n \<Rightarrow> map_option (\<lambda>(rc, out, evs'). (rc, take n (x # xs) @ out, evs'))
        (write_all_with_timeout E evs (drop n (x # xs))))"

definition frame_head :: "cstring \<Rightarrow> cstring" where
  "frame_head body = ''Content-Length: '' @ show_nat (length body) @ [CR, LF, CR, LF]"

definition stdio_send_message ::
  "env \<Rightarrow> write_event list \<Rightarrow> cstring \<Rightarrow> (int \<times> char list \<times> write_event list) option" where
  "stdio_send_message E evs body =
    (case write_all_with_timeout E evs (snprintf 64 (frame_head body)) of
       None \<Rightarrow> None
     | Some (rc, out, evs1) \<Rightarrow>
        if rc \<noteq> 0 then Some (rc, out, evs1)
        else map_option (\<lambda>(rc2, out2, evs2). (rc2, out @ out2, evs2)) (write_all_with_timeout E evs1 body))"

datatype read_event =
    R_poll_timeout | R_poll_intr | R_poll_fail | R_poll_nval | R_eof | R_again | R_fail | Chunk "char list"

text \<open>\<open>EINTR\<close> from \<open>read\<close> only repeats the \<open>read\<close> and is not an event of its own.\<close>

fun stdio_read_message ::
  "env \<Rightarrow> overlap_copy \<Rightarrow> mcp_frame_parser \<Rightarrow> int \<Rightarrow> read_event list \<Rightarrow>
   (int \<times> cstring option \<times> mcp_frame_parser \<times> read_event list) option" where
  "stdio_read_message E cp p timeout_ms evs =
    (case frame_parser_take_frame E cp p of
       (rc, out, p1) \<Rightarrow>
         if rc = 0 then Some (0, out, p1, evs)
         else if rc \<noteq> 1 then Some (rc, out, p1, evs)
         else if timeout_ms \<le> 0 then Some (err E AIRY_ERR_TIMEOUT, out, p1, evs)
         else case evs of
             [] \<Rightarrow> None
           | R_poll_timeout # es \<Rightarrow> Some (err E AIRY_ERR_TIMEOUT, out, p1, es)
           | R_poll_intr # es \<Rightarrow> stdio_read_message E cp p1 timeout_ms es
           | R_poll_fail # es \<Rightarrow> Some (err E AIRY_ERR_IO, out, p1, es)
           | R_poll_nval # es \<Rightarrow> Some (err E AIRY_ERR_IO, out, p1, es)
           | R_eof # es \<Rightarrow> Some (MCP_CLIENT_ERR_PROCESS_EXIT, out, p1, es)
           | R_again # es \<Rightarrow> stdio_read_message E cp p1 timeout_ms es
           | R_fail # es \<Rightarrow> Some (err E AIRY_ERR_IO, out, p1, es)
           | Chunk tmp # es \<Rightarrow>
               (case frame_parser_append E p1 tmp of
                  (rc2, p2) \<Rightarrow> if rc2 \<noteq> 0 then Some (rc2, out, p2, es)
                    else stdio_read_message E cp p2 timeout_ms es))"

declare stdio_read_message.simps [simp del]

fun copy_argv_loop :: "env \<Rightarrow> nat \<Rightarrow> cstring list \<Rightarrow> cstring list option" where
  "copy_argv_loop E i [] = Some []"
| "copy_argv_loop E i (x # xs) = (case strdup E i x of None \<Rightarrow> None
     | Some y \<Rightarrow> map_option ((#) y) (copy_argv_loop E (i + 1) xs))"

definition copy_argv :: "env \<Rightarrow> cstring list \<Rightarrow> cstring list option" where
  "copy_argv E argv = (if \<not> mem E 0 then None else copy_argv_loop E 1 argv)"

section \<open>Bounds\<close>

definition fp_wf :: "mcp_frame_parser \<Rightarrow> bool" where
  "fp_wf p \<longleftrightarrow> length (fp_buf p) \<le> fp_cap p \<and>
     length (fp_buf p) \<le> MCP_CLIENT_MAX_MESSAGE_SIZE + MCP_CLIENT_HEADER_MAX \<and>
     (fp_state p = MCP_FRAME_STATE_BODY \<longrightarrow> fp_hdr_end p \<le> length (fp_buf p) \<and>
        0 < fp_body_expected p \<and> fp_body_expected p \<le> MCP_CLIENT_MAX_MESSAGE_SIZE)"

text \<open>
  What \<open>memcpy\<close> promises of the copy of the rest of the buffer to its front: so many bytes, and the
  right ones when source and destination do not overlap.
\<close>

definition memcpy_ok :: "overlap_copy \<Rightarrow> bool" where
  "memcpy_ok cp \<longleftrightarrow> (\<forall>b off n. off + n \<le> length b \<longrightarrow>
     length (cp b off n) = n \<and> (n \<le> off \<longrightarrow> cp b off n = take n (drop off b)))"

lemma memcpy_okD:
  "memcpy_ok cp \<Longrightarrow> off + n \<le> length b \<Longrightarrow> length (cp b off n) = n"
  "memcpy_ok cp \<Longrightarrow> off + n \<le> length b \<Longrightarrow> n \<le> off \<Longrightarrow> cp b off n = take n (drop off b)"
  by (simp_all add: memcpy_ok_def)

lemma memcpy_ok_take [simp]: "memcpy_ok (\<lambda>b off n. take n (drop off b))"
  by (simp add: memcpy_ok_def)

text \<open>
  The copies of a stream do not overlap: with \<open>k\<close> bytes in the buffer, reads of the sizes \<open>cs\<close> to
  come and frames of the sizes \<open>fs\<close>, whenever a frame is complete the bytes behind it are not more
  than the frame has.
\<close>

fun spaced :: "nat \<Rightarrow> nat list \<Rightarrow> nat list \<Rightarrow> bool" where
  "spaced k cs [] \<longleftrightarrow> True"
| "spaced k [] (f # fs) \<longleftrightarrow> (f \<le> k \<longrightarrow> k - f \<le> f \<and> spaced (k - f) [] fs)"
| "spaced k (c # cs) (f # fs) \<longleftrightarrow>
    (if f \<le> k then k - f \<le> f \<and> spaced (k - f) (c # cs) fs else spaced (k + c) cs (f # fs))"

lemma spaced_full: "spaced k cs (f # fs) \<Longrightarrow> f \<le> k \<Longrightarrow> k - f \<le> f \<and> spaced (k - f) cs fs"
  by (cases cs) simp_all

text \<open>That is so when no read is longer than any frame.\<close>

lemma spaced_short_reads:
  "list_all (\<lambda>f. m \<le> f) fs \<Longrightarrow> list_all (\<lambda>c. c \<le> m) cs \<Longrightarrow> fs = [] \<or> k \<le> hd fs + m \<Longrightarrow> spaced k cs fs"
proof (induction k cs fs rule: spaced.induct)
  case (2 k f fs)
  then show ?case by (cases fs) auto
next
  case (3 k c cs f fs)
  then show ?case by (cases fs) auto
qed simp

lemma grow_cap_ge: "0 < c \<Longrightarrow> n \<le> grow_cap c n"
proof (induction c n rule: grow_cap.induct)
  case (1 c n)
  then show ?case by (cases "c < n") (simp_all add: grow_cap.simps [of c n])
qed

lemma append_wf: "fp_wf p \<Longrightarrow> frame_parser_append E p data = (rc, p') \<Longrightarrow> fp_wf p'"
  by (auto simp: fp_wf_def frame_parser_append_def grow_cap_ge split: if_splits)

lemma find_header_end_le: "find_header_end s = Some k \<Longrightarrow> k \<le> length s"
  by (induction s arbitrary: k rule: find_header_end.induct) (auto split: if_splits)

lemma take_body_wf:
  assumes "memcpy_ok cp" "fp_wf p" "take_body E cp p = (rc, out, p')"
  shows "fp_wf p'"
  using assms memcpy_okD(1) [OF assms(1), of "fp_hdr_end p + fp_body_expected p"]
  by (auto simp: take_body_def fp_wf_def split: if_splits option.splits)

lemma take_frame_wf:
  assumes "memcpy_ok cp" "fp_wf p" "frame_parser_take_frame E cp p = (rc, out, p')"
  shows "fp_wf p'"
proof (cases "\<exists>q. take_body E cp q = (rc, out, p') \<and> fp_wf q")
  case True
  then show ?thesis using take_body_wf [OF assms(1)] by blast
next
  case False
  then have nb: "fp_wf q \<Longrightarrow> take_body E cp q \<noteq> (rc, out, p')" for q by blast
  have same: "fp_wf (p\<lparr>fp_header_text := h\<rparr>)" for h using assms(2) by (simp add: fp_wf_def)
  have body: "fp_wf (p\<lparr>fp_header_text := h, fp_state := MCP_FRAME_STATE_BODY, fp_hdr_end := k, fp_body_expected := c\<rparr>)"
    if "find_header_end (fp_buf p) = Some k" "c \<noteq> 0" "c \<le> MCP_CLIENT_MAX_MESSAGE_SIZE" for h k c
    using that assms(2) find_header_end_le [OF that(1)] by (simp add: fp_wf_def)
  show ?thesis
    using assms(2,3) same nb body
    by (auto simp: frame_parser_take_frame_def not_less split: if_splits option.splits)
qed

section \<open>What is sent is read\<close>

lemma write_all_ok:
  "codes_ok E \<Longrightarrow> write_all_with_timeout E evs xs = Some (0, out, evs') \<Longrightarrow> out = xs"
proof (induction E evs xs arbitrary: out evs' rule: write_all_with_timeout.induct)
  case (3 E ev evs x xs)
  show ?case
  proof (cases ev)
    case (Wrote n)
    with "3.prems" obtain out1 where "write_all_with_timeout E evs (drop n (x # xs)) = Some (0, out1, evs')"
      and out: "out = take n (x # xs) @ out1" by auto
    then have "out1 = drop n (x # xs)" using "3.IH"(4) [OF Wrote] "3.prems"(1) by blast
    then show ?thesis using out by (simp only: append_take_drop_id)
  qed (use 3 in auto)
qed auto

definition wire :: "cstring \<Rightarrow> char list" where
  "wire b = frame_head b @ b"

lemma frame_head_length: "length b < 2 ^ 64 \<Longrightarrow> length (frame_head b) \<le> 40"
proof -
  assume "length b < 2 ^ 64"
  then have "length (show_nat (length b)) \<le> 20" by (intro show_nat_length) simp_all
  then show ?thesis by (simp add: frame_head_def)
qed

lemma send_ok:
  assumes "codes_ok E" "length b < 2 ^ 64" "stdio_send_message E evs b = Some (0, out, evs')"
  shows "out = wire b"
proof -
  have "snprintf 64 (frame_head b) = frame_head b" using frame_head_length [OF assms(2)] by simp
  then show ?thesis
    using assms
    by (auto simp: stdio_send_message_def wire_def dest!: write_all_ok [OF assms(1)] split: option.splits if_splits)
qed

lemma header_end_Cons: "a \<noteq> CR \<Longrightarrow> find_header_end (a # s) = map_option Suc (find_header_end s)"
  by (cases s; cases "tl s"; cases "tl (tl s)") auto

lemma header_end_skip:
  "CR \<notin> set u \<Longrightarrow> find_header_end (u @ s) = map_option (\<lambda>k. length u + k) (find_header_end s)"
proof (induction u)
  case Nil
  then show ?case by (cases "find_header_end s") simp_all
next
  case (Cons a u)
  then show ?case by (cases "find_header_end s") (auto simp: header_end_Cons)
qed

lemma line_end_skip: "CR \<notin> set u \<Longrightarrow> line_end (u @ CR # LF # s) = Some (length u)"
proof (induction u)
  case Nil
  then show ?case by simp
next
  case (Cons a u)
  then show ?case by (cases u) auto
qed

text \<open>The header without its end, and the end.\<close>

definition head_line :: "cstring \<Rightarrow> cstring" where
  "head_line b = ''Content-Length: '' @ show_nat (length b)"

lemma frame_head_eq: "frame_head b = head_line b @ [CR, LF, CR, LF]"
  by (simp add: frame_head_def head_line_def)

lemma no_CR: "CR \<notin> set (head_line b)"
proof
  assume "CR \<in> set (head_line b)"
  then have "CR \<in> set (show_nat (length b))" by (simp add: head_line_def)
  then have "isdigit CR" by (rule show_nat_digits)
  then show False by (simp add: isdigit_def)
qed

lemma header_end_full: "find_header_end (frame_head b @ r) = Some (length (frame_head b))"
  using header_end_skip [OF no_CR, of b "[CR, LF, CR, LF] @ r"] by (simp add: frame_head_eq)

lemma header_end_partial:
  assumes "buf @ x = frame_head b @ r" "length buf < length (frame_head b)"
  shows "find_header_end buf = None"
proof (cases "length buf \<le> length (head_line b)")
  case True
  then have "buf = take (length buf) (head_line b)"
    using assms(1) by (metis append.assoc append_eq_conv_conj frame_head_eq take_append take_all diff_is_0_eq take_0 append_Nil2)
  then have "CR \<notin> set buf" using no_CR [of b] by (metis in_set_takeD)
  then show ?thesis using header_end_skip [of buf "[]"] by simp
next
  case False
  define j where "j = length buf - length (head_line b)"
  have j: "j = 1 \<or> j = 2 \<or> j = 3" using False assms(2) by (auto simp: j_def frame_head_eq)
  have "buf = take (length buf) (head_line b @ [CR, LF, CR, LF] @ r)"
    using assms(1) by (metis append.assoc append_eq_conv_conj frame_head_eq)
  then have "buf = head_line b @ take j ([CR, LF, CR, LF] @ r)"
    using False by (simp add: j_def take_append)
  then show ?thesis using j header_end_skip [OF no_CR, of b] by auto
qed

lemma content_length_line:
  assumes "n < 2 ^ 64"
  shows "parse_content_length ((''Content-Length: '' @ show_nat n) @ CR # LF # r) = Some n"
proof -
  let ?l = "''Content-Length: '' @ show_nat n" and ?h = "(''Content-Length: '' @ show_nat n) @ CR # LF # r"
  have "CR \<notin> set ?l" using show_nat_digits [of CR n] by (auto simp: isdigit_def)
  then have l: "line_end ?h = Some (length ?l)" by (rule line_end_skip)
  have t: "take 15 ?h = ''Content-Length:''" by simp
  have c: "strcasecmp_eq ''Content-Length:'' ''content-length:''" by code_simp
  have v: "drop 15 (take (length ?l) ?h) = CHR '' '' # show_nat n" by simp
  obtain d ds where s: "show_nat n = d # ds" by (cases "show_nat n") auto
  have "isdigit d" using show_nat_hd_digit [of n] s by simp
  then have dw: "dropWhile (\<lambda>c. c = CHR '' '' \<or> c = CHR 0x09) (CHR '' '' # show_nat n) = show_nat n"
    by (auto simp: s isdigit_def)
  have tw: "takeWhile isdigit (show_nat n) = show_nat n"
    using takeWhile_show_nat [of "[]"] by simp
  have "length (show_nat n) \<le> 20" using assms by (intro show_nat_length) simp_all
  then have "take 31 (show_nat n) = show_nat n" by simp
  moreover have "strtoul (show_nat n) = n" using assms by (simp add: strtoul_def)
  moreover have "15 \<le> length ?l" by simp
  ultimately show ?thesis
    by (subst parse_content_length.simps) (simp only: l t c v dw tw option.simps simp_thms Let_def if_True show_nat_nonempty if_False)
qed

lemma parse_frame_head: "length b < 2 ^ 64 \<Longrightarrow> parse_content_length (frame_head b) = Some (length b)"
  using content_length_line [of "length b" "[CR, LF]"] by (simp only: frame_head_def append_assoc append_Cons append_Nil)

definition body_ok :: "cstring \<Rightarrow> bool" where
  "body_ok b \<longleftrightarrow> b \<noteq> [] \<and> NUL \<notin> set b \<and> length b \<le> MCP_CLIENT_MAX_MESSAGE_SIZE"

text \<open>The parser is at the start of the frame of \<open>b\<close>, or has read its header.\<close>

definition at_frame :: "cstring \<Rightarrow> mcp_frame_parser \<Rightarrow> bool" where
  "at_frame b p \<longleftrightarrow> fp_state p = MCP_FRAME_STATE_HEADER \<or>
     fp_hdr_end p = length (frame_head b) \<and> fp_body_expected p = length b"

lemma take_body_part:
  assumes "fp_hdr_end p = length (frame_head b)" "fp_body_expected p = length b"
    "length (fp_buf p) < length (wire b)"
  shows "take_body E cp p = (1, None, p)"
  using assms by (simp add: take_body_def wire_def)

lemma take_body_full:
  assumes "memcpy_ok cp" "mem_ok E" "body_ok b" "length r \<le> length (wire b)" "fp_buf p = wire b @ r"
    "fp_hdr_end p = length (frame_head b)" "fp_body_expected p = length b"
  shows "take_body E cp p = (0, Some b, p\<lparr>fp_buf := r, fp_state := MCP_FRAME_STATE_HEADER, fp_hdr_end := 0,
    fp_body_expected := 0\<rparr>)"
proof -
  have "takeWhile (\<lambda>c. c \<noteq> NUL) b = b" using assms(3) by (auto simp: body_ok_def takeWhile_eq_all_conv)
  then have s: "strndup E 1 (drop (length (frame_head b)) (wire b @ r)) (length b) = Some b"
    using assms(2) by (simp add: strndup_def wire_def)
  have c: "cp (wire b @ r) (length (frame_head b) + length b) (length r) = r"
    using assms(4) by (subst memcpy_okD(2) [OF assms(1)]) (simp_all add: wire_def)
  show ?thesis using assms(5-7) s c by (simp add: take_body_def wire_def)
qed

lemma take_header:
  assumes "mem_ok E" "body_ok b" "fp_state p = MCP_FRAME_STATE_HEADER" "fp_buf p = frame_head b @ y"
  shows "\<exists>h. frame_parser_take_frame E cp p = take_body E cp (p\<lparr>fp_header_text := h,
    fp_state := MCP_FRAME_STATE_BODY, fp_hdr_end := length (frame_head b), fp_body_expected := length b\<rparr>)"
  using assms parse_frame_head [of b]
  by (auto simp: frame_parser_take_frame_def header_end_full strndup_def body_ok_def)

lemma take_frame_part:
  assumes "mem_ok E" "body_ok b" "at_frame b p" "fp_buf p @ x = wire b @ r" "length (fp_buf p) < length (wire b)"
  shows "\<exists>p'. frame_parser_take_frame E cp p = (1, None, p') \<and> fp_buf p' = fp_buf p \<and> at_frame b p'"
proof (cases "fp_state p = MCP_FRAME_STATE_HEADER")
  case True
  show ?thesis
  proof (cases "length (fp_buf p) < length (frame_head b)")
    case short: True
    have "find_header_end (fp_buf p) = None"
      using header_end_partial [OF _ short, of x "b @ r"] assms(4) by (simp add: wire_def)
    then show ?thesis using True assms(3) by (simp add: frame_parser_take_frame_def)
  next
    case False
    then have "fp_buf p = frame_head b @ drop (length (frame_head b)) (fp_buf p)"
      using assms(4) by (metis append.assoc append_eq_append_conv_if append_take_drop_id not_less wire_def)
    from take_header [OF assms(1,2) True this]
    show ?thesis using assms(5) take_body_part [of _ b] by (fastforce simp: at_frame_def)
  qed
next
  case False
  then show ?thesis
    using assms(3,5) take_body_part [of p b] by (auto simp: at_frame_def frame_parser_take_frame_def)
qed

lemma take_frame_full:
  assumes "memcpy_ok cp" "mem_ok E" "body_ok b" "length r \<le> length (wire b)" "at_frame b p" "fp_buf p = wire b @ r"
  shows "\<exists>p'. frame_parser_take_frame E cp p = (0, Some b, p') \<and> fp_buf p' = r \<and>
    fp_state p' = MCP_FRAME_STATE_HEADER"
proof (cases "fp_state p = MCP_FRAME_STATE_HEADER")
  case True
  have "fp_buf p = frame_head b @ (b @ r)" using assms(6) by (simp add: wire_def)
  from take_header [OF assms(2,3) True this, of cp] obtain h where
    "frame_parser_take_frame E cp p = take_body E cp (p\<lparr>fp_header_text := h,
       fp_state := MCP_FRAME_STATE_BODY, fp_hdr_end := length (frame_head b), fp_body_expected := length b\<rparr>)" by blast
  then show ?thesis by (simp add: take_body_full [OF assms(1-4)] assms(6))
next
  case False
  then show ?thesis
    using assms(5,6) take_body_full [OF assms(1-4)] by (simp add: frame_parser_take_frame_def at_frame_def)
qed

text \<open>
  The events of a stream that keeps coming: pieces of at most the size the loop asks for,
  and interruptions.
\<close>

fun benign :: "read_event \<Rightarrow> bool" where
  "benign (Chunk c) \<longleftrightarrow> length c \<le> MCP_CLIENT_READ_CHUNK"
| "benign R_poll_intr \<longleftrightarrow> True"
| "benign R_again \<longleftrightarrow> True"
| "benign ev \<longleftrightarrow> False"

fun bytes_of :: "read_event \<Rightarrow> char list" where
  "bytes_of (Chunk c) = c"
| "bytes_of ev = []"

lemma append_ok:
  assumes "mem_ok E" "length (fp_buf p) + length c \<le> MCP_CLIENT_MAX_MESSAGE_SIZE + MCP_CLIENT_HEADER_MAX"
  shows "\<exists>p'. frame_parser_append E p c = (0, p') \<and> fp_buf p' = fp_buf p @ c \<and> (at_frame b p \<longrightarrow> at_frame b p')"
  using assms by (cases "c = []") (auto simp: frame_parser_append_def at_frame_def)

text \<open>One turn of the reading loop, when the frame is not complete.\<close>

lemma read_step:
  assumes "frame_parser_take_frame E cp p = (1, out, p1)" "0 < t"
  shows "stdio_read_message E cp p t (ev # evs) = (case ev of
      R_poll_timeout \<Rightarrow> Some (err E AIRY_ERR_TIMEOUT, out, p1, evs)
    | R_poll_intr \<Rightarrow> stdio_read_message E cp p1 t evs
    | R_poll_fail \<Rightarrow> Some (err E AIRY_ERR_IO, out, p1, evs)
    | R_poll_nval \<Rightarrow> Some (err E AIRY_ERR_IO, out, p1, evs)
    | R_eof \<Rightarrow> Some (MCP_CLIENT_ERR_PROCESS_EXIT, out, p1, evs)
    | R_again \<Rightarrow> stdio_read_message E cp p1 t evs
    | R_fail \<Rightarrow> Some (err E AIRY_ERR_IO, out, p1, evs)
    | Chunk c \<Rightarrow> (case frame_parser_append E p1 c of
        (rc, p2) \<Rightarrow> if rc \<noteq> 0 then Some (rc, out, p2, evs) else stdio_read_message E cp p2 t evs))"
  using assms by (subst stdio_read_message.simps) (auto split: read_event.split)

text \<open>The sizes of the reads to come.\<close>

abbreviation sizes :: "read_event list \<Rightarrow> nat list" where
  "sizes evs \<equiv> map (\<lambda>e. length (bytes_of e)) evs"

lemma read_one:
  assumes "memcpy_ok cp" "mem_ok E" "body_ok b" "0 < t"
    "at_frame b p" "fp_buf p @ concat (map bytes_of evs) = wire b @ r" "list_all benign evs"
    "spaced (length (fp_buf p)) (sizes evs) (length (wire b) # fs)"
  shows "\<exists>p' evs'. stdio_read_message E cp p t evs = Some (0, Some b, p', evs') \<and>
    fp_state p' = MCP_FRAME_STATE_HEADER \<and> fp_buf p' @ concat (map bytes_of evs') = r \<and> list_all benign evs' \<and>
    spaced (length (fp_buf p')) (sizes evs') fs"
  using assms(5-8)
proof (induction evs arbitrary: p)
  case Nil
  then have "length r \<le> length (wire b) \<and> spaced (length r) [] fs"
    using spaced_full [OF Nil(4)] by simp
  with Nil show ?case
    using take_frame_full [OF assms(1-3) _ Nil(1), of r] by (auto simp: stdio_read_message.simps [of E cp p])
next
  case (Cons ev evs)
  show ?case
  proof (cases "length (fp_buf p) < length (wire b)")
    case False
    define r1 where "r1 = drop (length (wire b)) (fp_buf p)"
    have s: "fp_buf p = wire b @ r1" using False Cons.prems(2)
      by (metis append_eq_append_conv_if append_take_drop_id not_less r1_def)
    then have "r1 @ concat (map bytes_of (ev # evs)) = r" using Cons.prems(2) by simp
    moreover have "length r1 \<le> length (wire b) \<and> spaced (length r1) (sizes (ev # evs)) fs"
      using spaced_full [OF Cons.prems(4)] s by simp
    ultimately show ?thesis using take_frame_full [OF assms(1-3) _ Cons.prems(1) s] Cons.prems(3)
      by (auto simp: stdio_read_message.simps [of E cp p])
  next
    case True
    then obtain p1 where p1: "frame_parser_take_frame E cp p = (1, None, p1)" "fp_buf p1 = fp_buf p" "at_frame b p1"
      using take_frame_part [OF assms(2,3) Cons.prems(1,2)] by blast
    note step = read_step [OF p1(1) assms(4)]
    show ?thesis
    proof (cases ev)
      case (Chunk c)
      have "length (wire b) \<le> MCP_CLIENT_MAX_MESSAGE_SIZE + 40"
        using frame_head_length [of b] assms(3) by (simp add: wire_def body_ok_def)
      then have "length (fp_buf p1) + length c \<le> MCP_CLIENT_MAX_MESSAGE_SIZE + MCP_CLIENT_HEADER_MAX"
        using True Cons.prems(3) Chunk p1(2) by simp
      from append_ok [OF assms(2) this, of b] obtain p2 where
        p2: "frame_parser_append E p1 c = (0, p2)" "fp_buf p2 = fp_buf p @ c" "at_frame b p2"
        using p1 by auto
      then show ?thesis using Cons.IH [of p2] Cons.prems p1 Chunk assms(4) True by (simp add: step)
    qed (use Cons.IH [of p1] Cons.prems p1 assms(4) True in \<open>simp_all add: step\<close>)
  qed
qed

text \<open>Reading as many messages as were sent.\<close>

fun read_many :: "env \<Rightarrow> overlap_copy \<Rightarrow> mcp_frame_parser \<Rightarrow> int \<Rightarrow> read_event list \<Rightarrow> nat \<Rightarrow>
    (cstring list \<times> mcp_frame_parser \<times> read_event list) option" where
  "read_many E cp p t evs 0 = Some ([], p, evs)"
| "read_many E cp p t evs (Suc n) = (case stdio_read_message E cp p t evs of
     Some (rc, Some b, p', evs') \<Rightarrow> if rc = 0
       then map_option (\<lambda>(bs, q, es). (b # bs, q, es)) (read_many E cp p' t evs' n) else None
   | _ \<Rightarrow> None)"

lemma read_many_wire:
  assumes "memcpy_ok cp" "mem_ok E" "0 < t" "list_all body_ok bs" "fp_state p = MCP_FRAME_STATE_HEADER"
    "fp_buf p @ concat (map bytes_of evs) = concat (map wire bs) @ r" "list_all benign evs"
    "spaced (length (fp_buf p)) (sizes evs) (map (\<lambda>b. length (wire b)) bs)"
  shows "\<exists>p' evs'. read_many E cp p t evs (length bs) = Some (bs, p', evs') \<and>
    fp_buf p' @ concat (map bytes_of evs') = r"
  using assms(4-8)
proof (induction bs arbitrary: p evs)
  case Nil
  then show ?case by simp
next
  case (Cons b bs)
  then have "at_frame b p" "body_ok b" by (simp_all add: at_frame_def)
  from read_one [OF assms(1,2) this(2) assms(3) this(1), of evs "concat (map wire bs) @ r" "map (\<lambda>b. length (wire b)) bs"] Cons.prems
  obtain p1 evs1 where 1: "stdio_read_message E cp p t evs = Some (0, Some b, p1, evs1)"
    "fp_state p1 = MCP_FRAME_STATE_HEADER" "fp_buf p1 @ concat (map bytes_of evs1) = concat (map wire bs) @ r"
    "list_all benign evs1" "spaced (length (fp_buf p1)) (sizes evs1) (map (\<lambda>b. length (wire b)) bs)" by auto
  from Cons.IH [OF _ 1(2-5)] Cons.prems(1) 1(1) show ?case by auto
qed

text \<open>
  Whatever messages are written to the pipe, and however the bytes are cut into reads and
  interrupted, as long as no read brings more behind a frame than the frame has, the reader
  returns exactly those messages in order and nothing is left over. (Messages are non-empty C
  strings of at most 10 MB.)
\<close>

theorem mcp_stream_roundtrip:
  assumes "memcpy_ok cp" "mem_ok E" "codes_ok F" "0 < t" "list_all body_ok bs"
    "list_all2 (\<lambda>b out. \<exists>wevs wevs'. stdio_send_message F wevs b = Some (0, out, wevs')) bs outs"
    "list_all benign evs" "concat (map bytes_of evs) = concat outs" "spaced 0 (sizes evs) (map length outs)"
  shows "\<exists>p evs'. read_many E cp frame_parser_init t evs (length bs) = Some (bs, p, evs') \<and>
    fp_buf p @ concat (map bytes_of evs') = []"
proof -
  have "outs = map wire bs"
    using assms(6,5)
    by (induction rule: list_all2_induct) (auto simp: body_ok_def intro: send_ok [OF assms(3)])
  then show ?thesis
    using read_many_wire [OF assms(1,2,4,5), of frame_parser_init evs "[]"] assms(7-9)
    by (simp add: frame_parser_init_def comp_def)
qed

theorem mcp_stream_roundtrip_witness:
  "\<exists>p evs'. read_many env0 (\<lambda>b off n. take n (drop off b)) frame_parser_init 1000
      [Chunk (take 5 (wire ''{}'')), R_poll_intr, Chunk (drop 5 (wire ''{}'') @ wire ''[]'')] 2 = Some ([''{}'', ''[]''], p, evs')"
proof -
  have w: "write_all_with_timeout env0 (Wrote (length s) # evs) s = Some (0, s, evs)" if "s \<noteq> []" for s evs
    using that by (cases s) simp_all
  have s: "\<exists>wevs wevs'. stdio_send_message env0 wevs b = Some (0, wire b, wevs')" if "body_ok b" for b
  proof -
    have "snprintf 64 (frame_head b) = frame_head b" "frame_head b \<noteq> []" "b \<noteq> []"
      using frame_head_length [of b] that by (simp_all add: body_ok_def frame_head_def)
    then have "stdio_send_message env0 [Wrote (length (frame_head b)), Wrote (length b)] b = Some (0, wire b, [])"
      by (simp add: stdio_send_message_def w wire_def)
    then show ?thesis by blast
  qed
  have b: "body_ok ''{}''" "body_ok ''[]''" by (simp_all add: body_ok_def)
  have l: "length (wire x) \<le> 100" if "length x = 2" for x
    using frame_head_length [of x] that by (simp add: wire_def)
  have "length (wire ''{}'') \<le> 100" "length (wire ''[]'') \<le> 100" by (simp_all add: l)
  then have e: "list_all benign [Chunk (take 5 (wire ''{}'')), R_poll_intr, Chunk (drop 5 (wire ''{}'') @ wire ''[]'')]"
    by (auto simp: min_def)
  have "show_nat (Suc (Suc 0)) = ''2''" by code_simp
  then have "length (wire ''{}'') = 23" "length (wire ''[]'') = 23" by (simp_all add: wire_def frame_head_def)
  then have "spaced 0 (sizes [Chunk (take 5 (wire ''{}'')), R_poll_intr, Chunk (drop 5 (wire ''{}'') @ wire ''[]'')])
      (map length [wire ''{}'', wire ''[]''])" by simp
  from mcp_stream_roundtrip [OF memcpy_ok_take env0_ok(3) env0_ok(1), of 1000 "[''{}'', ''[]'']"
      "[wire ''{}'', wire ''[]'']", OF _ _ _ e _ this] b s
  show ?thesis by (auto simp: numeral_2_eq_2 simp del: read_many.simps)
qed

lemma take_frame_small:
  assumes "fp_wf p" "frame_parser_take_frame E cp p = (0, Some b, p')" "codes_ok E"
  shows "length b \<le> MCP_CLIENT_MAX_MESSAGE_SIZE"
proof -
  have tb: "length b \<le> fp_body_expected q" if "take_body E cp q = (0, Some b, p')" for q
    using that length_takeWhile_le [of "\<lambda>c. c \<noteq> NUL" "take (fp_body_expected q) (drop (fp_hdr_end q) (fp_buf q))"] assms(3)
    by (auto simp: take_body_def strndup_def strdup_def split: if_splits)
  have "fp_state p = MCP_FRAME_STATE_HEADER \<or> fp_state p = MCP_FRAME_STATE_BODY" by (cases "fp_state p") auto
  then show ?thesis
    using assms by (auto simp: frame_parser_take_frame_def fp_wf_def dest!: tb split: if_splits option.splits)
qed

lemma read_bounded:
  assumes "memcpy_ok cp" "codes_ok E" "fp_wf p" "stdio_read_message E cp p t evs = Some (rc, out, p', evs')"
  shows "fp_wf p' \<and> (\<forall>b. rc = 0 \<longrightarrow> out = Some b \<longrightarrow> length b \<le> MCP_CLIENT_MAX_MESSAGE_SIZE)"
  using assms(3,4)
proof (induction evs arbitrary: p)
  case Nil
  obtain rc1 o1 p1 where t: "frame_parser_take_frame E cp p = (rc1, o1, p1)" by (cases "frame_parser_take_frame E cp p")
  then show ?case
    using Nil take_frame_wf [OF assms(1) Nil(1) t] take_frame_small [OF Nil(1) _ assms(2)] assms(2)
    by (auto simp: stdio_read_message.simps [of E cp p t "[]"] split: if_splits)
next
  case (Cons ev evs)
  obtain rc1 o1 p1 where t: "frame_parser_take_frame E cp p = (rc1, o1, p1)" by (cases "frame_parser_take_frame E cp p")
  note wf1 = take_frame_wf [OF assms(1) Cons.prems(1) t]
  show ?case
  proof (cases "rc1 = 1 \<and> 0 < t")
    case False
    then show ?thesis
      using Cons.prems t wf1 take_frame_small [OF Cons.prems(1) _ assms(2)] assms(2)
      by (auto simp: stdio_read_message.simps [of E cp p t "ev # evs"] split: if_splits)
  next
    case True
    have p1: "frame_parser_take_frame E cp p = (1, o1, p1)" and t0: "0 < t" using t True by auto
    note step = read_step [OF p1 t0]
    obtain rc2 p2 where a: "frame_parser_append E p1 (bytes_of ev) = (rc2, p2)"
      by (cases "frame_parser_append E p1 (bytes_of ev)")
    note wf2 = append_wf [OF wf1 a]
    show ?thesis
    proof (cases ev)
      case (Chunk c)
      then show ?thesis
        using Cons.prems(2) a wf2 Cons.IH [OF wf2] assms(2) by (auto simp: step split: if_splits)
    qed (use Cons.prems(2) wf1 Cons.IH [OF wf1] assms(2) in \<open>auto simp: step\<close>)
  qed
qed

text \<open>
  Whatever bytes arrive, valid or not, and whatever errors occur, the parser keeps its
  buffer inside the allocation and below the limit, and never hands out a body above the
  maximal message size.
\<close>

theorem frame_parser_bounded:
  assumes "memcpy_ok cp" "codes_ok E" "fp_wf p" "stdio_read_message E cp p t evs = Some (rc, out, p', evs')"
  shows "length (fp_buf p') \<le> fp_cap p' \<and>
    length (fp_buf p') \<le> MCP_CLIENT_MAX_MESSAGE_SIZE + MCP_CLIENT_HEADER_MAX \<and> fp_wf p' \<and>
    (\<forall>b. rc = 0 \<longrightarrow> out = Some b \<longrightarrow> length b \<le> MCP_CLIENT_MAX_MESSAGE_SIZE)"
  using read_bounded [OF assms] by (simp add: fp_wf_def)

theorem frame_parser_bounded_witness:
  "\<exists>p'. stdio_read_message env0 (\<lambda>b off n. take n (drop off b)) frame_parser_init 1000 [R_eof] =
      Some (MCP_CLIENT_ERR_PROCESS_EXIT, None, p', []) \<and> fp_wf p'"
proof -
  let ?cp = "\<lambda>b off n. take n (drop off b)"
  have r: "stdio_read_message env0 ?cp frame_parser_init 1000 [R_eof] =
      Some (MCP_CLIENT_ERR_PROCESS_EXIT, None, frame_parser_init, [])"
    by (simp add: stdio_read_message.simps frame_parser_take_frame_def frame_parser_init_def)
  have "fp_wf frame_parser_init" by (simp add: fp_wf_def frame_parser_init_def)
  from frame_parser_bounded [OF memcpy_ok_take env0_ok(1) this r] r show ?thesis by blast
qed

end
