(* ===== verification/Json_Text.thy ===== *)
theory Json_Text
  imports Airy_Prelude
begin

text \<open>
  The JSON string writer of the MCP adapter (\<open>json_string_escape\<close> of
  \<open>mcp_v1_adapter.c\<close>) and a reference reader of JSON strings. The reader follows the JSON
  grammar for the two-character escapes; \<open>strict\<close> adds the rule that a control character
  may not occur in a string.
\<close>

section \<open>Writing a string\<close>

fun escape_char :: "char \<Rightarrow> cstring" where
  "escape_char c =
    (if c = CHR 0x22 then [CHR 0x5C, CHR 0x22]
     else if c = CHR 0x5C then [CHR 0x5C, CHR 0x5C]
     else if c = CHR 0x0A then [CHR 0x5C, CHR ''n'']
     else if c = CHR 0x0D then [CHR 0x5C, CHR ''r'']
     else if c = CHR 0x09 then [CHR 0x5C, CHR ''t'']
     else [c])"

declare escape_char.simps [simp del]

definition escape_body :: "cstring \<Rightarrow> cstring" where
  "escape_body s = concat (map escape_char s)"

definition escape_text :: "cstring \<Rightarrow> cstring" where
  "escape_text s = CHR 0x22 # escape_body s @ [CHR 0x22]"

text \<open>
  \<open>json_string_escape\<close> as the i-th allocation of a call. A NULL string becomes the JSON
  word \<open>null\<close>. The buffer has \<open>2 * len + 3\<close> bytes, and the loop writes without a check:
  the outer \<open>None\<close> is a write outside of it.
\<close>

definition json_string_escape :: "env \<Rightarrow> nat \<Rightarrow> cstring option \<Rightarrow> cstring option option" where
  "json_string_escape E i str = (case str of
      None \<Rightarrow> Some (strdup E i ''null'')
    | Some s \<Rightarrow>
        (let escaped_len = length s * 2 + 3 in
         if \<not> mem E i then Some None
         else if escaped_len < length (escape_text s) + 1 then None
         else Some (Some (escape_text s))))"

definition strdup_safe :: "env \<Rightarrow> nat \<Rightarrow> cstring option \<Rightarrow> cstring option" where
  "strdup_safe E i s = (case s of None \<Rightarrow> None | Some t \<Rightarrow> strdup E i t)"

lemma escape_body_simps [simp]:
  "escape_body [] = []" "escape_body (c # s) = escape_char c @ escape_body s"
  "escape_body (s @ t) = escape_body s @ escape_body t"
  by (simp_all add: escape_body_def)

lemma escape_char_length: "length (escape_char c) \<le> 2" "escape_char c \<noteq> []"
  by (simp_all add: escape_char.simps)

lemma escape_body_length: "length s \<le> length (escape_body s)" "length (escape_body s) \<le> 2 * length s"
proof (induction s)
  case (Cons c s)
  { case 1 show ?case using Cons escape_char_length [of c]
      by (cases "escape_char c") auto }
  { case 2 show ?case using Cons escape_char_length [of c] by simp }
qed simp_all

lemma escape_text_length: "length (escape_text s) \<le> 2 * length s + 2"
  using escape_body_length by (simp add: escape_text_def)

lemma json_escape_Some [simp]:
  "json_string_escape E i (Some s) = Some (if mem E i then Some (escape_text s) else None)"
  using escape_text_length [of s] by (simp add: json_string_escape_def)

lemma json_escape_None [simp]: "json_string_escape E i None = Some (strdup E i ''null'')"
  by (simp add: json_string_escape_def)

definition json_opt :: "cstring option \<Rightarrow> cstring" where
  "json_opt s = (case s of None \<Rightarrow> ''null'' | Some t \<Rightarrow> escape_text t)"

lemma json_opt_simps [simp]: "json_opt None = ''null''" "json_opt (Some t) = escape_text t"
  by (simp_all add: json_opt_def)

lemma json_escape_eq: "json_string_escape E i s = Some (if mem E i then Some (json_opt s) else None)"
  by (cases s) (simp_all add: strdup_def)

lemma strdup_safe_simps [simp]:
  "strdup_safe E i None = None" "strdup_safe E i (Some s) = strdup E i s"
  by (simp_all add: strdup_safe_def)

lemma strdup_safe_mem: "mem E i \<Longrightarrow> strdup_safe E i s = s"
  by (cases s) (simp_all add: strdup_def)

section \<open>Reading a string\<close>

text \<open>The reference reader, after the opening quote: the string and the text behind it.\<close>

fun unescape_char :: "char \<Rightarrow> char option" where
  "unescape_char c =
    (if c = CHR 0x22 \<or> c = CHR 0x5C \<or> c = CHR ''/'' then Some c
     else if c = CHR ''n'' then Some (CHR 0x0A)
     else if c = CHR ''r'' then Some (CHR 0x0D)
     else if c = CHR ''t'' then Some (CHR 0x09)
     else if c = CHR ''b'' then Some (CHR 0x08)
     else if c = CHR ''f'' then Some (CHR 0x0C)
     else None)"

declare unescape_char.simps [simp del]

definition control_char :: "char \<Rightarrow> bool" where
  "control_char c \<longleftrightarrow> (of_char c :: nat) < 32"

fun read_body :: "bool \<Rightarrow> cstring \<Rightarrow> (cstring \<times> cstring) option" where
  "read_body strict [] = None"
| "read_body strict (c # r) =
    (if c = CHR 0x22 then Some ([], r)
     else if c = CHR 0x5C then
       (case r of [] \<Rightarrow> None
        | d # r' \<Rightarrow> (case unescape_char d of None \<Rightarrow> None
           | Some e \<Rightarrow> map_option (\<lambda>(s, q). (e # s, q)) (read_body strict r')))
     else if strict \<and> control_char c then None
     else map_option (\<lambda>(s, q). (c # s, q)) (read_body strict r))"

declare read_body.simps(2) [simp del]

definition read_string :: "bool \<Rightarrow> cstring \<Rightarrow> (cstring \<times> cstring) option" where
  "read_string strict t = (case t of [] \<Rightarrow> None
     | c # r \<Rightarrow> if c = CHR 0x22 then read_body strict r else None)"

text \<open>The characters that the writer leaves as they are although the grammar forbids them.\<close>

definition raw_control :: "char \<Rightarrow> bool" where
  "raw_control c \<longleftrightarrow> control_char c \<and> c \<notin> {CHR 0x0A, CHR 0x0D, CHR 0x09}"

lemma read_body_escape_char:
  "read_body strict (escape_char c @ r) =
    (if strict \<and> raw_control c then None else map_option (\<lambda>(s, q). (c # s, q)) (read_body strict r))"
proof -
  consider "c = CHR 0x22" | "c = CHR 0x5C" | "c = CHR 0x0A" | "c = CHR 0x0D" | "c = CHR 0x09"
    | "c \<notin> {CHR 0x22, CHR 0x5C, CHR 0x0A, CHR 0x0D, CHR 0x09}" by auto
  then show ?thesis
    by cases (simp_all add: escape_char.simps unescape_char.simps read_body.simps(2) raw_control_def
        control_char_def)
qed

lemma read_body_escape:
  "read_body strict (escape_body s @ CHR 0x22 # r) =
    (if strict \<and> (\<exists>c \<in> set s. raw_control c) then None else Some (s, r))"
  by (induction s) (auto simp: read_body_escape_char read_body.simps(2))

lemma read_string_escape:
  "read_string strict (escape_text s @ r) =
    (if strict \<and> (\<exists>c \<in> set s. raw_control c) then None else Some (s, r))"
  using read_body_escape by (simp add: read_string_def escape_text_def)

text \<open>A nullable string: the word \<open>null\<close> or a string.\<close>

definition read_opt :: "bool \<Rightarrow> cstring \<Rightarrow> (cstring option \<times> cstring) option" where
  "read_opt strict t = (if take 4 t = ''null'' then Some (None, drop 4 t)
     else map_option (\<lambda>(s, q). (Some s, q)) (read_string strict t))"

definition plain_opt :: "cstring option \<Rightarrow> bool" where
  "plain_opt s \<longleftrightarrow> (case s of None \<Rightarrow> True | Some t \<Rightarrow> \<forall>c \<in> set t. \<not> raw_control c)"

lemma read_opt_json [simp]: "plain_opt s \<Longrightarrow> read_opt strict (json_opt s @ r) = Some (s, r)"
proof (cases s)
  case None
  then show ?thesis by (simp add: read_opt_def)
next
  case (Some t)
  assume "plain_opt s"
  with Some have "\<not> (\<exists>c \<in> set t. raw_control c)" by (simp add: plain_opt_def)
  moreover have "take 4 (escape_text t @ r) \<noteq> ''null''" by (simp add: escape_text_def)
  ultimately show ?thesis using Some by (simp add: read_opt_def read_string_escape)
qed

section \<open>Reading a list\<close>

text \<open>A fixed piece of text, and a list of items between commas that ends in \<open>]}\<close>.\<close>

definition read_lit :: "cstring \<Rightarrow> cstring \<Rightarrow> cstring option" where
  "read_lit l t = (if take (length l) t = l then Some (drop (length l) t) else None)"

lemma read_lit_append [simp]: "read_lit l (l @ r) = Some r"
  by (simp add: read_lit_def)

fun read_items :: "(cstring \<Rightarrow> ('a \<times> cstring) option) \<Rightarrow> nat \<Rightarrow> cstring \<Rightarrow> 'a list option" where
  "read_items rd 0 t = None"
| "read_items rd (Suc n) t = (case rd t of
      None \<Rightarrow> None
    | Some (x, r) \<Rightarrow> if r = '']}'' then Some [x]
        else (case read_lit '','' r of None \<Rightarrow> None | Some r' \<Rightarrow> map_option (Cons x) (read_items rd n r')))"

definition read_list :: "(cstring \<Rightarrow> ('a \<times> cstring) option) \<Rightarrow> cstring \<Rightarrow> cstring \<Rightarrow> 'a list option" where
  "read_list rd head t = (case read_lit head t of
      None \<Rightarrow> None
    | Some r \<Rightarrow> if r = '']}'' then Some [] else read_items rd (length r) r)"

text \<open>
  The contract of an item format: what the writer puts in front of any text, the reader
  takes off again. A list of such items is then read back whole.
\<close>

locale item_format =
  fixes wr :: "'a \<Rightarrow> cstring"
    and rd :: "cstring \<Rightarrow> ('a \<times> cstring) option"
    and ok :: "'a \<Rightarrow> bool"
  assumes rd_wr: "ok x \<Longrightarrow> rd (wr x @ r) = Some (x, r)"
    and wr_brace: "\<exists>t. wr x = CHR ''{'' # t"
begin

lemma items_back:
  assumes "xs \<noteq> []" "\<forall>x \<in> set xs. ok x" "length xs \<le> n"
  shows "read_items rd n (concat (commas (map wr xs)) @ '']}'') = Some xs"
  using assms
proof (induction xs arbitrary: n)
  case Nil
  then show ?case by simp
next
  case (Cons x xs)
  from Cons.prems obtain k where n: "n = Suc k" "length xs \<le> k" by (cases n) auto
  show ?case
  proof (cases xs)
    case Nil
    with Cons.prems n show ?thesis by (simp add: rd_wr)
  next
    case (Cons y ys)
    have "concat (commas (map wr (x # xs))) @ '']}'' =
      wr x @ '','' @ concat (commas (map wr xs)) @ '']}''" using Cons by simp
    moreover have "'','' @ concat (commas (map wr xs)) @ '']}'' \<noteq> '']}''" by simp
    ultimately show ?thesis using Cons.prems Cons.IH [of k] n Cons
      by (simp add: rd_wr read_lit_def)
  qed
qed

lemma commas_length: "length xs \<le> length (concat (commas (map wr xs)))"
proof (induction xs rule: induct_list012)
  case (2 x)
  then show ?case using wr_brace [of x] by auto
next
  case (3 x y zs)
  then show ?case by simp
qed simp

lemma list_back:
  assumes "\<forall>x \<in> set xs. ok x"
  shows "read_list rd head (head @ concat (commas (map wr xs)) @ '']}'') = Some xs"
proof (cases xs)
  case Nil
  then show ?thesis by (simp add: read_list_def)
next
  case (Cons x ys)
  obtain t where t: "wr x = CHR ''{'' # t" using wr_brace [of x] by blast
  have "concat (commas (map wr xs)) @ '']}'' \<noteq> '']}''"
    using Cons t by (cases ys) auto
  then show ?thesis using items_back [of xs] assms Cons commas_length [of xs]
    by (simp add: read_list_def del: commas.simps read_items.simps)
qed

end

section \<open>The writer is correct\<close>

text \<open>
  C24: the string writer of the MCP adapter always stays inside its buffer, and what it
  writes is read back by a JSON reader as the string it was given, followed by whatever
  comes next. Under the strict grammar this holds exactly for strings without raw control
  characters: the writer escapes newline, carriage return and tab and no other control
  character.
\<close>

theorem json_escape_roundtrip:
  assumes "mem E i"
  shows "\<exists>t. json_string_escape E i (Some s) = Some (Some t) \<and> length t < length s * 2 + 3 \<and>
    read_string False (t @ r) = Some (s, r) \<and>
    (read_string True (t @ r) = Some (s, r) \<longleftrightarrow> \<not> (\<exists>c \<in> set s. raw_control c))"
  using assms escape_text_length [of s] by (auto simp: read_string_escape)

theorem json_escape_roundtrip_witness:
  "\<exists>t. json_string_escape env0 0 (Some [CHR ''a'', CHR 0x0A, CHR 0x22]) = Some (Some t) \<and>
    read_string True (t @ ''}'') = Some ([CHR ''a'', CHR 0x0A, CHR 0x22], ''}'')"
  using json_escape_roundtrip [of env0 0 "[CHR ''a'', CHR 0x0A, CHR 0x22]" "''}''"]
  by (auto simp: raw_control_def control_char_def)

end
