(* ===== verification/Mcp_Adapter.thy ===== *)
theory Mcp_Adapter
  imports Json_Text Unified_Message
begin

text \<open>
  The server side of the MCP v1.0 adapter: the context and its four registration tables
  (\<open>mcp_v1_adapter.c\<close>), the handlers of \<open>tools/*\<close>, \<open>resources/*\<close> and \<open>prompts/*\<close>
  (\<open>mcp_v1_adapter_tool.c\<close>, \<open>_resource.c\<close>, \<open>_prompt.c\<close>) and the request router
  (\<open>mcp_v1_adapter_route.c\<close>).

  A table is the list of its used slots with its capacity. The callbacks an application
  registers work on a world of type \<open>'w\<close> and do not touch the context. The outer \<open>None\<close>
  of a result is an access through NULL or outside an array. \<open>mem E i\<close> numbers the
  allocations in the order of the code.
\<close>

section \<open>Data\<close>

abbreviation (input) MCP_V1_VERSION :: cstring where "MCP_V1_VERSION \<equiv> ''1.0.0''"
abbreviation (input) MCP_V1_MAX_TOOLS :: nat where "MCP_V1_MAX_TOOLS \<equiv> 1024"
abbreviation (input) MCP_V1_MAX_RESOURCES :: nat where "MCP_V1_MAX_RESOURCES \<equiv> 512"
abbreviation (input) MCP_V1_MAX_PROMPTS :: nat where "MCP_V1_MAX_PROMPTS \<equiv> 256"
abbreviation (input) MCP_V1_DEFAULT_TIMEOUT_MS :: u32 where "MCP_V1_DEFAULT_TIMEOUT_MS \<equiv> 30000"
abbreviation (input) MCP_V1_MAX_MESSAGE_SIZE :: nat where "MCP_V1_MAX_MESSAGE_SIZE \<equiv> 10485760"

abbreviation (input) MCP_CAP_TOOLS :: u32 where "MCP_CAP_TOOLS \<equiv> 0x01"
abbreviation (input) MCP_CAP_RESOURCES :: u32 where "MCP_CAP_RESOURCES \<equiv> 0x02"
abbreviation (input) MCP_CAP_PROMPTS :: u32 where "MCP_CAP_PROMPTS \<equiv> 0x04"
abbreviation (input) MCP_CAP_SAMPLING :: u32 where "MCP_CAP_SAMPLING \<equiv> 0x08"
abbreviation (input) MCP_CAP_LOGGING :: u32 where "MCP_CAP_LOGGING \<equiv> 0x10"
abbreviation (input) MCP_CAP_COMPLETION :: u32 where "MCP_CAP_COMPLETION \<equiv> 0x20"

datatype mcp_content_type =
  MCP_CONTENT_TEXT | MCP_CONTENT_IMAGE | MCP_CONTENT_RESOURCE | MCP_CONTENT_EMBEDDED

datatype mcp_log_level =
    MCP_LOG_DEBUG | MCP_LOG_INFO | MCP_LOG_NOTICE | MCP_LOG_WARNING
  | MCP_LOG_ERROR | MCP_LOG_CRITICAL | MCP_LOG_ALERT | MCP_LOG_EMERGENCY

record mcp_content =
  ct_type :: mcp_content_type
  ct_text :: "cstring option"
  ct_mime_type :: "cstring option"
  ct_uri :: "cstring option"
  ct_data :: "char list option"
  ct_data_size :: nat

record mcp_tool =
  tl_name :: "cstring option"
  tl_description :: "cstring option"
  tl_input_schema_json :: "cstring option"
  tl_required_caps :: u32

record mcp_resource =
  rs_uri :: "cstring option"
  rs_name :: "cstring option"
  rs_description :: "cstring option"
  rs_mime_type :: "cstring option"

record mcp_resource_template =
  rt_uri_template :: "cstring option"
  rt_name :: "cstring option"
  rt_description :: "cstring option"
  rt_mime_type :: "cstring option"

record mcp_prompt =
  pr_name :: "cstring option"
  pr_description :: "cstring option"
  pr_arguments_schema_json :: "cstring option"

record mcp_sampling_message =
  sm_role :: "cstring option"
  sm_content :: "mcp_content list option"
  sm_content_count :: nat

record mcp_sampling_params =
  sp_messages :: "mcp_sampling_message list"
  sp_message_count :: nat
  sp_model :: "cstring option"
  sp_max_tokens :: int
  sp_temperature :: real
  sp_top_p :: real
  sp_n :: int
  sp_stream :: bool
  sp_stop_sequences_json :: "cstring option"

record mcp_sampling_result =
  sr_model :: "cstring option"
  sr_content :: "mcp_content list option"
  sr_content_count :: nat
  sr_messages :: "mcp_sampling_message list option"
  sr_message_count :: nat
  sr_stopped_early :: bool
  sr_stop_reason :: "cstring option"

record mcp_completion_request =
  cr_reference_type :: "cstring option"
  cr_ref_uri :: "cstring option"
  cr_ref_name :: "cstring option"
  cr_argument_name :: "cstring option"
  cr_prefix :: "cstring option"

record mcp_completion_result =
  co_values :: "cstring list"
  co_value_count :: nat
  co_has_more :: bool
  co_total :: int

record mcp_stream_config =
  sc_enabled :: bool
  sc_chunk_size :: int
  sc_max_buffer_size :: int
  sc_flush_interval_ms :: int

record mcp_v1_config =
  cf_capabilities :: u32
  cf_default_timeout_ms :: u32
  cf_max_tools :: nat
  cf_max_resources :: nat
  cf_max_message_size :: nat
  cf_enable_progress_notifications :: bool
  cf_enable_cancellation :: bool
  cf_enable_sampling :: bool
  cf_server_name :: "cstring option"
  cf_server_version :: "cstring option"

text \<open>
  The callbacks. An out parameter is part of the result: a tool handler leaves an array
  (or NULL), a count and an error flag, a prompt handler an array and a count.
\<close>

type_synonym 'w mcp_tool_handler =
  "cstring \<Rightarrow> cstring option \<Rightarrow> ptr option \<Rightarrow> 'w \<Rightarrow> (mcp_content list option \<times> nat \<times> bool) \<times> 'w"
type_synonym 'w mcp_resource_handler =
  "cstring \<Rightarrow> ptr option \<Rightarrow> 'w \<Rightarrow> (cstring option \<times> cstring option) \<times> 'w"
type_synonym 'w mcp_prompt_handler =
  "cstring \<Rightarrow> cstring option \<Rightarrow> ptr option \<Rightarrow> 'w \<Rightarrow> (mcp_sampling_message list option \<times> nat) \<times> 'w"
type_synonym 'w mcp_sampling_handler =
  "mcp_sampling_params \<Rightarrow> mcp_sampling_result \<Rightarrow> ptr option \<Rightarrow> 'w \<Rightarrow> mcp_sampling_result \<times> 'w"
type_synonym 'w mcp_completion_handler =
  "mcp_completion_request \<Rightarrow> mcp_completion_result \<Rightarrow> ptr option \<Rightarrow> 'w \<Rightarrow> mcp_completion_result \<times> 'w"
type_synonym 'w mcp_progress_callback = "cstring \<Rightarrow> real \<Rightarrow> real \<Rightarrow> ptr option \<Rightarrow> 'w \<Rightarrow> 'w"
type_synonym 'w mcp_log_callback = "mcp_log_level \<Rightarrow> cstring \<Rightarrow> cstring \<Rightarrow> ptr option \<Rightarrow> 'w \<Rightarrow> 'w"

record 'w mcp_tool_entry =
  te_tool :: mcp_tool
  te_handler :: "'w mcp_tool_handler option"
  te_user_data :: "ptr option"

record 'w mcp_resource_entry =
  re_resource :: mcp_resource
  re_handler :: "'w mcp_resource_handler option"
  re_user_data :: "ptr option"

record 'w mcp_prompt_entry =
  pe_prompt :: mcp_prompt
  pe_handler :: "'w mcp_prompt_handler option"
  pe_user_data :: "ptr option"

record 'w mcp_context =
  mc_config :: mcp_v1_config
  mc_tools :: "'w mcp_tool_entry list"
  mc_tool_capacity :: nat
  mc_resources :: "'w mcp_resource_entry list"
  mc_resource_capacity :: nat
  mc_resource_templates :: "mcp_resource_template list"
  mc_template_capacity :: nat
  mc_prompts :: "'w mcp_prompt_entry list"
  mc_prompt_capacity :: nat
  mc_sampling_handler :: "'w mcp_sampling_handler option"
  mc_sampling_user_data :: "ptr option"
  mc_completion_handler :: "'w mcp_completion_handler option"
  mc_completion_user_data :: "ptr option"
  mc_progress_callback :: "'w mcp_progress_callback option"
  mc_progress_user_data :: "ptr option"
  mc_log_callback :: "'w mcp_log_callback option"
  mc_log_user_data :: "ptr option"
  mc_log_level :: mcp_log_level
  mc_transport :: "ptr option"
  mc_request_counter :: u64
  mc_stream_config :: mcp_stream_config
  mc_stream_active :: int

definition zero_mcp_config :: mcp_v1_config where
  "zero_mcp_config = \<lparr>cf_capabilities = 0, cf_default_timeout_ms = 0, cf_max_tools = 0,
     cf_max_resources = 0, cf_max_message_size = 0, cf_enable_progress_notifications = False,
     cf_enable_cancellation = False, cf_enable_sampling = False, cf_server_name = None,
     cf_server_version = None\<rparr>"

definition zero_context :: "'w mcp_context" where
  "zero_context = \<lparr>mc_config = zero_mcp_config, mc_tools = [], mc_tool_capacity = 0,
     mc_resources = [], mc_resource_capacity = 0, mc_resource_templates = [],
     mc_template_capacity = 0, mc_prompts = [], mc_prompt_capacity = 0,
     mc_sampling_handler = None, mc_sampling_user_data = None, mc_completion_handler = None,
     mc_completion_user_data = None, mc_progress_callback = None, mc_progress_user_data = None,
     mc_log_callback = None, mc_log_user_data = None, mc_log_level = MCP_LOG_DEBUG,
     mc_transport = None, mc_request_counter = 0,
     mc_stream_config = \<lparr>sc_enabled = False, sc_chunk_size = 0, sc_max_buffer_size = 0,
       sc_flush_interval_ms = 0\<rparr>, mc_stream_active = 0\<rparr>"

section \<open>Life of a context\<close>

definition mcp_v1_config_default :: mcp_v1_config where
  "mcp_v1_config_default = zero_mcp_config\<lparr>
     cf_capabilities := MCP_CAP_TOOLS OR MCP_CAP_RESOURCES OR MCP_CAP_PROMPTS OR MCP_CAP_LOGGING,
     cf_default_timeout_ms := MCP_V1_DEFAULT_TIMEOUT_MS,
     cf_max_tools := MCP_V1_MAX_TOOLS, cf_max_resources := MCP_V1_MAX_RESOURCES,
     cf_max_message_size := MCP_V1_MAX_MESSAGE_SIZE,
     cf_enable_progress_notifications := True, cf_enable_cancellation := True,
     cf_enable_sampling := False,
     cf_server_name := Some ''AgentRT MCP Server'', cf_server_version := Some MCP_V1_VERSION\<rparr>"

fun mcp_v1_context_create :: "env \<Rightarrow> mcp_v1_config option \<Rightarrow> 'w mcp_context option" where
  "mcp_v1_context_create E None = None"
| "mcp_v1_context_create E (Some config) =
    (if \<not> mem E 0 then None
     else if \<not> mem E 3 then None
     else if \<not> mem E 4 then None
     else if \<not> mem E 5 then None
     else if \<not> mem E 6 then None
     else Some (zero_context\<lparr>
       mc_config := config\<lparr>cf_server_name := strdup_safe E 1 (cf_server_name config),
                          cf_server_version := strdup_safe E 2 (cf_server_version config)\<rparr>,
       mc_tool_capacity := 32, mc_resource_capacity := 16, mc_template_capacity := 16,
       mc_prompt_capacity := 16, mc_log_level := MCP_LOG_INFO, mc_request_counter := 0\<rparr>))"

fun mcp_type_str :: "mcp_content_type \<Rightarrow> cstring" where
  "mcp_type_str MCP_CONTENT_IMAGE = ''image''"
| "mcp_type_str MCP_CONTENT_RESOURCE = ''resource''"
| "mcp_type_str MCP_CONTENT_EMBEDDED = ''embedded''"
| "mcp_type_str MCP_CONTENT_TEXT = ''text''"

fun mcp_v1_context_clear :: "'w mcp_context option \<Rightarrow> 'w mcp_context option" where
  "mcp_v1_context_clear None = None"
| "mcp_v1_context_clear (Some ctx) = Some (ctx\<lparr>
     mc_tools := [], mc_tool_capacity := 0, mc_resources := [], mc_resource_capacity := 0,
     mc_resource_templates := [], mc_template_capacity := 0, mc_prompts := [], mc_prompt_capacity := 0,
     mc_config := (mc_config ctx)\<lparr>cf_server_name := None, cf_server_version := None\<rparr>\<rparr>)"

section \<open>Registration\<close>

text \<open>
  The growth step that the four registration functions share: a full table is doubled.
  A capacity of 0 stays 0. The left value is the error, the right one the new capacity.
\<close>

definition grow_table :: "env \<Rightarrow> nat \<Rightarrow> nat \<Rightarrow> int + nat" where
  "grow_table E n capacity =
    (if capacity \<le> n then
       (let new_cap = capacity * 2 in
        if \<not> mem E 0 then Inl (err E AIRY_ERR_NULL_POINTER) else Inr new_cap)
     else Inr capacity)"

definition copy_tool :: "env \<Rightarrow> mcp_tool \<Rightarrow> mcp_tool" where
  "copy_tool E t = \<lparr>tl_name = strdup_safe E 1 (tl_name t), tl_description = strdup_safe E 2 (tl_description t),
     tl_input_schema_json = strdup_safe E 3 (tl_input_schema_json t), tl_required_caps = tl_required_caps t\<rparr>"

fun mcp_v1_register_tool ::
  "env \<Rightarrow> 'w mcp_context option \<Rightarrow> mcp_tool option \<Rightarrow> 'w mcp_tool_handler option \<Rightarrow> ptr option \<Rightarrow>
   (int \<times> 'w mcp_context option) option" where
  "mcp_v1_register_tool E (Some ctx) (Some tool) handler user_data =
    (if cf_max_tools (mc_config ctx) \<le> length (mc_tools ctx)
     then Some (err E AIRY_ERR_INVALID_PARAM, Some ctx)
     else case grow_table E (length (mc_tools ctx)) (mc_tool_capacity ctx) of
        Inl e \<Rightarrow> Some (e, Some ctx)
      | Inr cap \<Rightarrow>
         if cap \<le> length (mc_tools ctx) then None
         else Some (0, Some (ctx\<lparr>mc_tool_capacity := cap,
           mc_tools := mc_tools ctx @ [\<lparr>te_tool = copy_tool E tool, te_handler = handler,
             te_user_data = user_data\<rparr>]\<rparr>)))"
| "mcp_v1_register_tool E ctx _ _ _ = Some (err E AIRY_ERR_UNKNOWN, ctx)"

definition copy_resource :: "env \<Rightarrow> mcp_resource \<Rightarrow> mcp_resource" where
  "copy_resource E r = \<lparr>rs_uri = strdup_safe E 1 (rs_uri r), rs_name = strdup_safe E 2 (rs_name r),
     rs_description = strdup_safe E 3 (rs_description r), rs_mime_type = strdup_safe E 4 (rs_mime_type r)\<rparr>"

fun mcp_v1_register_resource ::
  "env \<Rightarrow> 'w mcp_context option \<Rightarrow> mcp_resource option \<Rightarrow> 'w mcp_resource_handler option \<Rightarrow> ptr option \<Rightarrow>
   (int \<times> 'w mcp_context option) option" where
  "mcp_v1_register_resource E (Some ctx) (Some resource) handler user_data =
    (if cf_max_resources (mc_config ctx) \<le> length (mc_resources ctx)
     then Some (err E AIRY_ERR_INVALID_PARAM, Some ctx)
     else case grow_table E (length (mc_resources ctx)) (mc_resource_capacity ctx) of
        Inl e \<Rightarrow> Some (e, Some ctx)
      | Inr cap \<Rightarrow>
         if cap \<le> length (mc_resources ctx) then None
         else Some (0, Some (ctx\<lparr>mc_resource_capacity := cap,
           mc_resources := mc_resources ctx @ [\<lparr>re_resource = copy_resource E resource,
             re_handler = handler, re_user_data = user_data\<rparr>]\<rparr>)))"
| "mcp_v1_register_resource E ctx _ _ _ = Some (err E AIRY_ERR_UNKNOWN, ctx)"

definition copy_template :: "env \<Rightarrow> mcp_resource_template \<Rightarrow> mcp_resource_template" where
  "copy_template E t = \<lparr>rt_uri_template = strdup_safe E 1 (rt_uri_template t), rt_name = strdup_safe E 2 (rt_name t),
     rt_description = strdup_safe E 3 (rt_description t), rt_mime_type = strdup_safe E 4 (rt_mime_type t)\<rparr>"

fun mcp_v1_register_resource_template ::
  "env \<Rightarrow> 'w mcp_context option \<Rightarrow> mcp_resource_template option \<Rightarrow> (int \<times> 'w mcp_context option) option" where
  "mcp_v1_register_resource_template E (Some ctx) (Some tpl) =
    (case grow_table E (length (mc_resource_templates ctx)) (mc_template_capacity ctx) of
        Inl e \<Rightarrow> Some (e, Some ctx)
      | Inr cap \<Rightarrow>
         if cap \<le> length (mc_resource_templates ctx) then None
         else Some (0, Some (ctx\<lparr>mc_template_capacity := cap,
           mc_resource_templates := mc_resource_templates ctx @ [copy_template E tpl]\<rparr>)))"
| "mcp_v1_register_resource_template E ctx _ = Some (err E AIRY_ERR_UNKNOWN, ctx)"

definition copy_prompt :: "env \<Rightarrow> mcp_prompt \<Rightarrow> mcp_prompt" where
  "copy_prompt E p = \<lparr>pr_name = strdup_safe E 1 (pr_name p), pr_description = strdup_safe E 2 (pr_description p),
     pr_arguments_schema_json = strdup_safe E 3 (pr_arguments_schema_json p)\<rparr>"

fun mcp_v1_register_prompt ::
  "env \<Rightarrow> 'w mcp_context option \<Rightarrow> mcp_prompt option \<Rightarrow> 'w mcp_prompt_handler option \<Rightarrow> ptr option \<Rightarrow>
   (int \<times> 'w mcp_context option) option" where
  "mcp_v1_register_prompt E (Some ctx) (Some prompt) handler user_data =
    (if MCP_V1_MAX_PROMPTS \<le> length (mc_prompts ctx)
     then Some (err E AIRY_ERR_INVALID_PARAM, Some ctx)
     else case grow_table E (length (mc_prompts ctx)) (mc_prompt_capacity ctx) of
        Inl e \<Rightarrow> Some (e, Some ctx)
      | Inr cap \<Rightarrow>
         if cap \<le> length (mc_prompts ctx) then None
         else Some (0, Some (ctx\<lparr>mc_prompt_capacity := cap,
           mc_prompts := mc_prompts ctx @ [\<lparr>pe_prompt = copy_prompt E prompt, pe_handler = handler,
             pe_user_data = user_data\<rparr>]\<rparr>)))"
| "mcp_v1_register_prompt E ctx _ _ _ = Some (err E AIRY_ERR_UNKNOWN, ctx)"

section \<open>Setters and getters\<close>

fun mcp_v1_set_sampling_handler ::
  "env \<Rightarrow> 'w mcp_context option \<Rightarrow> 'w mcp_sampling_handler option \<Rightarrow> ptr option \<Rightarrow> int \<times> 'w mcp_context option" where
  "mcp_v1_set_sampling_handler E None handler user_data = (err E AIRY_ERR_UNKNOWN, None)"
| "mcp_v1_set_sampling_handler E (Some ctx) handler user_data =
    (let ctx = ctx\<lparr>mc_sampling_handler := handler, mc_sampling_user_data := user_data\<rparr> in
     (0, Some (if handler \<noteq> None
        then ctx\<lparr>mc_config := (mc_config ctx)\<lparr>cf_capabilities := cf_capabilities (mc_config ctx) OR MCP_CAP_SAMPLING\<rparr>\<rparr>
        else ctx)))"

fun mcp_v1_set_completion_handler ::
  "env \<Rightarrow> 'w mcp_context option \<Rightarrow> 'w mcp_completion_handler option \<Rightarrow> ptr option \<Rightarrow> int \<times> 'w mcp_context option" where
  "mcp_v1_set_completion_handler E None handler user_data = (err E AIRY_ERR_UNKNOWN, None)"
| "mcp_v1_set_completion_handler E (Some ctx) handler user_data =
    (let ctx = ctx\<lparr>mc_completion_handler := handler, mc_completion_user_data := user_data\<rparr> in
     (0, Some (if handler \<noteq> None
        then ctx\<lparr>mc_config := (mc_config ctx)\<lparr>cf_capabilities := cf_capabilities (mc_config ctx) OR MCP_CAP_COMPLETION\<rparr>\<rparr>
        else ctx)))"

fun mcp_v1_set_progress_callback ::
  "env \<Rightarrow> 'w mcp_context option \<Rightarrow> 'w mcp_progress_callback option \<Rightarrow> ptr option \<Rightarrow> int \<times> 'w mcp_context option" where
  "mcp_v1_set_progress_callback E None callback user_data = (err E AIRY_ERR_UNKNOWN, None)"
| "mcp_v1_set_progress_callback E (Some ctx) callback user_data =
    (0, Some (ctx\<lparr>mc_progress_callback := callback, mc_progress_user_data := user_data\<rparr>))"

fun mcp_v1_set_log_callback ::
  "env \<Rightarrow> 'w mcp_context option \<Rightarrow> 'w mcp_log_callback option \<Rightarrow> ptr option \<Rightarrow> int \<times> 'w mcp_context option" where
  "mcp_v1_set_log_callback E None callback user_data = (err E AIRY_ERR_UNKNOWN, None)"
| "mcp_v1_set_log_callback E (Some ctx) callback user_data =
    (0, Some (ctx\<lparr>mc_log_callback := callback, mc_log_user_data := user_data\<rparr>))"

fun mcp_v1_set_log_level :: "env \<Rightarrow> 'w mcp_context option \<Rightarrow> mcp_log_level \<Rightarrow> int \<times> 'w mcp_context option" where
  "mcp_v1_set_log_level E None level = (err E AIRY_ERR_UNKNOWN, None)"
| "mcp_v1_set_log_level E (Some ctx) level = (0, Some (ctx\<lparr>mc_log_level := level\<rparr>))"

fun mcp_v1_set_transport :: "env \<Rightarrow> 'w mcp_context option \<Rightarrow> ptr option \<Rightarrow> int \<times> 'w mcp_context option" where
  "mcp_v1_set_transport E None transport = (err E AIRY_ERR_UNKNOWN, None)"
| "mcp_v1_set_transport E (Some ctx) transport = (0, Some (ctx\<lparr>mc_transport := transport\<rparr>))"

definition mcp_v1_get_transport :: "'w mcp_context option \<Rightarrow> ptr option" where
  "mcp_v1_get_transport ctx = (case ctx of None \<Rightarrow> None | Some c \<Rightarrow> mc_transport c)"

definition mcp_v1_get_tool_count :: "'w mcp_context option \<Rightarrow> nat" where
  "mcp_v1_get_tool_count ctx = (case ctx of None \<Rightarrow> 0 | Some c \<Rightarrow> length (mc_tools c))"

definition mcp_v1_get_resource_count :: "'w mcp_context option \<Rightarrow> nat" where
  "mcp_v1_get_resource_count ctx = (case ctx of None \<Rightarrow> 0 | Some c \<Rightarrow> length (mc_resources c))"

definition mcp_v1_get_prompt_count :: "'w mcp_context option \<Rightarrow> nat" where
  "mcp_v1_get_prompt_count ctx = (case ctx of None \<Rightarrow> 0 | Some c \<Rightarrow> length (mc_prompts c))"

definition mcp_v1_get_capabilities :: "'w mcp_context option \<Rightarrow> u32" where
  "mcp_v1_get_capabilities ctx = (case ctx of None \<Rightarrow> 0 | Some c \<Rightarrow> cf_capabilities (mc_config c))"

text \<open>
  Freeing an array of contents reads its first \<open>count\<close> elements: \<open>None\<close> when the array
  is shorter.
\<close>

definition mcp_content_destroy :: "mcp_content list option \<Rightarrow> nat \<Rightarrow> unit option" where
  "mcp_content_destroy content n = (case content of None \<Rightarrow> Some ()
     | Some cs \<Rightarrow> if n \<le> length cs then Some () else None)"

section \<open>Lists of registered items\<close>

text \<open>
  A \<open>char **response_json\<close> is \<open>None\<close> when the pointer is NULL and \<open>Some\<close> of the cell
  otherwise. Printing a NULL string with \<open>%s\<close> is undefined: \<open>esc_arg\<close> is the text that an
  escaped string contributes to a format, \<open>None\<close> when the escape returned NULL.
\<close>

type_synonym response = "cstring option option"

definition esc_arg :: "env \<Rightarrow> nat \<Rightarrow> cstring option \<Rightarrow> cstring option" where
  "esc_arg E i s = Option.bind (json_string_escape E i s) (\<lambda>t. t)"

text \<open>The list handlers share their frame: a buffer sized by the count, the items between commas.\<close>

definition list_response ::
  "env \<Rightarrow> nat \<Rightarrow> cstring \<Rightarrow> cstring option list \<Rightarrow> response \<Rightarrow> (int \<times> response) option" where
  "list_response E buf_size head items out =
    (if \<not> mem E 0 then Some (err E AIRY_ERR_NULL_POINTER, out)
     else case those items of
        None \<Rightarrow> None
      | Some texts \<Rightarrow>
         (case sb_puts buf_size ([head] @ commas texts @ ['']}'']) of
            None \<Rightarrow> None
          | Some b \<Rightarrow> Some (0, Some (Some (sb_text b)))))"

definition tool_item :: "env \<Rightarrow> nat \<Rightarrow> 'w mcp_tool_entry \<Rightarrow> cstring option" where
  "tool_item E i e =
    (case (esc_arg E (1 + 2 * i) (tl_name (te_tool e)), esc_arg E (2 + 2 * i) (tl_description (te_tool e))) of
        (Some name, Some desc) \<Rightarrow> Some (''{\"name\":'' @ name @ '',\"description\":'' @ desc @
          '',\"inputSchema\":'' @ (case tl_input_schema_json (te_tool e) of None \<Rightarrow> ''{}'' | Some s \<Rightarrow> s) @ ''}'')
      | _ \<Rightarrow> None)"

fun mcp_v1_handle_tools_list :: "env \<Rightarrow> 'w mcp_context option \<Rightarrow> response \<Rightarrow> (int \<times> response) option" where
  "mcp_v1_handle_tools_list E (Some ctx) (Some r) =
    list_response E (4096 + length (mc_tools ctx) * 512) ''{\"tools\":[''
      (map2 (tool_item E) [0..<length (mc_tools ctx)] (mc_tools ctx)) (Some r)"
| "mcp_v1_handle_tools_list E _ out = Some (err E AIRY_ERR_UNKNOWN, out)"

definition resource_item :: "env \<Rightarrow> nat \<Rightarrow> 'w mcp_resource_entry \<Rightarrow> cstring option" where
  "resource_item E i e =
    (case (esc_arg E (1 + 4 * i) (rs_uri (re_resource e)), esc_arg E (2 + 4 * i) (rs_name (re_resource e)),
           esc_arg E (3 + 4 * i) (rs_description (re_resource e)), esc_arg E (4 + 4 * i) (rs_mime_type (re_resource e))) of
        (Some uri, Some name, Some desc, Some mime) \<Rightarrow> Some (''{\"uri\":'' @ uri @ '',\"name\":'' @ name @
          '',\"description\":'' @ desc @ '',\"mimeType\":'' @ mime @ ''}'')
      | _ \<Rightarrow> None)"

fun mcp_v1_handle_resources_list :: "env \<Rightarrow> 'w mcp_context option \<Rightarrow> response \<Rightarrow> (int \<times> response) option" where
  "mcp_v1_handle_resources_list E (Some ctx) (Some r) =
    list_response E (4096 + length (mc_resources ctx) * 512) ''{\"resources\":[''
      (map2 (resource_item E) [0..<length (mc_resources ctx)] (mc_resources ctx)) (Some r)"
| "mcp_v1_handle_resources_list E _ out = Some (err E AIRY_ERR_UNKNOWN, out)"

definition template_item :: "env \<Rightarrow> nat \<Rightarrow> mcp_resource_template \<Rightarrow> cstring option" where
  "template_item E i t =
    (case (esc_arg E (1 + 3 * i) (rt_uri_template t), esc_arg E (2 + 3 * i) (rt_name t),
           esc_arg E (3 + 3 * i) (rt_description t)) of
        (Some uri, Some name, Some desc) \<Rightarrow> Some (''{\"uriTemplate\":'' @ uri @ '',\"name\":'' @ name @
          '',\"description\":'' @ desc @ ''}'')
      | _ \<Rightarrow> None)"

fun mcp_v1_handle_resources_templates :: "env \<Rightarrow> 'w mcp_context option \<Rightarrow> response \<Rightarrow> (int \<times> response) option" where
  "mcp_v1_handle_resources_templates E (Some ctx) (Some r) =
    list_response E (4096 + length (mc_resource_templates ctx) * 512) ''{\"resourceTemplates\":[''
      (map2 (template_item E) [0..<length (mc_resource_templates ctx)] (mc_resource_templates ctx)) (Some r)"
| "mcp_v1_handle_resources_templates E _ out = Some (err E AIRY_ERR_UNKNOWN, out)"

definition prompt_item :: "env \<Rightarrow> nat \<Rightarrow> 'w mcp_prompt_entry \<Rightarrow> cstring option" where
  "prompt_item E i e =
    (case (esc_arg E (1 + 2 * i) (pr_name (pe_prompt e)), esc_arg E (2 + 2 * i) (pr_description (pe_prompt e))) of
        (Some name, Some desc) \<Rightarrow> Some (''{\"name\":'' @ name @ '',\"description\":'' @ desc @
          '',\"arguments\":'' @ (case pr_arguments_schema_json (pe_prompt e) of None \<Rightarrow> ''[]'' | Some s \<Rightarrow> s) @ ''}'')
      | _ \<Rightarrow> None)"

fun mcp_v1_handle_prompts_list :: "env \<Rightarrow> 'w mcp_context option \<Rightarrow> response \<Rightarrow> (int \<times> response) option" where
  "mcp_v1_handle_prompts_list E (Some ctx) (Some r) =
    list_response E (4096 + length (mc_prompts ctx) * 512) ''{\"prompts\":[''
      (map2 (prompt_item E) [0..<length (mc_prompts ctx)] (mc_prompts ctx)) (Some r)"
| "mcp_v1_handle_prompts_list E _ out = Some (err E AIRY_ERR_UNKNOWN, out)"

section \<open>Calls\<close>

text \<open>
  The search that the three handlers share: \<open>strcmp\<close> with each name in turn. Comparing with
  a NULL name is the outer \<open>None\<close>, no match the inner one.
\<close>

fun find_named :: "('e \<Rightarrow> cstring option) \<Rightarrow> cstring \<Rightarrow> 'e list \<Rightarrow> 'e option option" where
  "find_named key k [] = Some None"
| "find_named key k (x # xs) = (case key x of
      None \<Rightarrow> None
    | Some n \<Rightarrow> if n = k then Some (Some x) else find_named key k xs)"

abbreviation tool_key :: "'w mcp_tool_entry \<Rightarrow> cstring option" where
  "tool_key \<equiv> \<lambda>e. tl_name (te_tool e)"

abbreviation resource_key :: "'w mcp_resource_entry \<Rightarrow> cstring option" where
  "resource_key \<equiv> \<lambda>e. rs_uri (re_resource e)"

abbreviation prompt_key :: "'w mcp_prompt_entry \<Rightarrow> cstring option" where
  "prompt_key \<equiv> \<lambda>e. pr_name (pe_prompt e)"

text \<open>Reading the first n elements of an array that a handler returned.\<close>

definition array_take :: "nat \<Rightarrow> 'a list option \<Rightarrow> 'a list option" where
  "array_take n a = (if n = 0 then Some [] else case a of None \<Rightarrow> None
     | Some xs \<Rightarrow> if n \<le> length xs then Some (take n xs) else None)"

definition tool_missing_text :: "cstring \<Rightarrow> cstring" where
  "tool_missing_text safe_name = ''{\"isError\":true,\"content\":[{\"type\":\"text\",\"text\":\"Tool not found: '' @
     safe_name @ ''\"}]}''"

definition content_item :: "env \<Rightarrow> nat \<Rightarrow> mcp_content \<Rightarrow> cstring option" where
  "content_item E i c = (case esc_arg E (1 + i) (ct_text c) of None \<Rightarrow> None
     | Some text_esc \<Rightarrow> Some (''{\"type\":\"'' @ mcp_type_str (ct_type c) @ ''\",\"text\":'' @ text_esc @ ''}''))"

definition result_head :: "bool \<Rightarrow> cstring" where
  "result_head is_error = ''{\"isError\":'' @ (if is_error then ''true'' else ''false'') @ '',\"content\":[''"

text \<open>The largest \<open>result_count\<close> for which \<open>4096 + result_count * 1024\<close> does not wrap.\<close>

abbreviation (input) result_limit :: nat where
  "result_limit \<equiv> (2 ^ 64 - 1 - 4096) div 1024"

text \<open>What a call does with the answer of the handler.\<close>

definition tool_answer ::
  "env \<Rightarrow> mcp_content list option \<Rightarrow> nat \<Rightarrow> bool \<Rightarrow> cstring option \<Rightarrow> 'w \<Rightarrow> (int \<times> response \<times> 'w) option" where
  "tool_answer E results result_count is_error r w =
    (if result_limit < result_count then
       (case mcp_content_destroy results result_count of None \<Rightarrow> None
        | Some _ \<Rightarrow> Some (err E AIRY_ERR_OVERFLOW, Some r, w))
     else if \<not> mem E 0 then
       (case mcp_content_destroy results result_count of None \<Rightarrow> None
        | Some _ \<Rightarrow> Some (err E AIRY_ERR_NULL_POINTER, Some r, w))
     else case array_take result_count results of
        None \<Rightarrow> None
      | Some cs \<Rightarrow>
         (case list_response E (4096 + result_count * 1024) (result_head is_error)
             (map2 (content_item E) [0..<result_count] cs) (Some r) of
            None \<Rightarrow> None
          | Some (rc, out) \<Rightarrow> Some (rc, out, w)))"

fun mcp_v1_handle_tools_call ::
  "env \<Rightarrow> 'w mcp_context option \<Rightarrow> cstring option \<Rightarrow> cstring option \<Rightarrow> response \<Rightarrow> 'w \<Rightarrow>
   (int \<times> response \<times> 'w) option" where
  "mcp_v1_handle_tools_call E (Some ctx) (Some name) arguments_json (Some r) w =
    (case find_named tool_key name (mc_tools ctx) of
        None \<Rightarrow> None
      | Some None \<Rightarrow>
         (case json_string_escape E 0 (Some name) of
            None \<Rightarrow> None
          | Some name_esc \<Rightarrow>
             (let safe_name = (case name_esc of None \<Rightarrow> name | Some t \<Rightarrow> t) in
              Some (err E AIRY_ERR_INVALID_PARAM, Some (strdup E 1 (tool_missing_text safe_name)), w)))
      | Some (Some found) \<Rightarrow>
         (case te_handler found of
            None \<Rightarrow> None
          | Some handler \<Rightarrow>
             (case handler name arguments_json (te_user_data found) w of
                ((results, result_count, is_error), w) \<Rightarrow>
                 tool_answer E results result_count is_error r w)))"
| "mcp_v1_handle_tools_call E _ _ _ out w = Some (err E AIRY_ERR_UNKNOWN, out, w)"

definition resource_missing_text :: "cstring \<Rightarrow> cstring" where
  "resource_missing_text uri_esc = ''{\"contents\":[{\"uri\":'' @ uri_esc @ '',\"text\":\"Resource not found\"}]}''"

definition resource_text :: "cstring \<Rightarrow> cstring \<Rightarrow> cstring \<Rightarrow> cstring" where
  "resource_text uri_esc mime_esc content_esc = ''{\"contents\":[{\"uri\":'' @ uri_esc @
     '',\"mimeType\":'' @ mime_esc @ '',\"text\":'' @ content_esc @ ''}]}''"

fun mcp_v1_handle_resources_read ::
  "env \<Rightarrow> 'w mcp_context option \<Rightarrow> cstring option \<Rightarrow> response \<Rightarrow> 'w \<Rightarrow> (int \<times> response \<times> 'w) option" where
  "mcp_v1_handle_resources_read E (Some ctx) (Some uri) (Some r) w =
    (case find_named resource_key uri (mc_resources ctx) of
        None \<Rightarrow> None
      | Some found \<Rightarrow>
         (case Option.bind found re_handler of
            None \<Rightarrow>
             (case esc_arg E 0 (Some uri) of
                None \<Rightarrow> None
              | Some uri_esc \<Rightarrow>
                 Some (err E AIRY_ERR_INVALID_PARAM, Some (strdup E 1 (resource_missing_text uri_esc)), w))
          | Some handler \<Rightarrow>
             (case handler uri (Option.bind found re_user_data) w of
                ((content, mime_type), w) \<Rightarrow>
                 (case (esc_arg E 0 (Some uri), esc_arg E 1 content, esc_arg E 2 mime_type) of
                    (Some uri_esc, Some content_esc, Some mime_esc) \<Rightarrow>
                      Some (0, Some (strdup E 3 (resource_text uri_esc mime_esc content_esc)), w)
                  | _ \<Rightarrow> None))))"
| "mcp_v1_handle_resources_read E _ _ out w = Some (err E AIRY_ERR_UNKNOWN, out, w)"

text \<open>
  \<open>prompts/get\<close> casts a pointer to \<open>mcp_content_t\<close> to a string. The string starts with the
  bytes of the member \<open>type\<close>, an int of four bytes whose low byte comes first on the
  supported little-endian machines: the number of the content type, then NUL.
\<close>

fun content_as_string :: "mcp_content list \<Rightarrow> cstring option" where
  "content_as_string [] = None"
| "content_as_string (c # cs) = Some (case ct_type c of
      MCP_CONTENT_TEXT \<Rightarrow> []
    | MCP_CONTENT_IMAGE \<Rightarrow> [CHR 0x01]
    | MCP_CONTENT_RESOURCE \<Rightarrow> [CHR 0x02]
    | MCP_CONTENT_EMBEDDED \<Rightarrow> [CHR 0x03])"

definition prompt_message :: "env \<Rightarrow> nat \<Rightarrow> mcp_sampling_message \<Rightarrow> cstring option" where
  "prompt_message E i m =
    (case (case sm_content m of None \<Rightarrow> Some [] | Some cs \<Rightarrow> content_as_string cs) of
        None \<Rightarrow> None
      | Some body \<Rightarrow>
         (case (esc_arg E (2 + 2 * i) (sm_role m), esc_arg E (3 + 2 * i) (Some body)) of
            (Some role, Some content) \<Rightarrow> Some (''{\"role\":'' @ role @
              '',\"content\":{\"type\":\"text\",\"text\":\"'' @ content @ ''\"}}'')
          | _ \<Rightarrow> None))"

definition prompt_head :: "cstring \<Rightarrow> cstring" where
  "prompt_head name_esc = ''{\"description\":\"Prompt: '' @ name_esc @ ''\",\"messages\":[''"

fun mcp_v1_handle_prompts_get ::
  "env \<Rightarrow> 'w mcp_context option \<Rightarrow> cstring option \<Rightarrow> cstring option \<Rightarrow> response \<Rightarrow> 'w \<Rightarrow>
   (int \<times> response \<times> 'w) option" where
  "mcp_v1_handle_prompts_get E (Some ctx) (Some name) arguments_json (Some r) w =
    (case find_named prompt_key name (mc_prompts ctx) of
        None \<Rightarrow> None
      | Some found \<Rightarrow>
         (case Option.bind found pe_handler of
            None \<Rightarrow> Some (err E AIRY_ERR_INVALID_PARAM,
              Some (strdup E 0 ''{\"description\":\"Prompt not found\",\"messages\":[]}''), w)
          | Some handler \<Rightarrow>
             (case handler name arguments_json (Option.bind found pe_user_data) w of
                ((messages, message_count), w) \<Rightarrow>
                 if \<not> mem E 0 then Some (err E AIRY_ERR_NULL_POINTER, Some r, w)
                 else case (esc_arg E 1 (Some name), array_take (min message_count 100) messages) of
                    (Some name_esc, Some ms) \<Rightarrow>
                     (case list_response E ((4096 + message_count * 1024) mod 2 ^ 64) (prompt_head name_esc)
                         (map2 (prompt_message E) [0..<length ms] ms) (Some r) of
                        None \<Rightarrow> None
                      | Some (rc, out) \<Rightarrow> Some (rc, out, w))
                  | _ \<Rightarrow> None)))"
| "mcp_v1_handle_prompts_get E _ _ _ out w = Some (err E AIRY_ERR_UNKNOWN, out, w)"

section \<open>Routing\<close>

text \<open>
  \<open>get_str text key\<close> stands for the cJSON library: the string value of the member \<open>key\<close>
  of the object that \<open>text\<close> parses to, \<open>None\<close> when there is no such value.
\<close>

definition mcp_v1_extract_string_param ::
  "env \<Rightarrow> (cstring \<Rightarrow> cstring \<Rightarrow> cstring option) \<Rightarrow> cstring option \<Rightarrow> cstring \<Rightarrow> cstring \<Rightarrow> nat \<Rightarrow> cstring" where
  "mcp_v1_extract_string_param E get_str params_json key buf buf_size = (case params_json of
      None \<Rightarrow> buf
    | Some p \<Rightarrow> (case get_str p key of None \<Rightarrow> buf | Some v \<Rightarrow> strncpy_term E buf_size v))"

definition log_levels :: "(cstring \<times> mcp_log_level) list" where
  "log_levels = [(''debug'', MCP_LOG_DEBUG), (''notice'', MCP_LOG_NOTICE), (''warning'', MCP_LOG_WARNING),
     (''error'', MCP_LOG_ERROR), (''critical'', MCP_LOG_CRITICAL), (''alert'', MCP_LOG_ALERT),
     (''emergency'', MCP_LOG_EMERGENCY)]"

definition mcp_v1_parse_log_level ::
  "(cstring \<Rightarrow> cstring \<Rightarrow> cstring option) \<Rightarrow> cstring option \<Rightarrow> mcp_log_level" where
  "mcp_v1_parse_log_level get_str params_json = (case params_json of
      None \<Rightarrow> MCP_LOG_INFO
    | Some p \<Rightarrow> (case get_str p ''level'' of
         None \<Rightarrow> MCP_LOG_INFO
       | Some v \<Rightarrow> (case map_of log_levels v of None \<Rightarrow> MCP_LOG_INFO | Some l \<Rightarrow> l)))"

definition json_bool :: "bool \<Rightarrow> cstring" where
  "json_bool b = (if b then ''true'' else ''false'')"

definition init_resp_fill :: "mcp_v1_config \<Rightarrow> cstring" where
  "init_resp_fill cfg = ''{\"protocolVersion\":\"'' @ MCP_V1_VERSION @
     ''\",\"capabilities\":{\"tools\":'' @ json_bool (cf_capabilities cfg AND MCP_CAP_TOOLS \<noteq> 0) @
     '',\"resources\":'' @ json_bool (cf_capabilities cfg AND MCP_CAP_RESOURCES \<noteq> 0) @
     '',\"prompts\":'' @ json_bool (cf_capabilities cfg AND MCP_CAP_PROMPTS \<noteq> 0) @
     '',\"sampling\":'' @ json_bool (cf_capabilities cfg AND MCP_CAP_SAMPLING \<noteq> 0) @
     '',\"logging\":'' @ json_bool (cf_capabilities cfg AND MCP_CAP_LOGGING \<noteq> 0) @
     ''},\"serverInfo\":{\"name\":\"'' @ (case cf_server_name cfg of None \<Rightarrow> ''AgentRT'' | Some n \<Rightarrow> n) @
     ''\",\"version\":\"'' @ (case cf_server_version cfg of None \<Rightarrow> MCP_V1_VERSION | Some v \<Rightarrow> v) @ ''\"}}''"

definition mcp_v1_build_initialize_response :: "env \<Rightarrow> 'w mcp_context \<Rightarrow> int \<times> response" where
  "mcp_v1_build_initialize_response E ctx = (0, Some (strdup E 0 (init_resp_fill (mc_config ctx))))"

definition or_unknown :: "cstring \<Rightarrow> cstring" where
  "or_unknown s = (if s \<noteq> [] then s else ''unknown'')"

fun mcp_v1_route_request ::
  "env \<Rightarrow> (cstring \<Rightarrow> cstring \<Rightarrow> cstring option) \<Rightarrow> 'w mcp_context option \<Rightarrow> cstring option \<Rightarrow> cstring option \<Rightarrow>
   response \<Rightarrow> 'w \<Rightarrow> (int \<times> response \<times> 'w mcp_context option \<times> 'w) option" where
  "mcp_v1_route_request E get_str (Some ctx0) (Some meth) params_json (Some r) w =
    (let ctx = ctx0\<lparr>mc_request_counter := mc_request_counter ctx0 + 1\<rparr>;
         listed = map_option (\<lambda>(rc, out). (rc, out, Some ctx, w));
         called = map_option (\<lambda>(rc, out, w). (rc, out, Some ctx, w)) in
     if meth = ''tools/list'' then listed (mcp_v1_handle_tools_list E (Some ctx) (Some r))
     else if meth = ''tools/call'' then
       (let tool_name = mcp_v1_extract_string_param E get_str params_json ''name'' [] 256 in
        called (mcp_v1_handle_tools_call E (Some ctx) (Some (or_unknown tool_name)) params_json (Some r) w))
     else if meth = ''resources/list'' then listed (mcp_v1_handle_resources_list E (Some ctx) (Some r))
     else if meth = ''resources/read'' then
       (let resource_uri = mcp_v1_extract_string_param E get_str params_json ''uri'' [] 512 in
        called (mcp_v1_handle_resources_read E (Some ctx) (Some (or_unknown resource_uri)) (Some r) w))
     else if meth = ''resources/templates/list'' then
       listed (mcp_v1_handle_resources_templates E (Some ctx) (Some r))
     else if meth = ''prompts/list'' then listed (mcp_v1_handle_prompts_list E (Some ctx) (Some r))
     else if meth = ''prompts/get'' then
       (let prompt_name = mcp_v1_extract_string_param E get_str params_json ''name'' [] 256 in
        called (mcp_v1_handle_prompts_get E (Some ctx) (Some (or_unknown prompt_name)) params_json (Some r) w))
     else if meth = ''logging/setLogLevel'' then
       (case mcp_v1_set_log_level E (Some ctx) (mcp_v1_parse_log_level get_str params_json) of
          (rc, ctx) \<Rightarrow> Some (rc, Some r, ctx, w))
     else if meth = ''initialize'' then listed (Some (mcp_v1_build_initialize_response E ctx))
     else Some (err E AIRY_ERR_INVALID_PARAM,
       Some (strdup E 0 ''{\"error\":{\"code\":-32601,\"message\":\"Method not found\"}}''), Some ctx, w))"
| "mcp_v1_route_request E get_str ctx _ _ out w = Some (err E AIRY_ERR_UNKNOWN, out, ctx, w)"

section \<open>Tables: invariant and reachability\<close>

lemma esc_arg_eq: "esc_arg E i s = (if mem E i then Some (json_opt s) else None)"
  by (simp add: esc_arg_def json_escape_eq)

lemma esc_arg_ok [simp]: "mem_ok E \<Longrightarrow> esc_arg E i s = Some (json_opt s)"
  by (simp add: esc_arg_eq)

lemma grow_table_cases:
  "grow_table E n cap = Inl e \<Longrightarrow> cap \<le> n \<and> e = err E AIRY_ERR_NULL_POINTER"
  "grow_table E n cap = Inr c \<Longrightarrow> n \<le> cap \<Longrightarrow> 0 < cap \<Longrightarrow> n < c \<and> cap \<le> c \<and> c \<le> 2 * cap"
  "grow_table E n cap = Inr c \<Longrightarrow> cap = 0 \<Longrightarrow> c = 0"
  by (auto simp: grow_table_def split: if_splits)

lemma grow_table_mono: "grow_table E n cap = Inr c \<Longrightarrow> cap \<le> c"
  by (auto simp: grow_table_def split: if_splits)

text \<open>
  A context in use: created, then changed by registrations, setters and requests, in any
  order and with any allocation failing.
\<close>

inductive mcp_live :: "'w mcp_context \<Rightarrow> bool" where
  l_create: "mcp_v1_context_create E cfg = Some ctx \<Longrightarrow> mcp_live ctx"
| l_tool: "mcp_live ctx \<Longrightarrow> mcp_v1_register_tool E (Some ctx) t h u = Some (rc, Some ctx') \<Longrightarrow> mcp_live ctx'"
| l_resource: "mcp_live ctx \<Longrightarrow> mcp_v1_register_resource E (Some ctx) r hr u = Some (rc, Some ctx') \<Longrightarrow> mcp_live ctx'"
| l_template: "mcp_live ctx \<Longrightarrow> mcp_v1_register_resource_template E (Some ctx) tp = Some (rc, Some ctx') \<Longrightarrow> mcp_live ctx'"
| l_prompt: "mcp_live ctx \<Longrightarrow> mcp_v1_register_prompt E (Some ctx) p hp u = Some (rc, Some ctx') \<Longrightarrow> mcp_live ctx'"
| l_sampling: "mcp_live ctx \<Longrightarrow> mcp_v1_set_sampling_handler E (Some ctx) hs u = (rc, Some ctx') \<Longrightarrow> mcp_live ctx'"
| l_completion: "mcp_live ctx \<Longrightarrow> mcp_v1_set_completion_handler E (Some ctx) hc u = (rc, Some ctx') \<Longrightarrow> mcp_live ctx'"
| l_progress: "mcp_live ctx \<Longrightarrow> mcp_v1_set_progress_callback E (Some ctx) cb u = (rc, Some ctx') \<Longrightarrow> mcp_live ctx'"
| l_log: "mcp_live ctx \<Longrightarrow> mcp_v1_set_log_callback E (Some ctx) cl u = (rc, Some ctx') \<Longrightarrow> mcp_live ctx'"
| l_transport: "mcp_live ctx \<Longrightarrow> mcp_v1_set_transport E (Some ctx) tr = (rc, Some ctx') \<Longrightarrow> mcp_live ctx'"
| l_route: "mcp_live ctx \<Longrightarrow>
    mcp_v1_route_request E J (Some ctx) m ps out w = Some (rc, out', Some ctx', w') \<Longrightarrow> mcp_live ctx'"

definition mcp_wf :: "'w mcp_context \<Rightarrow> bool" where
  "mcp_wf ctx \<longleftrightarrow> length (mc_tools ctx) \<le> mc_tool_capacity ctx \<and> length (mc_tools ctx) \<le> cf_max_tools (mc_config ctx) \<and>
     length (mc_resources ctx) \<le> mc_resource_capacity ctx \<and>
     length (mc_resources ctx) \<le> cf_max_resources (mc_config ctx) \<and>
     length (mc_resource_templates ctx) \<le> mc_template_capacity ctx \<and>
     length (mc_prompts ctx) \<le> mc_prompt_capacity ctx \<and> length (mc_prompts ctx) \<le> MCP_V1_MAX_PROMPTS"

definition mcp_roomy :: "'w mcp_context \<Rightarrow> bool" where
  "mcp_roomy ctx \<longleftrightarrow> 0 < mc_tool_capacity ctx \<and> 0 < mc_resource_capacity ctx \<and>
     0 < mc_template_capacity ctx \<and> 0 < mc_prompt_capacity ctx"

text \<open>What a request leaves of the context: everything but the counter and the log level.\<close>

definition same_registry :: "'w mcp_context \<Rightarrow> 'w mcp_context \<Rightarrow> bool" where
  "same_registry a b \<longleftrightarrow> b = a\<lparr>mc_request_counter := mc_request_counter b, mc_log_level := mc_log_level b\<rparr>"

lemma route_context:
  assumes "mcp_v1_route_request E J (Some ctx) m ps out w = Some (rc, out', Some ctx', w')"
  shows "same_registry ctx ctx'"
proof (cases m)
  case None
  with assms show ?thesis by (simp add: same_registry_def)
next
  case (Some meth)
  show ?thesis
  proof (cases out)
    case None
    with Some assms show ?thesis by (simp add: same_registry_def)
  next
    case (Some r)
    with \<open>m = Some meth\<close> assms show ?thesis
      by (auto simp: same_registry_def mcp_v1_build_initialize_response_def split: if_splits)
  qed
qed

lemma same_registry_wf:
  assumes "same_registry a b"
  shows "mcp_wf b = mcp_wf a" "mcp_roomy b = mcp_roomy a"
  by (subst assms [unfolded same_registry_def], simp add: mcp_wf_def mcp_roomy_def)+

text \<open>One registration: it fails and changes nothing, or it appends one entry inside the array.\<close>

lemma register_tool_step:
  assumes "mcp_v1_register_tool E (Some ctx) t h u = Some (rc, Some ctx')"
  shows "ctx' = ctx \<or> (\<exists>c e. ctx' = ctx\<lparr>mc_tool_capacity := c, mc_tools := mc_tools ctx @ [e]\<rparr> \<and>
    length (mc_tools ctx) < c \<and> mc_tool_capacity ctx \<le> c \<and> length (mc_tools ctx) < cf_max_tools (mc_config ctx))"
  using assms by (cases t) (auto dest: grow_table_mono simp: not_le split: if_splits sum.splits)

lemma register_resource_step:
  assumes "mcp_v1_register_resource E (Some ctx) t h u = Some (rc, Some ctx')"
  shows "ctx' = ctx \<or> (\<exists>c e. ctx' = ctx\<lparr>mc_resource_capacity := c, mc_resources := mc_resources ctx @ [e]\<rparr> \<and>
    length (mc_resources ctx) < c \<and> mc_resource_capacity ctx \<le> c \<and>
    length (mc_resources ctx) < cf_max_resources (mc_config ctx))"
  using assms by (cases t) (auto dest: grow_table_mono simp: not_le split: if_splits sum.splits)

lemma register_template_step:
  assumes "mcp_v1_register_resource_template E (Some ctx) t = Some (rc, Some ctx')"
  shows "ctx' = ctx \<or> (\<exists>c e. ctx' = ctx\<lparr>mc_template_capacity := c,
      mc_resource_templates := mc_resource_templates ctx @ [e]\<rparr> \<and>
    length (mc_resource_templates ctx) < c \<and> mc_template_capacity ctx \<le> c)"
  using assms by (cases t) (auto dest: grow_table_mono simp: not_le split: if_splits sum.splits)

lemma register_prompt_step:
  assumes "mcp_v1_register_prompt E (Some ctx) t h u = Some (rc, Some ctx')"
  shows "ctx' = ctx \<or> (\<exists>c e. ctx' = ctx\<lparr>mc_prompt_capacity := c, mc_prompts := mc_prompts ctx @ [e]\<rparr> \<and>
    length (mc_prompts ctx) < c \<and> mc_prompt_capacity ctx \<le> c \<and> length (mc_prompts ctx) < MCP_V1_MAX_PROMPTS)"
  using assms by (cases t) (auto dest: grow_table_mono simp: not_le split: if_splits sum.splits)

lemma live_wf: "mcp_live ctx \<Longrightarrow> mcp_wf ctx \<and> mcp_roomy ctx"
proof (induction rule: mcp_live.induct)
  case (l_create E cfg ctx)
  then show ?case by (cases cfg) (auto simp: mcp_wf_def mcp_roomy_def zero_context_def split: if_splits)
next
  case (l_tool ctx E t h u rc ctx')
  from register_tool_step [OF l_tool.hyps(2)] l_tool.IH show ?case
    by (auto simp: mcp_wf_def mcp_roomy_def)
next
  case (l_resource ctx E r hr u rc ctx')
  from register_resource_step [OF l_resource.hyps(2)] l_resource.IH show ?case
    by (auto simp: mcp_wf_def mcp_roomy_def)
next
  case (l_template ctx E tp rc ctx')
  from register_template_step [OF l_template.hyps(2)] l_template.IH show ?case
    by (auto simp: mcp_wf_def mcp_roomy_def)
next
  case (l_prompt ctx E p hp u rc ctx')
  from register_prompt_step [OF l_prompt.hyps(2)] l_prompt.IH show ?case
    by (auto simp: mcp_wf_def mcp_roomy_def)
next
  case (l_route ctx E J m ps out w rc out' ctx' w')
  from same_registry_wf [OF route_context [OF l_route.hyps(2)]] l_route.IH show ?case by simp
qed (auto simp: mcp_wf_def mcp_roomy_def)

lemma register_defined:
  assumes "mcp_wf ctx" "mcp_roomy ctx"
  shows "mcp_v1_register_tool E (Some ctx) t h u \<noteq> None"
    "mcp_v1_register_resource E (Some ctx) r hr u \<noteq> None"
    "mcp_v1_register_resource_template E (Some ctx) tp \<noteq> None"
    "mcp_v1_register_prompt E (Some ctx) p hp u \<noteq> None"
proof -
  show "mcp_v1_register_tool E (Some ctx) t h u \<noteq> None"
    using assms by (cases t) (auto simp: mcp_wf_def mcp_roomy_def grow_table_def)
  show "mcp_v1_register_resource E (Some ctx) r hr u \<noteq> None"
    using assms by (cases r) (auto simp: mcp_wf_def mcp_roomy_def grow_table_def)
  show "mcp_v1_register_resource_template E (Some ctx) tp \<noteq> None"
    using assms by (cases tp) (auto simp: mcp_wf_def mcp_roomy_def grow_table_def)
  show "mcp_v1_register_prompt E (Some ctx) p hp u \<noteq> None"
    using assms by (cases p) (auto simp: mcp_wf_def mcp_roomy_def grow_table_def)
qed

text \<open>
  C13: in an MCP context that is in use every table stays within its allocation and its
  configured maximum, whatever is registered and whichever allocations fail, and so no
  registration ever writes outside an array.
\<close>

theorem mcp_tables_safe:
  fixes ctx :: "'w mcp_context"
  assumes "mcp_live ctx"
  shows "mcp_wf ctx \<and> mcp_v1_register_tool E (Some ctx) t h u \<noteq> None \<and>
    mcp_v1_register_resource E (Some ctx) r hr u \<noteq> None \<and>
    mcp_v1_register_resource_template E (Some ctx) tp \<noteq> None \<and>
    mcp_v1_register_prompt E (Some ctx) p hp u \<noteq> None"
  using live_wf [OF assms] register_defined by blast

definition fresh_mcp :: "unit mcp_context" where
  "fresh_mcp = (case mcp_v1_context_create env0 (Some mcp_v1_config_default) of Some c \<Rightarrow> c | None \<Rightarrow> zero_context)"

lemma fresh_mcp_create: "mcp_v1_context_create env0 (Some mcp_v1_config_default) = Some fresh_mcp"
  by (simp add: fresh_mcp_def)

lemma fresh_mcp_sel [simp]:
  "mc_tools fresh_mcp = []" "mc_resources fresh_mcp = []" "mc_prompts fresh_mcp = []"
  "mc_resource_templates fresh_mcp = []" "mc_tool_capacity fresh_mcp = 32"
  "mc_resource_capacity fresh_mcp = 16" "cf_max_tools (mc_config fresh_mcp) = 1024"
  "mc_log_level fresh_mcp = MCP_LOG_INFO" "mc_request_counter fresh_mcp = 0"
  by (simp_all add: fresh_mcp_def zero_context_def mcp_v1_config_default_def)

theorem mcp_tables_safe_witness:
  "mcp_wf fresh_mcp \<and> mcp_v1_register_prompt env0 (Some fresh_mcp) None None None \<noteq> None"
  using mcp_tables_safe [OF l_create [OF fresh_mcp_create]] by blast

text \<open>
  Once a context has been cleared, which is what destroying the adapter does to its
  static context, the capacity is 0 and doubling keeps it 0: a registration whose
  allocation succeeds writes outside the array. Before that it cannot.
\<close>

theorem mcp_cleared_overrun:
  assumes "mem E 0" "0 < cf_max_tools (mc_config ctx)" "mcp_v1_context_clear (Some ctx) = Some cleared"
  shows "mcp_v1_register_tool E (Some cleared) (Some t) h u = None \<and>
    mcp_v1_register_prompt E (Some cleared) (Some p) hp u = None"
  using assms by (auto simp: grow_table_def)

theorem mcp_cleared_overrun_witness:
  "\<exists>cleared. mcp_v1_context_clear (Some fresh_mcp) = Some cleared \<and>
    mcp_v1_register_tool env0 (Some cleared)
      (Some \<lparr>tl_name = Some ''x'', tl_description = None, tl_input_schema_json = None, tl_required_caps = 0\<rparr>)
      None None = None"
proof -
  obtain cleared where c: "mcp_v1_context_clear (Some fresh_mcp) = Some cleared" by simp
  from mcp_cleared_overrun [OF _ _ c, of env0] c show ?thesis
    by (simp del: mcp_v1_context_clear.simps mcp_v1_register_tool.simps mcp_v1_register_prompt.simps)
qed

section \<open>Tables: the first registration of a name wins\<close>

text \<open>
  The contract of a table that only grows: an entry is added for a name, and a lookup
  finds the first entry added for it. The client lemma: after any sequence of insertions
  the table is the map of the accepted ones, read from the front.
\<close>

locale first_wins =
  fixes lookup :: "'t \<Rightarrow> 'k \<Rightarrow> 'v option"
    and ins :: "'k \<Rightarrow> 'a \<Rightarrow> 't \<Rightarrow> 't option"
    and mk :: "'k \<Rightarrow> 'a \<Rightarrow> 'v"
    and inv :: "'t \<Rightarrow> bool"
  assumes inv_ins: "inv t \<Longrightarrow> ins k a t = Some t' \<Longrightarrow> inv t'"
    and lookup_ins: "inv t \<Longrightarrow> ins k a t = Some t' \<Longrightarrow>
      lookup t' j = (case lookup t j of Some v \<Rightarrow> Some v | None \<Rightarrow> if j = k then Some (mk k a) else None)"
begin

definition exec :: "'k \<times> 'a \<Rightarrow> 't \<Rightarrow> 't" where
  "exec op t = (case ins (fst op) (snd op) t of None \<Rightarrow> t | Some t' \<Rightarrow> t')"

fun accepted :: "('k \<times> 'a) list \<Rightarrow> 't \<Rightarrow> ('k \<times> 'a) list" where
  "accepted [] t = []"
| "accepted (op # ops) t = (case ins (fst op) (snd op) t of
      None \<Rightarrow> accepted ops t
    | Some t' \<Rightarrow> op # accepted ops t')"

lemma run_inv: "inv t \<Longrightarrow> inv (fold exec ops t)"
  by (induction ops arbitrary: t) (auto simp: exec_def intro: inv_ins split: option.split)

lemma lookup_run:
  "inv t \<Longrightarrow> lookup (fold exec ops t) j = (case lookup t j of Some v \<Rightarrow> Some v
     | None \<Rightarrow> map_of (map (\<lambda>(k, a). (k, mk k a)) (accepted ops t)) j)"
proof (induction ops arbitrary: t)
  case Nil
  then show ?case by (simp split: option.split)
next
  case (Cons op ops)
  obtain k a where op: "op = (k, a)" by (cases op)
  show ?case
  proof (cases "ins k a t")
    case None
    then show ?thesis using Cons op by (auto simp: exec_def split: option.split)
  next
    case (Some t')
    then have "inv t'" using Cons.prems inv_ins by blast
    from Cons.IH [OF this] lookup_ins [OF Cons.prems Some, of j] show ?thesis
      using op Some by (auto simp: exec_def split: option.split)
  qed
qed

end

text \<open>
  The tool table provides it: an insertion is a registration that returns 0, with the
  allocations succeeding. \<open>tool_reg\<close> are the arguments beside the name.
\<close>

type_synonym 'w tool_reg = "mcp_tool \<times> 'w mcp_tool_handler option \<times> ptr option"

definition tool_ins :: "env \<Rightarrow> cstring \<Rightarrow> 'w tool_reg \<Rightarrow> 'w mcp_context \<Rightarrow> 'w mcp_context option" where
  "tool_ins E k a ctx = (case a of (t, h, u) \<Rightarrow>
     (case mcp_v1_register_tool E (Some ctx) (Some (t\<lparr>tl_name := Some k\<rparr>)) h u of
        Some (rc, c) \<Rightarrow> if rc = 0 then c else None
      | None \<Rightarrow> None))"

definition tool_entry :: "cstring \<Rightarrow> 'w tool_reg \<Rightarrow> 'w mcp_tool_entry" where
  "tool_entry k a = (case a of (t, h, u) \<Rightarrow>
     \<lparr>te_tool = t\<lparr>tl_name := Some k\<rparr>, te_handler = h, te_user_data = u\<rparr>)"

definition tools_named :: "env \<Rightarrow> 'w mcp_context \<Rightarrow> bool" where
  "tools_named E ctx \<longleftrightarrow> mem_ok E \<and> codes_ok E \<and> (\<forall>e \<in> set (mc_tools ctx). tool_key e \<noteq> None)"

lemma find_named_defined:
  "\<forall>e \<in> set xs. key e \<noteq> None \<Longrightarrow> \<exists>r. find_named key k xs = Some r"
  by (induction xs) auto

lemma find_named_append:
  "find_named key k (xs @ ys) = (case find_named key k xs of
     None \<Rightarrow> None | Some (Some x) \<Rightarrow> Some (Some x) | Some None \<Rightarrow> find_named key k ys)"
  by (induction xs) (auto split: option.split)

lemma find_named_key: "find_named key k xs = Some (Some x) \<Longrightarrow> key x = Some k \<and> x \<in> set xs"
  by (induction xs) (auto split: option.splits if_splits)

lemma copy_tool_ok [simp]: "mem_ok E \<Longrightarrow> copy_tool E t = t"
  by (simp add: copy_tool_def strdup_safe_mem)

lemma tool_ins_Some:
  assumes "mem_ok E" "codes_ok E" "tool_ins E k a ctx = Some ctx'"
  shows "\<exists>c. ctx' = ctx\<lparr>mc_tool_capacity := c, mc_tools := mc_tools ctx @ [tool_entry k a]\<rparr>"
  using assms
  by (cases a) (auto simp: tool_ins_def tool_entry_def dest: grow_table_cases split: if_splits sum.splits)

text \<open>The lookup that the three searches share, and what one more entry at the end does to it.\<close>

definition named :: "('e \<Rightarrow> cstring option) \<Rightarrow> 'e list \<Rightarrow> cstring \<Rightarrow> 'e option" where
  "named key xs k = Option.bind (find_named key k xs) (\<lambda>x. x)"

lemma named_snoc:
  assumes "\<forall>e \<in> set xs. key e \<noteq> None" "key x = Some k"
  shows "named key (xs @ [x]) j =
    (case named key xs j of Some v \<Rightarrow> Some v | None \<Rightarrow> if j = k then Some x else None)"
proof -
  obtain r where "find_named key j xs = Some r" using find_named_defined [OF assms(1)] by blast
  then show ?thesis using assms(2) by (cases r) (simp_all add: named_def find_named_append)
qed

lemma named_find: "\<forall>e \<in> set xs. key e \<noteq> None \<Longrightarrow> find_named key k xs = Some (named key xs k)"
  using find_named_defined [of xs key k] by (auto simp: named_def)

interpretation tools: first_wins "\<lambda>ctx. named tool_key (mc_tools ctx)" "tool_ins E" tool_entry "tools_named E"
proof
  fix ctx ctx' :: "'w mcp_context" and k a j
  assume inv: "tools_named E ctx" and i: "tool_ins E k a ctx = Some ctx'"
  obtain c where c: "ctx' = ctx\<lparr>mc_tool_capacity := c, mc_tools := mc_tools ctx @ [tool_entry k a]\<rparr>"
    using tool_ins_Some [OF _ _ i] inv by (auto simp: tools_named_def)
  have key: "tool_key (tool_entry k a) = Some k" by (cases a) (simp add: tool_entry_def)
  show "tools_named E ctx'" using inv c key by (auto simp: tools_named_def)
  show "named tool_key (mc_tools ctx') j = (case named tool_key (mc_tools ctx) j of Some v \<Rightarrow> Some v
      | None \<Rightarrow> if j = k then Some (tool_entry k a) else None)"
    using named_snoc [of "mc_tools ctx" tool_key, OF _ key] inv c
    by (simp add: tools_named_def)
qed

text \<open>The resource and the prompt table provide it as well.\<close>

type_synonym 'w resource_reg = "mcp_resource \<times> 'w mcp_resource_handler option \<times> ptr option"
type_synonym 'w prompt_reg = "mcp_prompt \<times> 'w mcp_prompt_handler option \<times> ptr option"

definition resource_ins :: "env \<Rightarrow> cstring \<Rightarrow> 'w resource_reg \<Rightarrow> 'w mcp_context \<Rightarrow> 'w mcp_context option" where
  "resource_ins E k a ctx = (case a of (t, h, u) \<Rightarrow>
     (case mcp_v1_register_resource E (Some ctx) (Some (t\<lparr>rs_uri := Some k\<rparr>)) h u of
        Some (rc, c) \<Rightarrow> if rc = 0 then c else None
      | None \<Rightarrow> None))"

definition resource_entry :: "cstring \<Rightarrow> 'w resource_reg \<Rightarrow> 'w mcp_resource_entry" where
  "resource_entry k a = (case a of (t, h, u) \<Rightarrow>
     \<lparr>re_resource = t\<lparr>rs_uri := Some k\<rparr>, re_handler = h, re_user_data = u\<rparr>)"

definition resources_named :: "env \<Rightarrow> 'w mcp_context \<Rightarrow> bool" where
  "resources_named E ctx \<longleftrightarrow> mem_ok E \<and> codes_ok E \<and> (\<forall>e \<in> set (mc_resources ctx). resource_key e \<noteq> None)"

definition prompt_ins :: "env \<Rightarrow> cstring \<Rightarrow> 'w prompt_reg \<Rightarrow> 'w mcp_context \<Rightarrow> 'w mcp_context option" where
  "prompt_ins E k a ctx = (case a of (t, h, u) \<Rightarrow>
     (case mcp_v1_register_prompt E (Some ctx) (Some (t\<lparr>pr_name := Some k\<rparr>)) h u of
        Some (rc, c) \<Rightarrow> if rc = 0 then c else None
      | None \<Rightarrow> None))"

definition prompt_entry :: "cstring \<Rightarrow> 'w prompt_reg \<Rightarrow> 'w mcp_prompt_entry" where
  "prompt_entry k a = (case a of (t, h, u) \<Rightarrow>
     \<lparr>pe_prompt = t\<lparr>pr_name := Some k\<rparr>, pe_handler = h, pe_user_data = u\<rparr>)"

definition prompts_named :: "env \<Rightarrow> 'w mcp_context \<Rightarrow> bool" where
  "prompts_named E ctx \<longleftrightarrow> mem_ok E \<and> codes_ok E \<and> (\<forall>e \<in> set (mc_prompts ctx). prompt_key e \<noteq> None)"

lemma copy_resource_ok [simp]: "mem_ok E \<Longrightarrow> copy_resource E t = t"
  by (simp add: copy_resource_def strdup_safe_mem)

lemma copy_prompt_ok [simp]: "mem_ok E \<Longrightarrow> copy_prompt E t = t"
  by (simp add: copy_prompt_def strdup_safe_mem)

lemma resource_ins_Some:
  assumes "mem_ok E" "codes_ok E" "resource_ins E k a ctx = Some ctx'"
  shows "\<exists>c. ctx' = ctx\<lparr>mc_resource_capacity := c, mc_resources := mc_resources ctx @ [resource_entry k a]\<rparr>"
  using assms
  by (cases a) (auto simp: resource_ins_def resource_entry_def dest: grow_table_cases split: if_splits sum.splits)

lemma prompt_ins_Some:
  assumes "mem_ok E" "codes_ok E" "prompt_ins E k a ctx = Some ctx'"
  shows "\<exists>c. ctx' = ctx\<lparr>mc_prompt_capacity := c, mc_prompts := mc_prompts ctx @ [prompt_entry k a]\<rparr>"
  using assms
  by (cases a) (auto simp: prompt_ins_def prompt_entry_def dest: grow_table_cases split: if_splits sum.splits)

interpretation resources: first_wins "\<lambda>ctx. named resource_key (mc_resources ctx)" "resource_ins E"
  resource_entry "resources_named E"
proof
  fix ctx ctx' :: "'w mcp_context" and k a j
  assume inv: "resources_named E ctx" and i: "resource_ins E k a ctx = Some ctx'"
  obtain c where c: "ctx' = ctx\<lparr>mc_resource_capacity := c, mc_resources := mc_resources ctx @ [resource_entry k a]\<rparr>"
    using resource_ins_Some [OF _ _ i] inv by (auto simp: resources_named_def)
  have key: "resource_key (resource_entry k a) = Some k" by (cases a) (simp add: resource_entry_def)
  show "resources_named E ctx'" using inv c key by (auto simp: resources_named_def)
  show "named resource_key (mc_resources ctx') j = (case named resource_key (mc_resources ctx) j of Some v \<Rightarrow> Some v
      | None \<Rightarrow> if j = k then Some (resource_entry k a) else None)"
    using named_snoc [of "mc_resources ctx" resource_key, OF _ key] inv c by (simp add: resources_named_def)
qed

interpretation prompts: first_wins "\<lambda>ctx. named prompt_key (mc_prompts ctx)" "prompt_ins E"
  prompt_entry "prompts_named E"
proof
  fix ctx ctx' :: "'w mcp_context" and k a j
  assume inv: "prompts_named E ctx" and i: "prompt_ins E k a ctx = Some ctx'"
  obtain c where c: "ctx' = ctx\<lparr>mc_prompt_capacity := c, mc_prompts := mc_prompts ctx @ [prompt_entry k a]\<rparr>"
    using prompt_ins_Some [OF _ _ i] inv by (auto simp: prompts_named_def)
  have key: "prompt_key (prompt_entry k a) = Some k" by (cases a) (simp add: prompt_entry_def)
  show "prompts_named E ctx'" using inv c key by (auto simp: prompts_named_def)
  show "named prompt_key (mc_prompts ctx') j = (case named prompt_key (mc_prompts ctx) j of Some v \<Rightarrow> Some v
      | None \<Rightarrow> if j = k then Some (prompt_entry k a) else None)"
    using named_snoc [of "mc_prompts ctx" prompt_key, OF _ key] inv c by (simp add: prompts_named_def)
qed

text \<open>
  The abstract server: the tools that were accepted, by name, the first one of a name
  counting. Registering is possible up to the configured maximum.
\<close>

fun register_all :: "env \<Rightarrow> (cstring \<times> 'w tool_reg) list \<Rightarrow> 'w mcp_context \<Rightarrow> 'w mcp_context" where
  "register_all E [] ctx = ctx"
| "register_all E ((k, t, h, u) # ops) ctx =
    (case mcp_v1_register_tool E (Some ctx) (Some (t\<lparr>tl_name := Some k\<rparr>)) h u of
       Some (rc, Some c) \<Rightarrow> register_all E ops c
     | _ \<Rightarrow> register_all E ops ctx)"

lemma tool_ins_eq:
  assumes "mem_ok E" "codes_ok E" "mcp_wf ctx" "mcp_roomy ctx"
  shows "tool_ins E k a ctx = (if length (mc_tools ctx) < cf_max_tools (mc_config ctx)
    then (case a of (t, h, u) \<Rightarrow> case mcp_v1_register_tool E (Some ctx) (Some (t\<lparr>tl_name := Some k\<rparr>)) h u of
      Some (rc, c) \<Rightarrow> c) else None)"
    "tool_ins E k a ctx = None \<longleftrightarrow> \<not> length (mc_tools ctx) < cf_max_tools (mc_config ctx)"
  using assms
  by (cases a; auto simp: tool_ins_def grow_table_def mcp_wf_def mcp_roomy_def not_le)+

lemma tool_ins_wf:
  assumes "mem_ok E" "codes_ok E" "mcp_wf ctx" "mcp_roomy ctx" "tool_ins E k a ctx = Some ctx'"
  shows "mcp_wf ctx' \<and> mcp_roomy ctx' \<and> length (mc_tools ctx') = Suc (length (mc_tools ctx)) \<and>
    mc_config ctx' = mc_config ctx"
proof -
  obtain t h u where a: "a = (t, h, u)" by (cases a)
  with assms(5) obtain rc where
    r: "mcp_v1_register_tool E (Some ctx) (Some (t\<lparr>tl_name := Some k\<rparr>)) h u = Some (rc, Some ctx')"
    by (auto simp: tool_ins_def split: option.splits if_splits simp del: mcp_v1_register_tool.simps)
  have ne: "ctx' \<noteq> ctx" using tool_ins_Some [OF assms(1,2,5)] by (auto dest: arg_cong [of _ _ mc_tools])
  from register_tool_step [OF r] ne assms(3,4) show ?thesis by (auto simp: mcp_wf_def mcp_roomy_def)
qed

lemma register_all_exec:
  assumes "mem_ok E" "codes_ok E" "mcp_wf ctx" "mcp_roomy ctx"
  shows "register_all E ops ctx = fold (tools.exec E) ops ctx \<and>
    tools.accepted E ops ctx = take (cf_max_tools (mc_config ctx) - length (mc_tools ctx)) ops"
  using assms
proof (induction ops arbitrary: ctx)
  case Nil
  then show ?case by simp
next
  case (Cons op ops)
  obtain k t h u where op: "op = (k, t, h, u)" by (cases op)
  show ?case
  proof (cases "tool_ins E k (t, h, u) ctx")
    case None
    then have full: "cf_max_tools (mc_config ctx) \<le> length (mc_tools ctx)"
      using tool_ins_eq(2) [OF Cons.prems] by simp
    with None op Cons show ?thesis by (simp add: tools.exec_def)
  next
    case (Some ctx')
    note wf = tool_ins_wf [OF Cons.prems Some]
    have room: "length (mc_tools ctx) < cf_max_tools (mc_config ctx)"
      using tool_ins_eq(2) [OF Cons.prems, of k "(t, h, u)"] Some by simp
    from Some obtain rc where
      "mcp_v1_register_tool E (Some ctx) (Some (t\<lparr>tl_name := Some k\<rparr>)) h u = Some (rc, Some ctx')"
      by (auto simp: tool_ins_def split: option.splits if_splits simp del: mcp_v1_register_tool.simps)
    moreover have "cf_max_tools (mc_config ctx) - length (mc_tools ctx) =
        Suc (cf_max_tools (mc_config ctx) - Suc (length (mc_tools ctx)))" using room by simp
    ultimately show ?thesis using Cons.IH [of ctx'] Cons.prems wf op Some
      by (simp add: tools.exec_def del: mcp_v1_register_tool.simps)
  qed
qed

lemma map_of_key_map: "map_of (map (\<lambda>(k, a). (k, f k a)) xs) j = map_option (f j) (map_of xs j)"
  by (induction xs) auto

lemma create_context:
  assumes "mcp_v1_context_create E (Some cfg) = Some ctx" "mem_ok E"
  shows "mc_config ctx = cfg" "mc_tools ctx = []"
  using assms by (auto simp: strdup_safe_mem zero_context_def split: if_splits)

text \<open>
  C12: the tool table implements a map. After any sequence of registrations on a new
  context, a call runs the handler of the first accepted registration of that name, with
  its own user data, the accepted ones being the first \<open>max_tools\<close>; a name that is not in
  the map is answered with the not-found text and no handler runs; and a tool registered
  without a handler makes the call jump through NULL.
\<close>

theorem tools_call_refines_map:
  fixes ctx :: "'w mcp_context"
  assumes "mem_ok E" "codes_ok E" "mcp_v1_context_create E (Some cfg) = Some ctx"
  shows "mcp_v1_handle_tools_call E (Some (register_all E ops ctx)) (Some name) args (Some r) w =
    (case map_of (take (cf_max_tools cfg) ops) name of
       None \<Rightarrow> Some (err E AIRY_ERR_INVALID_PARAM, Some (Some (tool_missing_text (escape_text name))), w)
     | Some (t, None, u) \<Rightarrow> None
     | Some (t, Some h, u) \<Rightarrow> (case h name args u w of
         ((results, n, is_error), w') \<Rightarrow> tool_answer E results n is_error r w'))"
proof -
  let ?c = "register_all E ops ctx"
  note new = create_context [OF assms(3,1)]
  have wf: "mcp_wf ctx" "mcp_roomy ctx" using live_wf [OF l_create [OF assms(3)]] by simp_all
  have inv: "tools_named E ctx" using assms new by (simp add: tools_named_def)
  have c: "?c = fold (tools.exec E) ops ctx" "tools.accepted E ops ctx = take (cf_max_tools cfg) ops"
    using register_all_exec [OF assms(1,2) wf, of ops] new by simp_all
  have named: "\<forall>e \<in> set (mc_tools ?c). tool_key e \<noteq> None"
    using tools.run_inv [OF inv, of ops] c(1) by (simp add: tools_named_def)
  have "named tool_key (mc_tools ?c) name =
      map_of (map (\<lambda>(k, a). (k, tool_entry k a)) (take (cf_max_tools cfg) ops)) name"
    using tools.lookup_run [OF inv, of ops name] c new by (simp add: named_def)
  also have "\<dots> = map_option (tool_entry name) (map_of (take (cf_max_tools cfg) ops) name)"
    by (rule map_of_key_map)
  finally have "find_named tool_key name (mc_tools ?c) =
      Some (map_option (tool_entry name) (map_of (take (cf_max_tools cfg) ops) name))"
    using named_find [OF named] by simp
  then show ?thesis using assms(1)
    by (auto simp: tool_entry_def split: option.splits prod.splits)
qed

definition echo_tool :: "'w tool_reg" where
  "echo_tool = (\<lparr>tl_name = None, tl_description = None, tl_input_schema_json = None, tl_required_caps = 0\<rparr>,
     Some (\<lambda>n args u w. ((Some [\<lparr>ct_type = MCP_CONTENT_TEXT, ct_text = args, ct_mime_type = None, ct_uri = None,
       ct_data = None, ct_data_size = 0\<rparr>], 1, False), w)), None)"

theorem tools_call_refines_map_witness:
  "mcp_v1_handle_tools_call env0 (Some (register_all env0 [(''echo'', echo_tool)] fresh_mcp)) (Some ''nope'') None
     (Some None) () = Some (- 2, Some (Some (tool_missing_text (escape_text ''nope''))), ())"
  using tools_call_refines_map [OF env0_ok(3,1) fresh_mcp_create, of "[(''echo'', echo_tool)]" "''nope''"]
  by (simp add: mcp_v1_config_default_def zero_mcp_config_def del: mcp_v1_handle_tools_call.simps register_all.simps)

section \<open>The list responses\<close>

lemma those_map2:
  assumes "\<And>i x. f i x = Some (g x)"
  shows "those (map2 f [0..<length xs] xs) = Some (map g xs)"
proof -
  have "map2 f [0..<length xs] xs = map (\<lambda>x. Some (g x)) xs"
    by (rule nth_equalityI) (simp_all add: assms)
  moreover have "those (map (\<lambda>x. Some (g x)) xs) = Some (map g xs)" by (induction xs) auto
  ultimately show ?thesis by simp
qed

text \<open>
  The exact outcome of a list handler whose items are \<open>texts\<close>: the whole list when it is
  shorter than the buffer, a cut text when only the closing bracket does not fit, and
  otherwise a write outside the buffer.
\<close>

lemma list_response_eq:
  assumes "mem E 0" "those items = Some texts" "0 < cap"
  shows "list_response E cap head items out =
    (let body = head @ concat (commas texts) in
     if length body \<le> cap then Some (0, Some (Some (take (cap - 1) (body @ '']}'')))) else None)"
proof -
  have "butlast ([head] @ commas texts @ ['']}'']) = [head] @ commas texts"
    by (simp add: butlast_append)
  then have "length (concat (butlast ([head] @ commas texts @ ['']}'']))) = length (head @ concat (commas texts))"
    by simp
  then show ?thesis using assms by (simp add: list_response_def sb_puts_eq)
qed

lemma list_response_exact:
  assumes "mem E 0" "those items = Some texts" "0 < cap"
  shows "list_response E cap head items out =
    (let text = head @ concat (commas texts) @ '']}'' in
     if length text < cap then Some (0, Some (Some text))
     else if length text \<le> cap + 2 then Some (0, Some (Some (take (cap - 1) text)))
     else None)"
  by (subst list_response_eq [OF assms]) (simp add: assms(3))

definition tool_text :: "'w mcp_tool_entry \<Rightarrow> cstring" where
  "tool_text e = ''{\"name\":'' @ json_opt (tl_name (te_tool e)) @ '',\"description\":'' @
     json_opt (tl_description (te_tool e)) @ '',\"inputSchema\":'' @
     (case tl_input_schema_json (te_tool e) of None \<Rightarrow> ''{}'' | Some s \<Rightarrow> s) @ ''}''"

lemma tool_items [simp]:
  "mem_ok E \<Longrightarrow> those (map2 (tool_item E) [0..<length xs] xs) = Some (map tool_text xs)"
  by (rule those_map2) (simp add: tool_item_def tool_text_def)

text \<open>
  C25: what \<open>tools/list\<close> answers when memory is available. The response is the complete list
  exactly when it is shorter than the buffer of 4096 bytes plus 512 for each tool; the
  names and descriptions are escaped, the schema is copied as it is. A longer list is cut,
  or written outside the buffer when the text before the closing bracket already exceeds it.
\<close>

theorem tools_list_exact:
  fixes ctx :: "'w mcp_context"
  assumes "mem_ok E"
  shows "mcp_v1_handle_tools_list E (Some ctx) (Some r) =
    (let cap = 4096 + 512 * length (mc_tools ctx);
         text = ''{\"tools\":['' @ concat (commas (map tool_text (mc_tools ctx))) @ '']}'' in
     if length text < cap then Some (0, Some (Some text))
     else if length text \<le> cap + 2 then Some (0, Some (Some (take (cap - 1) text)))
     else None)"
  unfolding mcp_v1_handle_tools_list.simps
  by (subst list_response_exact) (use assms in \<open>simp_all add: mult.commute\<close>)

theorem tools_list_exact_witness:
  "mcp_v1_handle_tools_list env0 (Some fresh_mcp) (Some None) = Some (0, Some (Some ''{\"tools\":[]}''))"
  using tools_list_exact [OF env0_ok(3), of fresh_mcp None] by (simp del: mcp_v1_handle_tools_list.simps)

section \<open>The list responses are read back\<close>

text \<open>The three item formats whose members are all escaped, each with its reader.\<close>

type_synonym resource_row = "cstring option \<times> cstring option \<times> cstring option \<times> cstring option"

fun resource_row_text :: "resource_row \<Rightarrow> cstring" where
  "resource_row_text (uri, name, desc, mime) = ''{\"uri\":'' @ json_opt uri @ '',\"name\":'' @ json_opt name @
     '',\"description\":'' @ json_opt desc @ '',\"mimeType\":'' @ json_opt mime @ ''}''"

definition read_member :: "cstring \<Rightarrow> cstring \<Rightarrow> (cstring option \<times> cstring) option" where
  "read_member l t = Option.bind (read_lit l t) (read_opt True)"

lemma read_member_ok [simp]: "plain_opt s \<Longrightarrow> read_member l (l @ json_opt s @ r) = Some (s, r)"
  by (simp add: read_member_def)

definition read_resource_row :: "cstring \<Rightarrow> (resource_row \<times> cstring) option" where
  "read_resource_row t =
    Option.bind (read_member ''{\"uri\":'' t) (\<lambda>(uri, t).
    Option.bind (read_member '',\"name\":'' t) (\<lambda>(name, t).
    Option.bind (read_member '',\"description\":'' t) (\<lambda>(desc, t).
    Option.bind (read_member '',\"mimeType\":'' t) (\<lambda>(mime, t).
    map_option (\<lambda>t. ((uri, name, desc, mime), t)) (read_lit ''}'' t)))))"

definition plain_row :: "resource_row \<Rightarrow> bool" where
  "plain_row x = (case x of (a, b, c, d) \<Rightarrow> plain_opt a \<and> plain_opt b \<and> plain_opt c \<and> plain_opt d)"

definition row_of_resource :: "'w mcp_resource_entry \<Rightarrow> resource_row" where
  "row_of_resource e = (rs_uri (re_resource e), rs_name (re_resource e), rs_description (re_resource e),
     rs_mime_type (re_resource e))"

interpretation resource_format: item_format resource_row_text read_resource_row plain_row
proof
  fix x :: resource_row and r :: cstring
  obtain a b c d where x: "x = (a, b, c, d)" by (cases x)
  show "\<exists>t. resource_row_text x = CHR ''{'' # t" by (simp add: x)
  assume "plain_row x"
  with x have p: "plain_opt a" "plain_opt b" "plain_opt c" "plain_opt d" by (simp_all add: plain_row_def)
  have t: "resource_row_text x @ r = ''{\"uri\":'' @ json_opt a @ '',\"name\":'' @ json_opt b @
     '',\"description\":'' @ json_opt c @ '',\"mimeType\":'' @ json_opt d @ ''}'' @ r" by (simp add: x)
  show "read_resource_row (resource_row_text x @ r) = Some (x, r)"
    unfolding read_resource_row_def t read_member_ok [OF p(1)] bind.simps prod.case
      read_member_ok [OF p(2)] read_member_ok [OF p(3)] read_member_ok [OF p(4)] read_lit_append
    by (simp add: x)
qed

type_synonym content_row = "mcp_content_type \<times> cstring option"

fun content_row_text :: "content_row \<Rightarrow> cstring" where
  "content_row_text (ty, tx) = ''{\"type\":\"'' @ mcp_type_str ty @ ''\",\"text\":'' @ json_opt tx @ ''}''"

definition type_of_str :: "cstring \<Rightarrow> mcp_content_type" where
  "type_of_str s = (if s = ''image'' then MCP_CONTENT_IMAGE else if s = ''resource'' then MCP_CONTENT_RESOURCE
     else if s = ''embedded'' then MCP_CONTENT_EMBEDDED else MCP_CONTENT_TEXT)"

definition read_content_row :: "cstring \<Rightarrow> (content_row \<times> cstring) option" where
  "read_content_row t =
    Option.bind (read_lit ''{\"type\":'' t) (\<lambda>t.
    Option.bind (read_string True t) (\<lambda>(ty, t).
    Option.bind (read_member '',\"text\":'' t) (\<lambda>(tx, t).
    map_option (\<lambda>t. ((type_of_str ty, tx), t)) (read_lit ''}'' t))))"

lemma type_str_read: "read_string True (''\"'' @ mcp_type_str ty @ ''\"'' @ r) = Some (mcp_type_str ty, r)"
  by (cases ty) (simp_all add: read_string_def read_body.simps(2) control_char_def)

lemma type_of_type_str [simp]: "type_of_str (mcp_type_str ty) = ty"
  by (cases ty) (simp_all add: type_of_str_def)

interpretation content_format: item_format content_row_text read_content_row "\<lambda>x. plain_opt (snd x)"
proof
  fix x :: content_row and r :: cstring
  obtain ty tx where x: "x = (ty, tx)" by (cases x)
  show "\<exists>t. content_row_text x = CHR ''{'' # t" by (simp add: x)
  assume p: "plain_opt (snd x)"
  have t: "content_row_text x @ r = ''{\"type\":'' @ (''\"'' @ mcp_type_str ty @ ''\"'' @
     ('',\"text\":'' @ json_opt tx @ (''}'' @ r)))" by (simp add: x)
  show "read_content_row (content_row_text x @ r) = Some (x, r)"
    unfolding read_content_row_def t read_lit_append bind.simps prod.case type_str_read
    using p by (simp add: x del: append.simps)
qed

type_synonym template_row = "cstring option \<times> cstring option \<times> cstring option"

fun template_row_text :: "template_row \<Rightarrow> cstring" where
  "template_row_text (uri, name, desc) = ''{\"uriTemplate\":'' @ json_opt uri @ '',\"name\":'' @ json_opt name @
     '',\"description\":'' @ json_opt desc @ ''}''"

definition read_template_row :: "cstring \<Rightarrow> (template_row \<times> cstring) option" where
  "read_template_row t =
    Option.bind (read_member ''{\"uriTemplate\":'' t) (\<lambda>(uri, t).
    Option.bind (read_member '',\"name\":'' t) (\<lambda>(name, t).
    Option.bind (read_member '',\"description\":'' t) (\<lambda>(desc, t).
    map_option (\<lambda>t. ((uri, name, desc), t)) (read_lit ''}'' t))))"

definition row_of_template :: "mcp_resource_template \<Rightarrow> template_row" where
  "row_of_template t = (rt_uri_template t, rt_name t, rt_description t)"

interpretation template_format: item_format template_row_text read_template_row
  "\<lambda>x. plain_opt (fst x) \<and> plain_opt (fst (snd x)) \<and> plain_opt (snd (snd x))"
proof
  fix x :: template_row and r :: cstring
  obtain a b c where x: "x = (a, b, c)" by (cases x)
  show "\<exists>t. template_row_text x = CHR ''{'' # t" by (simp add: x)
  assume "plain_opt (fst x) \<and> plain_opt (fst (snd x)) \<and> plain_opt (snd (snd x))"
  with x have p: "plain_opt a" "plain_opt b" "plain_opt c" by simp_all
  have t: "template_row_text x @ r = ''{\"uriTemplate\":'' @ json_opt a @ '',\"name\":'' @ json_opt b @
     '',\"description\":'' @ json_opt c @ ''}'' @ r" by (simp add: x)
  show "read_template_row (template_row_text x @ r) = Some (x, r)"
    unfolding read_template_row_def t read_member_ok [OF p(1)] bind.simps prod.case
      read_member_ok [OF p(2)] read_member_ok [OF p(3)] read_lit_append
    by (simp add: x)
qed

text \<open>The items that the handlers write are these rows.\<close>

lemma resource_items [simp]:
  "mem_ok E \<Longrightarrow> those (map2 (resource_item E) [0..<length xs] xs) = Some (map (resource_row_text \<circ> row_of_resource) xs)"
  by (rule those_map2) (simp add: resource_item_def row_of_resource_def)

lemma template_items [simp]:
  "mem_ok E \<Longrightarrow> those (map2 (template_item E) [0..<length xs] xs) = Some (map (template_row_text \<circ> row_of_template) xs)"
  by (rule those_map2) (simp add: template_item_def row_of_template_def)

lemma content_items [simp]:
  "mem_ok E \<Longrightarrow> those (map2 (content_item E) [0..<length xs] xs) =
    Some (map (\<lambda>c. content_row_text (ct_type c, ct_text c)) xs)"
  by (rule those_map2) (simp add: content_item_def)

text \<open>
  What a text written piece by piece becomes in a buffer of \<open>cap\<close> bytes when its last piece is the
  closing bracket: complete, cut, or written outside.
\<close>

definition in_buffer :: "nat \<Rightarrow> cstring \<Rightarrow> cstring option" where
  "in_buffer cap t = (if length t < cap then Some t else if length t \<le> cap + 2 then Some (take (cap - 1) t) else None)"

definition answer_text :: "bool \<Rightarrow> mcp_content list \<Rightarrow> cstring" where
  "answer_text is_error cs = result_head is_error @
     concat (commas (map (\<lambda>c. content_row_text (ct_type c, ct_text c)) cs)) @ '']}''"

lemma answer_exact:
  assumes "mem_ok E"
  shows "list_response E (4096 + length cs * 1024) (result_head is_error) (map2 (content_item E) [0..<length cs] cs) out =
    map_option (\<lambda>t. (0, Some (Some t))) (in_buffer (4096 + 1024 * length cs) (answer_text is_error cs))"
  by (subst list_response_exact [where texts = "map (\<lambda>c. content_row_text (ct_type c, ct_text c)) cs"])
    (use assms in \<open>simp_all add: in_buffer_def answer_text_def Let_def mult.commute\<close>)

lemma answer_read:
  assumes "\<forall>c \<in> set cs. plain_opt (ct_text c)"
  shows "read_list read_content_row (result_head is_error) (answer_text is_error cs) = Some (map (\<lambda>c. (ct_type c, ct_text c)) cs)"
  using content_format.list_back [of "map (\<lambda>c. (ct_type c, ct_text c)) cs" "result_head is_error"] assms
  by (simp add: answer_text_def o_def del: content_row_text.simps)

lemma list_response_back:
  assumes "mem E 0" "those items = Some texts" "length head + length (concat (commas texts)) + 2 < cap"
    "read_list rd head (head @ concat (commas texts) @ '']}'') = Some rows"
  shows "\<exists>t. list_response E cap head items out = Some (0, Some (Some t)) \<and> read_list rd head t = Some rows"
  using assms by (subst list_response_exact) (auto simp: Let_def)

text \<open>
  A resource list that fits its buffer is read back by a strict JSON reader as the
  uris, names, descriptions and mime types of the registered resources, in the order of
  their registration, with NULL members as \<open>null\<close>.
\<close>

theorem resources_list_roundtrip:
  fixes ctx :: "'w mcp_context"
  assumes "mem_ok E" "\<forall>e \<in> set (mc_resources ctx). plain_row (row_of_resource e)"
    "length (concat (commas (map (resource_row_text \<circ> row_of_resource) (mc_resources ctx)))) <
      4080 + 512 * length (mc_resources ctx)"
  shows "\<exists>t. mcp_v1_handle_resources_list E (Some ctx) (Some r) = Some (0, Some (Some t)) \<and>
    read_list read_resource_row ''{\"resources\":['' t = Some (map row_of_resource (mc_resources ctx))"
  unfolding mcp_v1_handle_resources_list.simps
proof (rule list_response_back)
  show "read_list read_resource_row ''{\"resources\":[''
      (''{\"resources\":['' @ concat (commas (map (resource_row_text \<circ> row_of_resource) (mc_resources ctx))) @ '']}'') =
    Some (map row_of_resource (mc_resources ctx))"
    using resource_format.list_back [of "map row_of_resource (mc_resources ctx)"] assms(2)
    by (simp del: append.simps)
qed (use assms in simp_all)

definition one_resource :: "unit mcp_context" where
  "one_resource = fresh_mcp\<lparr>mc_resources := [\<lparr>re_resource = \<lparr>rs_uri = Some ''u'', rs_name = Some [CHR 0x22],
     rs_description = None, rs_mime_type = Some ''t''\<rparr>, re_handler = None, re_user_data = None\<rparr>]\<rparr>"

theorem resources_list_roundtrip_witness:
  "\<exists>t. mcp_v1_handle_resources_list env0 (Some one_resource) (Some None) = Some (0, Some (Some t)) \<and>
    read_list read_resource_row ''{\"resources\":['' t = Some [(Some ''u'', Some [CHR 0x22], None, Some ''t'')]"
  using resources_list_roundtrip [OF env0_ok(3), of one_resource None]
  by (simp add: one_resource_def row_of_resource_def plain_row_def plain_opt_def raw_control_def control_char_def
      escape_text_def escape_char.simps del: mcp_v1_handle_resources_list.simps)

text \<open>
  The answer of a tool: whatever array of contents the handler returns, the call returns its
  text as far as the buffer of 4096 bytes plus 1024 for each content holds it.
\<close>

lemma tool_answer_exact:
  fixes ctx :: "'w mcp_context"
  assumes "mem_ok E" "find_named tool_key name (mc_tools ctx) = Some (Some e)" "te_handler e = Some h"
    "h name args (te_user_data e) w = ((Some cs, length cs, is_error), w')" "length cs \<le> result_limit"
  shows "mcp_v1_handle_tools_call E (Some ctx) (Some name) args (Some r) w =
    map_option (\<lambda>t. (0, Some (Some t), w')) (in_buffer (4096 + 1024 * length cs) (answer_text is_error cs))"
proof -
  have "array_take (length cs) (Some cs) = Some cs" by (simp add: array_take_def)
  with assms show ?thesis
    by (cases "in_buffer (4096 + 1024 * length cs) (answer_text is_error cs)") (simp_all add: tool_answer_def answer_exact)
qed

definition echo_context :: "unit mcp_context" where
  "echo_context = register_all env0 [(''echo'', echo_tool)] fresh_mcp"

lemma echo_context_tools [simp]:
  "mc_tools echo_context = [tool_entry ''echo'' echo_tool]" "mc_transport echo_context = None"
  by (simp_all add: echo_context_def echo_tool_def tool_entry_def grow_table_def
      fresh_mcp_def zero_context_def mcp_v1_config_default_def)


end
