(* ===== verification/Mcp_Stream.thy ===== *)
theory Mcp_Stream
  imports Mcp_Adapter
begin

text \<open>
  The streaming and notification side of the MCP adapter: stream events and server-sent
  event lines (\<open>mcp_v1_adapter_stream.c\<close>), the streaming variant of a tool call
  (\<open>mcp_v1_adapter_tool.c\<close>), and sampling, completion, progress and cancellation
  (\<open>mcp_v1_adapter_sampling.c\<close>).

  The application's stream callback works on the same world as the handlers. A loop that
  sends a text in chunks consumes allocations as it goes; it continues with the
  environment \<open>later k E\<close> after \<open>k\<close> of them. \<open>fl\<close> rounds a real to a double.
\<close>

section \<open>Stream events\<close>

datatype mcp_stream_event_type =
    MCP_STREAM_EVENT_CONTENT | MCP_STREAM_EVENT_ERROR | MCP_STREAM_EVENT_DONE
  | MCP_STREAM_EVENT_PROGRESS | MCP_STREAM_EVENT_CANCELLED

record mcp_stream_event =
  ev_type :: mcp_stream_event_type
  ev_event_data :: "cstring option"
  ev_data_size :: nat
  ev_progress :: real
  ev_total :: real

type_synonym 'w mcp_stream_callback = "mcp_stream_event \<Rightarrow> ptr option \<Rightarrow> 'w \<Rightarrow> 'w"

fun mcp_v1_stream_config ::
  "env \<Rightarrow> 'w mcp_context option \<Rightarrow> mcp_stream_config option \<Rightarrow> int \<times> 'w mcp_context option" where
  "mcp_v1_stream_config E None config = (err E AIRY_ERR_UNKNOWN, None)"
| "mcp_v1_stream_config E (Some ctx) None = (err E AIRY_ERR_INVALID_PARAM, Some ctx)"
| "mcp_v1_stream_config E (Some ctx) (Some config) = (0, Some (ctx\<lparr>mc_stream_config := config\<rparr>))"

fun mcp_stream_event_type_string :: "mcp_stream_event_type \<Rightarrow> cstring" where
  "mcp_stream_event_type_string MCP_STREAM_EVENT_CONTENT = ''content''"
| "mcp_stream_event_type_string MCP_STREAM_EVENT_ERROR = ''error''"
| "mcp_stream_event_type_string MCP_STREAM_EVENT_DONE = ''done''"
| "mcp_stream_event_type_string MCP_STREAM_EVENT_PROGRESS = ''progress''"
| "mcp_stream_event_type_string MCP_STREAM_EVENT_CANCELLED = ''cancelled''"

definition mcp_stream_event_init :: "env \<Rightarrow> nat \<Rightarrow> mcp_stream_event_type \<Rightarrow> cstring option \<Rightarrow> mcp_stream_event" where
  "mcp_stream_event_init E i type data =
    \<lparr>ev_type = type, ev_event_data = strdup_safe E i data,
     ev_data_size = (case data of None \<Rightarrow> 0 | Some s \<Rightarrow> length s), ev_progress = 0, ev_total = 0\<rparr>"

definition emit_sse_line ::
  "env \<Rightarrow> nat \<Rightarrow> 'w mcp_stream_callback option \<Rightarrow> ptr option \<Rightarrow> cstring \<Rightarrow> cstring option \<Rightarrow> 'w \<Rightarrow> 'w" where
  "emit_sse_line E i callback user_data field val w = (case callback of
      None \<Rightarrow> w
    | Some cb \<Rightarrow>
       (let v = (case val of None \<Rightarrow> '''' | Some s \<Rightarrow> s); len = length field + length v + 16 in
        if mem E i
        then cb (mcp_stream_event_init E (i + 1) MCP_STREAM_EVENT_CONTENT
               (Some (snprintf len (field @ '': '' @ v @ [CHR 0x0A])))) user_data w
        else w))"

definition emit_sse_event ::
  "env \<Rightarrow> nat \<Rightarrow> 'w mcp_stream_callback option \<Rightarrow> ptr option \<Rightarrow> cstring \<Rightarrow> cstring \<Rightarrow> 'w \<Rightarrow> int \<times> 'w" where
  "emit_sse_event E i callback user_data event_type json_data w =
    (if callback = None then (0, w)
     else (0, emit_sse_line E (i + 4) callback user_data '''' None
            (emit_sse_line E (i + 2) callback user_data ''data'' (Some json_data)
              (emit_sse_line E i callback user_data ''event'' (Some event_type) w))))"

text \<open>A progress event: no data, a percentage.\<close>

definition progress_event :: "mcp_stream_event \<Rightarrow> real \<Rightarrow> mcp_stream_event" where
  "progress_event e p = e\<lparr>ev_progress := p, ev_total := 100\<rparr>"

section \<open>Streaming a tool call\<close>

definition chunk_size_at :: "nat \<Rightarrow> nat \<Rightarrow> nat" where
  "chunk_size_at offset text_len = (if text_len < offset + 128 then text_len - offset else 128)"

definition chunk_pct :: "(real \<Rightarrow> real) \<Rightarrow> real \<Rightarrow> nat \<Rightarrow> nat \<Rightarrow> real" where
  "chunk_pct fl scale offset text_len =
    fl (fl (real offset / real (if 0 < text_len then text_len else 1)) * scale)"

text \<open>
  The loop that sends one text: the chunk, its three lines, a progress event. The chunk is
  copied into \<open>chunk_buf[256]\<close>; the text of a line comes from \<open>line\<close>, by the offset and
  the escaped chunk. Each round makes seven allocations, or \<open>per\<close> of them in general.
\<close>

function chunk_loop ::
  "env \<Rightarrow> (real \<Rightarrow> real) \<Rightarrow> real \<Rightarrow> 'w mcp_stream_callback \<Rightarrow> ptr option \<Rightarrow> cstring \<Rightarrow> nat \<Rightarrow>
   (env \<Rightarrow> nat \<Rightarrow> cstring \<Rightarrow> cstring option) \<Rightarrow> cstring \<Rightarrow> nat \<Rightarrow> 'w \<Rightarrow> 'w option" where
  "chunk_loop E fl scale cb user_data event per line text offset w =
    (if offset < length text then
       (let chunk_size = chunk_size_at offset (length text);
            chunk_buf = take chunk_size (drop offset text) in
        case line E offset chunk_buf of
          None \<Rightarrow> None
        | Some sse_data \<Rightarrow>
           (let w1 = snd (emit_sse_event E (per - 6) (Some cb) user_data event sse_data w);
                offset' = offset + chunk_size;
                evt = progress_event (mcp_stream_event_init E 0 MCP_STREAM_EVENT_PROGRESS None)
                        (chunk_pct fl scale offset' (length text)) in
            chunk_loop (later per E) fl scale cb user_data event per line text offset' (cb evt user_data w1)))
     else Some w)"
  by pat_completeness auto
termination
  by (relation "measure (\<lambda>(E, fl, scale, cb, user_data, event, per, line, text, offset, w). length text - offset)")
    (auto simp: chunk_size_at_def)

declare chunk_loop.simps [simp del]

definition chunk_head :: "nat \<Rightarrow> mcp_content_type \<Rightarrow> cstring" where
  "chunk_head i type = ''{\"index\":'' @ show_nat i @ '',\"type\":\"'' @ mcp_type_str type @ ''\",\"partial\":true}''"

definition tool_chunk_line :: "cstring \<Rightarrow> env \<Rightarrow> nat \<Rightarrow> cstring \<Rightarrow> cstring option" where
  "tool_chunk_line chunk_json E offset chunk_buf = (case esc_arg E 0 (Some chunk_buf) of
      None \<Rightarrow> None
    | Some escaped_chunk \<Rightarrow> Some (snprintf 1024 ((if offset = 0 then chunk_json else '''') @
        ''{\"delta\":{\"text\":\"'' @ escaped_chunk @ ''\"}}'')))"

definition chunk_count :: "nat \<Rightarrow> nat" where
  "chunk_count n = (n + 127) div 128"

text \<open>The results in turn, each with a buffer for the head of its first chunk.\<close>

fun stream_results ::
  "env \<Rightarrow> (real \<Rightarrow> real) \<Rightarrow> 'w mcp_stream_callback \<Rightarrow> ptr option \<Rightarrow> nat \<Rightarrow> mcp_content list \<Rightarrow> 'w \<Rightarrow> 'w option" where
  "stream_results E fl cb user_data i [] w = Some w"
| "stream_results E fl cb user_data i (c # cs) w =
    (let text = (case ct_text c of None \<Rightarrow> '''' | Some t \<Rightarrow> t);
         buf_size = 512 + length text in
     if mem E 0 then
       (case chunk_loop (later 1 E) fl 80 cb user_data ''tools/call/chunk'' 7
           (tool_chunk_line (snprintf buf_size (chunk_head i (ct_type c)))) text 0 w of
          None \<Rightarrow> None
        | Some w \<Rightarrow> stream_results (later (1 + 7 * chunk_count (length text)) E) fl cb user_data (Suc i) cs w)
     else stream_results (later 1 E) fl cb user_data (Suc i) cs w)"

fun results_allocs :: "env \<Rightarrow> mcp_content list \<Rightarrow> nat" where
  "results_allocs E [] = 0"
| "results_allocs E (c # cs) =
    (if mem E 0
     then (let k = 1 + 7 * chunk_count (length (case ct_text c of None \<Rightarrow> '''' | Some t \<Rightarrow> t)) in
           k + results_allocs (later k E) cs)
     else 1 + results_allocs (later 1 E) cs)"

text \<open>The final event carries the same text as the answer of a plain call.\<close>

definition stream_final ::
  "env \<Rightarrow> 'w mcp_stream_callback \<Rightarrow> ptr option \<Rightarrow> mcp_content list \<Rightarrow> bool \<Rightarrow> 'w \<Rightarrow> 'w option" where
  "stream_final E cb user_data cs is_error w =
    (if result_limit < length cs \<or> \<not> mem E 0 then Some w
     else case list_response E (4096 + length cs * 1024) (result_head is_error)
         (map2 (content_item E) [0..<length cs] cs) (Some None) of
        Some (rc, Some (Some final_json)) \<Rightarrow>
          Some (snd (emit_sse_event E (1 + length cs) (Some cb) user_data ''tools/call/result'' final_json w))
      | _ \<Rightarrow> None)"

definition stream_done :: "env \<Rightarrow> bool \<Rightarrow> mcp_stream_event" where
  "stream_done E is_error = (mcp_stream_event_init E 0
       (if is_error then MCP_STREAM_EVENT_ERROR else MCP_STREAM_EVENT_DONE)
       (Some (if is_error then ''completed with errors'' else ''completed successfully'')))
     \<lparr>ev_progress := 100, ev_total := 100\<rparr>"

fun mcp_v1_handle_tools_call_streaming ::
  "env \<Rightarrow> (real \<Rightarrow> real) \<Rightarrow> 'w mcp_context option \<Rightarrow> cstring option \<Rightarrow> cstring option \<Rightarrow>
   'w mcp_stream_callback option \<Rightarrow> ptr option \<Rightarrow> 'w \<Rightarrow> (int \<times> 'w) option" where
  "mcp_v1_handle_tools_call_streaming E fl (Some ctx) (Some name) arguments_json (Some callback) user_data w =
    (let start_event = progress_event (mcp_stream_event_init E 0 MCP_STREAM_EVENT_PROGRESS
           (Some ''{\"status\":\"started\"}'')) 0;
         w = callback start_event user_data w in
     case find_named tool_key name (mc_tools ctx) of
        None \<Rightarrow> None
      | Some None \<Rightarrow>
         (case esc_arg E 1 (Some name) of
            None \<Rightarrow> None
          | Some name_esc \<Rightarrow>
             (let error_json = snprintf 512 (tool_missing_text name_esc);
                  w = snd (emit_sse_event E 2 (Some callback) user_data ''tools/call/result'' error_json w);
                  done_event = progress_event (mcp_stream_event_init E 8 MCP_STREAM_EVENT_ERROR
                    (Some ''Tool not found'')) 0 in
              Some (err E AIRY_ERR_INVALID_PARAM, callback done_event user_data w)))
      | Some (Some found) \<Rightarrow>
         (case te_handler found of
            None \<Rightarrow> None
          | Some handler \<Rightarrow>
             (case handler name arguments_json (te_user_data found) w of
                ((results, result_count, is_error), w) \<Rightarrow>
                 (case array_take result_count results of
                    None \<Rightarrow> None
                  | Some cs \<Rightarrow>
                     (case stream_results (later 1 E) fl callback user_data 0 cs w of
                        None \<Rightarrow> None
                      | Some w \<Rightarrow>
                         (let E' = later (1 + results_allocs (later 1 E) cs) E in
                          case stream_final E' callback user_data cs is_error w of
                            None \<Rightarrow> None
                          | Some w \<Rightarrow>
                             Some (0, callback (stream_done (later (7 + length cs) E') is_error) user_data w)))))))"
| "mcp_v1_handle_tools_call_streaming E fl ctx name arguments_json callback user_data w =
    Some (err E AIRY_ERR_UNKNOWN, w)"

section \<open>Sampling, completion and notifications\<close>

fun mcp_v1_handle_sampling ::
  "env \<Rightarrow> 'w mcp_context option \<Rightarrow> mcp_sampling_params option \<Rightarrow> mcp_sampling_result option \<Rightarrow> 'w \<Rightarrow>
   int \<times> mcp_sampling_result option \<times> 'w" where
  "mcp_v1_handle_sampling E (Some ctx) (Some params) (Some result) w =
    (case mc_sampling_handler ctx of
        None \<Rightarrow> (err E AIRY_ERR_INVALID_PARAM, Some result, w)
      | Some handler \<Rightarrow>
         if cf_capabilities (mc_config ctx) AND MCP_CAP_SAMPLING = 0
         then (err E AIRY_ERR_NULL_POINTER, Some result, w)
         else case handler params result (mc_sampling_user_data ctx) w of (result, w) \<Rightarrow> (0, Some result, w))"
| "mcp_v1_handle_sampling E ctx params result w = (err E AIRY_ERR_UNKNOWN, result, w)"

fun mcp_v1_handle_completion ::
  "env \<Rightarrow> 'w mcp_context option \<Rightarrow> mcp_completion_request option \<Rightarrow> mcp_completion_result option \<Rightarrow> 'w \<Rightarrow>
   int \<times> mcp_completion_result option \<times> 'w" where
  "mcp_v1_handle_completion E (Some ctx) (Some request) (Some result) w =
    (case mc_completion_handler ctx of
        None \<Rightarrow> (err E AIRY_ERR_INVALID_PARAM, Some result, w)
      | Some handler \<Rightarrow> (case handler request result (mc_completion_user_data ctx) w of (result, w) \<Rightarrow> (0, Some result, w)))"
| "mcp_v1_handle_completion E ctx request result w = (err E AIRY_ERR_UNKNOWN, result, w)"

fun mcp_v1_send_progress ::
  "env \<Rightarrow> 'w mcp_context option \<Rightarrow> cstring option \<Rightarrow> real \<Rightarrow> real \<Rightarrow> 'w \<Rightarrow> int \<times> 'w" where
  "mcp_v1_send_progress E (Some ctx) (Some progress_token) progress tot w =
    (0, case mc_progress_callback ctx of None \<Rightarrow> w | Some cb \<Rightarrow> cb progress_token progress tot (mc_progress_user_data ctx) w)"
| "mcp_v1_send_progress E ctx progress_token progress tot w = (err E AIRY_ERR_UNKNOWN, w)"

fun mcp_v1_notify_cancelled ::
  "env \<Rightarrow> 'w mcp_context option \<Rightarrow> cstring option \<Rightarrow> cstring option \<Rightarrow> 'w \<Rightarrow> int \<times> 'w" where
  "mcp_v1_notify_cancelled E (Some ctx) (Some request_id) reason w =
    (0, case mc_log_callback ctx of None \<Rightarrow> w
      | Some cb \<Rightarrow> cb MCP_LOG_INFO ''mcp'' (case reason of None \<Rightarrow> ''Request cancelled'' | Some r \<Rightarrow> r) (mc_log_user_data ctx) w)"
| "mcp_v1_notify_cancelled E ctx request_id reason w = (err E AIRY_ERR_UNKNOWN, w)"

definition zero_sampling_result :: mcp_sampling_result where
  "zero_sampling_result = \<lparr>sr_model = None, sr_content = None, sr_content_count = 0, sr_messages = None,
     sr_message_count = 0, sr_stopped_early = False, sr_stop_reason = None\<rparr>"

definition model_of :: "mcp_sampling_result \<Rightarrow> cstring" where
  "model_of result = (case sr_model result of None \<Rightarrow> ''unknown'' | Some m \<Rightarrow> m)"

definition sampling_chunk_line :: "cstring \<Rightarrow> nat \<Rightarrow> env \<Rightarrow> nat \<Rightarrow> cstring \<Rightarrow> cstring option" where
  "sampling_chunk_line model i E offset chunk_buf =
    (case (esc_arg E 0 (Some chunk_buf), esc_arg E 1 (Some model)) of
        (Some escaped_chunk, Some model_esc) \<Rightarrow> Some (snprintf 512 (''{\"model\":'' @ model_esc @
          '',\"delta\":{\"type\":\"text\",\"text\":\"'' @ escaped_chunk @ ''\"},\"index\":'' @ show_nat i @ ''}''))
      | _ \<Rightarrow> None)"

fun sampling_contents ::
  "env \<Rightarrow> (real \<Rightarrow> real) \<Rightarrow> 'w mcp_stream_callback \<Rightarrow> ptr option \<Rightarrow> cstring \<Rightarrow> nat \<Rightarrow> mcp_content list \<Rightarrow> 'w \<Rightarrow>
   'w option" where
  "sampling_contents E fl cb user_data model i [] w = Some w"
| "sampling_contents E fl cb user_data model i (c # cs) w =
    (let text = (case ct_text c of None \<Rightarrow> '''' | Some t \<Rightarrow> t) in
     case chunk_loop E fl 90 cb user_data ''sampling/chunk'' 8 (sampling_chunk_line model i) text 0 w of
       None \<Rightarrow> None
     | Some w \<Rightarrow> sampling_contents (later (8 * chunk_count (length text)) E) fl cb user_data model (Suc i) cs w)"

definition sampling_allocs :: "mcp_content list \<Rightarrow> nat" where
  "sampling_allocs cs = sum_list (map (\<lambda>c. 8 * chunk_count (length (case ct_text c of None \<Rightarrow> '''' | Some t \<Rightarrow> t))) cs)"

definition sampling_final_text :: "cstring \<Rightarrow> cstring \<Rightarrow> bool \<Rightarrow> cstring" where
  "sampling_final_text model_esc stop_esc stopped_early = ''{\"model\":'' @ model_esc @ '',\"stopReason\":'' @ stop_esc @
     '',\"stoppedEarly\":'' @ json_bool stopped_early @ ''}''"

definition sampling_finish ::
  "env \<Rightarrow> 'w mcp_stream_callback \<Rightarrow> ptr option \<Rightarrow> mcp_sampling_result \<Rightarrow> 'w \<Rightarrow> (int \<times> 'w) option" where
  "sampling_finish E callback user_data result w =
    (case (esc_arg E 0 (Some (model_of result)),
           esc_arg E 1 (Some (case sr_stop_reason result of None \<Rightarrow> ''end_turn'' | Some s \<Rightarrow> s))) of
        (Some model_esc, Some stop_esc) \<Rightarrow>
         (let final_result = snprintf 2048 (sampling_final_text model_esc stop_esc (sr_stopped_early result));
              w = snd (emit_sse_event E 2 (Some callback) user_data ''sampling/result'' final_result w);
              done_event = (mcp_stream_event_init E 8 MCP_STREAM_EVENT_DONE (Some ''Sampling complete''))
                \<lparr>ev_progress := 100, ev_total := 100\<rparr>;
              w = callback done_event user_data w in
          case mcp_content_destroy (sr_content result) (sr_content_count result) of
            None \<Rightarrow> None
          | Some _ \<Rightarrow> Some (0, w))
      | _ \<Rightarrow> None)"

fun mcp_v1_handle_sampling_streaming ::
  "env \<Rightarrow> (real \<Rightarrow> real) \<Rightarrow> 'w mcp_context option \<Rightarrow> mcp_sampling_params option \<Rightarrow> 'w mcp_stream_callback option \<Rightarrow>
   ptr option \<Rightarrow> 'w \<Rightarrow> (int \<times> 'w) option" where
  "mcp_v1_handle_sampling_streaming E fl (Some ctx) (Some params) (Some callback) user_data w =
    (case mc_sampling_handler ctx of
        None \<Rightarrow> Some (err E AIRY_ERR_INVALID_PARAM, w)
      | Some handler \<Rightarrow>
         if cf_capabilities (mc_config ctx) AND MCP_CAP_SAMPLING = 0 then Some (err E AIRY_ERR_NULL_POINTER, w)
         else
           (let start_event = progress_event (mcp_stream_event_init E 0 MCP_STREAM_EVENT_PROGRESS
                  (Some ''{\"status\":\"sampling_started\"}'')) 0;
                w = callback start_event user_data w in
            case handler params zero_sampling_result (mc_sampling_user_data ctx) w of
              (result, w) \<Rightarrow>
                (case array_take (if sr_content result = None then 0 else sr_content_count result) (sr_content result) of
                   None \<Rightarrow> None
                 | Some cs \<Rightarrow>
                    (case sampling_contents (later 1 E) fl callback user_data (model_of result) 0 cs w of
                       None \<Rightarrow> None
                     | Some w \<Rightarrow> sampling_finish (later (1 + sampling_allocs cs) E) callback user_data result w))))"
| "mcp_v1_handle_sampling_streaming E fl ctx params callback user_data w = Some (err E AIRY_ERR_UNKNOWN, w)"

section \<open>What the callback sees\<close>

text \<open>
  The reference: the events a callback receives, as a list. A text is sent in pieces of
  128 characters.
\<close>

definition feed :: "'w mcp_stream_callback \<Rightarrow> ptr option \<Rightarrow> mcp_stream_event list \<Rightarrow> 'w \<Rightarrow> 'w" where
  "feed cb u es w = fold (\<lambda>e. cb e u) es w"

lemma feed_simps [simp]:
  "feed cb u [] w = w" "feed cb u (e # es) w = feed cb u es (cb e u w)"
  "feed cb u (es @ fs) w = feed cb u fs (feed cb u es w)"
  by (simp_all add: feed_def)

definition data_event :: "mcp_stream_event_type \<Rightarrow> cstring \<Rightarrow> real \<Rightarrow> real \<Rightarrow> mcp_stream_event" where
  "data_event ty s p n = \<lparr>ev_type = ty, ev_event_data = Some s, ev_data_size = length s, ev_progress = p, ev_total = n\<rparr>"

definition tick :: "real \<Rightarrow> mcp_stream_event" where
  "tick p = \<lparr>ev_type = MCP_STREAM_EVENT_PROGRESS, ev_event_data = None, ev_data_size = 0, ev_progress = p, ev_total = 100\<rparr>"

definition sse_events :: "cstring \<Rightarrow> cstring \<Rightarrow> mcp_stream_event list" where
  "sse_events ev d = [data_event MCP_STREAM_EVENT_CONTENT (''event: '' @ ev @ [CHR 0x0A]) 0 0,
     data_event MCP_STREAM_EVENT_CONTENT (''data: '' @ d @ [CHR 0x0A]) 0 0,
     data_event MCP_STREAM_EVENT_CONTENT ('': '' @ [CHR 0x0A]) 0 0]"

fun pieces :: "cstring \<Rightarrow> cstring list" where
  "pieces s = (if s = [] then [] else take 128 s # pieces (drop 128 s))"

declare pieces.simps [simp del]

fun chunk_events ::
  "(real \<Rightarrow> real) \<Rightarrow> real \<Rightarrow> cstring \<Rightarrow> (nat \<Rightarrow> cstring \<Rightarrow> cstring) \<Rightarrow> nat \<Rightarrow> nat \<Rightarrow> cstring list \<Rightarrow>
   mcp_stream_event list" where
  "chunk_events fl scale ev g n offset [] = []"
| "chunk_events fl scale ev g n offset (p # ps) = sse_events ev (g offset p) @
     tick (chunk_pct fl scale (offset + length p) n) # chunk_events fl scale ev g n (offset + length p) ps"

lemma chunk_count_step: "0 < n \<Longrightarrow> chunk_count n = Suc (chunk_count (n - 128))"
proof (cases "128 \<le> n")
  case True
  then have "n + 127 = (n - 128 + 127) + 128" by simp
  then show ?thesis unfolding chunk_count_def by (metis div_add_self2 Suc_eq_plus1 zero_neq_numeral)
next
  case False
  assume "0 < n"
  with False have "(n + 127) div 128 = 1" by (intro div_nat_eqI) simp_all
  with False show ?thesis by (simp add: chunk_count_def)
qed

lemma pieces_props:
  "concat (pieces s) = s" "\<forall>p \<in> set (pieces s). p \<noteq> [] \<and> length p \<le> 128" "length (pieces s) = chunk_count (length s)"
proof -
  have "concat (pieces s) = s \<and> (\<forall>p \<in> set (pieces s). p \<noteq> [] \<and> length p \<le> 128) \<and>
    length (pieces s) = chunk_count (length s)"
  proof (induction s rule: pieces.induct)
    case (1 s)
    show ?case
    proof (cases "s = []")
      case True
      then show ?thesis by (simp add: pieces.simps chunk_count_def)
    next
      case False
      then have "0 < length s" by simp
      then have "chunk_count (length s) = Suc (chunk_count (length s - 128))"
        by (rule chunk_count_step)
      with 1 False show ?thesis by (simp add: pieces.simps [of s])
    qed
  qed
  then show "concat (pieces s) = s" "\<forall>p \<in> set (pieces s). p \<noteq> [] \<and> length p \<le> 128"
    "length (pieces s) = chunk_count (length s)" by simp_all
qed

lemma event_init_ok [simp]:
  "mem_ok E \<Longrightarrow> mcp_stream_event_init E i ty (Some s) = data_event ty s 0 0"
  "progress_event (mcp_stream_event_init E i MCP_STREAM_EVENT_PROGRESS None) p = tick p"
  "progress_event (data_event ty s q r) p = data_event ty s p 100"
  by (simp_all add: mcp_stream_event_init_def data_event_def tick_def progress_event_def)

lemma emit_line_ok [simp]:
  "mem_ok E \<Longrightarrow> emit_sse_line E i (Some cb) u f v w =
    cb (data_event MCP_STREAM_EVENT_CONTENT (f @ '': '' @ (case v of None \<Rightarrow> [] | Some s \<Rightarrow> s) @ [CHR 0x0A]) 0 0) u w"
  by (simp add: emit_sse_line_def)

lemma emit_event_ok [simp]:
  "mem_ok E \<Longrightarrow> emit_sse_event E i (Some cb) u ev d w = (0, feed cb u (sse_events ev d) w)"
  by (simp add: emit_sse_event_def sse_events_def)

text \<open>The chunk loop sends the pieces of the text from its offset on, and ends.\<close>

lemma chunk_loop_events:
  assumes "mem_ok E" "\<And>E' o' p. mem_ok E' \<Longrightarrow> p \<noteq> [] \<Longrightarrow> length p \<le> 128 \<Longrightarrow> line E' o' p = Some (g o' p)"
  shows "chunk_loop E fl scale cb u ev per line text offset w =
    Some (feed cb u (chunk_events fl scale ev g (length text) offset (pieces (drop offset text))) w)"
  using assms(1)
proof (induction "length text - offset" arbitrary: E offset w rule: less_induct)
  case less
  show ?case
  proof (cases "offset < length text")
    case False
    then show ?thesis by (simp add: chunk_loop.simps pieces.simps)
  next
    case True
    let ?k = "chunk_size_at offset (length text)"
    let ?p = "take ?k (drop offset text)"
    have k: "0 < ?k" "?k \<le> 128" "offset + ?k \<le> length text" "length ?p = ?k"
      using True by (auto simp: chunk_size_at_def)
    then have line: "line E offset ?p = Some (g offset ?p)" using assms(2) [OF less.prems] by simp
    have p: "take 128 (drop offset text) = ?p" by (simp add: chunk_size_at_def)
    have "drop 128 (drop offset text) = drop (offset + ?k) text"
      using True by (simp add: chunk_size_at_def add.commute)
    with p have step: "pieces (drop offset text) = ?p # pieces (drop (offset + ?k) text)"
      using True by (subst pieces.simps) simp
    have "length text - (offset + ?k) < length text - offset" using True k(1) by simp
    note IH = less.hyps [OF this, of "later per E"]
    show ?thesis unfolding step
      by (subst chunk_loop.simps) (use True line IH less.prems k(4) in simp)
  qed
qed

definition tool_delta :: "nat \<Rightarrow> mcp_content_type \<Rightarrow> nat \<Rightarrow> cstring \<Rightarrow> cstring" where
  "tool_delta i ty offset p = (if offset = 0 then chunk_head i ty else []) @
     ''{\"delta\":{\"text\":\"'' @ escape_text p @ ''\"}}''"

definition text_of :: "mcp_content \<Rightarrow> cstring" where
  "text_of c = (case ct_text c of None \<Rightarrow> [] | Some t \<Rightarrow> t)"

text \<open>Neither the head nor a line is cut by its buffer.\<close>

lemma chunk_head_length: "i < 10 ^ 20 \<Longrightarrow> length (chunk_head i ty) \<le> 63"
proof -
  assume "i < 10 ^ 20"
  then have "length (show_nat i) \<le> 20" by (rule show_nat_length) simp
  then show ?thesis by (cases ty) (simp_all add: chunk_head_def)
qed

lemma tool_chunk_line_ok:
  assumes "mem_ok E" "length p \<le> 128" "i < 10 ^ 20"
  shows "tool_chunk_line (snprintf (512 + n) (chunk_head i ty)) E offset p = Some (tool_delta i ty offset p)"
proof -
  have h: "length (chunk_head i ty) \<le> 63" using assms(3) by (rule chunk_head_length)
  have "length (escape_text p) \<le> 258" using escape_text_length [of p] assms(2) by simp
  with h assms(1) show ?thesis by (simp add: tool_chunk_line_def tool_delta_def)
qed

fun results_events :: "(real \<Rightarrow> real) \<Rightarrow> nat \<Rightarrow> mcp_content list \<Rightarrow> mcp_stream_event list" where
  "results_events fl i [] = []"
| "results_events fl i (c # cs) =
    chunk_events fl 80 ''tools/call/chunk'' (tool_delta i (ct_type c)) (length (text_of c)) 0 (pieces (text_of c)) @
    results_events fl (Suc i) cs"

lemma stream_results_events:
  assumes "mem_ok E" "i + length cs < 10 ^ 20"
  shows "stream_results E fl cb u i cs w = Some (feed cb u (results_events fl i cs) w)"
  using assms
proof (induction cs arbitrary: E i w)
  case Nil
  then show ?case by simp
next
  case (Cons c cs)
  then have i: "i < 10 ^ 20" by simp
  have "chunk_loop (later 1 E) fl 80 cb u ''tools/call/chunk'' 7
      (tool_chunk_line (snprintf (512 + length (text_of c)) (chunk_head i (ct_type c)))) (text_of c) 0 w =
    Some (feed cb u (chunk_events fl 80 ''tools/call/chunk'' (tool_delta i (ct_type c)) (length (text_of c)) 0
      (pieces (drop 0 (text_of c)))) w)"
    by (rule chunk_loop_events) (use Cons.prems i in \<open>simp_all add: tool_chunk_line_ok\<close>)
  then show ?case using Cons by (simp add: text_of_def)
qed

text \<open>
  C15: a streamed tool call. The loop over a text of any length ends: it gives the text in
  \<open>(length + 127) div 128\<close> pieces of at most 128 characters that together make it up. Given memory,
  after the start event and the handler the callback receives these pieces for each content in
  order, each in the three lines of a server-sent event that no buffer cuts and followed by the
  progress reached; then the complete result and a final event that tells whether the tool
  reported an error. The complete result is the whole answer only when it is shorter than 4096
  bytes plus 1024 for each content; at most two bytes more are cut off, and a longer one is
  written outside its buffer, so that the call has no result.
\<close>

theorem tool_stream_delivers:
  fixes ctx :: "'w mcp_context"
  assumes "mem_ok E" "find_named tool_key name (mc_tools ctx) = Some (Some e)" "te_handler e = Some h"
    "h name args (te_user_data e) (cb (data_event MCP_STREAM_EVENT_PROGRESS ''{\"status\":\"started\"}'' 0 100) u w) =
      ((Some cs, length cs, is_error), w')" "length cs \<le> result_limit"
  shows "mcp_v1_handle_tools_call_streaming E fl (Some ctx) (Some name) args (Some cb) u w =
    map_option (\<lambda>t. (0, feed cb u (results_events fl 0 cs @ sse_events ''tools/call/result'' t @
      [if is_error then data_event MCP_STREAM_EVENT_ERROR ''completed with errors'' 100 100
       else data_event MCP_STREAM_EVENT_DONE ''completed successfully'' 100 100]) w'))
      (in_buffer (4096 + 1024 * length cs) (answer_text is_error cs)) \<and>
    (\<forall>s. concat (pieces s) = s \<and> length (pieces s) = (length s + 127) div 128 \<and> (\<forall>p \<in> set (pieces s). length p \<le> 128))"
proof -
  let ?w = "feed cb u (results_events fl 0 cs) w'" and ?t = "in_buffer (4096 + 1024 * length cs) (answer_text is_error cs)"
  have take: "array_take (length cs) (Some cs) = Some cs" by (simp add: array_take_def)
  have res: "stream_results (later 1 E) fl cb u 0 cs w' = Some ?w"
    by (rule stream_results_events) (use assms(1,5) in simp_all)
  have fin: "stream_final E' cb u cs is_error v = map_option (\<lambda>t. feed cb u (sse_events ''tools/call/result'' t) v) ?t"
    if "mem_ok E'" for E' v
    using that assms(5) by (cases ?t) (simp_all add: stream_final_def answer_exact)
  have don: "stream_done E' is_error = (if is_error then data_event MCP_STREAM_EVENT_ERROR ''completed with errors'' 100 100
       else data_event MCP_STREAM_EVENT_DONE ''completed successfully'' 100 100)" if "mem_ok E'" for E'
    using that by (simp add: stream_done_def data_event_def)
  show ?thesis using assms(1-4) take res pieces_props by (cases ?t) (simp_all add: fin don chunk_count_def)
qed

definition echo_server :: "mcp_stream_event list mcp_context" where
  "echo_server = zero_context\<lparr>mc_tools := [tool_entry ''echo'' echo_tool]\<rparr>"

theorem tool_stream_delivers_witness:
  "\<exists>es. mcp_v1_handle_tools_call_streaming env0 id (Some echo_server) (Some ''echo'') (Some ''hi'')
      (Some (\<lambda>e u w. w @ [e])) None [] = Some (0, es) \<and>
    tick 80 \<in> set es \<and> last es = data_event MCP_STREAM_EVENT_DONE ''completed successfully'' 100 100"
proof -
  let ?e = "tool_entry ''echo'' echo_tool :: mcp_stream_event list mcp_tool_entry"
  let ?c = "\<lparr>ct_type = MCP_CONTENT_TEXT, ct_text = Some ''hi'', ct_mime_type = None, ct_uri = None,
       ct_data = None, ct_data_size = 0\<rparr>"
  obtain h where h: "te_handler ?e = Some h" "\<And>w. h ''echo'' (Some ''hi'') (te_user_data ?e) w = ((Some [?c], length [?c], False), w)"
    by (simp add: tool_entry_def echo_tool_def)
  have f: "find_named tool_key ''echo'' (mc_tools echo_server) = Some (Some ?e)"
    by (simp add: echo_server_def tool_entry_def echo_tool_def)
  have feed: "feed (\<lambda>e u w. w @ [e]) None es w = w @ es" for es and w :: "mcp_stream_event list"
    by (induction es arbitrary: w) simp_all
  have "length (answer_text False [?c]) < 4096 + 1024 * length [?c]"
    by (simp add: answer_text_def result_head_def escape_text_def escape_char.simps)
  with tool_stream_delivers [OF env0_ok(3) f h(1) h(2), of id] show ?thesis
    by (simp add: in_buffer_def feed text_of_def pieces.simps chunk_pct_def del: mcp_v1_handle_tools_call_streaming.simps)
qed

section \<open>Sampling needs a handler\<close>

text \<open>
  Setting a sampling handler also sets the capability, so that sampling then runs it;
  without one a request is refused and nothing changes.
\<close>

lemma sampling_enabled:
  assumes "mcp_v1_set_sampling_handler E (Some ctx) handler u = (rc, Some ctx')"
  shows "mcp_v1_handle_sampling E (Some ctx') (Some params) (Some result) w =
    (case handler of None \<Rightarrow> (err E AIRY_ERR_INVALID_PARAM, Some result, w)
     | Some h \<Rightarrow> (case h params result u w of (res, w') \<Rightarrow> (0, Some res, w')))"
proof (cases handler)
  case None
  with assms show ?thesis by auto
next
  case (Some h)
  have "(c OR 8) AND 8 \<noteq> 0" for c :: u32
    by (simp add: bit_eq_iff) (rule exI [of _ 3], simp add: bit_simps)
  with assms Some show ?thesis by auto
qed

end
