(* ===== verification/Mcp_Transport.thy ===== *)
theory Mcp_Transport
  imports Mcp_Frame Mcp_Stream
begin

text \<open>
  The transports of the MCP adapter (\<open>mcp_transport.c\<close>): a pipe with \<open>Content-Length\<close>
  frames, and an HTTP connection with server-sent events.

  What the operating system answers is given by lists of events that the loops consume. A
  loop that needs an event when there is none left is still waiting: its result is \<open>None\<close>,
  as it is for an access outside a buffer. The callbacks of a transport work on a world of
  type \<open>'w\<close>. The calls that open a connection answer from a record \<open>net\<close>.
\<close>

section \<open>State\<close>

datatype mcp_transport_type = MCP_TRANSPORT_STDIO | MCP_TRANSPORT_HTTP_SSE | MCP_TRANSPORT_STREAMABLE_HTTP

datatype mcp_transport_state =
  MCP_TRANSPORT_DISCONNECTED | MCP_TRANSPORT_CONNECTING | MCP_TRANSPORT_CONNECTED | MCP_TRANSPORT_ERROR

type_synonym 'w message_fn = "cstring \<Rightarrow> nat \<Rightarrow> ptr option \<Rightarrow> 'w \<Rightarrow> 'w"
type_synonym 'w error_fn = "int \<Rightarrow> cstring \<Rightarrow> ptr option \<Rightarrow> 'w \<Rightarrow> 'w"
type_synonym 'w state_fn = "mcp_transport_state \<Rightarrow> ptr option \<Rightarrow> 'w \<Rightarrow> 'w"

text \<open>The union of the configuration: \<open>tc_input_fd\<close> and \<open>tc_output_fd\<close>, or the HTTP members.\<close>

record 'w mcp_transport_config =
  tc_type :: mcp_transport_type
  tc_on_message :: "'w message_fn option"
  tc_on_error :: "'w error_fn option"
  tc_on_state_change :: "'w state_fn option"
  tc_user_data :: "ptr option"
  tc_read_timeout_ms :: u32
  tc_write_timeout_ms :: u32
  tc_max_message_size :: nat
  tc_input_fd :: int
  tc_output_fd :: int
  tc_base_url :: "cstring option"
  tc_api_key :: "cstring option"
  tc_sse_endpoint :: "cstring option"
  tc_post_endpoint :: "cstring option"
  tc_reconnect_interval_ms :: u32
  tc_max_reconnect_attempts :: u32

record 'w mcp_transport =
  tp_type :: mcp_transport_type
  tp_state :: mcp_transport_state
  tp_on_message :: "'w message_fn option"
  tp_on_error :: "'w error_fn option"
  tp_on_state_change :: "'w state_fn option"
  tp_user_data :: "ptr option"
  tp_read_timeout_ms :: u32
  tp_write_timeout_ms :: u32
  tp_max_message_size :: nat
  tp_input_fd :: int
  tp_output_fd :: int
  tp_base_url :: "cstring option"
  tp_host_header :: "cstring option"
  tp_api_key :: "cstring option"
  tp_sse_endpoint :: "cstring option"
  tp_post_endpoint :: "cstring option"
  tp_reconnect_interval_ms :: u32
  tp_max_reconnect_attempts :: u32
  tp_http_socket :: int
  tp_recv_buffer_size :: nat
  tp_recv_buffer_capacity :: nat
  tp_running :: int

definition set_state :: "mcp_transport_state \<Rightarrow> 'w mcp_transport \<Rightarrow> 'w \<Rightarrow> 'w mcp_transport \<times> 'w" where
  "set_state new_state t w =
    (let old = tp_state t; t' = t\<lparr>tp_state := new_state\<rparr> in
     (t', case tp_on_state_change t of
            None \<Rightarrow> w
          | Some f \<Rightarrow> if old \<noteq> new_state then f new_state (tp_user_data t) w else w))"

definition notify_error :: "'w mcp_transport \<Rightarrow> int \<Rightarrow> cstring \<Rightarrow> 'w \<Rightarrow> 'w" where
  "notify_error t code msg w = (case tp_on_error t of None \<Rightarrow> w | Some f \<Rightarrow> f code msg (tp_user_data t) w)"

section \<open>Reading and writing\<close>

text \<open>
  What a \<open>select\<close> followed by a \<open>read\<close> meets: a timeout, a failure of either, or a run of
  bytes that are available. A read takes at most as many as it asks for. An empty run is
  the end of the input.
\<close>

datatype in_event = I_timeout | I_select_fail | I_read_fail | I_bytes "char list"

datatype read_outcome = Timed_out | Select_failed | Read_failed | Got "char list"

fun os_read :: "nat \<Rightarrow> in_event list \<Rightarrow> (read_outcome \<times> in_event list) option" where
  "os_read k [] = None"
| "os_read k (I_timeout # es) = Some (Timed_out, es)"
| "os_read k (I_select_fail # es) = Some (Select_failed, es)"
| "os_read k (I_read_fail # es) = Some (Read_failed, es)"
| "os_read k (I_bytes bs # es) =
    (if bs = [] then Some (Read_failed, es)
     else Some (Got (take k bs), if length bs \<le> k then es else I_bytes (drop k bs) # es))"

fun weight :: "in_event list \<Rightarrow> nat" where
  "weight [] = 0"
| "weight (I_bytes bs # es) = Suc (length bs) + weight es"
| "weight (e # es) = Suc (weight es)"

lemma os_read_weight: "os_read k es = Some (o', es') \<Longrightarrow> 0 < k \<Longrightarrow> weight es' < weight es"
  by (induction k es rule: os_read.induct) (auto split: if_splits)

text \<open>The line without its end, in a buffer of \<open>buf_size\<close> bytes; \<open>buf\<close> is what it holds so far.\<close>

function read_line_loop ::
  "env \<Rightarrow> nat \<Rightarrow> cstring \<Rightarrow> in_event list \<Rightarrow> (int \<times> cstring \<times> in_event list) option" where
  "read_line_loop E buf_size buf evs =
    (if length buf < buf_size - 1 then
       (case os_read 1 evs of
          None \<Rightarrow> None
        | Some (Timed_out, es) \<Rightarrow> Some (err E AIRY_ERR_INVALID_PARAM, buf, es)
        | Some (Select_failed, es) \<Rightarrow> Some (err E AIRY_EINVAL, buf, es)
        | Some (Read_failed, es) \<Rightarrow> Some (err E AIRY_ERR_UNKNOWN, buf, es)
        | Some (Got cs, es) \<Rightarrow>
           (let c = hd cs in
            if c = LF then Some (int (length buf), buf, es)
            else read_line_loop E buf_size (if c \<noteq> CR then buf @ [c] else buf) es))
     else Some (int (length buf), buf, evs))"
  by pat_completeness auto
termination
  by (relation "measure (\<lambda>(E, n, buf, evs). weight evs)") (auto dest: os_read_weight)

declare read_line_loop.simps [simp del]

definition read_line :: "env \<Rightarrow> nat \<Rightarrow> in_event list \<Rightarrow> (int \<times> cstring \<times> in_event list) option" where
  "read_line E buf_size evs = read_line_loop E buf_size [] evs"

datatype out_event = O_timeout | O_select_fail | O_write_fail | O_wrote nat

text \<open>The code, the bytes that were accepted, and the events that are left.\<close>

fun write_all :: "env \<Rightarrow> out_event list \<Rightarrow> char list \<Rightarrow> (int \<times> char list \<times> out_event list) option" where
  "write_all E evs [] = Some (0, [], evs)"
| "write_all E [] (x # xs) = None"
| "write_all E (ev # evs) (x # xs) = (case ev of
      O_timeout \<Rightarrow> Some (err E AIRY_ERR_INVALID_PARAM, [], evs)
    | O_select_fail \<Rightarrow> Some (err E AIRY_EINVAL, [], evs)
    | O_write_fail \<Rightarrow> Some (err E AIRY_ERR_UNKNOWN, [], evs)
    | O_wrote n \<Rightarrow>
        if n = 0 then Some (err E AIRY_ERR_UNKNOWN, [], evs)
        else map_option (\<lambda>(rc, out, evs'). (rc, take n (x # xs) @ out, evs'))
          (write_all E evs (drop n (x # xs))))"

section \<open>Life of a transport\<close>

definition zero_transport_config :: "'w mcp_transport_config" where
  "zero_transport_config = \<lparr>tc_type = MCP_TRANSPORT_STDIO, tc_on_message = None, tc_on_error = None,
     tc_on_state_change = None, tc_user_data = None, tc_read_timeout_ms = 0, tc_write_timeout_ms = 0,
     tc_max_message_size = 0, tc_input_fd = 0, tc_output_fd = 0, tc_base_url = None, tc_api_key = None,
     tc_sse_endpoint = None, tc_post_endpoint = None, tc_reconnect_interval_ms = 0,
     tc_max_reconnect_attempts = 0\<rparr>"

definition mcp_transport_config_stdio_default :: "'w mcp_transport_config" where
  "mcp_transport_config_stdio_default = zero_transport_config\<lparr>tc_type := MCP_TRANSPORT_STDIO,
     tc_read_timeout_ms := 30000, tc_write_timeout_ms := 30000, tc_max_message_size := 10 * 1024 * 1024,
     tc_input_fd := 0, tc_output_fd := 1\<rparr>"

definition mcp_transport_config_http_default :: "cstring option \<Rightarrow> 'w mcp_transport_config" where
  "mcp_transport_config_http_default base_url = zero_transport_config\<lparr>tc_type := MCP_TRANSPORT_HTTP_SSE,
     tc_read_timeout_ms := 30000, tc_write_timeout_ms := 30000, tc_max_message_size := 10 * 1024 * 1024,
     tc_base_url := base_url, tc_sse_endpoint := Some ''/sse'', tc_post_endpoint := Some ''/messages'',
     tc_reconnect_interval_ms := 5000, tc_max_reconnect_attempts := 10\<rparr>"

definition zero_transport :: "'w mcp_transport" where
  "zero_transport = \<lparr>tp_type = MCP_TRANSPORT_STDIO, tp_state = MCP_TRANSPORT_DISCONNECTED, tp_on_message = None,
     tp_on_error = None, tp_on_state_change = None, tp_user_data = None, tp_read_timeout_ms = 0,
     tp_write_timeout_ms = 0, tp_max_message_size = 0, tp_input_fd = 0, tp_output_fd = 0, tp_base_url = None,
     tp_host_header = None, tp_api_key = None, tp_sse_endpoint = None, tp_post_endpoint = None,
     tp_reconnect_interval_ms = 0, tp_max_reconnect_attempts = 0, tp_http_socket = 0,
     tp_recv_buffer_size = 0, tp_recv_buffer_capacity = 0, tp_running = 0\<rparr>"

definition or_default :: "u32 \<Rightarrow> u32 \<Rightarrow> u32" where
  "or_default v d = (if 0 < v then v else d)"

definition url_host :: "cstring \<Rightarrow> cstring" where
  "url_host url =
    (let host_start = (if strncmp_eq 7 url ''http://'' then drop 7 url
                       else if strncmp_eq 8 url ''https://'' then drop 8 url else url) in
     case strchr (CHR ''/'') host_start of
       None \<Rightarrow> host_start
     | Some path_start \<Rightarrow> take (length host_start - length path_start) host_start)"

definition base_transport :: "'w mcp_transport_config \<Rightarrow> 'w mcp_transport" where
  "base_transport config = zero_transport\<lparr>tp_type := tc_type config, tp_state := MCP_TRANSPORT_DISCONNECTED,
     tp_on_message := tc_on_message config, tp_on_error := tc_on_error config,
     tp_on_state_change := tc_on_state_change config, tp_user_data := tc_user_data config,
     tp_read_timeout_ms := or_default (tc_read_timeout_ms config) 30000,
     tp_write_timeout_ms := or_default (tc_write_timeout_ms config) 30000,
     tp_max_message_size := (if 0 < tc_max_message_size config then tc_max_message_size config else 10 * 1024 * 1024),
     tp_running := 0, tp_recv_buffer_capacity := 65536, tp_recv_buffer_size := 0\<rparr>"

fun mcp_transport_create :: "env \<Rightarrow> 'w mcp_transport_config option \<Rightarrow> 'w mcp_transport option" where
  "mcp_transport_create E None = None"
| "mcp_transport_create E (Some config) =
    (if \<not> mem E 0 then None
     else if \<not> mem E 1 then None
     else Some (case tc_type config of
        MCP_TRANSPORT_STDIO \<Rightarrow> (base_transport config)\<lparr>
          tp_input_fd := (if 0 < tc_input_fd config then tc_input_fd config else 0),
          tp_output_fd := (if 0 < tc_output_fd config then tc_output_fd config else 1)\<rparr>
      | MCP_TRANSPORT_HTTP_SSE \<Rightarrow> (base_transport config)\<lparr>
          tp_base_url := strdup_safe E 2 (tc_base_url config),
          tp_host_header := strdup_safe E 3 (map_option url_host (tc_base_url config)),
          tp_api_key := strdup_safe E 4 (tc_api_key config),
          tp_sse_endpoint := strdup E 5 (case tc_sse_endpoint config of None \<Rightarrow> ''/sse'' | Some s \<Rightarrow> s),
          tp_post_endpoint := strdup E 6 (case tc_post_endpoint config of None \<Rightarrow> ''/messages'' | Some s \<Rightarrow> s),
          tp_reconnect_interval_ms := or_default (tc_reconnect_interval_ms config) 5000,
          tp_max_reconnect_attempts := or_default (tc_max_reconnect_attempts config) 10,
          tp_http_socket := - 1\<rparr>
      | MCP_TRANSPORT_STREAMABLE_HTTP \<Rightarrow> base_transport config))"

text \<open>The numbers of the descriptors that are closed are part of the result.\<close>

fun mcp_transport_stop :: "env \<Rightarrow> 'w mcp_transport option \<Rightarrow> 'w \<Rightarrow> int \<times> 'w mcp_transport option \<times> int list \<times> 'w" where
  "mcp_transport_stop E None w = (err E AIRY_ERR_UNKNOWN, None, [], w)"
| "mcp_transport_stop E (Some t) w =
    (let t1 = t\<lparr>tp_running := 0\<rparr>;
         (t2, fds) = (if 0 \<le> tp_http_socket t1 then (t1\<lparr>tp_http_socket := - 1\<rparr>, [tp_http_socket t1]) else (t1, []));
         (t3, w) = set_state MCP_TRANSPORT_DISCONNECTED t2 w in
     (0, Some t3, fds, w))"

fun mcp_transport_destroy :: "env \<Rightarrow> 'w mcp_transport option \<Rightarrow> 'w \<Rightarrow> int list \<times> 'w" where
  "mcp_transport_destroy E None w = ([], w)"
| "mcp_transport_destroy E (Some t) w =
    (case (if tp_running t \<noteq> 0 then mcp_transport_stop E (Some t) w else (0, Some t, [], w)) of
       (rc, t', fds, w) \<Rightarrow>
         (case t' of None \<Rightarrow> (fds, w)
          | Some t2 \<Rightarrow> (if 0 \<le> tp_http_socket t2 then fds @ [tp_http_socket t2] else fds, w)))"

text \<open>
  Opening a connection: the resolver (an error text, or \<open>None\<close>), the number of the new
  socket, and the error text of \<open>connect\<close>.
\<close>

record net =
  nt_getaddrinfo :: "cstring \<Rightarrow> cstring \<Rightarrow> cstring option"
  nt_socket :: int
  nt_connect :: "cstring option"

text \<open>Host and port of the base URL. A port is cut to 32 bits as the cast to \<open>int\<close> does.\<close>

definition url_parts :: "cstring \<Rightarrow> cstring \<times> int" where
  "url_parts url =
    (let (host_start, port) =
           (if strncmp_eq 8 url ''https://'' then (drop 8 url, 443)
            else if strncmp_eq 7 url ''http://'' then (drop 7 url, 80) else (url, 80));
         port_sep = strchr (CHR '':'') host_start;
         path_sep = strchr (CHR ''/'') host_start;
         upto = (\<lambda>s. take (length host_start - length s) host_start) in
     case port_sep of
       Some ps \<Rightarrow>
         (case path_sep of
            None \<Rightarrow> (upto ps, sint (word_of_int (strtol (drop 1 ps)) :: u32))
          | Some qs \<Rightarrow> if length qs < length ps then (upto ps, sint (word_of_int (strtol (drop 1 ps)) :: u32))
                      else (upto qs, port))
     | None \<Rightarrow> (case path_sep of None \<Rightarrow> (host_start, port) | Some qs \<Rightarrow> (upto qs, port)))"

definition start_http :: "env \<Rightarrow> net \<Rightarrow> 'w mcp_transport \<Rightarrow> 'w \<Rightarrow> int \<times> 'w mcp_transport \<times> 'w" where
  "start_http E nt t w =
    (let failed = (\<lambda>rc w. case set_state MCP_TRANSPORT_ERROR t w of (t', w') \<Rightarrow> (rc, t', w')) in
     case tp_base_url t of
       None \<Rightarrow> failed (err E AIRY_EINVAL) (notify_error t (- 1) ''HTTP transport requires base_url'' w)
     | Some url \<Rightarrow>
        if \<not> mem E 0 then failed (err E AIRY_EINVAL) w
        else
          (let (hs, port) = url_parts url; host = snprintf 256 hs; port_str = snprintf 16 (show_int port) in
           case nt_getaddrinfo nt host port_str of
             Some e \<Rightarrow> failed (err E AIRY_EIO) (notify_error t (- 2) (snprintf 256 (''DNS resolution failed: '' @ e)) w)
           | None \<Rightarrow>
              if nt_socket nt < 0
              then failed (err E AIRY_EINVAL) (notify_error t (- 3) ''Socket creation failed'' w)
              else case nt_connect nt of
                  Some e \<Rightarrow> failed (err E AIRY_EINVAL) (notify_error t (- 4) (snprintf 256 (''Connection failed: '' @ e)) w)
                | None \<Rightarrow>
                   (case set_state MCP_TRANSPORT_CONNECTED (t\<lparr>tp_http_socket := nt_socket nt, tp_running := 1\<rparr>) w of
                      (t', w') \<Rightarrow> (0, t', w'))))"

fun mcp_transport_start :: "env \<Rightarrow> net \<Rightarrow> 'w mcp_transport option \<Rightarrow> 'w \<Rightarrow> int \<times> 'w mcp_transport option \<times> 'w" where
  "mcp_transport_start E nt None w = (err E AIRY_ERR_UNKNOWN, None, w)"
| "mcp_transport_start E nt (Some t0) w0 =
    (if tp_state t0 = MCP_TRANSPORT_CONNECTED then (0, Some t0, w0)
     else
       (let (t, w) = set_state MCP_TRANSPORT_CONNECTING t0 w0 in
        if tp_type t = MCP_TRANSPORT_STDIO
        then (case set_state MCP_TRANSPORT_CONNECTED (t\<lparr>tp_running := 1\<rparr>) w of (t', w') \<Rightarrow> (0, Some t', w'))
        else (case start_http E nt t w of (rc, t', w') \<Rightarrow> (rc, Some t', w'))))"

section \<open>Messages\<close>

text \<open>
  The first \<open>n\<close> bytes of a buffer of \<open>cap\<close> bytes into which a text of \<open>n\<close> characters was
  printed: the text when it fits, with its last character cut off and the NUL in its place
  when it is one too long, and beyond that a read outside the buffer.
\<close>

definition printed_bytes :: "nat \<Rightarrow> cstring \<Rightarrow> char list option" where
  "printed_bytes cap s = (if length s < cap then Some s
     else if length s = cap then Some (take (cap - 1) s @ [NUL]) else None)"

definition stdio_header :: "nat \<Rightarrow> cstring" where
  "stdio_header len = ''Content-Length: '' @ show_nat len @ [CR, LF, CR, LF]"

definition http_request :: "'w mcp_transport \<Rightarrow> nat \<Rightarrow> cstring" where
  "http_request t len = ''POST '' @ (case tp_post_endpoint t of None \<Rightarrow> ''/messages'' | Some p \<Rightarrow> p) @
     '' HTTP/1.1'' @ [CR, LF] @ ''Host: '' @ (case tp_host_header t of None \<Rightarrow> ''localhost'' | Some h \<Rightarrow> h) @ [CR, LF] @
     ''Content-Type: application/json'' @ [CR, LF] @ ''Content-Length: '' @ show_nat len @ [CR, LF] @
     (case tp_api_key t of None \<Rightarrow> [] | Some k \<Rightarrow> ''Authorization: Bearer '' @ k @ [CR, LF]) @ [CR, LF]"

text \<open>Two writes in a row: the code of the first failure and which of the two it was.\<close>

definition write_two ::
  "env \<Rightarrow> out_event list \<Rightarrow> char list \<Rightarrow> char list \<Rightarrow> ((nat \<times> int) \<times> char list \<times> out_event list) option" where
  "write_two E evs a b = (case write_all E evs a of
      None \<Rightarrow> None
    | Some (rc, out, evs1) \<Rightarrow>
        if rc < 0 then Some ((1, rc), out, evs1)
        else (case write_all E evs1 b of
            None \<Rightarrow> None
          | Some (rc2, out2, evs2) \<Rightarrow> Some ((if rc2 < 0 then (2, rc2) else (0, 0)), out @ out2, evs2)))"

definition send_stdio ::
  "env \<Rightarrow> 'w mcp_transport \<Rightarrow> char list \<Rightarrow> nat \<Rightarrow> out_event list \<Rightarrow> 'w \<Rightarrow>
   (int \<times> 'w mcp_transport \<times> char list \<times> out_event list \<times> 'w) option" where
  "send_stdio E t msg len evs w = (case printed_bytes 32 (stdio_header len) of
      None \<Rightarrow> None
    | Some header \<Rightarrow>
       (case write_two E evs header (take len msg) of
          None \<Rightarrow> None
        | Some ((step, rc), out, evs') \<Rightarrow>
           if step = 0 then Some (0, t, out, evs', w)
           else (let w1 = (if step = 1 then notify_error t (- 10) ''Failed to write message header'' w
                           else notify_error t (- 11) ''Failed to write message body'' w) in
                 case set_state MCP_TRANSPORT_ERROR t w1 of
                   (t', w2) \<Rightarrow> Some (err E AIRY_ERR_NULL_POINTER, t', out, evs', w2))))"

definition send_http ::
  "env \<Rightarrow> 'w mcp_transport \<Rightarrow> char list \<Rightarrow> nat \<Rightarrow> out_event list \<Rightarrow> 'w \<Rightarrow>
   (int \<times> 'w mcp_transport \<times> char list \<times> out_event list \<times> 'w) option" where
  "send_http E t msg len evs w =
    (if tp_http_socket t < 0 then Some (err E AIRY_ERR_NULL_POINTER, t, [], evs, w)
     else case printed_bytes 4096 (http_request t len) of
        None \<Rightarrow> None
      | Some request \<Rightarrow>
         (case write_two E evs request (take len msg) of
            None \<Rightarrow> None
          | Some ((step, rc), out, evs') \<Rightarrow>
             if step = 0 then Some (0, t, out, evs', w)
             else if step = 1
             then Some (err E AIRY_ERR_NULL_POINTER, t, out, evs', notify_error t (- 12) ''Failed to send HTTP request header'' w)
             else Some (err E AIRY_ERR_INVALID_PARAM, t, out, evs', notify_error t (- 13) ''Failed to send HTTP request body'' w)))"

fun mcp_transport_send ::
  "env \<Rightarrow> 'w mcp_transport option \<Rightarrow> char list option \<Rightarrow> nat \<Rightarrow> out_event list \<Rightarrow> 'w \<Rightarrow>
   (int \<times> 'w mcp_transport option \<times> char list \<times> out_event list \<times> 'w) option" where
  "mcp_transport_send E (Some t) (Some msg) len evs w =
    (if len = 0 then Some (err E AIRY_ERR_UNKNOWN, Some t, [], evs, w)
     else if tp_state t \<noteq> MCP_TRANSPORT_CONNECTED then Some (err E AIRY_ERR_NOT_FOUND, Some t, [], evs, w)
     else if length msg < len then None
     else map_option (\<lambda>(rc, t', out, evs', w'). (rc, Some t', out, evs', w'))
       (if tp_type t = MCP_TRANSPORT_STDIO then send_stdio E t msg len evs w else send_http E t msg len evs w))"
| "mcp_transport_send E t msg len evs w = Some (err E AIRY_ERR_UNKNOWN, t, [], evs, w)"

text \<open>The body loop: \<open>left\<close> bytes are missing.\<close>

function read_body_loop ::
  "env \<Rightarrow> nat \<Rightarrow> char list \<Rightarrow> in_event list \<Rightarrow> (int \<times> char list \<times> in_event list) option" where
  "read_body_loop E left body evs =
    (if left = 0 then Some (0, body, evs)
     else case os_read left evs of
        None \<Rightarrow> None
      | Some (Timed_out, es) \<Rightarrow> Some (- 2, body, es)
      | Some (Select_failed, es) \<Rightarrow> Some (- 1, body, es)
      | Some (Read_failed, es) \<Rightarrow> Some (err E AIRY_EINVAL, body, es)
      | Some (Got cs, es) \<Rightarrow> read_body_loop E (left - length cs) (body @ cs) es)"
  by pat_completeness auto
termination
  by (relation "measure (\<lambda>(E, left, body, evs). weight evs)") (auto dest: os_read_weight)

declare read_body_loop.simps [simp del]

definition atol_size :: "cstring \<Rightarrow> nat" where
  "atol_size s = nat (strtol s mod 2 ^ 64)"

definition receive_stdio ::
  "env \<Rightarrow> 'w mcp_transport \<Rightarrow> in_event list \<Rightarrow> 'w \<Rightarrow> (int \<times> (char list \<times> nat) option \<times> in_event list \<times> 'w) option" where
  "receive_stdio E t evs w = (case read_line E 256 evs of
      None \<Rightarrow> None
    | Some (hdr_result, header_buf, es1) \<Rightarrow>
       if hdr_result < 0 then
         if hdr_result = - 2 then Some (err E AIRY_ERR_IO, None, es1, w)
         else Some (err E AIRY_EINVAL, None, es1, notify_error t (- 20) ''Failed to read message header'' w)
       else if \<not> strncmp_eq 15 header_buf ''Content-Length: '' then Some (err E AIRY_EINVAL, None, es1, w)
       else
         (let content_length = atol_size (drop 15 header_buf) in
          case read_line E 4 es1 of
            None \<Rightarrow> None
          | Some (ignored, empty_line, es2) \<Rightarrow>
             if content_length = 0 \<or> tp_max_message_size t < content_length
             then Some (err E AIRY_EINVAL, None, es2, notify_error t (- 21) ''Invalid content length'' w)
             else if \<not> mem E 0 then Some (err E AIRY_ERR_OUT_OF_MEMORY, None, es2, w)
             else case read_body_loop E content_length [] es2 of
                 None \<Rightarrow> None
               | Some (rc, body, es3) \<Rightarrow>
                  if rc = 0 then Some (0, Some (body, content_length), es3, w) else Some (rc, None, es3, w)))"

text \<open>
  A line that starts an event and an empty line are skipped by a recursive call. The
  line is handled as a C string, which ends at the first NUL among its bytes.
\<close>

definition line_str :: "char list \<Rightarrow> cstring" where
  "line_str s = takeWhile (\<lambda>c. c \<noteq> CHR 0x00) s"

lemma read_line_loop_weight:
  "read_line_loop E n buf evs = Some (rc, s, es) \<Longrightarrow> length buf < n - 1 \<Longrightarrow> weight es < weight evs"
proof (induction E n buf evs rule: read_line_loop.induct)
  case (1 E n buf evs)
  note unf = read_line_loop.simps [of E n buf evs]
  obtain o' es1 where o: "os_read 1 evs = Some (o', es1)"
    using "1.prems" unf by (cases "os_read 1 evs") auto
  have less: "weight es1 < weight evs" using os_read_weight [OF o] by simp
  show ?case
  proof (cases o')
    case (Got cs)
    show ?thesis
    proof (cases "hd cs = LF")
      case True
      then show ?thesis using "1.prems" o Got less by (subst (asm) unf) auto
    next
      case False
      let ?b = "if hd cs \<noteq> CR then buf @ [hd cs] else buf"
      have r: "read_line_loop E n ?b es1 = Some (rc, s, es)"
        using "1.prems" o Got False by (subst (asm) unf) auto
      show ?thesis
      proof (cases "length ?b < n - 1")
        case True
        with "1.IH" [OF "1.prems"(2) o _ Got refl False] r less show ?thesis by auto
      next
        case False
        with r less show ?thesis by (subst (asm) read_line_loop.simps) auto
      qed
    qed
  qed (use "1.prems" o less unf in auto)
qed

function receive_http ::
  "env \<Rightarrow> in_event list \<Rightarrow> (int \<times> (char list \<times> nat) option \<times> in_event list) option" where
  "receive_http E evs = (case read_line E 8192 evs of
      None \<Rightarrow> None
    | Some (line_result, line_buf, es) \<Rightarrow>
       if line_result < 0 then Some (err E AIRY_ERR_TIMEOUT, None, es)
       else if strncmp_eq 6 (line_str line_buf) ''data: '' then
         (let data = drop 6 (line_str line_buf) in
          if \<not> mem E 0 then Some (err E AIRY_ERR_OUT_OF_MEMORY, None, es)
          else Some (0, Some (data, length data), es))
       else if strncmp_eq 7 (line_str line_buf) ''event: '' then receive_http E es
       else if length (line_str line_buf) = 0 then receive_http E es
       else Some (err E AIRY_EINVAL, None, es))"
  by pat_completeness auto
termination
  by (relation "measure (\<lambda>(E, evs). weight evs)") (auto simp: read_line_def dest: read_line_loop_weight)

declare receive_http.simps [simp del]

fun mcp_trans_receive ::
  "env \<Rightarrow> 'w mcp_transport option \<Rightarrow> bool \<Rightarrow> in_event list \<Rightarrow> 'w \<Rightarrow>
   (int \<times> (char list \<times> nat) option \<times> in_event list \<times> 'w) option" where
  "mcp_trans_receive E (Some t) True evs w =
    (if tp_state t \<noteq> MCP_TRANSPORT_CONNECTED then Some (err E AIRY_ERR_NOT_FOUND, None, evs, w)
     else if tp_type t = MCP_TRANSPORT_STDIO then receive_stdio E t evs w
     else if tp_http_socket t < 0 then Some (err E AIRY_ERR_NULL_POINTER, None, evs, w)
     else map_option (\<lambda>(rc, m, es). (rc, m, es, w)) (receive_http E evs))"
| "mcp_trans_receive E t outs evs w = Some (err E AIRY_ERR_TIMEOUT, None, evs, w)"

definition mcp_trans_state :: "'w mcp_transport option \<Rightarrow> mcp_transport_state" where
  "mcp_trans_state t = (case t of None \<Rightarrow> MCP_TRANSPORT_DISCONNECTED | Some t \<Rightarrow> tp_state t)"

definition mcp_trans_type :: "'w mcp_transport option \<Rightarrow> mcp_transport_type" where
  "mcp_trans_type t = (case t of None \<Rightarrow> MCP_TRANSPORT_STDIO | Some t \<Rightarrow> tp_type t)"

fun mcp_trans_state_str :: "mcp_transport_state \<Rightarrow> cstring" where
  "mcp_trans_state_str MCP_TRANSPORT_DISCONNECTED = ''disconnected''"
| "mcp_trans_state_str MCP_TRANSPORT_CONNECTING = ''connecting''"
| "mcp_trans_state_str MCP_TRANSPORT_CONNECTED = ''connected''"
| "mcp_trans_state_str MCP_TRANSPORT_ERROR = ''error''"

fun mcp_trans_type_str :: "mcp_transport_type \<Rightarrow> cstring" where
  "mcp_trans_type_str MCP_TRANSPORT_STDIO = ''stdio''"
| "mcp_trans_type_str MCP_TRANSPORT_HTTP_SSE = ''http+sse''"
| "mcp_trans_type_str MCP_TRANSPORT_STREAMABLE_HTTP = ''streamable-http''"

section \<open>What is sent is received\<close>

text \<open>An input that keeps coming: runs of bytes, cut anywhere.\<close>

definition steady :: "in_event list \<Rightarrow> bool" where
  "steady evs \<longleftrightarrow> (\<forall>e \<in> set evs. \<exists>bs. e = I_bytes bs \<and> bs \<noteq> [])"

fun input_bytes :: "in_event list \<Rightarrow> char list" where
  "input_bytes [] = []"
| "input_bytes (I_bytes bs # es) = bs @ input_bytes es"
| "input_bytes (e # es) = input_bytes es"

lemma steady_Cons: "steady (e # es) \<longleftrightarrow> (\<exists>bs. e = I_bytes bs \<and> bs \<noteq> []) \<and> steady es"
  by (auto simp: steady_def)

lemma os_read_steady:
  assumes "steady evs" "0 < k" "input_bytes evs \<noteq> []"
  obtains cs es where "os_read k evs = Some (Got cs, es)" "steady es" "cs \<noteq> []" "length cs \<le> k"
    "input_bytes evs = cs @ input_bytes es"
proof (cases evs)
  case Nil
  with assms show ?thesis by simp
next
  case (Cons e es)
  with assms obtain bs where bs: "e = I_bytes bs" "bs \<noteq> []" "steady es" by (auto simp: steady_Cons)
  show ?thesis
  proof (rule that)
    show "os_read k evs = Some (Got (take k bs), if length bs \<le> k then es else I_bytes (drop k bs) # es)"
      using Cons bs by simp
  qed (use Cons bs assms(2) in \<open>auto simp: steady_Cons\<close>)
qed

lemma read_line_steady:
  assumes "steady evs" "input_bytes evs = l @ LF # r" "LF \<notin> set l"
    "length buf + length (filter (\<lambda>c. c \<noteq> CR) l) < n - 1"
  shows "\<exists>es. read_line_loop E n buf evs = Some (int (length (buf @ filter (\<lambda>c. c \<noteq> CR) l)),
    buf @ filter (\<lambda>c. c \<noteq> CR) l, es) \<and> steady es \<and> input_bytes es = r"
  using assms
proof (induction l arbitrary: evs buf)
  case Nil
  then obtain cs es where o: "os_read 1 evs = Some (Got cs, es)" "steady es" "cs \<noteq> []" "length cs \<le> 1"
      "input_bytes evs = cs @ input_bytes es" using os_read_steady [of evs 1] by auto
  then obtain c where "cs = [c]" by (cases cs) auto
  with o Nil show ?case by (subst read_line_loop.simps) auto
next
  case (Cons x l)
  then obtain cs es where o: "os_read 1 evs = Some (Got cs, es)" "steady es" "cs \<noteq> []" "length cs \<le> 1"
      "input_bytes evs = cs @ input_bytes es"
    using os_read_steady [OF Cons.prems(1), of 1] by (metis append_Cons list.distinct(1) zero_less_one)
  then have cs: "cs = [x]" using Cons.prems(2) by (cases cs) auto
  have i: "input_bytes es = l @ LF # r" using Cons.prems(2) o(5) cs by simp
  let ?b = "if x \<noteq> CR then buf @ [x] else buf"
  have lt: "length buf < n - 1" using Cons.prems(4) by (auto split: if_splits)
  have "length ?b + length (filter (\<lambda>c. c \<noteq> CR) l) < n - 1" "LF \<notin> set l" using Cons.prems(3,4) by auto
  from Cons.IH [OF o(2) i this(2,1)] show ?case
    using Cons.prems(3) o(1) cs lt by (subst read_line_loop.simps) auto
qed

lemma read_body_steady:
  assumes "steady evs" "input_bytes evs = b @ r"
  shows "\<exists>es. read_body_loop E (length b) body evs = Some (0, body @ b, es) \<and> steady es \<and> input_bytes es = r"
  using assms
proof (induction "length b" arbitrary: b body evs rule: less_induct)
  case less
  show ?case
  proof (cases "b = []")
    case True
    with less.prems show ?thesis by (simp add: read_body_loop.simps)
  next
    case False
    then obtain cs es where o: "os_read (length b) evs = Some (Got cs, es)" "steady es" "cs \<noteq> []"
      "length cs \<le> length b" "input_bytes evs = cs @ input_bytes es"
      using os_read_steady [of evs "length b"] less.prems by auto
    then have cs: "cs = take (length cs) b" "input_bytes es = drop (length cs) b @ r"
      using less.prems(2) by (metis append_eq_append_conv_if append_eq_conv_conj)+
    let ?d = "drop (length cs) b"
    have "length ?d < length b" using o(3,4) by (cases cs) auto
    from less.hyps [OF this o(2) cs(2), of "body @ cs"] False o(1)
    show ?thesis using cs(1)
      by (subst read_body_loop.simps) (simp, metis append_take_drop_id)
  qed
qed

lemma write_all_sent:
  "codes_ok E \<Longrightarrow> write_all E evs xs = Some (rc, out, evs') \<Longrightarrow> \<not> rc < 0 \<Longrightarrow> rc = 0 \<and> out = xs"
proof (induction E evs xs arbitrary: out evs' rule: write_all.induct)
  case (3 E ev evs x xs)
  show ?case
  proof (cases ev)
    case (O_wrote n)
    with "3.prems" obtain out1 where n: "n \<noteq> 0" and
      w: "write_all E evs (drop n (x # xs)) = Some (rc, out1, evs')" "out = take n (x # xs) @ out1"
      by (auto split: if_splits)
    from "3.IH" [OF O_wrote n "3.prems"(1) w(1) "3.prems"(3)] w(2) show ?thesis
      by (simp only: append_take_drop_id)
  qed (use 3 in auto)
qed auto

lemma write_two_sent:
  assumes "codes_ok E" "write_two E evs a b = Some ((0, rc), out, evs')"
  shows "out = a @ b"
  using assms by (auto simp: write_two_def dest!: write_all_sent [OF assms(1)] split: option.splits if_splits)

lemma stdio_header_fits: "n < 10 ^ 11 \<Longrightarrow> printed_bytes 32 (stdio_header n) = Some (stdio_header n)"
proof -
  assume "n < 10 ^ 11"
  then have "length (show_nat n) \<le> 11" by (rule show_nat_length) simp
  then show ?thesis by (simp add: printed_bytes_def stdio_header_def)
qed

lemma send_stdio_bytes:
  assumes "codes_ok E" "tp_type t = MCP_TRANSPORT_STDIO" "length b < 10 ^ 11"
    "mcp_transport_send E (Some t) (Some b) (length b) oevs w = Some (0, t', out, oevs', w')"
  shows "out = stdio_header (length b) @ b"
  using assms(2,4) stdio_header_fits [OF assms(3)] write_two_sent [OF assms(1)] assms(1)
  by (auto simp: send_stdio_def split: if_splits option.splits prod.splits)

lemma strtol_space: "n < 2 ^ 63 \<Longrightarrow> atol_size (CHR '' '' # show_nat n) = n"
proof -
  assume n: "n < 2 ^ 63"
  have "split_sign (CHR '' '' # show_nat n) = (False, show_nat n)"
    using split_sign_show_nat [of n "[]"] by (simp add: split_sign_def isspace_def)
  moreover have tw: "takeWhile isdigit (show_nat n) = show_nat n" using takeWhile_show_nat [of "[]" n] by simp
  ultimately have "strtol (CHR '' '' # show_nat n) = int n" using n by (simp add: strtol_def tw)
  then show ?thesis using n by (simp add: atol_size_def)
qed

lemma show_nat_no_break: "LF \<notin> set (show_nat n)" "CR \<notin> set (show_nat n)"
  by (auto dest!: show_nat_digits simp: isdigit_def)

text \<open>The receiver takes one framed message off the bytes that arrive.\<close>

lemma receive_frame:
  fixes t2 :: "'v mcp_transport"
  assumes "mem F 0" "b \<noteq> []" "length b < 10 ^ 11"
    "tp_type t2 = MCP_TRANSPORT_STDIO" "tp_state t2 = MCP_TRANSPORT_CONNECTED" "length b \<le> tp_max_message_size t2"
    "steady evs" "input_bytes evs = (stdio_header (length b) @ b) @ rest"
  shows "\<exists>evs'. mcp_trans_receive F (Some t2) True evs v = Some (0, Some (b, length b), evs', v) \<and>
    steady evs' \<and> input_bytes evs' = rest"
proof -
  let ?h = "''Content-Length: '' @ show_nat (length b)"
  have dig: "length (show_nat (length b)) \<le> 11" using assms(3) by (rule show_nat_length) simp
  have nob: "LF \<notin> set ?h" "filter (\<lambda>c. c \<noteq> CR) ?h = ?h"
    using show_nat_no_break by (auto simp: filter_id_conv)
  have "input_bytes evs = (?h @ [CR]) @ LF # ([CR] @ LF # (b @ rest))"
    using assms(8) by (simp add: stdio_header_def)
  from read_line_steady [OF assms(7) this, of "[]" 256 F] obtain es1 where
    1: "read_line F 256 evs = Some (int (length ?h), ?h, es1)" "steady es1" "input_bytes es1 = [CR] @ LF # (b @ rest)"
    using nob dig by (auto simp: read_line_def)
  from read_line_steady [OF 1(2,3), of "[]" 4 F] obtain es2 where
    2: "read_line F 4 es1 = Some (0, [], es2)" "steady es2" "input_bytes es2 = b @ rest"
    by (auto simp: read_line_def)
  from read_body_steady [OF 2(2,3), of F "[]"] obtain es3 where
    3: "read_body_loop F (length b) [] es2 = Some (0, b, es3)" "steady es3" "input_bytes es3 = rest" by auto
  have len: "atol_size (drop 15 ?h) = length b" using strtol_space [of "length b"] assms(3) by simp
  have pre: "strncmp_eq 15 ?h ''Content-Length: ''" by (simp add: strncmp_eq_def)
  have "receive_stdio F t2 evs v = Some (0, Some (b, length b), es3, v)"
    unfolding receive_stdio_def 1(1) option.case prod.case
    using pre len 2(1) 3(1) assms(1,2,6) by (simp only: Let_def) auto
  then show ?thesis using assms(4,5) 3 by auto
qed

text \<open>
  C22: over a pipe the transport delivers what it was given. When sending a message
  reported success, the other end, given the bytes in any portions and followed by anything,
  receives exactly that message with its length, and the next receive starts right behind
  it. (Messages are not empty, not above the receiver's maximum and shorter than
  \<open>10 ^ 11\<close> bytes, what the 32 bytes for the header can say.)
\<close>

theorem transport_stdio_roundtrip:
  fixes t :: "'w mcp_transport" and t2 :: "'v mcp_transport"
  assumes "codes_ok E" "codes_ok F" "mem F 0" "tp_type t = MCP_TRANSPORT_STDIO" "b \<noteq> []" "length b < 10 ^ 11"
    "mcp_transport_send E (Some t) (Some b) (length b) oevs w = Some (0, t', out, oevs', w')"
    "tp_type t2 = MCP_TRANSPORT_STDIO" "tp_state t2 = MCP_TRANSPORT_CONNECTED" "length b \<le> tp_max_message_size t2"
    "steady evs" "input_bytes evs = out @ rest"
  shows "\<exists>evs'. mcp_trans_receive F (Some t2) True evs v = Some (0, Some (b, length b), evs', v) \<and>
    steady evs' \<and> input_bytes evs' = rest"
proof -
  have "out = stdio_header (length b) @ b" using send_stdio_bytes [OF assms(1,4,6,7)] .
  with assms(12) have "input_bytes evs = (stdio_header (length b) @ b) @ rest" by simp
  from receive_frame [OF assms(3,5,6,8-11) this] show ?thesis .
qed

definition pipe_end :: "unit mcp_transport" where
  "pipe_end = (base_transport mcp_transport_config_stdio_default)\<lparr>tp_state := MCP_TRANSPORT_CONNECTED, tp_running := 1\<rparr>"

lemma pipe_end_sel [simp]:
  "tp_type pipe_end = MCP_TRANSPORT_STDIO" "tp_state pipe_end = MCP_TRANSPORT_CONNECTED"
  "tp_max_message_size pipe_end = 10485760"
  by (simp_all add: pipe_end_def base_transport_def mcp_transport_config_stdio_default_def zero_transport_def
      zero_transport_config_def)

theorem transport_stdio_roundtrip_witness:
  "\<exists>out evs'. mcp_transport_send env0 (Some pipe_end) (Some ''{}'') 2 [O_wrote 21, O_wrote 2] () = Some (0, Some pipe_end, out, [], ()) \<and>
    mcp_trans_receive env0 (Some pipe_end) True [I_bytes out] () = Some (0, Some (''{}'', 2), evs', ())"
proof -
  let ?out = "stdio_header 2 @ ''{}''"
  have h: "stdio_header 2 = ''Content-Length: 2'' @ [CR, LF, CR, LF]"
    by (simp add: stdio_header_def show_nat.simps)
  have s: "mcp_transport_send env0 (Some pipe_end) (Some ''{}'') (length ''{}'') [O_wrote 21, O_wrote 2] () =
      Some (0, Some pipe_end, ?out, [], ())"
    by (simp add: send_stdio_def write_two_def printed_bytes_def h h [unfolded numeral_2_eq_2])
  have i: "steady [I_bytes ?out]" "input_bytes [I_bytes ?out] = ?out @ []" by (simp_all add: steady_def)
  from transport_stdio_roundtrip [OF env0_ok(1) env0_ok(1) env0_sel(2) pipe_end_sel(1) _ _ s pipe_end_sel(1,2) _ i, of "()"] s
  show ?thesis by (auto simp: numeral_2_eq_2 simp del: mcp_transport_send.simps mcp_trans_receive.simps)
qed

section \<open>The states of a transport\<close>

inductive tp_reachable :: "'w mcp_transport \<Rightarrow> bool" where
  t_create: "mcp_transport_create E cfg = Some t \<Longrightarrow> tp_reachable t"
| t_start: "tp_reachable t \<Longrightarrow> mcp_transport_start E nt (Some t) w = (rc, Some t', w') \<Longrightarrow> tp_reachable t'"
| t_stop: "tp_reachable t \<Longrightarrow> mcp_transport_stop E (Some t) w = (rc, Some t', fds, w') \<Longrightarrow> tp_reachable t'"
| t_send: "tp_reachable t \<Longrightarrow> mcp_transport_send E (Some t) msg len evs w = Some (rc, Some t', out, evs', w') \<Longrightarrow>
    tp_reachable t'"

definition tp_wf :: "'w mcp_transport \<Rightarrow> bool" where
  "tp_wf t \<longleftrightarrow> tp_state t \<noteq> MCP_TRANSPORT_CONNECTING \<and>
     (tp_state t = MCP_TRANSPORT_CONNECTED \<longrightarrow> tp_running t = 1 \<and> (tp_type t = MCP_TRANSPORT_STDIO \<or>
        tp_type t = MCP_TRANSPORT_HTTP_SSE \<and> tp_base_url t \<noteq> None \<and> 0 \<le> tp_http_socket t)) \<and>
     (tp_type t = MCP_TRANSPORT_STREAMABLE_HTTP \<longrightarrow> tp_base_url t = None)"

lemma set_state_fst: "set_state s t w = (t', w') \<Longrightarrow> t' = t\<lparr>tp_state := s\<rparr>"
  by (simp add: set_state_def)

lemma transport_create_wf: "mcp_transport_create E cfg = Some t \<Longrightarrow> tp_wf t \<and> tp_state t = MCP_TRANSPORT_DISCONNECTED"
proof (cases cfg)
  case (Some c)
  assume "mcp_transport_create E cfg = Some t"
  with Some show ?thesis
    by (cases "tc_type c") (auto simp: tp_wf_def base_transport_def zero_transport_def split: if_splits)
qed simp

lemma start_http_wf:
  assumes "start_http E nt t w = (rc, t', w')" "tp_type t \<noteq> MCP_TRANSPORT_STDIO"
    "tp_type t = MCP_TRANSPORT_STREAMABLE_HTTP \<longrightarrow> tp_base_url t = None"
  shows "tp_wf t'"
proof -
  have ty: "tp_type t = MCP_TRANSPORT_HTTP_SSE \<or> tp_type t = MCP_TRANSPORT_STREAMABLE_HTTP"
    using assms(2) by (cases "tp_type t") simp_all
  have e: "tp_wf (t\<lparr>tp_state := MCP_TRANSPORT_ERROR\<rparr>)" using assms(3) by (simp add: tp_wf_def)
  show ?thesis
  proof (cases "tp_base_url t")
    case None
    then show ?thesis using assms(1) e by (auto simp: start_http_def dest!: set_state_fst split: prod.splits)
  next
    case (Some url)
    have ok: "tp_wf (t\<lparr>tp_http_socket := s, tp_running := 1, tp_state := MCP_TRANSPORT_CONNECTED\<rparr>)" if "0 \<le> s" for s
      using that Some ty assms(3) by (auto simp: tp_wf_def)
    show ?thesis using assms(1) e ok Some
      by (auto simp: start_http_def not_less dest!: set_state_fst split: if_splits prod.splits option.splits)
  qed
qed

lemma start_wf:
  assumes "tp_wf t" "mcp_transport_start E nt (Some t) w = (rc, Some t', w')"
  shows "tp_wf t'"
proof (cases "tp_state t = MCP_TRANSPORT_CONNECTED")
  case True
  with assms show ?thesis by simp
next
  case False
  obtain t1 w1 where s: "set_state MCP_TRANSPORT_CONNECTING t w = (t1, w1)" by fastforce
  then have t1: "t1 = t\<lparr>tp_state := MCP_TRANSPORT_CONNECTING\<rparr>" by (rule set_state_fst)
  show ?thesis
  proof (cases "tp_type t = MCP_TRANSPORT_STDIO")
    case True
    then show ?thesis using assms(2) False s t1
      by (auto simp: tp_wf_def dest!: set_state_fst split: prod.splits)
  next
    case other: False
    then have "start_http E nt t1 w1 = (rc, t', w')" using assms(2) False s t1
      by (auto split: prod.splits)
    then show ?thesis using start_http_wf other t1 assms(1) by (fastforce simp: tp_wf_def)
  qed
qed

lemma stop_wf:
  assumes "tp_wf t" "mcp_transport_stop E (Some t) w = (rc, Some t', fds, w')"
  shows "tp_wf t'"
  using assms by (auto simp: tp_wf_def set_state_def split: if_splits)

lemma send_wf:
  assumes "tp_wf t" "mcp_transport_send E (Some t) msg len evs w = Some (rc, Some t', out, evs', w')"
  shows "tp_wf t'"
proof -
  have "t' = t \<or> t' = t\<lparr>tp_state := MCP_TRANSPORT_ERROR\<rparr>"
    using assms(2)
    by (cases msg) (auto simp: send_stdio_def send_http_def dest!: set_state_fst split: if_splits option.splits prod.splits)
  then show ?thesis using assms(1) by (auto simp: tp_wf_def)
qed

lemma reachable_tp_wf: "tp_reachable t \<Longrightarrow> tp_wf t"
  by (induction rule: tp_reachable.induct) (auto dest: transport_create_wf start_wf stop_wf send_wf)

text \<open>
  C23: the state of a transport tells the truth, whatever sequence of calls led to it and
  however the network answered: between calls it is never left connecting; a connected
  transport is running and, if it is not a pipe, has an open socket and a base address; and
  a message is only ever sent or received in the connected state. In particular a transport
  of the streamable type never connects, since no configuration gives it a base address.
\<close>

theorem transport_state_sound:
  fixes t :: "'w mcp_transport"
  assumes "tp_reachable t"
  shows "tp_state t \<noteq> MCP_TRANSPORT_CONNECTING \<and>
    (tp_state t = MCP_TRANSPORT_CONNECTED \<longrightarrow> tp_running t = 1 \<and>
       (tp_type t \<noteq> MCP_TRANSPORT_STDIO \<longrightarrow> 0 \<le> tp_http_socket t \<and> tp_base_url t \<noteq> None)) \<and>
    (tp_type t = MCP_TRANSPORT_STREAMABLE_HTTP \<longrightarrow> tp_state t \<noteq> MCP_TRANSPORT_CONNECTED) \<and>
    (tp_state t \<noteq> MCP_TRANSPORT_CONNECTED \<longrightarrow>
       (\<forall>E msg len evs w rc t' out evs' w'.
          mcp_transport_send E (Some t) msg len evs w = Some (rc, t', out, evs', w') \<longrightarrow>
          t' = Some t \<and> out = [] \<and> evs' = evs \<and> w' = w) \<and>
       (\<forall>E evs w. mcp_trans_receive E (Some t) True evs w = Some (err E AIRY_ERR_NOT_FOUND, None, evs, w)))"
proof -
  have wf: "tp_wf t" using assms by (rule reachable_tp_wf)
  have "t' = Some t \<and> out = [] \<and> evs' = evs \<and> w' = w"
    if "tp_state t \<noteq> MCP_TRANSPORT_CONNECTED"
      "mcp_transport_send E (Some t) msg len evs w = Some (rc, t', out, evs', w')" for E msg len evs w rc t' out evs' w'
    using that by (cases msg) (auto split: if_splits)
  then show ?thesis using wf by (auto simp: tp_wf_def)
qed

theorem transport_state_sound_witness:
  "\<exists>t :: unit mcp_transport. mcp_transport_create env0 (Some mcp_transport_config_stdio_default) = Some t \<and>
    tp_state t \<noteq> MCP_TRANSPORT_CONNECTING \<and>
    mcp_trans_receive env0 (Some t) True [] () = Some (- 6, None, [], ())"
proof -
  obtain t :: "unit mcp_transport" where t: "mcp_transport_create env0 (Some mcp_transport_config_stdio_default) = Some t"
    by simp
  have "tp_state t = MCP_TRANSPORT_DISCONNECTED" using transport_create_wf [OF t] by simp
  with transport_state_sound [OF t_create [OF t]] t show ?thesis
    by (auto simp del: mcp_trans_receive.simps mcp_transport_create.simps)
qed

lemma start_some: "\<exists>rc t' w'. mcp_transport_start E nt (Some t) w = (rc, Some t', w')"
  by (simp split: prod.split)

text \<open>
  Stopping a pipe transport closes descriptor 0, the standard input of the process,
  whatever descriptors it was configured with: the socket field is 0 and not -1 in a
  transport that has no socket.
\<close>

theorem stdio_stop_closes_stdin:
  fixes cfg :: "'w mcp_transport_config"
  assumes "mem E 0" "mem E 1" "tc_type cfg = MCP_TRANSPORT_STDIO"
    "mcp_transport_create E (Some cfg) = Some t0" "mcp_transport_start E nt (Some t0) w = (rc, Some t, w')"
  shows "rc = 0 \<and> tp_state t = MCP_TRANSPORT_CONNECTED \<and>
    (\<exists>t' w''. mcp_transport_stop E (Some t) w' = (0, Some t', [0], w''))"
proof -
  have t0: "tp_http_socket t0 = 0" "tp_type t0 = MCP_TRANSPORT_STDIO" "tp_state t0 = MCP_TRANSPORT_DISCONNECTED"
    using assms(1-4) by (auto simp: base_transport_def zero_transport_def)
  then show ?thesis using assms(5) by (auto simp: set_state_def)
qed

theorem stdio_stop_closes_stdin_witness:
  "\<exists>t t' :: unit mcp_transport. mcp_transport_stop env0 (Some t) () = (0, Some t', [0], ()) \<and>
    tp_state t = MCP_TRANSPORT_CONNECTED"
proof -
  let ?c = "mcp_transport_config_stdio_default\<lparr>tc_input_fd := 7\<rparr> :: unit mcp_transport_config"
  let ?nt = "\<lparr>nt_getaddrinfo = (\<lambda>_ _. None), nt_socket = 3, nt_connect = None\<rparr>"
  have ty: "tc_type ?c = MCP_TRANSPORT_STDIO"
    by (simp add: mcp_transport_config_stdio_default_def zero_transport_config_def)
  then obtain t0 where t0: "mcp_transport_create env0 (Some ?c) = Some t0" by simp
  obtain rc t w' where s: "mcp_transport_start env0 ?nt (Some t0) () = (rc, Some t, w')"
    using start_some by metis
  from stdio_stop_closes_stdin [OF env0_sel(2) env0_sel(2) ty t0 s] show ?thesis
    by (auto simp del: mcp_transport_stop.simps)
qed

section \<open>Server-sent events\<close>

text \<open>A line of the stream: no line feed in it, and short enough for the line buffer.\<close>

definition stream_line :: "cstring \<Rightarrow> bool" where
  "stream_line l \<longleftrightarrow> LF \<notin> set l \<and> CR \<notin> set l \<and> CHR 0x00 \<notin> set l \<and> length l < 8191"

lemma stream_line_str: "stream_line l \<Longrightarrow> line_str l = l"
  by (auto simp: stream_line_def line_str_def takeWhile_eq_all_conv)

lemma read_stream_line:
  assumes "steady evs" "input_bytes evs = l @ LF # r" "stream_line l"
  shows "\<exists>es. read_line E 8192 evs = Some (int (length l), l, es) \<and> steady es \<and> input_bytes es = r"
proof -
  have "filter (\<lambda>c. c \<noteq> CR) l = l" using assms(3) by (auto simp: stream_line_def filter_id_conv)
  with read_line_steady [OF assms(1,2), of "[]" 8192 E] assms(3) show ?thesis
    by (simp add: read_line_def stream_line_def)
qed

text \<open>The lines that a receive skips, and the bytes of a list of lines.\<close>

definition skipped :: "cstring \<Rightarrow> bool" where
  "skipped l \<longleftrightarrow> stream_line l \<and> (l = [] \<or> (\<exists>n. l = ''event: '' @ n))"

definition line_bytes :: "cstring list \<Rightarrow> char list" where
  "line_bytes ls = concat (map (\<lambda>l. l @ [LF]) ls)"

lemma receive_skips:
  assumes "steady evs" "input_bytes evs = line_bytes ls @ r" "\<forall>l \<in> set ls. skipped l"
  shows "\<exists>es. receive_http E evs = receive_http E es \<and> steady es \<and> input_bytes es = r"
  using assms
proof (induction ls arbitrary: evs)
  case Nil
  then show ?case by (auto simp: line_bytes_def)
next
  case (Cons l ls)
  then have l: "stream_line l" "l = [] \<or> (\<exists>n. l = ''event: '' @ n)" by (simp_all add: skipped_def)
  have "input_bytes evs = l @ LF # (line_bytes ls @ r)" using Cons.prems(2) by (simp add: line_bytes_def)
  from read_stream_line [OF Cons.prems(1) this l(1)] obtain es where
    es: "read_line E 8192 evs = Some (int (length l), l, es)" "steady es" "input_bytes es = line_bytes ls @ r" by blast
  have "receive_http E evs = receive_http E es"
    using es(1) l(2) stream_line_str [OF l(1)] by (subst receive_http.simps) (auto simp: strncmp_eq_def)
  with Cons.IH [OF es(2,3)] Cons.prems(3) show ?case by auto
qed

lemma receive_data_line:
  assumes "mem E 0" "steady evs" "input_bytes evs = (''data: '' @ d) @ LF # r" "stream_line (''data: '' @ d)"
  shows "\<exists>es. receive_http E evs = Some (0, Some (d, length d), es) \<and> steady es \<and> input_bytes es = r"
proof -
  from read_stream_line [OF assms(2-4)] obtain es where
    "read_line E 8192 evs = Some (int (length (''data: '' @ d)), ''data: '' @ d, es)" "steady es" "input_bytes es = r" by blast
  with assms(1) stream_line_str [OF assms(4)] show ?thesis by (subst receive_http.simps) (auto simp: strncmp_eq_def)
qed

text \<open>
  Receiving over an event stream always gets to the next data line: it skips any
  number of empty lines and event names, returns the data with its length, and stops right
  behind that line, however the bytes arrive.
\<close>

theorem sse_receive_next_data:
  fixes t :: "'w mcp_transport"
  assumes "mem E 0" "tp_state t = MCP_TRANSPORT_CONNECTED" "tp_type t \<noteq> MCP_TRANSPORT_STDIO" "0 \<le> tp_http_socket t"
    "\<forall>l \<in> set ls. skipped l" "stream_line (''data: '' @ d)"
    "steady evs" "input_bytes evs = line_bytes (ls @ [''data: '' @ d]) @ r"
  shows "\<exists>evs'. mcp_trans_receive E (Some t) True evs w = Some (0, Some (d, length d), evs', w) \<and>
    steady evs' \<and> input_bytes evs' = r"
proof -
  have "input_bytes evs = line_bytes ls @ ((''data: '' @ d) @ LF # r)" using assms(8) by (simp add: line_bytes_def)
  from receive_skips [OF assms(7) this assms(5), of E] obtain es where
    es: "receive_http E evs = receive_http E es" "steady es" "input_bytes es = (''data: '' @ d) @ LF # r" by blast
  from receive_data_line [OF assms(1) es(2,3) assms(6)] es(1) assms(2-4) show ?thesis by auto
qed

definition web_end :: "unit mcp_transport" where
  "web_end = pipe_end\<lparr>tp_type := MCP_TRANSPORT_HTTP_SSE, tp_http_socket := 5\<rparr>"

lemma web_end_sel [simp]:
  "tp_type web_end = MCP_TRANSPORT_HTTP_SSE" "tp_state web_end = MCP_TRANSPORT_CONNECTED" "tp_http_socket web_end = 5"
  by (simp_all add: web_end_def)

theorem sse_receive_next_data_witness:
  "\<exists>evs'. mcp_trans_receive env0 (Some web_end) True
      [I_bytes (LF # ''event: m'' @ [LF] @ ''da''), I_bytes (''ta: {}'' @ [LF])] () = Some (0, Some (''{}'', 2), evs', ())"
  using sse_receive_next_data [OF env0_sel(2) web_end_sel(2), of "[[], ''event: m'']" "''{}''"
      "[I_bytes (LF # ''event: m'' @ [LF] @ ''da''), I_bytes (''ta: {}'' @ [LF])]" "[]" "()"]
  by (auto simp: skipped_def stream_line_def steady_def line_bytes_def numeral_2_eq_2 simp del: mcp_trans_receive.simps)

text \<open>
  The adapter's own event stream cannot be read by its own transport. An event is
  written as three lines of which the last one, meant to be the empty line that ends it, is
  a colon and a space. The first receive returns the data of the event, and the next one
  meets that line and fails.
\<close>

theorem sse_separator_refused:
  fixes t :: "'w mcp_transport"
  assumes "mem E 0" "tp_state t = MCP_TRANSPORT_CONNECTED" "tp_type t \<noteq> MCP_TRANSPORT_STDIO" "0 \<le> tp_http_socket t"
    "stream_line (''event: '' @ ev)" "stream_line (''data: '' @ d)" "steady evs"
    "input_bytes evs = concat (map (\<lambda>e. the (ev_event_data e)) (sse_events ev d)) @ r"
  shows "\<exists>evs1 evs2. mcp_trans_receive E (Some t) True evs w = Some (0, Some (d, length d), evs1, w) \<and>
    mcp_trans_receive E (Some t) True evs1 w = Some (err E AIRY_EINVAL, None, evs2, w) \<and> input_bytes evs2 = r"
proof -
  have "input_bytes evs = line_bytes [''event: '' @ ev] @ ((''data: '' @ d) @ LF # ('': '' @ LF # r))"
    using assms(8) by (simp add: sse_events_def data_event_def line_bytes_def)
  from receive_skips [OF assms(7) this, of E] assms(5) obtain es where
    es: "receive_http E evs = receive_http E es" "steady es" "input_bytes es = (''data: '' @ d) @ LF # ('': '' @ LF # r)"
    by (auto simp: skipped_def)
  from receive_data_line [OF assms(1) es(2,3) assms(6)] obtain es1 where
    es1: "receive_http E es = Some (0, Some (d, length d), es1)" "steady es1" "input_bytes es1 = '': '' @ LF # r" by blast
  from read_stream_line [OF es1(2,3), of E] obtain es2 where
    es2: "read_line E 8192 es1 = Some (2, '': '', es2)" "input_bytes es2 = r" by (auto simp: stream_line_def)
  have "receive_http E es1 = Some (err E AIRY_EINVAL, None, es2)"
    using es2 by (subst receive_http.simps) (simp add: strncmp_eq_def line_str_def)
  with es1 es2 es(1) assms(2-4) show ?thesis by auto
qed

theorem sse_separator_refused_witness:
  "\<exists>evs1 evs2. mcp_trans_receive env0 (Some web_end) True
      [I_bytes (concat (map (\<lambda>e. the (ev_event_data e)) (sse_events ''m'' ''{}'')))] () = Some (0, Some (''{}'', 2), evs1, ()) \<and>
    mcp_trans_receive env0 (Some web_end) True evs1 () = Some (- 14, None, evs2, ())"
proof -
  let ?evs = "[I_bytes (concat (map (\<lambda>e. the (ev_event_data e)) (sse_events ''m'' ''{}'')))]"
  have "steady ?evs" by (simp add: steady_def sse_events_def data_event_def)
  from sse_separator_refused [OF env0_sel(2) web_end_sel(2), of "''m''" "''{}''" ?evs "[]" "()", OF _ _ _ _ this]
  show ?thesis by (auto simp: stream_line_def numeral_2_eq_2 simp del: mcp_trans_receive.simps)
qed

end
