(* ===== verification/Mcp_Callbacks.thy ===== *)
theory Mcp_Callbacks
  imports Mcp_Transport
begin

text \<open>
  The MCP adapter behind the function table of the protocol layer
  (\<open>mcp_v1_adapter_cb.c\<close>): initialisation, the translation between unified messages and
  requests, and the connection callbacks, which hand over to the transport.
\<close>

section \<open>Context callbacks\<close>

text \<open>
  Initialisation builds a default context and copies it over the one it was given;
  destruction releases the tables and sets every byte to zero, but keeps the object.
\<close>

fun mcp_adapter_init :: "env \<Rightarrow> 'w mcp_context option \<Rightarrow> int \<times> 'w mcp_context option" where
  "mcp_adapter_init E None = (err E AIRY_ERR_UNKNOWN, None)"
| "mcp_adapter_init E (Some ctx) = (case mcp_v1_context_create E (Some mcp_v1_config_default) of
      None \<Rightarrow> (err E AIRY_ERR_INVALID_PARAM, Some ctx)
    | Some new_ctx \<Rightarrow> (0, Some new_ctx))"

fun mcp_adapter_destroy :: "'w mcp_context option \<Rightarrow> int \<times> 'w mcp_context option" where
  "mcp_adapter_destroy None = (0, None)"
| "mcp_adapter_destroy (Some ctx) = (0, map_option (\<lambda>_. zero_context) (mcp_v1_context_clear (Some ctx)))"

section \<open>Requests\<close>

text \<open>
  \<open>encode\<close> routes the message by its endpoint. The out parameters are \<open>None\<close> when a pointer
  is NULL, and hold the encoded text and its length otherwise.
\<close>

fun mcp_adapter_encode ::
  "env \<Rightarrow> (cstring \<Rightarrow> cstring \<Rightarrow> cstring option) \<Rightarrow> 'w mcp_context option \<Rightarrow> unified_message option \<Rightarrow>
   (cstring option \<times> nat) option \<Rightarrow> 'w \<Rightarrow>
   (int \<times> (cstring option \<times> nat) option \<times> 'w mcp_context option \<times> 'w) option" where
  "mcp_adapter_encode E get_str (Some ctx) (Some umsg) (Some out) w =
    (case mcp_v1_route_request E get_str (Some ctx) (Some (um_endpoint umsg)) (um_payload umsg) (Some None) w of
       None \<Rightarrow> None
     | Some (result, response_json, ctx', w') \<Rightarrow>
        (case response_json of
           Some (Some text) \<Rightarrow> if result \<noteq> 0 then Some (result, Some (None, 0), ctx', w')
             else Some (0, Some (Some text, length text), ctx', w')
         | _ \<Rightarrow> Some (result, Some (None, 0), ctx', w')))"
| "mcp_adapter_encode E get_str ctx umsg out w = Some (err E AIRY_ERR_UNKNOWN, out, ctx, w)"

text \<open>The method of a request text: the string after the first \<open>"method"\<close>, if there is one.\<close>

definition decode_method :: "env \<Rightarrow> cstring \<Rightarrow> cstring" where
  "decode_method E input_copy =
    (case strstr input_copy ''\"method\"'' of
       None \<Rightarrow> ''tools/call''
     | Some s1 \<Rightarrow>
        (case strchr (CHR 0x22) (drop 8 s1) of
           None \<Rightarrow> ''tools/call''
         | Some s2 \<Rightarrow>
            (let method_start = drop 1 s2 in
             case strchr (CHR 0x22) method_start of
               None \<Rightarrow> ''tools/call''
             | Some method_end \<Rightarrow>
                if mem E 1 then take (length method_start - length method_end) method_start
                else ''tools/call'')))"

fun mcp_adapter_decode ::
  "env \<Rightarrow> (cstring \<Rightarrow> cstring \<Rightarrow> cstring option) \<Rightarrow> 'w mcp_context option \<Rightarrow> char list option \<Rightarrow> nat \<Rightarrow>
   unified_message option \<Rightarrow> 'w \<Rightarrow> (int \<times> unified_message option \<times> 'w mcp_context option \<times> 'w) option" where
  "mcp_adapter_decode E get_str (Some ctx) (Some data) data_size (Some msg) w =
    (if data_size = 0 then Some (err E AIRY_ERR_INVALID_PARAM, Some msg, Some ctx, w)
     else if \<not> mem E 0 then Some (err E AIRY_ERR_NULL_POINTER, Some msg, Some ctx, w)
     else if length data < data_size then None
     else
       (let input_copy = takeWhile (\<lambda>c. c \<noteq> NUL) (take data_size data) in
        case mcp_v1_route_request (later 2 E) get_str (Some ctx) (Some (decode_method E input_copy)) (Some input_copy)
            (Some None) w of
          None \<Rightarrow> None
        | Some (result, response_json, ctx', w') \<Rightarrow>
           (case response_json of
              Some (Some text) \<Rightarrow>
                if result = 0
                then Some (0, Some (msg\<lparr>um_payload := Some text, um_payload_size := length text,
                       um_protocol := AIRY_PROTOCOL_MCP, um_direction := DIRECTION_RESPONSE,
                       um_timestamp := time_s E 0\<rparr>), ctx', w')
                else Some (result, Some msg, ctx', w')
            | _ \<Rightarrow> Some (result, Some msg, ctx', w'))))"
| "mcp_adapter_decode E get_str ctx data data_size msg w = Some (err E AIRY_ERR_UNKNOWN, msg, ctx, w)"

definition request_failed_text :: cstring where
  "request_failed_text = ''{\"error\":\"request failed\"}''"

fun mcp_adapter_handle_request ::
  "env \<Rightarrow> (cstring \<Rightarrow> cstring \<Rightarrow> cstring option) \<Rightarrow> 'w mcp_context option \<Rightarrow> unified_message option \<Rightarrow> response \<Rightarrow> 'w \<Rightarrow>
   (int \<times> response \<times> 'w mcp_context option \<times> 'w) option" where
  "mcp_adapter_handle_request E get_str (Some ctx) (Some msg) (Some resp) w =
    (let meth = (if um_method msg \<noteq> [] then um_method msg else ''tools/call'');
         params = (case um_payload msg of None \<Rightarrow> ''{}'' | Some p \<Rightarrow> p) in
     case mcp_v1_route_request (later 1 E) get_str (Some ctx) (Some meth) (Some params) (Some None) w of
       None \<Rightarrow> None
     | Some (result, response_json, ctx', w') \<Rightarrow>
        (case response_json of
           Some (Some text) \<Rightarrow>
             if result = 0 then Some (0, Some (Some text), ctx', w')
             else Some (- 1, Some (strdup E 0 request_failed_text), ctx', w')
         | _ \<Rightarrow> Some (- 1, Some (strdup E 0 request_failed_text), ctx', w')))"
| "mcp_adapter_handle_request E get_str ctx msg resp w = Some (err E AIRY_ERR_UNKNOWN, resp, ctx, w)"

definition mcp_adapter_get_stats :: "env \<Rightarrow> bool \<Rightarrow> nat \<Rightarrow> int \<times> cstring option" where
  "mcp_adapter_get_stats E stats_json max_size =
    (if \<not> stats_json \<or> max_size < 64 then (err E AIRY_ERR_UNKNOWN, None)
     else (let text = ''{\"adapter_version\":\"'' @ MCP_V1_VERSION @ ''\",\"protocol\":\"mcp\"}'' in
           (if length text < max_size then 0 else - 2, Some (snprintf max_size text))))"

definition mcp_adapter_get_version :: "env \<Rightarrow> bool \<Rightarrow> nat \<Rightarrow> int \<times> cstring option" where
  "mcp_adapter_get_version E buf max_size =
    (if \<not> buf \<or> max_size = 0 then (err E AIRY_ERR_UNKNOWN, None)
     else (let len = (if max_size \<le> length MCP_V1_VERSION then max_size - 1 else length MCP_V1_VERSION) in
           (0, Some (take len MCP_V1_VERSION))))"

definition mcp_adapter_capabilities :: u32 where
  "mcp_adapter_capabilities =
    MCP_CAP_TOOLS OR MCP_CAP_RESOURCES OR MCP_CAP_PROMPTS OR MCP_CAP_LOGGING OR MCP_CAP_SAMPLING"

section \<open>Connection\<close>

text \<open>
  What the connection callbacks work on: the transports in memory, the answers of the
  operating system, the bytes it accepted so far, and the world of the callbacks.
\<close>

record 'w mcp_io =
  io_transports :: "ptr \<Rightarrow> 'w mcp_transport option"
  io_net :: net
  io_in :: "in_event list"
  io_out :: "out_event list"
  io_wire :: "char list"
  io_world :: 'w

fun mcp_adapter_connect ::
  "env \<Rightarrow> 'w mcp_context option \<Rightarrow> cstring option \<Rightarrow> 'w mcp_io \<Rightarrow> int \<times> 'w mcp_context option \<times> 'w mcp_io" where
  "mcp_adapter_connect E None address io = (err E AIRY_ERR_UNKNOWN, None, io)"
| "mcp_adapter_connect E (Some ctx0) address io =
    (let ctx = (case address of None \<Rightarrow> ctx0
           | Some a \<Rightarrow> ctx0\<lparr>mc_config := (mc_config ctx0)\<lparr>cf_server_name := strdup E 0 a\<rparr>\<rparr>) in
     case mc_transport ctx of
       None \<Rightarrow> (0, Some ctx, io)
     | Some p \<Rightarrow>
        (case mcp_transport_start (later 1 E) (io_net io) (io_transports io p) (io_world io) of
           (rc, t, w) \<Rightarrow> (rc, Some ctx, io\<lparr>io_transports := (io_transports io)(p := t), io_world := w\<rparr>)))"

fun mcp_adapter_disconnect :: "env \<Rightarrow> 'w mcp_context option \<Rightarrow> int \<times> 'w mcp_context option" where
  "mcp_adapter_disconnect E None = (err E AIRY_ERR_UNKNOWN, None)"
| "mcp_adapter_disconnect E (Some ctx) = (0, Some (ctx\<lparr>mc_config := (mc_config ctx)\<lparr>cf_server_name := None\<rparr>\<rparr>))"

fun mcp_adapter_is_connected :: "'w mcp_context option \<Rightarrow> 'w mcp_io \<Rightarrow> int" where
  "mcp_adapter_is_connected None io = 0"
| "mcp_adapter_is_connected (Some ctx) io = (case mc_transport ctx of
      Some p \<Rightarrow> if mcp_trans_state (io_transports io p) = MCP_TRANSPORT_CONNECTED then 1 else 0
    | None \<Rightarrow> if 0 < length (mc_tools ctx) \<or> 0 < length (mc_resources ctx) then 1 else 0)"

fun mcp_adapter_send ::
  "env \<Rightarrow> 'w mcp_context option \<Rightarrow> char list option \<Rightarrow> nat \<Rightarrow> 'w mcp_io \<Rightarrow> (int \<times> 'w mcp_io) option" where
  "mcp_adapter_send E (Some ctx) (Some data) sz io = (case mc_transport ctx of
      None \<Rightarrow> Some (err E AIRY_ERR_INVALID_PARAM, io)
    | Some p \<Rightarrow>
       (case mcp_transport_send E (io_transports io p) (Some data) sz (io_out io) (io_world io) of
          None \<Rightarrow> None
        | Some (rc, t, out, evs, w) \<Rightarrow> Some (rc, io\<lparr>io_transports := (io_transports io)(p := t),
            io_out := evs, io_wire := io_wire io @ out, io_world := w\<rparr>)))"
| "mcp_adapter_send E ctx data sz io = Some (err E AIRY_ERR_UNKNOWN, io)"

fun mcp_adapter_receive ::
  "env \<Rightarrow> 'w mcp_context option \<Rightarrow> (char list option \<times> nat) option \<Rightarrow> 'w mcp_io \<Rightarrow>
   (int \<times> (char list option \<times> nat) option \<times> 'w mcp_io) option" where
  "mcp_adapter_receive E (Some ctx) (Some out) io = (case mc_transport ctx of
      None \<Rightarrow> Some (err E AIRY_ERR_INVALID_PARAM, Some out, io)
    | Some p \<Rightarrow>
       (case mcp_trans_receive E (io_transports io p) True (io_in io) (io_world io) of
          None \<Rightarrow> None
        | Some (ret, msg, evs, w) \<Rightarrow>
           (let io' = io\<lparr>io_in := evs, io_world := w\<rparr> in
            case msg of
              Some (m, n) \<Rightarrow> if ret = 0 then Some (0, Some (Some m, n), io') else Some (ret, Some out, io')
            | None \<Rightarrow> Some (ret, Some out, io'))))"
| "mcp_adapter_receive E ctx out io = Some (err E AIRY_ERR_UNKNOWN, out, io)"

definition mcp_adapter_receive_adapter ::
  "env \<Rightarrow> 'w mcp_context option \<Rightarrow> (char list option \<times> nat) option \<Rightarrow> u32 \<Rightarrow> 'w mcp_io \<Rightarrow>
   (int \<times> (char list option \<times> nat) option \<times> 'w mcp_io) option" where
  "mcp_adapter_receive_adapter E ctx out timeout_ms io = mcp_adapter_receive E ctx out io"

section \<open>A request reaches its tool\<close>

lemma extract_param:
  assumes "strncpy_ok E" "J p key = Some v" "length v < n" "0 < n"
  shows "mcp_v1_extract_string_param E J (Some p) key [] n = v"
  using assms by (simp add: mcp_v1_extract_string_param_def)

lemma route_tools_call:
  assumes "strncpy_ok E" "J p ''name'' = Some name" "name \<noteq> []" "length name < 256"
  shows "mcp_v1_route_request E J (Some ctx) (Some ''tools/call'') (Some p) (Some r) w =
    map_option (\<lambda>(rc, out, w'). (rc, out, Some (ctx\<lparr>mc_request_counter := mc_request_counter ctx + 1\<rparr>), w'))
      (mcp_v1_handle_tools_call E (Some (ctx\<lparr>mc_request_counter := mc_request_counter ctx + 1\<rparr>)) (Some name) (Some p)
        (Some r) w)"
  using extract_param [of E J p "''name''" name 256] assms
  by (simp add: or_unknown_def del: mcp_v1_handle_tools_call.simps)

text \<open>
  C11: a request for a tool reaches it and its answer comes back. For a message whose
  method is \<open>tools/call\<close>, or empty, and whose payload names a registered tool with a handler, the
  adapter, given memory, runs that handler once, on the payload, and counts the request. The
  response is the answer's text when it is shorter than 4096 bytes plus 1024 for each content; one
  of at most two bytes more is cut, and a longer one is written outside its buffer. A complete
  response is read by a strict JSON reader as the contents the handler produced, if their texts
  have no control characters other than those with a two-character escape.
\<close>

theorem mcp_request_reaches_tool:
  fixes ctx :: "'w mcp_context"
  assumes "mem_ok E" "strncpy_ok E" "um_method msg = [] \<or> um_method msg = ''tools/call''" "um_payload msg = Some p"
    "J p ''name'' = Some name" "name \<noteq> []" "length name < 256"
    "find_named tool_key name (mc_tools ctx) = Some (Some e)" "te_handler e = Some h"
    "h name (Some p) (te_user_data e) w = ((Some cs, length cs, is_error), w')" "length cs \<le> result_limit"
  shows "mcp_adapter_handle_request E J (Some ctx) (Some msg) (Some r) w =
      map_option (\<lambda>t. (0, Some (Some t), Some (ctx\<lparr>mc_request_counter := mc_request_counter ctx + 1\<rparr>), w'))
        (in_buffer (4096 + 1024 * length cs) (answer_text is_error cs)) \<and>
    ((\<forall>c \<in> set cs. plain_opt (ct_text c)) \<longrightarrow>
      read_list read_content_row (result_head is_error) (answer_text is_error cs) = Some (map (\<lambda>c. (ct_type c, ct_text c)) cs))"
proof -
  let ?E = "later 1 E" and ?c = "ctx\<lparr>mc_request_counter := mc_request_counter ctx + 1\<rparr>"
  let ?t = "in_buffer (4096 + 1024 * length cs) (answer_text is_error cs)"
  have E: "mem_ok ?E" "strncpy_ok ?E" using assms(1,2) by simp_all
  have "find_named tool_key name (mc_tools ?c) = Some (Some e)" using assms(8) by simp
  note call = tool_answer_exact [OF E(1) this assms(9-11)]
  have "mcp_v1_route_request ?E J (Some ctx) (Some ''tools/call'') (Some p) (Some None) w =
      map_option (\<lambda>t. (0, Some (Some t), Some ?c, w')) ?t"
    using route_tools_call [of ?E J p name ctx None w] E(2) assms(5-7) call
    by (simp add: option.map_comp o_def del: mcp_v1_route_request.simps mcp_v1_handle_tools_call.simps)
  then have "mcp_adapter_handle_request E J (Some ctx) (Some msg) (Some r) w = map_option (\<lambda>t. (0, Some (Some t), Some ?c, w')) ?t"
    using assms(3,4) by (cases ?t) (auto simp del: mcp_v1_route_request.simps)
  then show ?thesis using answer_read [of cs is_error] by simp
qed

text \<open>A reader of one flat member, enough to instantiate the JSON library in examples.\<close>

definition flat_get :: "cstring \<Rightarrow> cstring \<Rightarrow> cstring option" where
  "flat_get p key = (case read_member (''{\"'' @ key @ ''\":'') p of Some (Some v, r) \<Rightarrow> Some v | _ \<Rightarrow> None)"

theorem mcp_request_reaches_tool_witness:
  "\<exists>t c. mcp_adapter_handle_request env0 flat_get (Some echo_context)
      (Some (zero_message\<lparr>um_payload := Some ''{\"name\":\"echo\"}''\<rparr>)) (Some None) () = Some (0, Some (Some t), Some c, ()) \<and>
    read_list read_content_row (result_head False) t = Some [(MCP_CONTENT_TEXT, Some ''{\"name\":\"echo\"}'')]"
proof -
  let ?p = "''{\"name\":\"echo\"}''"
  let ?e = "tool_entry ''echo'' echo_tool :: unit mcp_tool_entry"
  let ?c = "\<lparr>ct_type = MCP_CONTENT_TEXT, ct_text = Some ?p, ct_mime_type = None, ct_uri = None, ct_data = None,
    ct_data_size = 0\<rparr>"
  obtain h where h: "te_handler ?e = Some h" "h ''echo'' (Some ?p) (te_user_data ?e) () = ((Some [?c], length [?c], False), ())"
    by (simp add: tool_entry_def echo_tool_def)
  have f: "find_named tool_key ''echo'' (mc_tools echo_context) = Some (Some ?e)"
    by (simp add: tool_entry_def echo_tool_def)
  have j: "flat_get ?p ''name'' = Some ''echo''"
    by (simp add: flat_get_def read_member_def read_lit_def read_opt_def read_string_def read_body.simps(2) control_char_def)
  have l: "length (answer_text False [?c]) < 4096 + 1024 * length [?c]"
    by (simp add: answer_text_def result_head_def escape_text_def escape_char.simps)
  have c: "\<forall>c \<in> set [?c]. plain_opt (ct_text c)" by (simp add: plain_opt_def raw_control_def control_char_def)
  have m: "um_method (zero_message\<lparr>um_payload := Some ?p\<rparr>) = [] \<or> um_method (zero_message\<lparr>um_payload := Some ?p\<rparr>) = ''tools/call''"
    "um_payload (zero_message\<lparr>um_payload := Some ?p\<rparr>) = Some ?p" by (simp_all add: zero_message_def)
  have n: "''echo'' \<noteq> []" "length ''echo'' < 256" "length [?c] \<le> result_limit" by simp_all
  from mcp_request_reaches_tool [where J = flat_get and r = None, OF env0_ok(3,2) m j n(1,2) f h n(3)] c l show ?thesis
    by (simp add: in_buffer_def del: mcp_adapter_handle_request.simps)
qed

text \<open>
  The request that sets the log level takes effect and is reported as failed: the
  router returns success without a response, which the adapter turns into an error.
\<close>

theorem set_log_level_reported_failed:
  fixes ctx :: "'w mcp_context"
  assumes "mem E 0" "um_method msg = ''logging/setLogLevel''" "um_payload msg = Some p" "J p ''level'' = Some v"
    "(v, l) \<in> set log_levels"
  shows "\<exists>ctx'. mcp_adapter_handle_request E J (Some ctx) (Some msg) (Some r) w =
      Some (- 1, Some (Some request_failed_text), Some ctx', w) \<and> mc_log_level ctx' = l \<and>
    mc_request_counter ctx' = mc_request_counter ctx + 1"
proof -
  have "distinct (map fst log_levels)" by (simp add: log_levels_def)
  then have "map_of log_levels v = Some l" using assms(5) by simp
  then have "mcp_v1_parse_log_level J (Some p) = l" using assms(4) by (simp add: mcp_v1_parse_log_level_def)
  then show ?thesis using assms(1-3) by (simp add: strdup_def)
qed

theorem set_log_level_reported_failed_witness:
  "\<exists>ctx'. mcp_adapter_handle_request env0 flat_get (Some fresh_mcp)
      (Some (zero_message\<lparr>um_method := ''logging/setLogLevel'', um_payload := Some ''{\"level\":\"error\"}''\<rparr>)) (Some None) () =
      Some (- 1, Some (Some request_failed_text), Some ctx', ()) \<and> mc_log_level ctx' = MCP_LOG_ERROR"
proof -
  let ?m = "zero_message\<lparr>um_method := ''logging/setLogLevel'', um_payload := Some ''{\"level\":\"error\"}''\<rparr>"
  have "flat_get ''{\"level\":\"error\"}'' ''level'' = Some ''error''"
    by (simp add: flat_get_def read_member_def read_lit_def read_opt_def read_string_def read_body.simps(2) control_char_def)
  moreover have "um_method ?m = ''logging/setLogLevel''" "um_payload ?m = Some ''{\"level\":\"error\"}''" by simp_all
  moreover have "(''error'', MCP_LOG_ERROR) \<in> set log_levels" by (simp add: log_levels_def)
  ultimately show ?thesis
    using set_log_level_reported_failed [where J = flat_get and ctx = fresh_mcp and msg = ?m and E = env0 and r = None and w = "()"]
    by (simp del: mcp_adapter_handle_request.simps) blast
qed

end
