(* ===== verification/Mcp_Client_Http.thy ===== *)
theory Mcp_Client_Http
  imports Mcp_Frame
begin

text \<open>
  The HTTP side of the MCP client (\<open>mcp_client_http.c\<close>): the endpoint, one connection per
  request, the request text and the response, which the frame parser of \<open>Mcp_Frame\<close> reads.

  The operating system is data: what each address of the host answers, and on a connection
  the events of \<open>Mcp_Frame\<close>. A result \<open>None\<close> means that the call is still waiting for an
  event, or that the request text was read past its buffer.
\<close>

abbreviation (input) MCP_CLIENT_ERR_CONNECT :: int where "MCP_CLIENT_ERR_CONNECT \<equiv> - 2003"
abbreviation (input) MCP_CLIENT_PROTOCOL_VERSION :: string where "MCP_CLIENT_PROTOCOL_VERSION \<equiv> ''2024-11-05''"

section \<open>The endpoint\<close>

text \<open>The code, the host, the port and the path.\<close>

definition endpoint_host :: "cstring \<Rightarrow> cstring" where
  "endpoint_host p = (case strchr (CHR ''/'') p of None \<Rightarrow> p | Some slash \<Rightarrow> take (length p - length slash) p)"

definition parse_http_url :: "env \<Rightarrow> cstring \<Rightarrow> int \<times> cstring option \<times> u16 \<times> cstring option" where
  "parse_http_url E url =
    (if \<not> strncmp_eq 7 url ''http://'' then (-1, None, 80, None)
     else
       (let p = drop 7 url; slash = strchr (CHR ''/'') p; hostport = endpoint_host p;
            colon = length (takeWhile (\<lambda>c. c \<noteq> CHR '':'') hostport);
            finish = (\<lambda>host port. case host of None \<Rightarrow> (-1, None, 80, None)
              | Some h \<Rightarrow> (case strdup E 1 (case slash of None \<Rightarrow> ''/mcp'' | Some t \<Rightarrow> t) of
                   None \<Rightarrow> (-1, None, 80, None)
                 | Some path \<Rightarrow> (0, Some h, port, Some path))) in
        if hostport = [] then (-1, None, 80, None)
        else if colon < length hostport
          then (let plen = length hostport - colon - 1;
                    pv = unat (strtoull (drop (colon + 1) hostport)) in
                if plen = 0 \<or> 8 \<le> plen then (-1, None, 80, None)
                else if pv = 0 \<or> 65535 < pv then (-1, None, 80, None)
                else finish (strdup E 0 (take colon hostport)) (of_nat pv))
        else finish (strdup E 0 hostport) 80))"

section \<open>The connection\<close>

text \<open>What the addresses of a host answer; the result of a dial that fails in \<open>getaddrinfo\<close> is \<open>None\<close>.\<close>

datatype address = No_socket | Refused | Accepted "write_event list" "read_event list"

type_synonym dial = "address list option"

fun first_accepted :: "address list \<Rightarrow> (write_event list \<times> read_event list) option" where
  "first_accepted [] = None"
| "first_accepted (a # as) = (case a of Accepted ws rs \<Rightarrow> Some (ws, rs) | _ \<Rightarrow> first_accepted as)"

definition http_connect_fd :: "dial \<Rightarrow> (write_event list \<times> read_event list) option" where
  "http_connect_fd d = (case d of None \<Rightarrow> None | Some addrs \<Rightarrow> first_accepted addrs)"

section \<open>The response\<close>

text \<open>The status is only logged.\<close>

definition parse_http_status :: "cstring \<Rightarrow> int" where
  "parse_http_status hdr =
    (if \<not> strncmp_eq 5 hdr ''HTTP/'' then 0
     else
       (let p = dropWhile (\<lambda>c. c = CHR '' '') (dropWhile (\<lambda>c. c \<noteq> CHR '' '') (drop 5 hdr));
            num = take 7 (takeWhile isdigit p)
        in if num = [] then 0 else strtol num))"

definition sse_value :: "cstring \<Rightarrow> cstring" where
  "sse_value v =
    (let line = takeWhile (\<lambda>c. c \<noteq> LF) (dropWhile (\<lambda>c. c = CHR '' '') v)
     in if line \<noteq> [] \<and> last line = CR then butlast line else line)"

text \<open>\<open>at_start\<close>: the position is the first one, or the one behind a line feed.\<close>

fun find_sse_data :: "bool \<Rightarrow> cstring \<Rightarrow> cstring option" where
  "find_sse_data at_start [] = None"
| "find_sse_data at_start (c # cs) =
    (if at_start \<and> strncmp_eq 5 (c # cs) ''data:'' then Some (sse_value (drop 5 (c # cs)))
     else find_sse_data (c = LF) cs)"

definition extract_sse_data :: "env \<Rightarrow> nat \<Rightarrow> cstring option \<Rightarrow> cstring option" where
  "extract_sse_data E i body = (case body of None \<Rightarrow> None
     | Some b \<Rightarrow> (case find_sse_data True b of None \<Rightarrow> None | Some v \<Rightarrow> strdup E i v))"

text \<open>
  The reading loop. An interrupted \<open>poll\<close> or \<open>read\<close> is repeated; a read of no bytes is the
  end of the connection; any other failure ends the loop.
\<close>

fun http_read_loop ::
  "env \<Rightarrow> overlap_copy \<Rightarrow> mcp_frame_parser \<Rightarrow> read_event list \<Rightarrow>
   (int \<times> cstring option \<times> mcp_frame_parser \<times> read_event list) option" where
  "http_read_loop E cp p evs =
    (case frame_parser_take_frame E cp p of
       (rc, out, p1) \<Rightarrow>
         if rc \<noteq> 1 then Some (rc, out, p1, evs)
         else case evs of
             [] \<Rightarrow> None
           | R_poll_timeout # es \<Rightarrow> Some (err E AIRY_ERR_TIMEOUT, out, p1, es)
           | R_poll_intr # es \<Rightarrow> http_read_loop E cp p1 es
           | R_poll_fail # es \<Rightarrow> Some (err E AIRY_ERR_IO, out, p1, es)
           | R_poll_nval # es \<Rightarrow> Some (err E AIRY_ERR_IO, out, p1, es)
           | R_eof # es \<Rightarrow> Some (MCP_CLIENT_ERR_PROCESS_EXIT, out, p1, es)
           | R_again # es \<Rightarrow> Some (err E AIRY_ERR_IO, out, p1, es)
           | R_fail # es \<Rightarrow> Some (err E AIRY_ERR_IO, out, p1, es)
           | Chunk tmp # es \<Rightarrow>
               if tmp = [] then Some (MCP_CLIENT_ERR_PROCESS_EXIT, out, p1, es)
               else (case frame_parser_append E p1 tmp of
                  (rc2, p2) \<Rightarrow> if rc2 \<noteq> 0 then Some (rc2, out, p2, es) else http_read_loop E cp p2 es))"

declare http_read_loop.simps [simp del]

definition http_read_response ::
  "env \<Rightarrow> overlap_copy \<Rightarrow> read_event list \<Rightarrow> (int \<times> cstring option \<times> read_event list) option" where
  "http_read_response E cp evs =
    (case http_read_loop E cp frame_parser_init evs of
       None \<Rightarrow> None
     | Some (rc, out_body, p, es) \<Rightarrow>
         if rc \<noteq> 0 then Some (rc, out_body, es)
         else
           (let is_sse = (case fp_header_text p of None \<Rightarrow> False | Some h \<Rightarrow> strstr h ''text/event-stream'' \<noteq> None) in
            if is_sse \<and> out_body \<noteq> None
            then Some (0, case extract_sse_data E 2 out_body of Some d \<Rightarrow> Some d | None \<Rightarrow> strdup E 3 [], es)
            else Some (0, out_body, es)))"

section \<open>The request\<close>

definition post_request :: "cstring \<Rightarrow> cstring \<Rightarrow> cstring \<Rightarrow> char list" where
  "post_request host path body =
     ''POST '' @ path @ '' HTTP/1.1'' @ [CR, LF] @
     ''Host: '' @ host @ [CR, LF] @
     ''Content-Type: application/json'' @ [CR, LF] @
     ''Accept: application/json, text/event-stream'' @ [CR, LF] @
     ''Mcp-Protocol-Version: '' @ MCP_CLIENT_PROTOCOL_VERSION @ [CR, LF] @
     ''Content-Length: '' @ show_nat (length body) @ [CR, LF] @
     ''Connection: close'' @ [CR, LF] @
     [CR, LF] @ body"

text \<open>
  The result: the code, the response body, and the bytes that were sent. The buffer of the
  request is \<open>malloc\<close>ed with 256 bytes beside the three strings.
\<close>

definition http_send_message ::
  "env \<Rightarrow> overlap_copy \<Rightarrow> cstring \<Rightarrow> cstring \<Rightarrow> cstring \<Rightarrow> dial \<Rightarrow> (int \<times> cstring option \<times> char list) option" where
  "http_send_message E cp host path body d =
    (case http_connect_fd d of
       None \<Rightarrow> Some (MCP_CLIENT_ERR_CONNECT, None, [])
     | Some (ws, rs) \<Rightarrow>
        if \<not> mem E 4 then Some (err E AIRY_ERR_OUT_OF_MEMORY, None, [])
        else
          (let req_cap = 256 + length host + length path + length body; req = post_request host path body in
           if req_cap \<le> length req then None
           else
             (case write_all_with_timeout E ws req of
                None \<Rightarrow> None
              | Some (rc, out, _) \<Rightarrow>
                  if rc \<noteq> 0 then Some (rc, None, out)
                  else map_option (\<lambda>(rc2, resp, _). (rc2, resp, out)) (http_read_response E cp rs))))"

section \<open>Endpoints\<close>

lemma endpoint_host_eq:
  assumes "CHR ''/'' \<notin> set h" "path = [] \<or> hd path = CHR ''/''"
  shows "strchr (CHR ''/'') (h @ path) = (if path = [] then None else Some path)" "endpoint_host (h @ path) = h"
proof -
  show s: "strchr (CHR ''/'') (h @ path) = (if path = [] then None else Some path)"
    using assms by (cases path) (simp_all add: strchr_None_iff)
  show "endpoint_host (h @ path) = h" by (simp add: endpoint_host_def s)
qed

lemma strtoull_port: "0 < n \<Longrightarrow> n \<le> 65535 \<Longrightarrow> unat (strtoull (show_nat n)) = n"
  using strtoull_show_nat [of "[]" n] by (simp add: unat_of_nat take_bit_nat_eq_self)

lemma port_digits: "n \<le> 65535 \<Longrightarrow> length (show_nat n) \<le> 5"
  by (rule show_nat_length) simp_all

lemma port_no_slash: "CHR ''/'' \<notin> set (show_nat n)"
  using show_nat_digits [of "CHR ''/''" n] by (auto simp: isdigit_def)

text \<open>
  An endpoint is read as it is written. \<open>http://host:port/path\<close> gives exactly that host,
  port and path; without a port it is 80, without a path \<open>/mcp\<close>. Anything that does not start
  with \<open>http://\<close>, has no host, or has port 0 or one above 65535 is refused.
\<close>

theorem http_url_roundtrip:
  assumes "mem_ok E" "host \<noteq> []" "CHR ''/'' \<notin> set host" "CHR '':'' \<notin> set host"
    "path = [] \<or> hd path = CHR ''/''" "1 \<le> port" "port \<le> 65535"
  shows "parse_http_url E (''http://'' @ host @ '':'' @ show_nat port @ path) =
      (0, Some host, of_nat port, Some (if path = [] then ''/mcp'' else path)) \<and>
    parse_http_url E (''http://'' @ host @ path) = (0, Some host, 80, Some (if path = [] then ''/mcp'' else path)) \<and>
    fst (parse_http_url E (''http://'' @ path)) = - 1 \<and>
    fst (parse_http_url E (''https://'' @ host @ path)) = - 1 \<and>
    fst (parse_http_url E (''http://'' @ host @ '':'' @ show_nat 0 @ path)) = - 1"
proof -
  have pre: "strncmp_eq 7 (''http://'' @ s) ''http://''" for s by (simp add: strncmp_eq_def)
  have tw: "takeWhile (\<lambda>c. c \<noteq> CHR '':'') (host @ CHR '':'' # s) = host" "takeWhile (\<lambda>c. c \<noteq> CHR '':'') host = host" for s
  proof -
    have "\<forall>c \<in> set host. c \<noteq> CHR '':''" using assms(4) by auto
    then show "takeWhile (\<lambda>c. c \<noteq> CHR '':'') (host @ CHR '':'' # s) = host" "takeWhile (\<lambda>c. c \<noteq> CHR '':'') host = host"
      by (simp_all add: takeWhile_append2 takeWhile_eq_all_conv)
  qed
  have hp: "strchr (CHR ''/'') (host @ CHR '':'' # show_nat n @ path) = (if path = [] then None else Some path)"
      "endpoint_host (host @ CHR '':'' # show_nat n @ path) = host @ CHR '':'' # show_nat n" for n
    using endpoint_host_eq [of "host @ CHR '':'' # show_nat n" path] assms(3,5) port_no_slash by auto
  note h = endpoint_host_eq [OF assms(3,5)]
  have "parse_http_url E (''http://'' @ host @ '':'' @ show_nat port @ path) =
      (0, Some host, of_nat port, Some (if path = [] then ''/mcp'' else path))"
    using pre [of "host @ '':'' @ show_nat port @ path"] assms(1,2,6,7) port_digits [of port] strtoull_port [of port]
    by (simp add: parse_http_url_def hp tw Let_def del: unat_eq_0)
  moreover have "parse_http_url E (''http://'' @ host @ path) = (0, Some host, 80, Some (if path = [] then ''/mcp'' else path))"
    using pre [of "host @ path"] assms(1,2) by (simp add: parse_http_url_def h tw Let_def)
  moreover have "fst (parse_http_url E (''http://'' @ path)) = - 1"
    using pre [of path] endpoint_host_eq [of "[]" path] assms(5) by (simp add: parse_http_url_def Let_def)
  moreover have "fst (parse_http_url E (''https://'' @ host @ path)) = - 1"
    by (simp add: parse_http_url_def strncmp_eq_def)
  moreover have "fst (parse_http_url E (''http://'' @ host @ '':'' @ show_nat 0 @ path)) = - 1"
    using pre [of "host @ '':'' @ show_nat 0 @ path"] hp [of 0] strtoull_show_nat [of "[]" 0]
    by (simp add: parse_http_url_def tw Let_def)
  ultimately show ?thesis by blast
qed

theorem http_url_roundtrip_witness:
  "parse_http_url env0 ''http://localhost:3001/mcp'' = (0, Some ''localhost'', 3001, Some ''/mcp'')"
proof -
  have "show_nat 3001 = ''3001''" by (simp add: show_nat.simps)
  then show ?thesis using http_url_roundtrip [OF env0_ok(3), of "''localhost''" "''/mcp''" 3001] by simp
qed

section \<open>Responses\<close>

text \<open>A head that ends with its first empty line and announces a body of \<open>n\<close> bytes.\<close>

definition head_ok :: "char list \<Rightarrow> nat \<Rightarrow> bool" where
  "head_ok h n \<longleftrightarrow> find_header_end h = Some (length h) \<and> parse_content_length h = Some n"

lemma header_end_append: "find_header_end u = Some k \<Longrightarrow> find_header_end (u @ v) = Some k"
  by (induction u arbitrary: k rule: find_header_end.induct) (auto split: if_splits)

lemma header_end_before:
  assumes "find_header_end h = Some (length h)" "u @ v = h @ y" "length u < length h"
  shows "find_header_end u = None"
proof (rule ccontr)
  assume "find_header_end u \<noteq> None"
  then obtain k where k: "find_header_end u = Some k" by auto
  then have "k = length h"
    using header_end_append [OF k, of v] header_end_append [OF assms(1), of y] assms(2) by simp
  then show False using find_header_end_le [OF k] assms(3) by simp
qed

text \<open>The parser is reading this response.\<close>

definition in_response :: "char list \<Rightarrow> cstring \<Rightarrow> mcp_frame_parser \<Rightarrow> bool" where
  "in_response h b p \<longleftrightarrow> fp_state p = MCP_FRAME_STATE_HEADER \<or>
     fp_header_text p = Some (takeWhile (\<lambda>c. c \<noteq> NUL) h) \<and> fp_hdr_end p = length h \<and> fp_body_expected p = length b"

text \<open>With the head read, the parser waits for the rest of the body or hands it out.\<close>

lemma take_response_body:
  assumes "mem_ok E" "body_ok b" "in_response h b q" "fp_buf q @ v = h @ b"
    "fp_hdr_end q = length h" "fp_body_expected q = length b"
  shows "\<exists>p'. in_response h b p' \<and> fp_header_text p' = fp_header_text q \<and>
    (if v = [] then take_body E cp q = (0, Some b, p') else take_body E cp q = (1, None, p') \<and> fp_buf p' = fp_buf q)"
proof (cases "v = []")
  case True
  have "takeWhile (\<lambda>c. c \<noteq> NUL) b = b" using assms(2) by (auto simp: body_ok_def takeWhile_eq_all_conv)
  then have "take_body E cp q = (0, Some b, q\<lparr>fp_buf := [], fp_state := MCP_FRAME_STATE_HEADER, fp_hdr_end := 0, fp_body_expected := 0\<rparr>)"
    using assms True by (simp add: take_body_def strndup_def)
  then show ?thesis using True by (simp add: in_response_def)
next
  case False
  then have "length (fp_buf q) < length h + length b" using arg_cong [OF assms(4), of length] by (cases v) simp_all
  then show ?thesis using False assms by (simp add: take_body_def)
qed

lemma take_response:
  assumes "mem_ok E" "head_ok h (length b)" "body_ok b" "in_response h b p" "fp_buf p @ v = h @ b"
  shows "\<exists>p'. in_response h b p' \<and>
    (if v = [] then frame_parser_take_frame E cp p = (0, Some b, p') \<and> fp_header_text p' = Some (takeWhile (\<lambda>c. c \<noteq> NUL) h)
     else frame_parser_take_frame E cp p = (1, None, p') \<and> fp_buf p' = fp_buf p)"
proof (cases "fp_state p = MCP_FRAME_STATE_HEADER")
  case False
  then have "frame_parser_take_frame E cp p = take_body E cp p" by (simp add: frame_parser_take_frame_def)
  then show ?thesis using take_response_body [OF assms(1,3,4,5), of cp] False assms(4) by (auto simp: in_response_def)
next
  case st: True
  show ?thesis
  proof (cases "length (fp_buf p) < length h")
    case True
    then have "find_header_end (fp_buf p) = None" "v \<noteq> []"
      using header_end_before [OF _ assms(5)] assms(2,5) by (auto simp: head_ok_def)
    then show ?thesis using st assms(4) by (auto simp: frame_parser_take_frame_def)
  next
    case False
    then have t: "take (length h) (fp_buf p) = h"
      using assms(5) by (metis append_eq_append_conv_if append_take_drop_id not_le_imp_less)
    then have e: "find_header_end (fp_buf p) = Some (length h)"
      using header_end_append [of h "length h" "drop (length h) (fp_buf p)"] assms(2)
      by (metis append_take_drop_id head_ok_def)
    let ?q = "p\<lparr>fp_header_text := Some (takeWhile (\<lambda>c. c \<noteq> NUL) h),
        fp_state := MCP_FRAME_STATE_BODY, fp_hdr_end := length h, fp_body_expected := length b\<rparr>"
    have "frame_parser_take_frame E cp p = take_body E cp ?q"
      using st t e assms(1,2,3) by (simp add: frame_parser_take_frame_def head_ok_def strndup_def body_ok_def)
    then show ?thesis using take_response_body [OF assms(1,3), of h ?q v cp] assms(5) by (auto simp: in_response_def)
  qed
qed

text \<open>A connection that delivers: pieces of at least one byte, and interruptions.\<close>

fun delivers :: "read_event \<Rightarrow> bool" where
  "delivers (Chunk c) \<longleftrightarrow> c \<noteq> []"
| "delivers R_poll_intr \<longleftrightarrow> True"
| "delivers ev \<longleftrightarrow> False"

lemma append_in_response:
  assumes "mem_ok E" "length (fp_buf p) + length c \<le> MCP_CLIENT_MAX_MESSAGE_SIZE + MCP_CLIENT_HEADER_MAX"
  shows "\<exists>p'. frame_parser_append E p c = (0, p') \<and> fp_buf p' = fp_buf p @ c \<and> (in_response h b p \<longrightarrow> in_response h b p')"
  using assms by (cases "c = []") (auto simp: frame_parser_append_def in_response_def)

lemma http_read_loop_ok:
  assumes "mem_ok E" "head_ok h (length b)" "body_ok b" "length h \<le> MCP_CLIENT_HEADER_MAX"
  shows "in_response h b p \<Longrightarrow> list_all delivers evs \<Longrightarrow> fp_buf p @ concat (map bytes_of evs) = h @ b \<Longrightarrow>
    \<exists>p' evs'. http_read_loop E cp p evs = Some (0, Some b, p', evs') \<and>
      fp_header_text p' = Some (takeWhile (\<lambda>c. c \<noteq> NUL) h)"
proof (induction evs arbitrary: p)
  case Nil
  then show ?case
    using take_response [OF assms(1-3) Nil(1), of "[]" cp] by (auto simp: http_read_loop.simps [of E cp p "[]"])
next
  case (Cons ev evs)
  from take_response [OF assms(1-3) Cons.prems(1,3), of cp] obtain p1 where p1: "in_response h b p1"
    "if concat (map bytes_of (ev # evs)) = [] then frame_parser_take_frame E cp p = (0, Some b, p1) \<and>
        fp_header_text p1 = Some (takeWhile (\<lambda>c. c \<noteq> NUL) h)
     else frame_parser_take_frame E cp p = (1, None, p1) \<and> fp_buf p1 = fp_buf p" by blast
  show ?case
  proof (cases "concat (map bytes_of (ev # evs)) = []")
    case True
    then show ?thesis using p1(2) by (auto simp: http_read_loop.simps [of E cp p "ev # evs"])
  next
    case False
    then have t: "frame_parser_take_frame E cp p = (1, None, p1)" "fp_buf p1 = fp_buf p" using p1(2) by presburger+
    show ?thesis
    proof (cases ev)
      case (Chunk c)
      have "length (fp_buf p1) + length c \<le> length (fp_buf p @ concat (map bytes_of (ev # evs)))"
        using t(2) Chunk by simp
      also have "\<dots> \<le> MCP_CLIENT_MAX_MESSAGE_SIZE + MCP_CLIENT_HEADER_MAX"
        unfolding Cons.prems(3) using assms(3,4) by (simp add: body_ok_def)
      finally obtain p2 where p2: "frame_parser_append E p1 c = (0, p2)" "fp_buf p2 = fp_buf p1 @ c" "in_response h b p2"
        using append_in_response [OF assms(1)] p1(1) by blast
      then show ?thesis
        using Cons.IH [of p2] Cons.prems Chunk t
        by (simp add: http_read_loop.simps [of E cp p "e # evs" for e])
    qed (use Cons.IH [OF p1(1)] Cons.prems t in \<open>simp_all add: http_read_loop.simps [of E cp p "e # evs" for e]\<close>)
  qed
qed

section \<open>Heads made of lines\<close>

definition head_of :: "cstring list \<Rightarrow> char list" where
  "head_of ls = concat (map (\<lambda>l. l @ [CR, LF]) ls) @ [CR, LF]"

definition line_ok :: "cstring \<Rightarrow> bool" where
  "line_ok l \<longleftrightarrow> l \<noteq> [] \<and> CR \<notin> set l"

lemma head_of_simps [simp]: "head_of [] = [CR, LF]" "head_of (l # ls) = l @ CR # LF # head_of ls"
  by (simp_all add: head_of_def)

lemma head_end_tail:
  "ls \<noteq> [] \<Longrightarrow> list_all line_ok ls \<Longrightarrow> find_header_end (head_of ls) = Some (length (head_of ls))"
proof (induction ls)
  case (Cons l ls)
  then have l: "l \<noteq> []" "CR \<notin> set l" by (simp_all add: line_ok_def)
  have "find_header_end (CR # LF # head_of ls) = Some (length (head_of ls) + 2)"
  proof (cases ls)
    case Nil
    then show ?thesis by simp
  next
    case (Cons k ks)
    then obtain x xs where k: "k = x # xs" "x \<noteq> CR" using \<open>list_all line_ok (l # ls)\<close> by (cases k) (auto simp: line_ok_def)
    have "find_header_end (head_of ls) = Some (length (head_of ls))" using Cons.IH Cons.prems Cons by simp
    then have "find_header_end (LF # head_of ls) = Some (length (head_of ls) + 1)" by (simp add: header_end_Cons)
    moreover obtain y ys where "xs @ CR # LF # head_of ks = y # ys" by (cases xs) auto
    ultimately show ?thesis using Cons k by simp
  qed
  then show ?case using l header_end_skip [OF l(2), of "CR # LF # head_of ls"] by simp
qed simp

definition length_line :: "cstring \<Rightarrow> bool" where
  "length_line l \<longleftrightarrow> 15 \<le> length l \<and> strcasecmp_eq (take 15 l) ''content-length:''"

lemma content_length_skip:
  assumes "line_ok l" "\<not> length_line l"
  shows "parse_content_length (l @ CR # LF # r) = parse_content_length r"
  using assms line_end_skip [of l r]
  by (subst parse_content_length.simps) (auto simp: line_ok_def length_line_def)

text \<open>A response head that announces the length of its body, in any place but the first line.\<close>

lemma head_of_ok:
  assumes "list_all line_ok (pre @ post)" "list_all (\<lambda>l. \<not> length_line l) pre" "n \<le> MCP_CLIENT_MAX_MESSAGE_SIZE"
  shows "head_ok (head_of (pre @ (''Content-Length: '' @ show_nat n) # post)) n"
proof -
  let ?l = "''Content-Length: '' @ show_nat n"
  have "CR \<notin> set ?l" using show_nat_digits [of CR n] by (auto simp: isdigit_def)
  then have "list_all line_ok (pre @ ?l # post)" using assms(1) by (simp add: line_ok_def)
  then have e: "find_header_end (head_of (pre @ ?l # post)) = Some (length (head_of (pre @ ?l # post)))"
    by (intro head_end_tail) simp_all
  have "parse_content_length (head_of (pre @ ?l # post)) = parse_content_length (head_of (?l # post))"
    using assms(1,2) by (induction pre) (simp_all add: content_length_skip)
  also have "\<dots> = Some n" unfolding head_of_simps using assms(3) by (intro content_length_line) simp
  finally show ?thesis using e by (simp add: head_ok_def)
qed

lemma no_content_length:
  "list_all line_ok ls \<Longrightarrow> list_all (\<lambda>l. \<not> length_line l) ls \<Longrightarrow> parse_content_length (head_of ls) = None"
proof (induction ls)
  case Nil
  have "line_end [] = None" by simp
  then have "parse_content_length [] = None" by (subst parse_content_length.simps) simp
  then show ?case by (subst parse_content_length.simps) simp
qed (simp add: content_length_skip)

section \<open>One exchange\<close>

lemma post_request_length:
  assumes "length body < 2 ^ 64"
  shows "length (post_request host path body) < 256 + length host + length path + length body"
proof -
  have "length (show_nat (length body)) \<le> 20" using assms by (intro show_nat_length) simp_all
  then show ?thesis by (simp add: post_request_def)
qed

lemma connect_first:
  "list_all (\<lambda>a. a = No_socket \<or> a = Refused) pre \<Longrightarrow> http_connect_fd (Some (pre @ Accepted ws rs # as)) = Some (ws, rs)"
  by (induction pre) (auto simp: http_connect_fd_def)

definition response_text :: "char list \<Rightarrow> cstring \<Rightarrow> cstring" where
  "response_text h b = (if strstr (takeWhile (\<lambda>c. c \<noteq> NUL) h) ''text/event-stream'' = None then b
     else case find_sse_data True b of None \<Rightarrow> [] | Some v \<Rightarrow> v)"

lemma read_response_ok:
  assumes "mem_ok E" "head_ok h (length b)" "body_ok b" "length h \<le> MCP_CLIENT_HEADER_MAX"
    "list_all delivers rs" "concat (map bytes_of rs) = h @ b"
  shows "\<exists>es. http_read_response E cp rs = Some (0, Some (response_text h b), es)"
proof -
  have "in_response h b frame_parser_init" "fp_buf frame_parser_init = []"
    by (simp_all add: in_response_def frame_parser_init_def)
  with http_read_loop_ok [where cp = cp and p = frame_parser_init, OF assms(1-4) _ assms(5)] assms(6) obtain p es where
    "http_read_loop E cp frame_parser_init rs = Some (0, Some b, p, es)"
    "fp_header_text p = Some (takeWhile (\<lambda>c. c \<noteq> NUL) h)" by auto
  then show ?thesis
    using assms(1) by (auto simp: http_read_response_def response_text_def extract_sse_data_def split: option.split)
qed

text \<open>
  C18: one HTTP exchange. The client tries the addresses of the host until one accepts, and
  sends exactly the request, which always fits its buffer. Whatever the lines of the response
  head, as long as one announces the length of the body, and however the bytes are cut into
  reads, the answer is the body, or for an event stream the data of its first data line. The
  status of the response plays no part.
\<close>

theorem http_exchange:
  assumes "mem_ok E" "codes_ok E" "length body < 2 ^ 64"
    and addr: "list_all (\<lambda>a. a = No_socket \<or> a = Refused) tried"
    and sent: "write_all_with_timeout E ws (post_request host path body) = Some (0, out, ws')"
    and head: "list_all line_ok (pre @ post)" "list_all (\<lambda>l. \<not> length_line l) pre"
      "h = head_of (pre @ (''Content-Length: '' @ show_nat (length b)) # post)" "length h \<le> MCP_CLIENT_HEADER_MAX"
    and body: "body_ok b" "list_all delivers rs" "concat (map bytes_of rs) = h @ b"
  shows "http_send_message E cp host path body (Some (tried @ Accepted ws rs # others)) =
    Some (0, Some (response_text h b), post_request host path body)"
proof -
  have hok: "head_ok h (length b)" unfolding head(3) using head(1,2) body(1) by (intro head_of_ok) (simp_all add: body_ok_def)
  have "out = post_request host path body" by (rule write_all_ok [OF assms(2) sent])
  with sent read_response_ok [OF assms(1) hok body(1) head(4) body(2,3)] show ?thesis
    using connect_first [OF addr] post_request_length [OF assms(3), of host path] assms(1)
    by (auto simp: http_send_message_def Let_def)
qed

text \<open>
  A response that does not announce a length, as an event stream that stays open does,
  is refused as a broken frame as soon as its head is complete.
\<close>

theorem http_needs_length:
  assumes "ls \<noteq> []" "list_all line_ok ls" "list_all (\<lambda>l. \<not> length_line l) ls" "mem_ok E" "codes_ok E"
    "length (head_of ls @ y) \<le> MCP_CLIENT_READ_CHUNK"
  shows "http_read_response E cp (Chunk (head_of ls @ y) # rs) = Some (MCP_CLIENT_ERR_FRAME, None, rs)"
proof -
  have ne: "head_of ls @ y \<noteq> []" by (simp add: head_of_def)
  have e: "find_header_end (head_of ls @ y) = Some (length (head_of ls))"
    using header_end_append [OF head_end_tail [OF assms(1,2)]] .
  define p where "p = frame_parser_init\<lparr>fp_buf := head_of ls @ y,
    fp_cap := grow_cap MCP_CLIENT_READ_CHUNK (length (head_of ls @ y))\<rparr>"
  have t: "frame_parser_take_frame E cp frame_parser_init = (1, None, frame_parser_init)"
    by (simp add: frame_parser_take_frame_def frame_parser_init_def)
  have a: "frame_parser_append E frame_parser_init (head_of ls @ y) = (0, p)"
    using assms(4,6) ne by (auto simp: frame_parser_append_def frame_parser_init_def Let_def p_def)
  have "frame_parser_take_frame E cp p = (MCP_CLIENT_ERR_FRAME, None, p)"
    using e no_content_length [OF assms(2,3)] by (simp add: frame_parser_take_frame_def frame_parser_init_def p_def)
  then have "http_read_loop E cp p rs = Some (MCP_CLIENT_ERR_FRAME, None, p, rs)"
    by (simp add: http_read_loop.simps [of E cp p])
  then show ?thesis
    using t a ne by (simp add: http_read_response_def http_read_loop.simps [of E cp frame_parser_init])
qed

text \<open>An event with the message as its data, as the answer to a request is sent.\<close>

lemma sse_data_line:
  assumes "LF \<notin> set e" "list_all (\<lambda>c. c \<noteq> LF) v" "v \<noteq> []" "hd v \<noteq> CHR '' ''" "last v \<noteq> CR"
  shows "find_sse_data True (''event: '' @ e @ LF # ''data: '' @ v @ LF # r) = Some v"
proof -
  have skip: "find_sse_data False (u @ LF # s) = find_sse_data True s" if "LF \<notin> set u" for u s
    using that by (induction u) auto
  have "takeWhile (\<lambda>c. c \<noteq> LF) (v @ LF # r) = v" using assms(2) by (simp add: list_all_iff takeWhile_append2)
  moreover have "dropWhile (\<lambda>c. c = CHR '' '') (v @ LF # r) = v @ LF # r" using assms(3,4) by (cases v) simp_all
  ultimately have "sse_value (CHR '' '' # v @ LF # r) = v" using assms(5) by (simp add: sse_value_def Let_def)
  then have "find_sse_data True (''data: '' @ v @ LF # r) = Some v" by (simp add: strncmp_eq_def)
  moreover have "find_sse_data True (''event: '' @ e @ LF # ''data: '' @ v @ LF # r) =
      find_sse_data False ((''vent: '' @ e) @ LF # ''data: '' @ v @ LF # r)" by (simp add: strncmp_eq_def)
  ultimately show ?thesis using skip [of "''vent: '' @ e"] assms(1) by simp
qed

section \<open>Closed instances\<close>

theorem http_exchange_witness:
  "let h = head_of [''HTTP/1.1 500 Oops'', ''Content-Length: 2'', ''Server: x''] in
   http_send_message env0 (\<lambda>b off n. take n (drop off b)) ''localhost'' ''/mcp'' ''{}''
     (Some [Refused, Accepted [Wrote 1000] [Chunk (take 5 h), R_poll_intr, Chunk (drop 5 h @ ''ok'')]]) =
   Some (0, Some ''ok'', post_request ''localhost'' ''/mcp'' ''{}'')"
proof -
  let ?h = "head_of [''HTTP/1.1 500 Oops'', ''Content-Length: 2'', ''Server: x'']"
  let ?r = "post_request ''localhost'' ''/mcp'' ''{}''"
  have w: "write_all_with_timeout env0 [Wrote 1000] ?r = Some (0, ?r, [])"
    using post_request_length [of "''{}''" "''localhost''" "''/mcp''"] by (cases ?r) (simp_all add: post_request_def)
  have s2: "show_nat (Suc (Suc 0)) = ''2''" by code_simp
  have l: "list_all (\<lambda>l. \<not> length_line l) [''HTTP/1.1 500 Oops'']" by code_simp
  have r: "response_text ?h ''ok'' = ''ok''" by code_simp
  have "http_send_message env0 (\<lambda>b off n. take n (drop off b)) ''localhost'' ''/mcp'' ''{}''
     (Some ([Refused] @ Accepted [Wrote 1000] [Chunk (take 5 ?h), R_poll_intr, Chunk (drop 5 ?h @ ''ok'')] # [])) =
   Some (0, Some (response_text ?h ''ok''), ?r)"
    by (rule http_exchange [OF env0_ok(3,1) _ _ w _ l, where post = "[''Server: x'']"])
      (simp_all add: s2 line_ok_def body_ok_def)
  then show ?thesis by (simp only: r Let_def append_Cons append_Nil)
qed

theorem http_needs_length_witness:
  "http_read_response env0 (\<lambda>b off n. take n (drop off b))
     [Chunk (head_of [''HTTP/1.1 200 OK'', ''Content-Type: text/event-stream''] @ ''data: {}'')] =
   Some (MCP_CLIENT_ERR_FRAME, None, [])"
proof -
  have "list_all (\<lambda>l. \<not> length_line l) [''HTTP/1.1 200 OK'', ''Content-Type: text/event-stream'']" by code_simp
  from http_needs_length [OF _ _ this env0_ok(3,1), of "''data: {}''"] show ?thesis by (simp add: line_ok_def)
qed

end
