(* ===== verification/Mcp_Client.thy ===== *)
theory Mcp_Client
  imports Mcp_Client_Http Json_Text Cjson "HOL-Library.Multiset" "HOL-Library.Sublist"
begin

text \<open>
  The MCP client: its handle (\<open>mcp_client_internal.h\<close>), connecting and disconnecting
  (\<open>mcp_client.c\<close>), the JSON-RPC exchange and the handshake (\<open>mcp_client_rpc.c\<close>), and the
  tool calls (\<open>mcp_client_tool.c\<close>), over the two transports of \<open>Mcp_Frame\<close> and
  \<open>Mcp_Client_Http\<close>.

  \<open>client_io\<close> is the outside: the events of the pipe, the dials of the HTTP requests, the
  readings of the clock, and the bytes sent so far. A result \<open>None\<close> means that the call is
  still waiting, that the request text was read past its buffer, or that the number of a
  response id is converted to an unsigned integer outside its range. Ids are below
  \<open>2 ^ 53\<close>, where their conversion to a double is exact; the allocations of a reading loop
  all succeed or all fail.
\<close>

abbreviation (input) MCP_CLIENT_DEFAULT_TIMEOUT_MS :: int where "MCP_CLIENT_DEFAULT_TIMEOUT_MS \<equiv> 60000"
abbreviation (input) MCP_CLIENT_ERR_RPC_ERROR :: int where "MCP_CLIENT_ERR_RPC_ERROR \<equiv> - 2002"
abbreviation (input) MCP_CLIENT_ERR_NOT_CONNECTED :: int where "MCP_CLIENT_ERR_NOT_CONNECTED \<equiv> - 2004"

section \<open>The handle\<close>

datatype mcp_client_transport = MCP_CLIENT_TRANSPORT_NONE | MCP_CLIENT_TRANSPORT_STDIO | MCP_CLIENT_TRANSPORT_HTTP

record mcp_client =
  mc_name :: "cstring option"
  mc_transport :: mcp_client_transport
  mc_child_pid :: int
  mc_stdio_write_fd :: int
  mc_stdio_read_fd :: int
  mc_argv_copy :: "cstring list option"
  mc_http_host :: "cstring option"
  mc_http_path :: "cstring option"
  mc_http_port :: u16
  mc_parser :: mcp_frame_parser
  mc_request_id :: u64
  mc_initialized :: bool
  mc_server_name :: "cstring option"

definition zero_client :: mcp_client where
  "zero_client = \<lparr>mc_name = None, mc_transport = MCP_CLIENT_TRANSPORT_NONE, mc_child_pid = 0, mc_stdio_write_fd = 0,
     mc_stdio_read_fd = 0, mc_argv_copy = None, mc_http_host = None, mc_http_path = None, mc_http_port = 0,
     mc_parser = frame_parser_init, mc_request_id = 0, mc_initialized = False, mc_server_name = None\<rparr>"

record client_io =
  io_writes :: "write_event list"
  io_reads :: "read_event list"
  io_dials :: "dial list"
  io_now :: "nat \<Rightarrow> int"
  io_tick :: nat
  io_sent :: "char list"

definition now_ms :: "client_io \<Rightarrow> int \<times> client_io" where
  "now_ms io = (io_now io (io_tick io), io\<lparr>io_tick := io_tick io + 1\<rparr>)"

text \<open>\<open>(int)x\<close>.\<close>

definition c_int :: "int \<Rightarrow> int" where
  "c_int x = sint (word_of_int x :: 32 word)"

section \<open>One exchange\<close>

text \<open>1, 0, or a negative code; \<open>(uint64_t)\<close> of a double truncates.\<close>

definition response_id_matches :: "env \<Rightarrow> cjson \<Rightarrow> cstring option \<Rightarrow> u64 \<Rightarrow> int option" where
  "response_id_matches E C frame expected =
    (case (case frame of None \<Rightarrow> None | Some f \<Rightarrow> cj_parse C f) of
       None \<Rightarrow> Some (err E AIRY_ERR_PARSE_ERROR)
     | Some doc \<Rightarrow>
        (case cj_item C doc ''id'' of
           Some (JNum x) \<Rightarrow>
             if -1 < x \<and> x < 2 ^ 64 then Some (if nat (floor (max 0 x)) = unat expected then 1 else 0) else None
         | Some (JStr s) \<Rightarrow> Some (if strtoull s = expected then 1 else 0)
         | _ \<Rightarrow> Some 0))"

type_synonym rpc_result = "(int \<times> cstring option \<times> mcp_client \<times> client_io) option"

text \<open>The loop that waits for the response to a request, until the deadline.\<close>

partial_function (option) rpc_wait ::
  "env \<Rightarrow> overlap_copy \<Rightarrow> cjson \<Rightarrow> u64 \<Rightarrow> int \<Rightarrow> mcp_client \<Rightarrow> client_io \<Rightarrow> rpc_result" where
  "rpc_wait E cp C i deadline c io =
    (let (now, io1) = now_ms io; remain = deadline - now in
     if remain \<le> 0 then Some (err E AIRY_ERR_TIMEOUT, None, c, io1)
     else
       (case stdio_read_message E cp (mc_parser c) (c_int remain) (io_reads io1) of
          None \<Rightarrow> None
        | Some (rc, frame, p, evs) \<Rightarrow>
           (let c1 = c\<lparr>mc_parser := p\<rparr>; io2 = io1\<lparr>io_reads := evs\<rparr> in
            if rc \<noteq> 0 then Some (rc, None, c1, io2)
            else
              (case response_id_matches E C frame i of
                 None \<Rightarrow> None
               | Some m \<Rightarrow>
                  if m = 1 then Some (0, frame, c1, io2)
                  else if m < 0 then Some (m, None, c1, io2)
                  else rpc_wait E cp C i deadline c1 io2))))"

definition parse_or_empty :: "cjson \<Rightarrow> nat \<Rightarrow> cstring option \<Rightarrow> json option" where
  "parse_or_empty C k s =
    (case cj_parse C (case s of None \<Rightarrow> ''{}'' | Some p \<Rightarrow> if p = [] then ''{}'' else p) of
       Some j \<Rightarrow> Some j
     | None \<Rightarrow> if cj_new C k then Some (JObj []) else None)"

definition rpc_request :: "u64 \<Rightarrow> cstring \<Rightarrow> json option \<Rightarrow> json" where
  "rpc_request i meth params = JObj ([(''jsonrpc'', JStr ''2.0''), (''id'', JNum (of_nat (unat i))), (''method'', JStr meth)] @
     (case params of None \<Rightarrow> [] | Some p \<Rightarrow> [(''params'', p)]))"

definition client_rpc_exchange ::
  "env \<Rightarrow> overlap_copy \<Rightarrow> cjson \<Rightarrow> mcp_client \<Rightarrow> cstring \<Rightarrow> cstring option \<Rightarrow> bool \<Rightarrow> client_io \<Rightarrow> rpc_result" where
  "client_rpc_exchange E cp C c0 meth params_json expect_response io =
    (let i = mc_request_id c0 + 1; c = c0\<lparr>mc_request_id := i\<rparr> in
     if \<not> cj_new C 0 then Some (err E AIRY_ERR_OUT_OF_MEMORY, None, c, io)
     else
       (case cj_print C (rpc_request i meth (parse_or_empty C 1 params_json)) of
          None \<Rightarrow> Some (err E AIRY_ERR_OUT_OF_MEMORY, None, c, io)
        | Some req_str \<Rightarrow>
           (case mc_transport c of
              MCP_CLIENT_TRANSPORT_STDIO \<Rightarrow>
                (case stdio_send_message E (io_writes io) req_str of
                   None \<Rightarrow> None
                 | Some (rc, out, ws) \<Rightarrow>
                    (let io1 = io\<lparr>io_writes := ws, io_sent := io_sent io @ out\<rparr> in
                     if rc \<noteq> 0 then Some (rc, None, c, io1)
                     else if \<not> expect_response then Some (0, None, c, io1)
                     else (let (now, io2) = now_ms io1
                           in rpc_wait E cp C i (now + MCP_CLIENT_DEFAULT_TIMEOUT_MS) c io2)))
            | MCP_CLIENT_TRANSPORT_HTTP \<Rightarrow>
                (case (mc_http_host c, mc_http_path c, io_dials io) of
                   (Some host, Some path, d # ds) \<Rightarrow>
                     (case http_send_message E cp host path req_str d of
                        None \<Rightarrow> None
                      | Some (rc, resp_body, out) \<Rightarrow>
                         (let io1 = io\<lparr>io_dials := ds, io_sent := io_sent io @ out\<rparr> in
                          if rc \<noteq> 0 then Some (rc, None, c, io1)
                          else if \<not> expect_response then Some (0, None, c, io1)
                          else (case response_id_matches E C resp_body i of
                                  None \<Rightarrow> None
                                | Some m \<Rightarrow> if m < 0 then Some (err E AIRY_ERR_PARSE_ERROR, None, c, io1)
                                            else Some (0, resp_body, c, io1))))
                 | _ \<Rightarrow> None)
            | MCP_CLIENT_TRANSPORT_NONE \<Rightarrow> Some (MCP_CLIENT_ERR_NOT_CONNECTED, None, c, io))))"

section \<open>The handshake\<close>

definition is_object :: "json option \<Rightarrow> bool" where
  "is_object j = (case j of Some (JObj _) \<Rightarrow> True | _ \<Rightarrow> False)"

definition item_of :: "cjson \<Rightarrow> json option \<Rightarrow> cstring \<Rightarrow> json option" where
  "item_of C j key = (case j of None \<Rightarrow> None | Some d \<Rightarrow> cj_item C d key)"

definition parse_initialize_response :: "env \<Rightarrow> cjson \<Rightarrow> mcp_client \<Rightarrow> cstring option \<Rightarrow> int \<times> mcp_client" where
  "parse_initialize_response E C c resp =
    (case (case resp of None \<Rightarrow> None | Some r \<Rightarrow> cj_parse C r) of
       None \<Rightarrow> (err E AIRY_ERR_PARSE_ERROR, c)
     | Some doc \<Rightarrow>
        if is_object (cj_item C doc ''error'') then (MCP_CLIENT_ERR_RPC_ERROR, c)
        else
          (let result = cj_item C doc ''result'' in
           if \<not> is_object result then (err E AIRY_ERR_PARSE_ERROR, c)
           else
             (let si = item_of C result ''serverInfo'' in
              case (if is_object si then str_of (item_of C si ''name'') else None) of
                None \<Rightarrow> (0, c)
              | Some sn \<Rightarrow> (0, c\<lparr>mc_server_name := strdup E 5 sn\<rparr>))))"

definition initialize_params :: cstring where
  "initialize_params = ''{\"protocolVersion\":\"2024-11-05\",\"capabilities\":{},\"clientInfo\":{\"name\":\"agentrt-gateway\",\"version\":\"0.1.1\"}}''"

definition client_ensure_initialized ::
  "env \<Rightarrow> overlap_copy \<Rightarrow> cjson \<Rightarrow> mcp_client \<Rightarrow> client_io \<Rightarrow> (int \<times> mcp_client \<times> client_io) option" where
  "client_ensure_initialized E cp C c io =
    (if mc_initialized c then Some (0, c, io)
     else
       (case client_rpc_exchange E cp C c ''initialize'' (Some initialize_params) True io of
          None \<Rightarrow> None
        | Some (rc, resp, c1, io1) \<Rightarrow>
           if rc \<noteq> 0 then Some (rc, c1, io1)
           else
             (case parse_initialize_response E C c1 resp of
                (rc2, c2) \<Rightarrow>
                  if rc2 \<noteq> 0 then Some (rc2, c2, io1)
                  else map_option (\<lambda>(_, _, c3, io2). (0, c3, io2))
                    (client_rpc_exchange (later 6 E) cp C (c2\<lparr>mc_initialized := True\<rparr>) ''notifications/initialized''
                       (Some ''{}'') False io1))))"

section \<open>The tools of the server\<close>

record mcp_client_tool =
  ct_name :: cstring
  ct_description :: "cstring option"
  ct_input_schema_json :: "cstring option"

text \<open>The loop over the array; \<open>k\<close> counts the allocations. An entry without a name is left out.\<close>

fun fill_tools :: "env \<Rightarrow> cjson \<Rightarrow> nat \<Rightarrow> json list \<Rightarrow> mcp_client_tool list" where
  "fill_tools E C k [] = []"
| "fill_tools E C k (t # ts) =
    (case item_str C t ''name'' of
       None \<Rightarrow> fill_tools E C k ts
     | Some jname \<Rightarrow>
        (case strdup E k jname of
           None \<Rightarrow> fill_tools E C (k + 1) ts
         | Some name \<Rightarrow>
            \<lparr>ct_name = name,
             ct_description = (case item_str C t ''description'' of None \<Rightarrow> None | Some d \<Rightarrow> strdup E (k + 1) d),
             ct_input_schema_json = (case cj_item C t ''inputSchema'' of
                Some (JObj ms) \<Rightarrow> cj_print C (JObj ms) | _ \<Rightarrow> None)\<rparr> # fill_tools E C (k + 2) ts))"

text \<open>What the code makes of the text of a \<open>tools/list\<close> response.\<close>

definition read_tools :: "env \<Rightarrow> cjson \<Rightarrow> cstring option \<Rightarrow> int \<times> mcp_client_tool list" where
  "read_tools E C resp =
    (case (case resp of None \<Rightarrow> None | Some r \<Rightarrow> cj_parse C r) of
       None \<Rightarrow> (err E AIRY_ERR_PARSE_ERROR, [])
     | Some doc \<Rightarrow>
        if is_object (cj_item C doc ''error'') then (MCP_CLIENT_ERR_RPC_ERROR, [])
        else if \<not> is_object (cj_item C doc ''result'') then (err E AIRY_ERR_PARSE_ERROR, [])
        else (case item_of C (cj_item C doc ''result'') ''tools'' of
                Some (JArr ts) \<Rightarrow>
                  if ts = [] then (0, [])
                  else if \<not> mem E 0 then (err E AIRY_ERR_OUT_OF_MEMORY, [])
                  else (0, fill_tools E C 1 ts)
              | _ \<Rightarrow> (err E AIRY_ERR_PARSE_ERROR, [])))"

text \<open>\<open>out\<close>: the pointer for the list was given; the list starts empty.\<close>

fun mcp_client_list_tools ::
  "env \<Rightarrow> overlap_copy \<Rightarrow> cjson \<Rightarrow> mcp_client option \<Rightarrow> bool \<Rightarrow> client_io \<Rightarrow>
   (int \<times> mcp_client_tool list \<times> mcp_client option \<times> client_io) option" where
  "mcp_client_list_tools E cp C (Some c) True io =
    (if mc_transport c = MCP_CLIENT_TRANSPORT_NONE then Some (MCP_CLIENT_ERR_NOT_CONNECTED, [], Some c, io)
     else
       (case client_ensure_initialized E cp C c io of
          None \<Rightarrow> None
        | Some (rc, c1, io1) \<Rightarrow>
           if rc \<noteq> 0 then Some (rc, [], Some c1, io1)
           else
             (case client_rpc_exchange (later 11 E) cp C c1 ''tools/list'' (Some ''{}'') True io1 of
                None \<Rightarrow> None
              | Some (rc2, resp, c2, io2) \<Rightarrow>
                 if rc2 \<noteq> 0 then Some (rc2, [], Some c2, io2)
                 else (case read_tools (later 16 E) C resp of (rc3, ts) \<Rightarrow> Some (rc3, ts, Some c2, io2)))))"
| "mcp_client_list_tools E cp C c out io = Some (err E AIRY_ERR_INVALID_PARAM, [], c, io)"

definition call_params :: "cjson \<Rightarrow> cstring \<Rightarrow> cstring option \<Rightarrow> json" where
  "call_params C name arguments_json = JObj ((''name'', JStr name) #
     (case parse_or_empty C 3 arguments_json of None \<Rightarrow> [] | Some args \<Rightarrow> [(''arguments'', args)]))"

fun mcp_client_call_tool ::
  "env \<Rightarrow> overlap_copy \<Rightarrow> cjson \<Rightarrow> mcp_client option \<Rightarrow> cstring option \<Rightarrow> cstring option \<Rightarrow> bool \<Rightarrow> client_io \<Rightarrow>
   (int \<times> cstring option \<times> mcp_client option \<times> client_io) option" where
  "mcp_client_call_tool E cp C (Some c) (Some name) arguments_json True io =
    (if mc_transport c = MCP_CLIENT_TRANSPORT_NONE then Some (MCP_CLIENT_ERR_NOT_CONNECTED, None, Some c, io)
     else
       (case client_ensure_initialized E cp C c io of
          None \<Rightarrow> None
        | Some (rc, c1, io1) \<Rightarrow>
           if rc \<noteq> 0 then Some (rc, None, Some c1, io1)
           else if \<not> cj_new C 2 then Some (err E AIRY_ERR_OUT_OF_MEMORY, None, Some c1, io1)
           else
             (case cj_print C (call_params C name arguments_json) of
                None \<Rightarrow> Some (err E AIRY_ERR_OUT_OF_MEMORY, None, Some c1, io1)
              | Some params_str \<Rightarrow>
                  map_option (\<lambda>(rc2, resp, c2, io2). (rc2, resp, Some c2, io2))
                    (client_rpc_exchange (later 11 E) cp C c1 ''tools/call'' (Some params_str) True io1))))"
| "mcp_client_call_tool E cp C c name arguments_json out io = Some (err E AIRY_ERR_INVALID_PARAM, None, c, io)"

definition text_out :: "env \<Rightarrow> cstring option \<Rightarrow> int \<times> cstring option" where
  "text_out E t = (if t = None then err E AIRY_ERR_OUT_OF_MEMORY else 0, t)"

text \<open>The outer \<open>None\<close> is the one of \<open>json_string_escape\<close>.\<close>

definition mcp_client_extract_text :: "env \<Rightarrow> cjson \<Rightarrow> cstring option \<Rightarrow> (int \<times> cstring option) option" where
  "mcp_client_extract_text E C response_json =
    (case response_json of
       None \<Rightarrow> Some (err E AIRY_ERR_INVALID_PARAM, None)
     | Some r \<Rightarrow>
        (case cj_parse C r of
           None \<Rightarrow> Some (err E AIRY_ERR_PARSE_ERROR, None)
         | Some doc \<Rightarrow>
            (let error = cj_item C doc ''error''; result = cj_item C doc ''result'' in
             if is_object error
             then map_option (text_out E) (json_string_escape E 0
               (Some (case str_of (item_of C error ''message'') of None \<Rightarrow> ''MCP RPC error'' | Some raw \<Rightarrow> raw)))
             else if \<not> is_object result then Some (err E AIRY_ERR_PARSE_ERROR, None)
             else (case item_of C result ''content'' of
                     Some (JArr (first # _)) \<Rightarrow>
                       (case item_str C first ''text'' of
                          Some t \<Rightarrow> map_option (text_out E) (json_string_escape E 0 (Some t))
                        | None \<Rightarrow> Some (text_out E (cj_print C first)))
                   | _ \<Rightarrow> Some (text_out E (cj_print C (the result)))))))"

section \<open>Connecting and disconnecting\<close>

text \<open>
  The calls of a process to the operating system that matter here. \<open>pipe\<close> and \<open>fork\<close> are
  arguments: the descriptors of the two pipes, \<open>None\<close> when the call fails, and what \<open>fork\<close>
  returns; with 0 the code runs in the child, which does not return to the caller.
\<close>

datatype os_call =
    Close int | Dup2 int int | Execvp cstring "cstring list" | Exit int | Kill int int | Waitpid int bool | Sleep nat

abbreviation (input) SIGTERM :: int where "SIGTERM \<equiv> 15"
abbreviation (input) SIGKILL :: int where "SIGKILL \<equiv> 9"

fun mcp_client_connect_stdio ::
  "env \<Rightarrow> cstring option \<Rightarrow> cstring option \<Rightarrow> cstring list option \<Rightarrow> (int \<times> int) option \<Rightarrow> (int \<times> int) option \<Rightarrow> int \<Rightarrow>
   mcp_client option \<times> os_call list" where
  "mcp_client_connect_stdio E (Some name) (Some command) (Some argv) to_pipe from_pipe pid =
    (if name = [] \<or> argv = [] then (None, [])
     else
       (case copy_argv E argv of
          None \<Rightarrow> (None, [])
        | Some argv_copy \<Rightarrow>
           (case to_pipe of
              None \<Rightarrow> (None, [])
            | Some (to0, to1) \<Rightarrow>
               (case from_pipe of
                  None \<Rightarrow> (None, [Close to0, Close to1])
                | Some (from0, from1) \<Rightarrow>
                   if pid < 0 then (None, [Close to0, Close to1, Close from0, Close from1])
                   else if pid = 0 then (None, [Dup2 to0 0, Dup2 from1 1, Close to0, Close to1, Close from0, Close from1,
                     Execvp (hd argv_copy) argv_copy, Exit 127])
                   else if \<not> mem E (1 + length argv)
                     then (None, [Close to0, Close from1, Close to1, Close from0, Kill pid SIGKILL, Waitpid pid False])
                   else (Some (zero_client\<lparr>mc_name := strdup E (2 + length argv) name,
                       mc_transport := MCP_CLIENT_TRANSPORT_STDIO, mc_child_pid := pid, mc_stdio_write_fd := to1,
                       mc_stdio_read_fd := from0, mc_argv_copy := Some argv_copy\<rparr>), [Close to0, Close from1])))))"
| "mcp_client_connect_stdio E name command argv to_pipe from_pipe pid = (None, [])"

fun mcp_client_connect_http :: "env \<Rightarrow> cstring option \<Rightarrow> cstring option \<Rightarrow> mcp_client option" where
  "mcp_client_connect_http E (Some name) (Some url) =
    (if name = [] then None
     else
       (case parse_http_url E url of
          (rc, host, port, path) \<Rightarrow>
            if rc \<noteq> 0 then None
            else if \<not> mem E 2 then None
            else Some (zero_client\<lparr>mc_name := strdup E 3 name, mc_transport := MCP_CLIENT_TRANSPORT_HTTP,
              mc_http_host := host, mc_http_path := path, mc_http_port := port\<rparr>)))"
| "mcp_client_connect_http E name url = None"

text \<open>\<open>waits k\<close> is what the k-th \<open>waitpid\<close> returns. The loop asks at most 20 times.\<close>

fun wait_exit :: "(nat \<Rightarrow> int) \<Rightarrow> int \<Rightarrow> nat \<Rightarrow> nat \<Rightarrow> os_call list \<times> nat" where
  "wait_exit waits pid k 0 = ([], k)"
| "wait_exit waits pid k (Suc n) =
    (if waits k = pid \<or> waits k < 0 then ([Waitpid pid True], k + 1)
     else (case wait_exit waits pid (k + 1) n of (calls, k') \<Rightarrow> (Waitpid pid True # Sleep 100 # calls, k')))"

definition stop_child :: "(nat \<Rightarrow> int) \<Rightarrow> int \<Rightarrow> os_call list" where
  "stop_child waits pid =
    (case wait_exit waits pid 0 20 of
       (calls, k) \<Rightarrow> [Kill pid SIGTERM] @ calls @ [Waitpid pid True] @
         (if waits k = 0 then [Kill pid SIGKILL, Waitpid pid False] else []))"

text \<open>The handle is freed in any case.\<close>

definition mcp_client_disconnect :: "env \<Rightarrow> (nat \<Rightarrow> int) \<Rightarrow> mcp_client option \<Rightarrow> int \<times> os_call list" where
  "mcp_client_disconnect E waits client = (case client of
      None \<Rightarrow> (err E AIRY_ERR_INVALID_PARAM, [])
    | Some c \<Rightarrow>
       (0, if mc_transport c = MCP_CLIENT_TRANSPORT_STDIO
           then (if 0 \<le> mc_stdio_write_fd c then [Close (mc_stdio_write_fd c)] else []) @
                (if 0 \<le> mc_stdio_read_fd c then [Close (mc_stdio_read_fd c)] else []) @
                (if 0 < mc_child_pid c then stop_child waits (mc_child_pid c) else [])
           else []))"

definition mcp_client_tool_list_free :: "mcp_client_tool list option \<Rightarrow> mcp_client_tool list option" where
  "mcp_client_tool_list_free l = map_option (\<lambda>_. []) l"

fun mcp_client_transport_string :: "mcp_client_transport \<Rightarrow> cstring" where
  "mcp_client_transport_string MCP_CLIENT_TRANSPORT_STDIO = ''stdio''"
| "mcp_client_transport_string MCP_CLIENT_TRANSPORT_HTTP = ''http''"
| "mcp_client_transport_string MCP_CLIENT_TRANSPORT_NONE = ''none''"

section \<open>No descriptor and no child is left behind\<close>

fun closed_fd :: "os_call \<Rightarrow> int list" where
  "closed_fd (Close fd) = [fd]"
| "closed_fd c = []"

abbreviation closes :: "os_call list \<Rightarrow> int list" where
  "closes calls \<equiv> concat (map closed_fd calls)"

lemma wait_exit_closes: "wait_exit waits pid k n = (calls, k') \<Longrightarrow> closes calls = []"
  by (induction n arbitrary: k calls) (auto split: if_splits prod.splits)

text \<open>
  How the child ends. When the loop saw it go, or the question fails, it is reaped; otherwise
  the last question decides: still running (0) means that it is killed and waited for.
\<close>

lemma wait_exit_result:
  "wait_exit waits pid k n = (calls, k') \<Longrightarrow> k \<le> k' \<and> k' \<le> k + n \<and> (\<forall>j. k \<le> j \<and> j + 1 < k' \<longrightarrow> waits j \<noteq> pid \<and> 0 \<le> waits j) \<and>
   (k' < k + n \<longrightarrow> k < k' \<and> (waits (k' - 1) = pid \<or> waits (k' - 1) < 0))"
proof (induction n arbitrary: k calls)
  case (Suc n)
  show ?case
  proof (cases "waits k = pid \<or> waits k < 0")
    case True
    then show ?thesis using Suc.prems by auto
  next
    case False
    then obtain cs where w: "wait_exit waits pid (k + 1) n = (cs, k')" using Suc.prems by (auto split: prod.splits)
    from Suc.IH [OF this] False show ?thesis by (auto simp: Suc_le_eq) (metis le_eq_less_or_eq not_less)+
  qed
qed simp

definition opened :: "(int \<times> int) option \<Rightarrow> (int \<times> int) option \<Rightarrow> int list" where
  "opened to_pipe from_pipe = (case to_pipe of None \<Rightarrow> []
     | Some (a, b) \<Rightarrow> a # b # (case from_pipe of None \<Rightarrow> [] | Some (x, y) \<Rightarrow> [x, y]))"

definition fds_ok :: "(int \<times> int) option \<Rightarrow> bool" where
  "fds_ok pp \<longleftrightarrow> (case pp of None \<Rightarrow> True | Some (a, b) \<Rightarrow> 0 \<le> a \<and> 0 \<le> b)"

text \<open>
  C17: the life of a pipe client leaves nothing behind in the parent. If connecting fails, each
  descriptor of the pipes that were opened has been closed exactly once, and a child that was
  started is killed and reaped. If it succeeds, connecting and disconnecting together close
  each descriptor exactly once; the child is asked to end and polled at most 21 times, and
  when the last answer is that it still runs, it is killed and waited for.
\<close>

theorem client_leaves_nothing:
  assumes "name \<noteq> []" "argv \<noteq> []" "copy_argv E argv \<noteq> None" "pid \<noteq> 0" "fds_ok to_pipe" "fds_ok from_pipe"
    "mcp_client_connect_stdio E (Some name) (Some command) (Some argv) to_pipe from_pipe pid = (client, calls)"
  shows "case client of
      None \<Rightarrow> mset (closes calls) = mset (opened to_pipe from_pipe) \<and>
        (to_pipe \<noteq> None \<and> from_pipe \<noteq> None \<and> 0 < pid \<longrightarrow> suffix [Kill pid SIGKILL, Waitpid pid False] calls)
    | Some c \<Rightarrow> (\<exists>more k. mcp_client_disconnect E waits client = (0, more) \<and>
        mset (closes (calls @ more)) = mset (opened to_pipe from_pipe) \<and>
        Kill pid SIGTERM \<in> set more \<and> k \<le> 20 \<and> (\<forall>j. j + 1 < k \<longrightarrow> waits j \<noteq> pid \<and> 0 \<le> waits j) \<and>
        (k < 20 \<longrightarrow> waits (k - 1) = pid \<or> waits (k - 1) < 0) \<and>
        (waits k = 0 \<longrightarrow> suffix [Kill pid SIGKILL, Waitpid pid False] more))"
proof (cases client)
  case None
  then show ?thesis
    using assms by (auto simp: opened_def suffix_def split: option.splits if_splits prod.splits)
next
  case (Some c)
  then obtain a b x y where fds: "to_pipe = Some (a, b)" "from_pipe = Some (x, y)" "0 \<le> b" "0 \<le> x"
    and c: "mc_transport c = MCP_CLIENT_TRANSPORT_STDIO" "mc_stdio_write_fd c = b" "mc_stdio_read_fd c = x"
      "mc_child_pid c = pid" "0 < pid" "calls = [Close a, Close y]"
    using assms by (auto simp: fds_ok_def split: option.splits if_splits prod.splits)
  obtain asks k where w: "wait_exit waits pid 0 20 = (asks, k)" by (cases "wait_exit waits pid 0 20")
  define tl where "tl = (if waits k = 0 then [Kill pid SIGKILL, Waitpid pid False] else [])"
  have d: "mcp_client_disconnect E waits client = (0, [Close b, Close x, Kill pid SIGTERM] @ asks @ Waitpid pid True # tl)"
    using fds c w by (simp add: Some mcp_client_disconnect_def stop_child_def tl_def)
  have "closes tl = []" by (auto simp: tl_def)
  moreover have "suffix [Kill pid SIGKILL, Waitpid pid False] ([Close b, Close x, Kill pid SIGTERM] @ asks @ Waitpid pid True # tl)"
    if "waits k = 0"
    using that unfolding tl_def suffix_def by (intro exI [of _ "[Close b, Close x, Kill pid SIGTERM] @ asks @ [Waitpid pid True]"]) simp
  ultimately show ?thesis
    using d wait_exit_result [OF w] wait_exit_closes [OF w] fds c(6)
    by (auto simp: Some opened_def intro!: exI [of _ k])
qed

theorem client_leaves_nothing_witness:
  "\<exists>c more. mcp_client_connect_stdio env0 (Some ''fs'') (Some ''npx'') (Some [''npx'', ''server'']) (Some (3, 4)) (Some (5, 6)) 77 =
      (Some c, [Close 3, Close 6]) \<and> mcp_client_disconnect env0 (\<lambda>k. if k < 3 then 0 else 77) (Some c) = (0, more) \<and>
    mset (closes ([Close 3, Close 6] @ more)) = {#3, 4, 5, 6#}"
proof -
  have cp: "copy_argv env0 [''npx'', ''server''] = Some [''npx'', ''server'']" by (simp add: copy_argv_def)
  obtain c where c: "mcp_client_connect_stdio env0 (Some ''fs'') (Some ''npx'') (Some [''npx'', ''server'']) (Some (3, 4)) (Some (5, 6)) 77 =
      (Some c, [Close 3, Close 6])" using cp by simp
  from client_leaves_nothing [OF _ _ _ _ _ _ this, of "\<lambda>k. if k < 3 then 0 else 77"] cp
  show ?thesis unfolding c by (fastforce simp: fds_ok_def opened_def simp del: mcp_client_connect_stdio.simps)
qed

section \<open>A session over the pipe\<close>

text \<open>A pipe that keeps accepting bytes: interruptions, and writes of at least one byte.\<close>

fun accepts :: "write_event \<Rightarrow> bool" where
  "accepts (Wrote n) \<longleftrightarrow> 0 < n"
| "accepts W_poll_intr \<longleftrightarrow> True"
| "accepts W_intr \<longleftrightarrow> True"
| "accepts W_again \<longleftrightarrow> True"
| "accepts ev \<longleftrightarrow> False"

definition writes_left :: "write_event list \<Rightarrow> nat" where
  "writes_left ws = length (filter (\<lambda>w. \<exists>n. w = Wrote n) ws)"

lemma writes_left_simps [simp]:
  "writes_left [] = 0" "writes_left (Wrote n # ws) = Suc (writes_left ws)"
  "writes_left (W_poll_intr # ws) = writes_left ws" "writes_left (W_intr # ws) = writes_left ws"
  "writes_left (W_again # ws) = writes_left ws"
  by (simp_all add: writes_left_def)

lemma write_all_accepts:
  "list_all accepts ws \<Longrightarrow> length xs \<le> writes_left ws \<Longrightarrow>
   \<exists>ws'. write_all_with_timeout E ws xs = Some (0, xs, ws') \<and> list_all accepts ws' \<and>
     writes_left ws - length xs \<le> writes_left ws'"
proof (induction E ws xs rule: write_all_with_timeout.induct)
  case (3 E ev evs x xs)
  show ?case
  proof (cases ev)
    case (Wrote n)
    then have "list_all accepts evs" "length (drop n (x # xs)) \<le> writes_left evs" using "3.prems" by auto
    from "3.IH"(4) [OF Wrote this] obtain ws' where
      ws': "write_all_with_timeout E evs (drop n (x # xs)) = Some (0, drop n (x # xs), ws')" "list_all accepts ws'"
        "writes_left evs - length (drop n (x # xs)) \<le> writes_left ws'" by blast
    have "write_all_with_timeout E (ev # evs) (x # xs) = Some (0, x # xs, ws')"
      using ws'(1) by (simp add: Wrote del: drop_Cons take_Cons)
    moreover have "writes_left (ev # evs) - length (x # xs) \<le> writes_left ws'" using ws'(3) Wrote "3.prems"(1) by (cases n) auto
    ultimately show ?thesis using ws'(2) by blast
  qed (use "3.IH" "3.prems" in auto)
qed auto

lemma send_accepts:
  assumes "list_all accepts ws" "length (wire b) \<le> writes_left ws" "length b < 2 ^ 64"
  shows "\<exists>ws'. stdio_send_message E ws b = Some (0, wire b, ws') \<and> list_all accepts ws' \<and>
    writes_left ws - length (wire b) \<le> writes_left ws'"
proof -
  have s: "snprintf 64 (frame_head b) = frame_head b" using frame_head_length [OF assms(3)] by simp
  have l: "length (wire b) = length (frame_head b) + length b" by (simp add: wire_def)
  from write_all_accepts [OF assms(1), of "frame_head b" E] assms(2) l obtain w1 where
    w1: "write_all_with_timeout E ws (frame_head b) = Some (0, frame_head b, w1)" "list_all accepts w1"
      "writes_left ws - length (frame_head b) \<le> writes_left w1" by auto
  have "length b \<le> writes_left w1" using w1(3) assms(2) l by linarith
  from write_all_accepts [OF w1(2) this, of E] obtain w2 where
    w2: "write_all_with_timeout E w1 b = Some (0, b, w2)" "list_all accepts w2"
      "writes_left w1 - length b \<le> writes_left w2" by auto
  show ?thesis using w1 w2 l by (simp add: stdio_send_message_def s wire_def)
qed

text \<open>
  A client in a session: \<open>bs\<close> are the messages of the server not yet read and \<open>r\<close> the bytes behind
  them, \<open>k\<close> is the number of writes the pipe still takes. No read brings more behind a frame than the
  frame has, and all readings of the clock lie within the time a request may take.
\<close>

definition clock_ok :: "client_io \<Rightarrow> bool" where
  "clock_ok io \<longleftrightarrow> (\<forall>m n. io_now io m < io_now io n + MCP_CLIENT_DEFAULT_TIMEOUT_MS)"

definition in_session :: "mcp_client \<Rightarrow> client_io \<Rightarrow> cstring list \<Rightarrow> char list \<Rightarrow> nat \<Rightarrow> bool" where
  "in_session c io bs r k \<longleftrightarrow> mc_transport c = MCP_CLIENT_TRANSPORT_STDIO \<and> fp_state (mc_parser c) = MCP_FRAME_STATE_HEADER \<and>
     list_all body_ok bs \<and> fp_buf (mc_parser c) @ concat (map bytes_of (io_reads io)) = concat (map wire bs) @ r \<and>
     list_all benign (io_reads io) \<and>
     spaced (length (fp_buf (mc_parser c))) (sizes (io_reads io)) (map (\<lambda>b. length (wire b)) bs) \<and>
     list_all accepts (io_writes io) \<and> k \<le> writes_left (io_writes io) \<and> clock_ok io"

lemma c_int_small: "0 \<le> x \<Longrightarrow> x < 2 ^ 31 \<Longrightarrow> c_int x = x"
  by (simp add: c_int_def sint_sbintrunc' signed_take_bit_int_eq_self)

text \<open>The waiting loop skips what is not the response, and returns the response.\<close>

lemma rpc_wait_step:
  assumes "memcpy_ok cp" "mem_ok E" "in_session c io (x # bs) r k"
    "\<forall>m. io_now io m < deadline \<and> deadline \<le> io_now io m + 120000"
  shows "\<exists>p es. in_session (c\<lparr>mc_parser := p\<rparr>) (io\<lparr>io_tick := io_tick io + 1, io_reads := es\<rparr>) bs r k \<and>
    (response_id_matches E C (Some x) i = Some 1 \<longrightarrow>
      rpc_wait E cp C i deadline c io = Some (0, Some x, c\<lparr>mc_parser := p\<rparr>, io\<lparr>io_tick := io_tick io + 1, io_reads := es\<rparr>)) \<and>
    (response_id_matches E C (Some x) i = Some 0 \<longrightarrow>
      rpc_wait E cp C i deadline c io = rpc_wait E cp C i deadline (c\<lparr>mc_parser := p\<rparr>) (io\<lparr>io_tick := io_tick io + 1, io_reads := es\<rparr>))"
proof -
  let ?t = "c_int (deadline - io_now io (io_tick io))"
  have t: "0 < ?t" "io_now io (io_tick io) < deadline" using assms(4) c_int_small [of "deadline - io_now io (io_tick io)"] by simp_all smt
  have s: "at_frame x (mc_parser c)" "fp_buf (mc_parser c) @ concat (map bytes_of (io_reads io)) = wire x @ concat (map wire bs) @ r"
    "list_all benign (io_reads io)" "body_ok x"
    "spaced (length (fp_buf (mc_parser c))) (sizes (io_reads io)) (length (wire x) # map (\<lambda>b. length (wire b)) bs)"
    using assms(3) by (auto simp: in_session_def at_frame_def)
  from read_one [OF assms(1,2) s(4) t(1) s(1-3,5)] obtain p es where
    p: "stdio_read_message E cp (mc_parser c) ?t (io_reads io) = Some (0, Some x, p, es)"
      "fp_state p = MCP_FRAME_STATE_HEADER" "fp_buf p @ concat (map bytes_of es) = concat (map wire bs) @ r" "list_all benign es"
      "spaced (length (fp_buf p)) (sizes es) (map (\<lambda>b. length (wire b)) bs)" by blast
  then have "in_session (c\<lparr>mc_parser := p\<rparr>) (io\<lparr>io_tick := io_tick io + 1, io_reads := es\<rparr>) bs r k"
    using assms(3) by (auto simp: in_session_def clock_ok_def)
  then show ?thesis
    using t(2) p(1) by (intro exI [of _ p] exI [of _ es]) (auto simp: rpc_wait.simps [of E cp C i deadline c io] now_ms_def Let_def)
qed

lemma rpc_wait_ok:
  assumes "memcpy_ok cp" "mem_ok E"
    "list_all (\<lambda>x. response_id_matches E C (Some x) i = Some 0) ns" "response_id_matches E C (Some resp) i = Some 1"
    "\<forall>m. io_now io m < deadline \<and> deadline \<le> io_now io m + 120000"
    "in_session c io (ns @ resp # bs) r k"
  shows "\<exists>p io'. rpc_wait E cp C i deadline c io = Some (0, Some resp, c\<lparr>mc_parser := p\<rparr>, io') \<and>
    in_session (c\<lparr>mc_parser := p\<rparr>) io' bs r k \<and> io_sent io' = io_sent io \<and> io_now io' = io_now io"
  using assms(3-6)
proof (induction ns arbitrary: c io)
  case Nil
  from rpc_wait_step [OF assms(1,2), of c io resp bs r k deadline C i] Nil obtain p es where
    "in_session (c\<lparr>mc_parser := p\<rparr>) (io\<lparr>io_tick := io_tick io + 1, io_reads := es\<rparr>) bs r k"
    "rpc_wait E cp C i deadline c io = Some (0, Some resp, c\<lparr>mc_parser := p\<rparr>, io\<lparr>io_tick := io_tick io + 1, io_reads := es\<rparr>)"
    by auto
  then show ?case by (intro exI [of _ p] exI [of _ "io\<lparr>io_tick := io_tick io + 1, io_reads := es\<rparr>"]) simp
next
  case (Cons x ns)
  from rpc_wait_step [OF assms(1,2), of c io x "ns @ resp # bs" r k deadline C i] Cons.prems obtain p es where
    1: "in_session (c\<lparr>mc_parser := p\<rparr>) (io\<lparr>io_tick := io_tick io + 1, io_reads := es\<rparr>) (ns @ resp # bs) r k"
      "rpc_wait E cp C i deadline c io = rpc_wait E cp C i deadline (c\<lparr>mc_parser := p\<rparr>) (io\<lparr>io_tick := io_tick io + 1, io_reads := es\<rparr>)"
    by auto
  with Cons.IH [of "io\<lparr>io_tick := io_tick io + 1, io_reads := es\<rparr>" "c\<lparr>mc_parser := p\<rparr>"] Cons.prems show ?case by simp
qed

text \<open>The text of a request.\<close>

definition request_text :: "cjson \<Rightarrow> u64 \<Rightarrow> cstring \<Rightarrow> cstring \<Rightarrow> cstring" where
  "request_text C i meth params = the (cj_print C (rpc_request i meth (parse_or_empty C 1 (Some params))))"

lemma printed: "cjson_ok C \<Longrightarrow> cj_print C j = Some (the (cj_print C j))"
  by (simp add: cjson_ok_def)

lemma matches_later [simp]: "response_id_matches (later k E) C frame i = response_id_matches E C frame i"
  unfolding response_id_matches_def later_sel ..

text \<open>A request goes out under the next id; a notification does not wait.\<close>

lemma exchange_sends:
  assumes "cjson_ok C" "length q < 2 ^ 64" "in_session c io bs r (length (wire q) + k)" "i = mc_request_id c + 1"
    "q = request_text C i meth ps"
  shows "\<exists>io1. in_session (c\<lparr>mc_request_id := i\<rparr>) io1 bs r k \<and> io_sent io1 = io_sent io @ wire q \<and> io_now io1 = io_now io \<and>
    client_rpc_exchange E cp C c meth (Some ps) expect io =
      (if expect then rpc_wait E cp C i (io_now io1 (io_tick io1) + MCP_CLIENT_DEFAULT_TIMEOUT_MS)
         (c\<lparr>mc_request_id := i\<rparr>) (io1\<lparr>io_tick := io_tick io1 + 1\<rparr>)
       else Some (0, None, c\<lparr>mc_request_id := i\<rparr>, io1))"
proof -
  have p: "cj_print C (rpc_request i meth (parse_or_empty C 1 (Some ps))) = Some q"
    using printed [OF assms(1)] by (simp add: assms(5) request_text_def)
  have s: "list_all accepts (io_writes io)" "length (wire q) + k \<le> writes_left (io_writes io)" "mc_transport c = MCP_CLIENT_TRANSPORT_STDIO"
    using assms(3) by (simp_all add: in_session_def)
  from send_accepts [OF s(1) _ assms(2), of E] s(2) obtain ws where
    ws: "stdio_send_message E (io_writes io) q = Some (0, wire q, ws)" "list_all accepts ws"
      "writes_left (io_writes io) - length (wire q) \<le> writes_left ws" by auto
  have new: "cj_new C 0" using assms(1) by (simp add: cjson_ok_def)
  let ?io = "io\<lparr>io_writes := ws, io_sent := io_sent io @ wire q\<rparr>"
  have "in_session (c\<lparr>mc_request_id := i\<rparr>) ?io bs r k"
    using assms(3) ws(2,3) s(2) by (simp add: in_session_def clock_ok_def)
  moreover have "client_rpc_exchange E cp C c meth (Some ps) expect io =
      (if expect then rpc_wait E cp C i (io_now ?io (io_tick ?io) + MCP_CLIENT_DEFAULT_TIMEOUT_MS)
         (c\<lparr>mc_request_id := i\<rparr>) (?io\<lparr>io_tick := io_tick ?io + 1\<rparr>)
       else Some (0, None, c\<lparr>mc_request_id := i\<rparr>, ?io))"
    using p ws(1) s(3) new by (simp add: client_rpc_exchange_def assms(4) [symmetric] now_ms_def Let_def)
  ultimately show ?thesis by (intro exI [of _ ?io]) simp
qed

lemma exchange_replies:
  assumes "cjson_ok C" "length q < 2 ^ 64" "memcpy_ok cp" "mem_ok E" "i = mc_request_id c + 1" "q = request_text C i meth ps"
    "list_all (\<lambda>x. response_id_matches E C (Some x) i = Some 0) ns" "response_id_matches E C (Some resp) i = Some 1"
    "in_session c io (ns @ resp # bs) r (length (wire q) + k)"
  shows "\<exists>p io'. client_rpc_exchange E cp C c meth (Some ps) True io =
      Some (0, Some resp, c\<lparr>mc_request_id := i, mc_parser := p\<rparr>, io') \<and>
    in_session (c\<lparr>mc_request_id := i, mc_parser := p\<rparr>) io' bs r k \<and> io_sent io' = io_sent io @ wire q \<and> io_now io' = io_now io"
proof -
  from exchange_sends [OF assms(1,2,9,5,6), of E cp True] obtain io1 where
    io1: "in_session (c\<lparr>mc_request_id := i\<rparr>) io1 (ns @ resp # bs) r k"
      "io_sent io1 = io_sent io @ wire q" "io_now io1 = io_now io"
      "client_rpc_exchange E cp C c meth (Some ps) True io =
        rpc_wait E cp C i (io_now io1 (io_tick io1) + MCP_CLIENT_DEFAULT_TIMEOUT_MS)
         (c\<lparr>mc_request_id := i\<rparr>) (io1\<lparr>io_tick := io_tick io1 + 1\<rparr>)" by auto
  let ?io = "io1\<lparr>io_tick := io_tick io1 + 1\<rparr>" and ?d = "io_now io1 (io_tick io1) + MCP_CLIENT_DEFAULT_TIMEOUT_MS"
  have "in_session (c\<lparr>mc_request_id := i\<rparr>) ?io (ns @ resp # bs) r k"
    using io1(1) by (simp add: in_session_def clock_ok_def)
  moreover have "\<forall>m. io_now ?io m < ?d \<and> ?d \<le> io_now ?io m + 120000"
    using io1(1) by (auto simp: in_session_def clock_ok_def) (smt (verit))
  ultimately show ?thesis
    using rpc_wait_ok [OF assms(3,4,7,8), of ?io ?d "c\<lparr>mc_request_id := i\<rparr>" bs r k] io1 by auto
qed

lemma initialize_accepted:
  assumes "cj_parse C r = Some doc" "\<not> is_object (cj_item C doc ''error'')" "is_object (cj_item C doc ''result'')"
  shows "\<exists>sn. parse_initialize_response E C c (Some r) = (0, c\<lparr>mc_server_name := sn\<rparr>)"
proof -
  have same: "\<exists>sn. c = c\<lparr>mc_server_name := sn\<rparr>" by (rule exI [of _ "mc_server_name c"]) simp
  show ?thesis
    using assms same
    by (cases "if is_object (item_of C (cj_item C doc ''result'') ''serverInfo'')
        then str_of (item_of C (item_of C (cj_item C doc ''result'') ''serverInfo'') ''name'') else None")
      (auto simp: parse_initialize_response_def Let_def)
qed

lemma in_session_fields [simp]:
  "in_session (c\<lparr>mc_server_name := sn\<rparr>) io bs r k = in_session c io bs r k"
  "in_session (c\<lparr>mc_initialized := b\<rparr>) io bs r k = in_session c io bs r k"
  by (simp_all add: in_session_def)

text \<open>
  C16: the first tool call of a pipe client. Whatever other messages the server mixes in, and
  however the bytes are cut, as long as no read brings more behind a frame than the frame has, a
  client that is not initialised sends exactly three messages: the request \<open>initialize\<close> with the
  next id, the notification, and the call, numbered in this order; it returns the response that
  carries the id of the call, and is initialised. The bytes that the server sent after the
  response stay for the next call. (Beyond that limit the parser's \<open>memcpy\<close> overlaps itself.)
\<close>

theorem client_tool_session:
  assumes "cjson_ok C" "memcpy_ok cp" "mem_ok E" "codes_ok E" "max (length q1) (max (length q2) (length q3)) < 2 ^ 64"
    and "\<not> mc_initialized c" "n = mc_request_id c"
    and q: "q1 = request_text C (n + 1) ''initialize'' initialize_params"
      "q2 = request_text C (n + 2) ''notifications/initialized'' ''{}''"
      "q3 = request_text C (n + 3) ''tools/call'' ps"
      "cj_print C (call_params C name args) = Some ps"
    and init: "list_all (\<lambda>x. response_id_matches E C (Some x) (n + 1) = Some 0) ns1"
      "response_id_matches E C (Some r1) (n + 1) = Some 1"
      "cj_parse C r1 = Some doc" "\<not> is_object (cj_item C doc ''error'')" "is_object (cj_item C doc ''result'')"
    and call: "list_all (\<lambda>x. response_id_matches E C (Some x) (n + 3) = Some 0) ns2"
      "response_id_matches E C (Some r2) (n + 3) = Some 1"
    and start: "in_session c io (ns1 @ r1 # ns2 @ r2 # bs) rest (length (wire q1) + (length (wire q2) + length (wire q3)))"
  shows "\<exists>c' io'. mcp_client_call_tool E cp C (Some c) (Some name) args True io = Some (0, Some r2, Some c', io') \<and>
    io_sent io' = io_sent io @ wire q1 @ wire q2 @ wire q3 \<and> mc_initialized c' \<and> mc_request_id c' = n + 3 \<and>
    in_session c' io' bs rest 0"
proof -
  have small: "length q1 < 2 ^ 64" "length q2 < 2 ^ 64" "length q3 < 2 ^ 64" using assms(5) by simp_all
  have one: "n + 1 = mc_request_id c + 1" by (simp add: assms(7))
  from exchange_replies [OF assms(1) small(1) assms(2,3) one q(1) init(1,2) start] obtain p1 io1 where x1: "client_rpc_exchange E cp C c ''initialize'' (Some initialize_params) True io =
      Some (0, Some r1, c\<lparr>mc_request_id := n + 1, mc_parser := p1\<rparr>, io1)"
    "in_session (c\<lparr>mc_request_id := n + 1, mc_parser := p1\<rparr>) io1 (ns2 @ r2 # bs) rest
      (length (wire q2) + length (wire q3))" "io_sent io1 = io_sent io @ wire q1" by auto
  define c1 where "c1 = c\<lparr>mc_request_id := n + 1, mc_parser := p1\<rparr>"
  obtain c2 where c2: "parse_initialize_response E C c1 (Some r1) = (0, c2)" "mc_request_id c2 = n + 1"
    "in_session (c2\<lparr>mc_initialized := True\<rparr>) io1 (ns2 @ r2 # bs) rest (length (wire q2) + length (wire q3))"
    using initialize_accepted [OF init(3-5), of E c1] x1(2) by (auto simp: c1_def)
  let ?c2 = "c2\<lparr>mc_initialized := True\<rparr>"
  have two: "mc_request_id ?c2 + 1 = n + 2" by (simp add: c2(2))
  from exchange_sends [OF assms(1) small(2) c2(3) two [symmetric] q(2), of "later 6 E" cp False] obtain io2 where
    io2: "in_session (?c2\<lparr>mc_request_id := n + 2\<rparr>) io2 (ns2 @ r2 # bs) rest (length (wire q3))"
    "io_sent io2 = io_sent io1 @ wire q2"
    "client_rpc_exchange (later 6 E) cp C ?c2 ''notifications/initialized'' (Some ''{}'') False io1 =
      Some (0, None, ?c2\<lparr>mc_request_id := n + 2\<rparr>, io2)" by auto
  have e: "client_ensure_initialized E cp C c io = Some (0, ?c2\<lparr>mc_request_id := n + 2\<rparr>, io2)"
    using assms(6) x1(1) c2(1) io2(3) by (simp add: client_ensure_initialized_def c1_def)
  let ?c3 = "?c2\<lparr>mc_request_id := n + 2\<rparr>"
  have three: "n + 3 = mc_request_id ?c3 + 1" by simp
  have "\<exists>p io'. client_rpc_exchange (later 11 E) cp C ?c3 ''tools/call'' (Some ps) True io2 =
      Some (0, Some r2, ?c3\<lparr>mc_request_id := n + 3, mc_parser := p\<rparr>, io') \<and>
    in_session (?c3\<lparr>mc_request_id := n + 3, mc_parser := p\<rparr>) io' bs rest 0 \<and> io_sent io' = io_sent io2 @ wire q3 \<and> io_now io' = io_now io2"
    using io2(1) call assms(3)
    by (intro exchange_replies [OF assms(1) small(3) assms(2) _ three q(3)]) simp_all
  then obtain p3 io3 where x3: "client_rpc_exchange (later 11 E) cp C ?c3 ''tools/call'' (Some ps) True io2 =
      Some (0, Some r2, ?c3\<lparr>mc_request_id := n + 3, mc_parser := p3\<rparr>, io3)"
    "in_session (?c3\<lparr>mc_request_id := n + 3, mc_parser := p3\<rparr>) io3 bs rest 0" "io_sent io3 = io_sent io2 @ wire q3" by blast
  have tr: "mc_transport c \<noteq> MCP_CLIENT_TRANSPORT_NONE" "cj_new C 2" using assms(1) start by (auto simp: in_session_def cjson_ok_def)
  have "mcp_client_call_tool E cp C (Some c) (Some name) args True io =
      Some (0, Some r2, Some (?c3\<lparr>mc_request_id := n + 3, mc_parser := p3\<rparr>), io3)"
    using tr e x3(1) q(4) by simp
  then show ?thesis using x3(2,3) io2(2) x1(3) by auto
qed

text \<open>What the client keeps of an array of tools: the entries with a name, in order.\<close>

definition tool_of :: "cjson \<Rightarrow> json \<Rightarrow> mcp_client_tool option" where
  "tool_of C t = map_option (\<lambda>name. \<lparr>ct_name = name, ct_description = item_str C t ''description'',
     ct_input_schema_json = (case cj_item C t ''inputSchema'' of Some (JObj ms) \<Rightarrow> cj_print C (JObj ms) | _ \<Rightarrow> None)\<rparr>)
     (item_str C t ''name'')"

lemma fill_tools_eq: "mem_ok E \<Longrightarrow> fill_tools E C k ts = List.map_filter (tool_of C) ts"
  by (induction ts arbitrary: k) (auto simp: map_filter_simps tool_of_def split: option.split)

lemma read_tools_exact:
  assumes "mem_ok E" "cj_parse C r = Some doc" "\<not> is_object (cj_item C doc ''error'')"
    "is_object (cj_item C doc ''result'')" "item_of C (cj_item C doc ''result'') ''tools'' = Some (JArr ts)"
  shows "read_tools E C (Some r) = (0, List.map_filter (tool_of C) ts)"
  using assms by (simp add: read_tools_def fill_tools_eq map_filter_simps)

lemma extract_text_reads:
  assumes "mem_ok E" "cj_parse C r = Some doc" "\<not> is_object (cj_item C doc ''error'')"
    "is_object (cj_item C doc ''result'')" "item_of C (cj_item C doc ''result'') ''content'' = Some (JArr (x # xs))"
    "item_str C x ''text'' = Some t"
  shows "mcp_client_extract_text E C (Some r) = Some (0, Some (escape_text t))"
  using assms by (simp add: mcp_client_extract_text_def text_out_def Let_def)

section \<open>A closed instance\<close>

definition doc_reply :: "real \<Rightarrow> json" where
  "doc_reply i = JObj [(''id'', JNum i), (''result'', JObj [])]"

definition session_json :: cjson where
  "session_json = cjson_reading [JObj [], doc_reply 1, doc_reply 3]"

lemma session_reply:
  "cj_parse session_json (json_text (doc_reply 1)) = Some (doc_reply 1)"
  "cj_parse session_json (json_text (doc_reply 3)) = Some (doc_reply 3)"
  "cj_parse session_json ''{}'' = Some (JObj [])"
  "cj_item session_json (doc_reply i) ''id'' = Some (JNum i)"
  "cj_item session_json (doc_reply i) ''error'' = None"
  "cj_item session_json (doc_reply i) ''result'' = Some (JObj [])"
  "cj_item session_json (JObj []) k = None"
  by (simp_all add: session_json_def cjson_reading_def doc_reply_def show_int_def show_nat.simps)

lemma session_ids:
  "response_id_matches env0 session_json (Some (json_text (doc_reply 1))) 1 = Some 1"
  "response_id_matches env0 session_json (Some (json_text (doc_reply 3))) 3 = Some 1"
  "response_id_matches env0 session_json (Some ''{}'') i = Some 0"
  by (simp_all add: response_id_matches_def session_reply)

lemma session_bodies: "body_ok ''{}''" "body_ok (json_text (doc_reply 1))" "body_ok (json_text (doc_reply 3))"
  "length (json_text (doc_reply 1)) \<le> 100" "length (json_text (doc_reply 3)) \<le> 100"
  by (simp_all add: body_ok_def doc_reply_def show_int_def show_nat.simps)

lemma replicate_writes [simp]: "writes_left (replicate n (Wrote m)) = n" "list_all accepts (replicate n (Wrote (Suc m)))"
  by (induction n) simp_all

definition session_io :: client_io where
  "session_io = \<lparr>io_writes = replicate 2000 (Wrote 1),
     io_reads = [Chunk (wire ''{}''), Chunk (wire (json_text (doc_reply 1)) @ take 5 (wire (json_text (doc_reply 3)))),
       Chunk (drop 5 (wire (json_text (doc_reply 3))))],
     io_dials = [], io_now = (\<lambda>_. 0), io_tick = 0, io_sent = []\<rparr>"

definition session_client :: mcp_client where
  "session_client = zero_client\<lparr>mc_transport := MCP_CLIENT_TRANSPORT_STDIO\<rparr>"

lemma session_requests:
  "length (request_text session_json 1 ''initialize'' initialize_params) \<le> 100"
  "length (request_text session_json 2 ''notifications/initialized'' ''{}'') \<le> 100"
  "length (request_text session_json 3 ''tools/call'' (json_text (call_params session_json ''ls'' None))) \<le> 100"
  by (simp_all add: request_text_def rpc_request_def parse_or_empty_def session_json_def cjson_reading_def
      initialize_params_def doc_reply_def call_params_def show_int_def show_nat.simps)

lemma wire_short: "length b \<le> 100 \<Longrightarrow> length (wire b) \<le> 140"
  using frame_head_length [of b] by (simp add: wire_def)

theorem client_tool_session_witness:
  "\<exists>c' io'. mcp_client_call_tool env0 (\<lambda>b off n. take n (drop off b)) session_json (Some session_client) (Some ''ls'') None True
      session_io = Some (0, Some (json_text (doc_reply 3)), Some c', io') \<and> mc_initialized c' \<and> mc_request_id c' = 3"
proof -
  let ?q1 = "request_text session_json 1 ''initialize'' initialize_params"
  let ?q2 = "request_text session_json 2 ''notifications/initialized'' ''{}''"
  let ?ps = "json_text (call_params session_json ''ls'' None)"
  let ?q3 = "request_text session_json 3 ''tools/call'' ?ps"
  note w = session_requests [THEN wire_short]
  have ok: "cjson_ok session_json" "memcpy_ok (\<lambda>b off n. take n (drop off b))" by (simp_all add: session_json_def)
  have small: "max (length ?q1) (max (length ?q2) (length ?q3)) < 2 ^ 64" using session_requests by simp
  have c: "\<not> mc_initialized session_client" "0 = mc_request_id session_client" by (simp_all add: session_client_def zero_client_def)
  have p: "cj_print session_json (call_params session_json ''ls'' None) = Some ?ps" by (simp add: session_json_def cjson_reading_def)
  let ?w = "\<lambda>i. wire (json_text (doc_reply i))"
  have l: "length (wire ''{}'') \<le> 140" "length (?w 1) \<le> 140" "length (?w 3) \<le> 140" "5 \<le> length (?w 1)" "5 \<le> length (?w 3)"
    using session_bodies by (simp_all add: wire_short) (simp_all add: wire_def frame_head_def)
  have "0 < length (wire ''{}'')" by (simp add: wire_def frame_head_def)
  then have sp: "spaced 0 (sizes (io_reads session_io)) (map (\<lambda>b. length (wire b)) [''{}'', json_text (doc_reply 1), json_text (doc_reply 3)])"
    using l(4,5) by (simp add: session_io_def)
  then have s: "in_session session_client session_io ([''{}''] @ json_text (doc_reply 1) # [] @ json_text (doc_reply 3) # []) []
      (length (wire ?q1) + (length (wire ?q2) + length (wire ?q3)))"
    using w l session_bodies
    by (simp add: in_session_def session_client_def session_io_def zero_client_def frame_parser_init_def clock_ok_def del: spaced.simps)
  have "\<exists>c' io'. mcp_client_call_tool env0 (\<lambda>b off n. take n (drop off b)) session_json (Some session_client) (Some ''ls'') None True
      session_io = Some (0, Some (json_text (doc_reply 3)), Some c', io') \<and>
    io_sent io' = io_sent session_io @ wire ?q1 @ wire ?q2 @ wire ?q3 \<and> mc_initialized c' \<and> mc_request_id c' = 0 + 3 \<and>
    in_session c' io' [] [] 0"
    by (rule client_tool_session [OF ok env0_ok(3,1) small c _ _ _ p _ _ session_reply(1) _ _ _ _ s])
      (simp_all add: session_ids session_reply is_object_def)
  then show ?thesis by auto
qed

end
