(* ===== verification/Protocol_Detect.thy ===== *)
theory Protocol_Detect
  imports Unified_Message Cjson
begin

text \<open>
  The probe that classifies a request body by its shape (\<open>protocol_detect.c\<close>), and the
  HTTP POST helper of the protocol family (\<open>proto_http.c\<close>) over the curl library.
\<close>

section \<open>Classifying a body\<close>

abbreviation AIRY_PROTOCOL_LLM :: protocol_type where "AIRY_PROTOCOL_LLM \<equiv> AIRY_PROTOCOL_VENDOR_BASE"

definition has_key :: "cjson \<Rightarrow> json \<Rightarrow> cstring \<Rightarrow> bool" where
  "has_key C obj key \<longleftrightarrow> cj_item_cs C obj key \<noteq> None"

definition method_has_prefix :: "json option \<Rightarrow> cstring \<Rightarrow> bool" where
  "method_has_prefix meth pre = (case str_of meth of None \<Rightarrow> False | Some s \<Rightarrow> strncmp_eq (length pre) s pre)"

definition proto_detect_body :: "cjson \<Rightarrow> char list option \<Rightarrow> protocol_type" where
  "proto_detect_body C data =
    (case (case data of None \<Rightarrow> None | Some bs \<Rightarrow> if bs = [] then None else cj_parse_len C bs) of
       None \<Rightarrow> AIRY_PROTOCOL_COUNT
     | Some doc \<Rightarrow>
        (let jsonrpc = cj_item_cs C doc ''jsonrpc''; meth = cj_item_cs C doc ''method'' in
         if str_of jsonrpc = Some ''2.0'' \<and> str_of meth \<noteq> None
         then
           if method_has_prefix meth ''tools/'' \<or> method_has_prefix meth ''resources/'' \<or> method_has_prefix meth ''prompts/''
           then AIRY_PROTOCOL_MCP
           else if method_has_prefix meth ''tasks/'' \<or> method_has_prefix meth ''task/'' \<or> method_has_prefix meth ''message/''
           then AIRY_PROTOCOL_A2A
           else AIRY_PROTOCOL_JSON_RPC
         else if has_key C doc ''model'' \<and> (has_key C doc ''messages'' \<or> has_key C doc ''prompt'') then AIRY_PROTOCOL_LLM
         else if has_key C doc ''agent_id'' \<and> (has_key C doc ''task_id'' \<or> has_key C doc ''message'') then AIRY_PROTOCOL_A2A
         else if has_key C doc ''agentCard'' \<or> has_key C doc ''task'' \<or> has_key C doc ''a2a'' then AIRY_PROTOCOL_A2A
         else AIRY_PROTOCOL_COUNT))"

section \<open>Posting a body\<close>

text \<open>
  What curl does in one transfer: whether a handle is there, the pieces of the response it
  would deliver, its own result (\<open>True\<close> for \<open>CURLE_OK\<close>) and the status. A piece whose callback
  does not take all its bytes ends the transfer with an error.
\<close>

datatype proto_http_result = PROTO_HTTP_OK | PROTO_HTTP_E_INIT | PROTO_HTTP_E_TRANSPORT

record curl_run =
  cu_init :: bool
  cu_pieces :: "char list list"
  cu_ok :: bool
  cu_code :: int

text \<open>The callback on the buffer, \<open>None\<close> before the first piece; \<open>i\<close> counts the allocations.\<close>

definition proto_http_write_cb :: "env \<Rightarrow> nat \<Rightarrow> char list \<Rightarrow> char list option \<Rightarrow> nat \<times> char list option" where
  "proto_http_write_cb E i piece buf =
    (if \<not> mem E i then (0, buf)
     else (length piece, Some ((case buf of None \<Rightarrow> [] | Some b \<Rightarrow> b) @ piece)))"

fun run_pieces :: "env \<Rightarrow> nat \<Rightarrow> char list list \<Rightarrow> char list option \<Rightarrow> bool \<times> char list option" where
  "run_pieces E i [] buf = (True, buf)"
| "run_pieces E i (p # ps) buf =
    (case proto_http_write_cb E i p buf of
       (n, buf') \<Rightarrow> if n \<noteq> length p then (False, buf') else run_pieces E (i + 1) ps buf')"

text \<open>
  The result, the body and the status; \<open>curl\<close>: the library was built in; \<open>outb\<close>, \<open>outc\<close>: the
  output pointers were given. \<open>None\<close>: the body is stored through a NULL pointer.
\<close>

definition proto_http_post ::
  "env \<Rightarrow> bool \<Rightarrow> curl_run \<Rightarrow> bool \<Rightarrow> bool \<Rightarrow> (proto_http_result \<times> char list option \<times> int) option" where
  "proto_http_post E curl run outb outc =
    (if \<not> curl \<or> \<not> cu_init run then Some (PROTO_HTTP_E_INIT, None, 0)
     else (case run_pieces E 0 (cu_pieces run) None of
             (taken, buf) \<Rightarrow>
               if \<not> taken \<or> \<not> cu_ok run then Some (PROTO_HTTP_E_TRANSPORT, None, 0)
               else if \<not> outb then None
               else Some (PROTO_HTTP_OK, buf, if outc then cu_code run else 0)))"

text \<open>With memory the body is the whole response, and NULL exactly when nothing was delivered.\<close>

lemma run_pieces_ok:
  "mem_ok E \<Longrightarrow> run_pieces E i ps buf =
    (True, if ps = [] then buf else Some ((case buf of None \<Rightarrow> [] | Some b \<Rightarrow> b) @ concat ps))"
  by (induction ps arbitrary: i buf) (auto simp: proto_http_write_cb_def)

lemma http_post_body:
  assumes "mem_ok E" "cu_init run" "cu_ok run"
  shows "proto_http_post E True run True True =
    Some (PROTO_HTTP_OK, if cu_pieces run = [] then None else Some (concat (cu_pieces run)), cu_code run)"
  using assms by (simp add: proto_http_post_def run_pieces_ok)

lemma http_post_error:
  "proto_http_post E curl run outb outc = Some (rc, body, code) \<Longrightarrow> rc \<noteq> PROTO_HTTP_OK \<Longrightarrow> body = None \<and> code = 0"
  by (auto simp: proto_http_post_def split: if_splits prod.splits)

end
