(* ===== verification/Protocol_Stack.thy ===== *)
theory Protocol_Stack
  imports Unified_Message
begin

text \<open>
  The protocol stack of \<open>common/src/unified_protocol.c\<close>, the stack manager and the static
  adapter of \<open>common/src/protocols_impl.c\<close> and the adapter wrappers of
  \<open>src/protocol_toplevel_impl.c\<close>.

  An adapter is a structure of nullable function pointers. Each function is given the
  context pointer and the state \<open>'w\<close> of everything outside the stack, and returns that
  state changed. Counters are 64-bit and wrap around; data is a string with the size
  that is passed beside it.
\<close>

section \<open>Data\<close>

type_synonym wire_data = "cstring option \<times> nat"

record 'w protocol_adapter =
  ad_type :: protocol_type
  ad_name :: "cstring option"
  ad_version :: "cstring option"
  ad_description :: "cstring option"
  ad_init :: "(ptr option \<Rightarrow> 'w \<Rightarrow> int \<times> 'w) option"
  ad_destroy :: "(ptr option \<Rightarrow> 'w \<Rightarrow> int \<times> 'w) option"
  ad_encode :: "(ptr option \<Rightarrow> unified_message \<Rightarrow> 'w \<Rightarrow> int \<times> wire_data \<times> 'w) option"
  ad_decode :: "(ptr option \<Rightarrow> wire_data \<Rightarrow> unified_message \<Rightarrow> 'w \<Rightarrow> int \<times> unified_message \<times> 'w) option"
  ad_connect :: "(ptr option \<Rightarrow> cstring \<Rightarrow> 'w \<Rightarrow> int \<times> 'w) option"
  ad_disconnect :: "(ptr option \<Rightarrow> 'w \<Rightarrow> int \<times> 'w) option"
  ad_is_connected :: "(ptr option \<Rightarrow> 'w \<Rightarrow> int \<times> 'w) option"
  ad_send :: "(ptr option \<Rightarrow> wire_data \<Rightarrow> 'w \<Rightarrow> int \<times> 'w) option"
  ad_receive :: "(ptr option \<Rightarrow> u32 \<Rightarrow> 'w \<Rightarrow> int \<times> wire_data \<times> 'w) option"
  ad_handle_request :: "(ptr option \<Rightarrow> ptr option \<Rightarrow> 'w \<Rightarrow> int \<times> ptr option \<times> 'w) option"
  ad_get_version :: "(ptr option \<Rightarrow> nat \<Rightarrow> 'w \<Rightarrow> int \<times> cstring \<times> 'w) option"
  ad_capabilities :: "(ptr option \<Rightarrow> 'w \<Rightarrow> u32 \<times> 'w) option"
  ad_get_stats :: "(ptr option \<Rightarrow> nat \<Rightarrow> 'w \<Rightarrow> int \<times> cstring \<times> 'w) option"
  ad_context :: "ptr option"
  ad_user_data :: "ptr option"

definition zero_adapter :: "'w protocol_adapter" where
  "zero_adapter = \<lparr>ad_type = 0, ad_name = None, ad_version = None, ad_description = None,
     ad_init = None, ad_destroy = None, ad_encode = None, ad_decode = None, ad_connect = None,
     ad_disconnect = None, ad_is_connected = None, ad_send = None, ad_receive = None,
     ad_handle_request = None, ad_get_version = None, ad_capabilities = None,
     ad_get_stats = None, ad_context = None, ad_user_data = None\<rparr>"

record protocol_stack_config =
  cf_name :: cstring
  cf_max_adapters :: u32
  cf_enable_logging :: bool
  cf_default_protocol :: protocol_type
  cf_max_message_size :: u32
  cf_timeout_ms :: u32
  cf_enable_compression :: bool
  cf_enable_encryption :: bool
  cf_custom_config :: "ptr option"

text \<open>A registered adapter always has its structure, so a node holds it by value.\<close>

record 'w protocol_adapter_node =
  nd_adapter :: "'w protocol_adapter"
  nd_context :: "ptr option"

record 'w protocol_stack =
  sk_config :: protocol_stack_config
  sk_adapters :: "'w protocol_adapter_node list"
  sk_adapter_count :: nat
  sk_initialized :: bool
  sk_message_callback :: "(unified_message \<Rightarrow> ptr option \<Rightarrow> 'w \<Rightarrow> 'w) option"
  sk_callback_user_data :: "ptr option"
  sk_messages_sent :: u64
  sk_messages_received :: u64
  sk_bytes_sent :: u64
  sk_bytes_received :: u64

section \<open>Operations of the stack\<close>

fun protocol_stack_create :: "env \<Rightarrow> protocol_stack_config option \<Rightarrow> 'w protocol_stack option" where
  "protocol_stack_create E None = None"
| "protocol_stack_create E (Some config) =
    (if \<not> mem E 0 then None
     else Some \<lparr>sk_config = (if mem E 1 then config\<lparr>cf_name := strncpy_term E 128 (cf_name config)\<rparr>
                              else config),
       sk_adapters = [], sk_adapter_count = 0, sk_initialized = True,
       sk_message_callback = None, sk_callback_user_data = None,
       sk_messages_sent = 0, sk_messages_received = 0, sk_bytes_sent = 0, sk_bytes_received = 0\<rparr>)"

text \<open>Destruction calls each adapter's \<open>destroy\<close>, newest first.\<close>

fun destroy_nodes :: "'w protocol_adapter_node list \<Rightarrow> 'w \<Rightarrow> 'w" where
  "destroy_nodes [] w = w"
| "destroy_nodes (n # ns) w = destroy_nodes ns
    (case ad_destroy (nd_adapter n) of None \<Rightarrow> w | Some f \<Rightarrow> snd (f (nd_context n) w))"

fun protocol_stack_destroy :: "'w protocol_stack option \<Rightarrow> 'w \<Rightarrow> 'w" where
  "protocol_stack_destroy None w = w"
| "protocol_stack_destroy (Some stack) w = destroy_nodes (sk_adapters stack) w"

definition find_adapter_node :: "'w protocol_stack \<Rightarrow> protocol_type \<Rightarrow> nat option" where
  "find_adapter_node stack type = find_idx (\<lambda>n. ad_type (nd_adapter n) = type) (sk_adapters stack)"

fun protocol_stack_register_adapter ::
  "env \<Rightarrow> 'w protocol_stack option \<Rightarrow> 'w protocol_adapter \<Rightarrow> 'w \<Rightarrow> int \<times> 'w protocol_stack option \<times> 'w" where
  "protocol_stack_register_adapter E None adapter w = (err E AIRY_ERR_UNKNOWN, None, w)"
| "protocol_stack_register_adapter E (Some stack) adapter w =
    (case find_adapter_node stack (ad_type adapter) of
       Some i \<Rightarrow>
         (let existing = sk_adapters stack ! i;
              w1 = (case ad_destroy (nd_adapter existing) of None \<Rightarrow> w
                    | Some f \<Rightarrow> snd (f (nd_context existing) w));
              stack1 = stack\<lparr>sk_adapters := (sk_adapters stack)[i := existing\<lparr>nd_adapter := adapter\<rparr>]\<rparr>;
              w2 = (case ad_init adapter of None \<Rightarrow> w1 | Some f \<Rightarrow> snd (f (nd_context existing) w1))
          in (0, Some stack1, w2))
     | None \<Rightarrow>
         if \<not> mem E 0 \<or> \<not> mem E 1 then (err E AIRY_ERR_OUT_OF_MEMORY, Some stack, w)
         else
           (let (result, w1) = (case ad_init adapter of None \<Rightarrow> (0, w) | Some f \<Rightarrow> f None w) in
            if result \<noteq> 0 then (result, Some stack, w1)
            else (0, Some (stack\<lparr>sk_adapters := \<lparr>nd_adapter = adapter, nd_context = None\<rparr> # sk_adapters stack,
                                 sk_adapter_count := sk_adapter_count stack + 1\<rparr>), w1)))"

text \<open>
  Sending: validate, find the adapter, encode, connect (0 and -2 both go on), hand over.
  An adapter without \<open>send\<close> passes the message to the stack's callback instead.
\<close>

fun protocol_stack_send ::
  "env \<Rightarrow> 'w protocol_stack option \<Rightarrow> unified_message option \<Rightarrow> 'w \<Rightarrow> int \<times> 'w protocol_stack option \<times> 'w" where
  "protocol_stack_send E (Some stack) (Some message) w =
    (let valid = validate_message E (Some message) in
     if valid \<noteq> 0 then (valid, Some stack, w)
     else case find_adapter_node stack (um_protocol message) of
       None \<Rightarrow> (err E AIRY_ERR_NOT_FOUND, Some stack, w)
     | Some i \<Rightarrow>
        (let node = sk_adapters stack ! i; adapter = nd_adapter node; ctx = nd_context node;
             (result, (encoded_data, encoded_size), w1) =
               (case ad_encode adapter of
                  None \<Rightarrow> (0, (um_payload message, um_payload_size message), w)
                | Some f \<Rightarrow> f ctx message w)
         in if result \<noteq> 0 then (result, Some stack, w1)
            else
              (let (conn_result, w2) = (case ad_connect adapter of None \<Rightarrow> (0, w1)
                                        | Some f \<Rightarrow> f ctx (um_endpoint message) w1)
               in if conn_result \<noteq> 0 \<and> conn_result \<noteq> - 2 then (conn_result, Some stack, w2)
                  else
                    (let (send_result, w3) =
                           (case ad_send adapter of
                              Some f \<Rightarrow> f ctx (encoded_data, encoded_size) w2
                            | None \<Rightarrow> (0, case sk_message_callback stack of None \<Rightarrow> w2
                                         | Some cb \<Rightarrow> cb message (sk_callback_user_data stack) w2))
                     in if send_result \<noteq> 0 then (send_result, Some stack, w3)
                        else (0, Some (stack\<lparr>sk_messages_sent := sk_messages_sent stack + 1,
                                sk_bytes_sent := sk_bytes_sent stack + of_nat encoded_size\<rparr>), w3)))))"
| "protocol_stack_send E stack message w = (err E AIRY_ERR_UNKNOWN, stack, w)"

text \<open>
  Receiving polls the adapters in list order. The message buffer is cleared once; an
  adapter whose decoder fails is skipped, and what it wrote stays in the buffer. The
  loop returns the buffer, the type and size of the first message, and the outside state.
\<close>

fun receive_loop :: "'w protocol_adapter_node list \<Rightarrow> u32 \<Rightarrow> unified_message \<Rightarrow> 'w \<Rightarrow>
    (protocol_type \<times> nat) option \<times> unified_message \<times> 'w" where
  "receive_loop [] timeout_ms message w = (None, message, w)"
| "receive_loop (node # nodes) timeout_ms message w =
    (case ad_receive (nd_adapter node) of
       None \<Rightarrow> receive_loop nodes timeout_ms message w
     | Some rcv \<Rightarrow>
        (let (result, (decoded_data, decoded_size), w1) = rcv (nd_context node) timeout_ms w in
         if result = 0 \<and> decoded_data \<noteq> None \<and> 0 < decoded_size
         then (case ad_decode (nd_adapter node) of
                 Some dec \<Rightarrow>
                   (let (dec_result, m1, w2) = dec (nd_context node) (decoded_data, decoded_size) message w1
                    in if dec_result \<noteq> 0 then receive_loop nodes timeout_ms m1 w2
                       else (Some (ad_type (nd_adapter node), decoded_size), m1, w2))
               | None \<Rightarrow> (Some (ad_type (nd_adapter node), decoded_size),
                   message\<lparr>um_payload := decoded_data, um_payload_size := decoded_size\<rparr>, w1))
         else receive_loop nodes timeout_ms message w1))"

fun protocol_stack_receive ::
  "env \<Rightarrow> 'w protocol_stack option \<Rightarrow> unified_message option \<Rightarrow> u32 \<Rightarrow> 'w \<Rightarrow>
   int \<times> 'w protocol_stack option \<times> unified_message option \<times> 'w" where
  "protocol_stack_receive E (Some stack) (Some message) timeout_ms w =
    (case receive_loop (sk_adapters stack) timeout_ms zero_message w of
       (Some (type, sz), m1, w1) \<Rightarrow>
         (let m2 = m1\<lparr>um_protocol := type, um_direction := DIRECTION_RESPONSE,
                      um_timestamp := time_ns E 0, um_message_id := 0\<rparr>;
              stack1 = stack\<lparr>sk_messages_received := sk_messages_received stack + 1,
                sk_bytes_received := sk_bytes_received stack + of_nat sz\<rparr>;
              w2 = (case sk_message_callback stack1 of None \<Rightarrow> w1
                    | Some cb \<Rightarrow> cb m2 (sk_callback_user_data stack1) w1)
          in (0, Some stack1, Some m2, w2))
     | (None, m1, w1) \<Rightarrow> (err E AIRY_ERR_TIMEOUT, Some stack, Some m1, w1))"
| "protocol_stack_receive E stack message timeout_ms w = (err E AIRY_ERR_TIMEOUT, stack, message, w)"

fun protocol_stack_set_callback ::
  "env \<Rightarrow> 'w protocol_stack option \<Rightarrow> (unified_message \<Rightarrow> ptr option \<Rightarrow> 'w \<Rightarrow> 'w) option \<Rightarrow> ptr option \<Rightarrow>
   int \<times> 'w protocol_stack option" where
  "protocol_stack_set_callback E None callback user_data = (err E AIRY_ERR_UNKNOWN, None)"
| "protocol_stack_set_callback E (Some stack) callback user_data =
    (0, Some (stack\<lparr>sk_message_callback := callback, sk_callback_user_data := user_data\<rparr>))"

record protocol_stats =
  ps_messages_sent :: u64
  ps_messages_received :: u64
  ps_bytes_sent :: u64
  ps_bytes_received :: u64
  ps_adapter_count :: nat
  ps_initialized :: bool

fun protocol_stack_get_stats :: "env \<Rightarrow> 'w protocol_stack option \<Rightarrow> bool \<Rightarrow> int \<times> protocol_stats option" where
  "protocol_stack_get_stats E (Some stack) True =
    (0, Some \<lparr>ps_messages_sent = sk_messages_sent stack,
       ps_messages_received = sk_messages_received stack,
       ps_bytes_sent = sk_bytes_sent stack, ps_bytes_received = sk_bytes_received stack,
       ps_adapter_count = sk_adapter_count stack, ps_initialized = sk_initialized stack\<rparr>)"
| "protocol_stack_get_stats E _ _ = (err E AIRY_ERR_UNKNOWN, None)"

section \<open>Adapter wrappers\<close>

definition protocol_adapter_create :: "env \<Rightarrow> protocol_type \<Rightarrow> 'w protocol_adapter option \<Rightarrow>
    int \<times> 'w protocol_adapter option" where
  "protocol_adapter_create E type adapter = (case adapter of
      None \<Rightarrow> (err E AIRY_ERR_UNKNOWN, None)
    | Some _ \<Rightarrow> (0, Some (zero_adapter\<lparr>ad_type := type, ad_init := None\<rparr>)))"

record airy_message =
  am_data :: "cstring option"
  am_len :: nat
  am_source_protocol :: protocol_type

definition protocol_adapter_send ::
  "env \<Rightarrow> 'w protocol_adapter \<Rightarrow> airy_message option \<Rightarrow> 'w \<Rightarrow> int \<times> 'w" where
  "protocol_adapter_send E adapter msg w =
    (if ad_init adapter = None then (err E AIRY_ERR_UNKNOWN, w)
     else case msg of
       None \<Rightarrow> (err E AIRY_ERR_UNKNOWN, w)
     | Some m \<Rightarrow> (case ad_send adapter of
         Some f \<Rightarrow> f (ad_context adapter) (am_data m, am_len m) w
       | None \<Rightarrow> (err E AIRY_ERR_NOT_FOUND, w)))"

text \<open>Only the length is passed on; the data is freed.\<close>

definition protocol_adapter_recv ::
  "env \<Rightarrow> 'w protocol_adapter \<Rightarrow> airy_message option \<Rightarrow> nat \<Rightarrow> 'w \<Rightarrow> int \<times> airy_message option \<times> 'w" where
  "protocol_adapter_recv E adapter msg max_len w =
    (if ad_init adapter = None then (err E AIRY_ERR_UNKNOWN, msg, w)
     else case msg of
       None \<Rightarrow> (err E AIRY_ERR_UNKNOWN, msg, w)
     | Some m \<Rightarrow> (case ad_receive adapter of
         Some f \<Rightarrow> (let (rc, (data, sz), w1) = f (ad_context adapter) 0 w in
           if rc = 0 \<and> data \<noteq> None \<and> 0 < sz
           then (rc, Some (m\<lparr>am_len := (if sz < max_len then sz else max_len)\<rparr>), w1)
           else (rc, Some m, w1))
       | None \<Rightarrow> (err E AIRY_ERR_NOT_FOUND, msg, w)))"

section \<open>The stack manager\<close>

text \<open>
  The manager holds the addresses of at most 32 stacks. The store maps the address of a
  live stack to its content; \<open>fresh\<close> is the address the allocator returns.
\<close>

record protocol_manager =
  pm_stacks :: "ptr list"

definition protocol_manager_create :: "env \<Rightarrow> protocol_manager option" where
  "protocol_manager_create E = (if mem E 0 then Some \<lparr>pm_stacks = []\<rparr> else None)"

type_synonym 'w stack_store = "ptr \<rightharpoonup> 'w protocol_stack"

fun destroy_stacks :: "ptr list \<Rightarrow> 'w stack_store \<Rightarrow> 'w \<Rightarrow> 'w stack_store \<times> 'w" where
  "destroy_stacks [] st w = (st, w)"
| "destroy_stacks (p # ps) st w = destroy_stacks ps (st(p := None)) (protocol_stack_destroy (st p) w)"

fun protocol_manager_destroy :: "protocol_manager option \<Rightarrow> 'w stack_store \<Rightarrow> 'w \<Rightarrow> 'w stack_store \<times> 'w" where
  "protocol_manager_destroy None st w = (st, w)"
| "protocol_manager_destroy (Some mgr) st w = destroy_stacks (pm_stacks mgr) st w"

fun protocol_manager_create_stack ::
  "env \<Rightarrow> ptr \<Rightarrow> protocol_manager option \<Rightarrow> protocol_stack_config option \<Rightarrow> 'w stack_store \<Rightarrow>
   ptr option \<times> protocol_manager option \<times> 'w stack_store" where
  "protocol_manager_create_stack E fresh (Some mgr) (Some config) st =
    (if 32 \<le> length (pm_stacks mgr) then (None, Some mgr, st)
     else case protocol_stack_create E (Some config) of
       None \<Rightarrow> (None, Some mgr, st)
     | Some stack \<Rightarrow> (Some fresh, Some (mgr\<lparr>pm_stacks := pm_stacks mgr @ [fresh]\<rparr>), st(fresh \<mapsto> stack)))"
| "protocol_manager_create_stack E fresh mgr config st = (None, mgr, st)"

text \<open>The last stack takes the place of the destroyed one.\<close>

fun protocol_manager_destroy_stack ::
  "protocol_manager option \<Rightarrow> ptr option \<Rightarrow> 'w stack_store \<Rightarrow> 'w \<Rightarrow>
   protocol_manager option \<times> 'w stack_store \<times> 'w" where
  "protocol_manager_destroy_stack (Some mgr) (Some stack) st w =
    (case find_idx (\<lambda>p. p = stack) (pm_stacks mgr) of
       None \<Rightarrow> (Some mgr, st, w)
     | Some i \<Rightarrow> (Some (mgr\<lparr>pm_stacks := swap_remove i (pm_stacks mgr)\<rparr>), st(stack := None),
         protocol_stack_destroy (st stack) w))"
| "protocol_manager_destroy_stack mgr stack st w = (mgr, st, w)"

fun protocol_manager_get_stacks :: "protocol_manager option \<Rightarrow> bool \<Rightarrow> nat \<Rightarrow> nat \<times> ptr list" where
  "protocol_manager_get_stacks None stacks max_count = (0, [])"
| "protocol_manager_get_stacks (Some mgr) stacks max_count =
    (let count = (if length (pm_stacks mgr) < max_count then length (pm_stacks mgr) else max_count)
     in (count, if stacks then take count (pm_stacks mgr) else []))"

section \<open>Framework constants\<close>

definition protocols_framework_init :: "bool \<Rightarrow> int \<times> bool" where
  "protocols_framework_init s_framework_initialized = (0, True)"

definition protocols_framework_cleanup :: "bool \<Rightarrow> bool" where
  "protocols_framework_cleanup s_framework_initialized = False"

definition protocols_framework_version :: cstring where
  "protocols_framework_version = ''1.0.0''"

text \<open>The static HTTP adapter, filled on first use.\<close>

definition protocol_adapter_http :: "'w protocol_adapter \<Rightarrow> bool \<Rightarrow> 'w protocol_adapter \<times> bool" where
  "protocol_adapter_http s_http_adapter s_adapters_init =
    (if s_adapters_init then (s_http_adapter, True)
     else (s_http_adapter\<lparr>ad_type := AIRY_PROTOCOL_JSON_RPC, ad_name := Some ''http'',
             ad_version := Some ''0.1.1'',
             ad_description := Some ''HTTP/JSON-RPC Protocol Adapter''\<rparr>, True))"

definition protocol_stack_config_default :: "env \<Rightarrow> cstring option \<Rightarrow> protocol_stack_config" where
  "protocol_stack_config_default E name =
    \<lparr>cf_name = (case name of None \<Rightarrow> [] | Some n \<Rightarrow> strncpy_term E 128 n), cf_max_adapters = 0,
     cf_enable_logging = False, cf_default_protocol = AIRY_PROTOCOL_JSON_RPC,
     cf_max_message_size = 65536, cf_timeout_ms = 30000, cf_enable_compression = False,
     cf_enable_encryption = False, cf_custom_config = None\<rparr>"

definition protocol_stack_config_destroy :: "protocol_stack_config option \<Rightarrow> protocol_stack_config option" where
  "protocol_stack_config_destroy config = (case config of None \<Rightarrow> None
     | Some _ \<Rightarrow> Some \<lparr>cf_name = [], cf_max_adapters = 0, cf_enable_logging = False,
         cf_default_protocol = 0, cf_max_message_size = 0, cf_timeout_ms = 0,
         cf_enable_compression = False, cf_enable_encryption = False, cf_custom_config = None\<rparr>)"

definition protocol_error_to_string :: "nat \<Rightarrow> cstring" where
  "protocol_error_to_string error =
    (if error = 0 then ''Success'' else if error = 1 then ''Invalid argument''
     else if error = 2 then ''Out of memory'' else if error = 3 then ''Not initialized''
     else if error = 4 then ''Not connected'' else if error = 5 then ''Timeout''
     else if error = 6 then ''Encoding error'' else if error = 7 then ''Decoding error''
     else if error = 8 then ''Network error'' else if error = 9 then ''Protocol error''
     else if error = 10 then ''Internal error'' else ''Unknown error'')"

definition protocol_get_last_error :: "cstring \<Rightarrow> cstring" where
  "protocol_get_last_error s_last_error = (if s_last_error \<noteq> [] then s_last_error else ''No error'')"

section \<open>Adapters are kept by type\<close>

definition stack_wf :: "'w protocol_stack \<Rightarrow> bool" where
  "stack_wf stack \<longleftrightarrow> sk_adapter_count stack = length (sk_adapters stack) \<and>
     distinct (map (\<lambda>n. ad_type (nd_adapter n)) (sk_adapters stack))"

definition stack_adapter :: "'w protocol_stack \<Rightarrow> protocol_type \<Rightarrow> 'w protocol_adapter option" where
  "stack_adapter stack t =
     map_option (\<lambda>i. nd_adapter (sk_adapters stack ! i)) (find_adapter_node stack t)"

lemma stack_adapter_find:
  "stack_adapter stack t = map_option nd_adapter (List.find (\<lambda>n. ad_type (nd_adapter n) = t) (sk_adapters stack))"
  by (simp add: stack_adapter_def find_adapter_node_def find_eq_find_idx option.map_comp o_def)

lemma find_upd_key:
  assumes "find_idx (\<lambda>x. k x = a) xs = Some i" "k y = a"
  shows "List.find (\<lambda>x. k x = t) (xs[i := y]) = (if t = a then Some y else List.find (\<lambda>x. k x = t) xs)"
  using assms
proof (induction xs arbitrary: i)
  case Nil
  then show ?case by simp
next
  case (Cons x xs)
  show ?case
  proof (cases "k x = a")
    case True
    with Cons.prems show ?thesis by auto
  next
    case False
    with Cons.prems obtain j where "i = Suc j" "find_idx (\<lambda>x. k x = a) xs = Some j" by auto
    with Cons.IH Cons.prems False show ?thesis by auto
  qed
qed

text \<open>
  C5: a stack keeps at most one adapter per protocol type. A successful registration makes
  the adapter the one found for its type and leaves every other type as it was; a failed
  one (no memory, or the adapter's own initialisation refuses) leaves the stack unchanged
  and reports that error.
\<close>

theorem stack_register_adapter_spec:
  assumes "stack_wf stack" "codes_ok E"
    "protocol_stack_register_adapter E (Some stack) a w = (rc, stack', w')"
  shows "\<exists>s. stack' = Some s \<and> stack_wf s \<and>
    (if rc = 0 then \<forall>t. stack_adapter s t = (if t = ad_type a then Some a else stack_adapter stack t)
     else s = stack \<and> stack_adapter stack (ad_type a) = None \<and>
       (rc = err E AIRY_ERR_OUT_OF_MEMORY \<or> (\<exists>f. ad_init a = Some f \<and> fst (f None w) = rc)))"
proof (cases "find_adapter_node stack (ad_type a)")
  case (Some i)
  then have f: "find_idx (\<lambda>n. ad_type (nd_adapter n) = ad_type a) (sk_adapters stack) = Some i"
    by (simp add: find_adapter_node_def)
  let ?n = "(sk_adapters stack ! i)\<lparr>nd_adapter := a\<rparr>"
  let ?s = "stack\<lparr>sk_adapters := (sk_adapters stack)[i := ?n]\<rparr>"
  have r: "rc = 0" "stack' = Some ?s" using assms(3) Some by auto
  have "map (\<lambda>n. ad_type (nd_adapter n)) ((sk_adapters stack)[i := ?n]) =
      map (\<lambda>n. ad_type (nd_adapter n)) (sk_adapters stack)"
    using f by (auto simp: map_update find_idx_Some list_update_same_conv)
  then have "stack_wf ?s" using assms(1) by (simp add: stack_wf_def)
  moreover have "stack_adapter ?s t = (if t = ad_type a then Some a else stack_adapter stack t)" for t
    using find_upd_key [OF f, of ?n t] by (simp add: stack_adapter_find)
  ultimately show ?thesis using r by simp
next
  case None
  then have fresh: "ad_type a \<notin> (\<lambda>n. ad_type (nd_adapter n)) ` set (sk_adapters stack)"
    by (auto simp: find_adapter_node_def find_idx_None)
  obtain res w1 where init: "(case ad_init a of None \<Rightarrow> (0, w) | Some f \<Rightarrow> f None w) = (res, w1)"
    by (cases "case ad_init a of None \<Rightarrow> (0, w) | Some f \<Rightarrow> f None w") auto
  have none: "stack_adapter stack (ad_type a) = None" using None by (simp add: stack_adapter_def)
  show ?thesis
  proof (cases "mem E 0 \<and> mem E 1 \<and> res = 0")
    case True
    with assms(3) None init have "rc = 0" and s: "stack' = Some (stack\<lparr>sk_adapters :=
        \<lparr>nd_adapter = a, nd_context = None\<rparr> # sk_adapters stack,
        sk_adapter_count := sk_adapter_count stack + 1\<rparr>)"
      by auto
    then show ?thesis using assms(1) fresh by (auto simp: stack_wf_def stack_adapter_find)
  next
    case False
    with assms(3) None init have "stack' = Some stack \<and> rc \<noteq> 0 \<and>
      (rc = err E AIRY_ERR_OUT_OF_MEMORY \<or> (\<exists>f. ad_init a = Some f \<and> fst (f None w) = rc))"
      using assms(2) by (auto split: if_splits option.splits)
    with assms(1) none show ?thesis by auto
  qed
qed

definition empty_stack :: "'w protocol_stack" where
  "empty_stack = \<lparr>sk_config = protocol_stack_config_default env0 None, sk_adapters = [],
     sk_adapter_count = 0, sk_initialized = True, sk_message_callback = None,
     sk_callback_user_data = None, sk_messages_sent = 0, sk_messages_received = 0,
     sk_bytes_sent = 0, sk_bytes_received = 0\<rparr>"

lemma empty_stack_wf: "stack_wf empty_stack"
  by (simp add: stack_wf_def empty_stack_def)

theorem stack_register_adapter_spec_witness:
  "\<exists>s. protocol_stack_register_adapter env0 (Some empty_stack) (zero_adapter\<lparr>ad_type := 1\<rparr>) () = (0, Some s, ()) \<and>
    stack_wf s \<and> stack_adapter s 1 = Some (zero_adapter\<lparr>ad_type := 1\<rparr>)"
proof -
  have "\<exists>s. protocol_stack_register_adapter env0 (Some empty_stack) (zero_adapter\<lparr>ad_type := 1\<rparr>) () = (0, Some s, ())"
    by (simp add: find_adapter_node_def empty_stack_def zero_adapter_def)
  then obtain s where
    s: "protocol_stack_register_adapter env0 (Some empty_stack) (zero_adapter\<lparr>ad_type := 1\<rparr>) () = (0, Some s, ())"
    by blast
  from stack_register_adapter_spec [OF empty_stack_wf env0_ok(1) s] s show ?thesis
    by (auto simp del: protocol_stack_register_adapter.simps)
qed

section \<open>Sending and receiving\<close>

text \<open>
  What a send may do, stage by stage: the code it returns, the number of bytes it counted when
  it succeeded, and the outside state it leaves.
\<close>

definition encode_stage :: "'w protocol_adapter_node \<Rightarrow> unified_message \<Rightarrow> 'w \<Rightarrow> int \<times> wire_data \<times> 'w" where
  "encode_stage n m w = (case ad_encode (nd_adapter n) of
      None \<Rightarrow> (0, (um_payload m, um_payload_size m), w) | Some f \<Rightarrow> f (nd_context n) m w)"

definition connect_stage :: "'w protocol_adapter_node \<Rightarrow> unified_message \<Rightarrow> 'w \<Rightarrow> int \<times> 'w" where
  "connect_stage n m w = (case ad_connect (nd_adapter n) of
      None \<Rightarrow> (0, w) | Some f \<Rightarrow> f (nd_context n) (um_endpoint m) w)"

definition deliver_stage :: "'w protocol_stack \<Rightarrow> 'w protocol_adapter_node \<Rightarrow> unified_message \<Rightarrow> wire_data \<Rightarrow> 'w \<Rightarrow> int \<times> 'w" where
  "deliver_stage stack n m d w = (case ad_send (nd_adapter n) of
      Some f \<Rightarrow> f (nd_context n) d w
    | None \<Rightarrow> (0, case sk_message_callback stack of None \<Rightarrow> w
        | Some cb \<Rightarrow> cb m (sk_callback_user_data stack) w))"

inductive send_run :: "env \<Rightarrow> 'w protocol_stack \<Rightarrow> unified_message \<Rightarrow> 'w \<Rightarrow> int \<Rightarrow> nat option \<Rightarrow> 'w \<Rightarrow> bool"
  for E stack m w where
  invalid: "validate_message E (Some m) \<noteq> 0 \<Longrightarrow> send_run E stack m w (validate_message E (Some m)) None w"
| unrouted: "validate_message E (Some m) = 0 \<Longrightarrow> find_adapter_node stack (um_protocol m) = None \<Longrightarrow>
    send_run E stack m w (err E AIRY_ERR_NOT_FOUND) None w"
| unencoded: "validate_message E (Some m) = 0 \<Longrightarrow> find_adapter_node stack (um_protocol m) = Some i \<Longrightarrow>
    encode_stage (sk_adapters stack ! i) m w = (rc, d, w1) \<Longrightarrow> rc \<noteq> 0 \<Longrightarrow> send_run E stack m w rc None w1"
| unconnected: "validate_message E (Some m) = 0 \<Longrightarrow> find_adapter_node stack (um_protocol m) = Some i \<Longrightarrow>
    encode_stage (sk_adapters stack ! i) m w = (0, d, w1) \<Longrightarrow>
    connect_stage (sk_adapters stack ! i) m w1 = (c, w2) \<Longrightarrow> c \<notin> {0, - 2} \<Longrightarrow> send_run E stack m w c None w2"
| refused: "validate_message E (Some m) = 0 \<Longrightarrow> find_adapter_node stack (um_protocol m) = Some i \<Longrightarrow>
    encode_stage (sk_adapters stack ! i) m w = (0, d, w1) \<Longrightarrow>
    connect_stage (sk_adapters stack ! i) m w1 = (c, w2) \<Longrightarrow> c \<in> {0, - 2} \<Longrightarrow>
    deliver_stage stack (sk_adapters stack ! i) m d w2 = (rc, w3) \<Longrightarrow> rc \<noteq> 0 \<Longrightarrow> send_run E stack m w rc None w3"
| sent: "validate_message E (Some m) = 0 \<Longrightarrow> find_adapter_node stack (um_protocol m) = Some i \<Longrightarrow>
    encode_stage (sk_adapters stack ! i) m w = (0, (data, sz), w1) \<Longrightarrow>
    connect_stage (sk_adapters stack ! i) m w1 = (c, w2) \<Longrightarrow> c \<in> {0, - 2} \<Longrightarrow>
    deliver_stage stack (sk_adapters stack ! i) m (data, sz) w2 = (0, w3) \<Longrightarrow> send_run E stack m w 0 (Some sz) w3"

lemma send_run_code: "send_run E stack m w rc out w' \<Longrightarrow> codes_ok E \<Longrightarrow> rc = 0 \<longleftrightarrow> out \<noteq> None"
  by (induction rule: send_run.induct) auto

definition count_sent :: "'w protocol_stack \<Rightarrow> nat option \<Rightarrow> 'w protocol_stack" where
  "count_sent stack out = (case out of None \<Rightarrow> stack
     | Some sz \<Rightarrow> stack\<lparr>sk_messages_sent := sk_messages_sent stack + 1, sk_bytes_sent := sk_bytes_sent stack + of_nat sz\<rparr>)"

lemmas stage_defs = encode_stage_def connect_stage_def deliver_stage_def count_sent_def

lemma send_run_send:
  "send_run E stack m w rc out w' \<Longrightarrow> protocol_stack_send E (Some stack) (Some m) w = (rc, Some (count_sent stack out), w')"
  by (induction rule: send_run.induct) (auto simp: stage_defs)

lemma send_run_total: "\<exists>rc out w'. send_run E stack m w rc out w'"
proof (cases "validate_message E (Some m) = 0")
  case valid: True
  show ?thesis
  proof (cases "find_adapter_node stack (um_protocol m)")
    case None
    then show ?thesis using valid by (blast intro: unrouted)
  next
    case (Some i)
    obtain r data sz w1 where e: "encode_stage (sk_adapters stack ! i) m w = (r, (data, sz), w1)" by (metis prod_cases3 surj_pair)
    obtain c w2 where c: "connect_stage (sk_adapters stack ! i) m w1 = (c, w2)" by fastforce
    obtain s w3 where s: "deliver_stage stack (sk_adapters stack ! i) m (data, sz) w2 = (s, w3)" by fastforce
    consider "r \<noteq> 0" | "r = 0" "c \<notin> {0, - 2}" | "r = 0" "c \<in> {0, - 2}" "s \<noteq> 0" | "r = 0" "c \<in> {0, - 2}" "s = 0" by blast
    then show ?thesis
    proof cases
      case 1
      then show ?thesis using unencoded [OF valid Some e] by blast
    next
      case 2
      then show ?thesis using unconnected [OF valid Some _ c] e by blast
    next
      case 3
      then show ?thesis using refused [OF valid Some _ c _ s] e by blast
    next
      case 4
      with e s have "encode_stage (sk_adapters stack ! i) m w = (0, (data, sz), w1)"
        "deliver_stage stack (sk_adapters stack ! i) m (data, sz) w2 = (0, w3)" by simp_all
      then show ?thesis using sent [OF valid Some _ c 4(2)] by blast
    qed
  qed
qed (blast intro: invalid)

text \<open>
  C6: a send is exactly its stages: it validates the message, finds the adapter of its type,
  encodes, connects (0 and -2 both go on) and hands over, to the adapter or without one to the
  stack's callback; the first stage that fails ends it with that stage's code. It succeeds if
  and only if no stage fails; then one message and the encoded size are added to the counters,
  and otherwise the stack is unchanged.
\<close>

theorem stack_send_outcome:
  assumes "codes_ok E"
  shows "protocol_stack_send E (Some stack) (Some m) w = (rc, stack', w') \<longleftrightarrow>
    (\<exists>out. send_run E stack m w rc out w' \<and> stack' = Some (count_sent stack out) \<and> (rc = 0 \<longleftrightarrow> out \<noteq> None))"
proof -
  obtain r out v where run: "send_run E stack m w r out v" using send_run_total [of E stack m w] by blast
  note eq = send_run_send [OF run]
  show ?thesis
  proof
    assume "protocol_stack_send E (Some stack) (Some m) w = (rc, stack', w')"
    with eq have "r = rc" "stack' = Some (count_sent stack out)" "v = w'" by simp_all
    with run send_run_code [OF run assms] show "\<exists>out. send_run E stack m w rc out w' \<and>
        stack' = Some (count_sent stack out) \<and> (rc = 0 \<longleftrightarrow> out \<noteq> None)" by blast
  next
    assume "\<exists>out. send_run E stack m w rc out w' \<and> stack' = Some (count_sent stack out) \<and> (rc = 0 \<longleftrightarrow> out \<noteq> None)"
    then show "protocol_stack_send E (Some stack) (Some m) w = (rc, stack', w')"
      using send_run_send by (elim exE conjE) (simp del: protocol_stack_send.simps)
  qed
qed

theorem stack_send_outcome_witness:
  "\<exists>s. protocol_stack_send env0 (Some (empty_stack\<lparr>sk_adapters :=
        [\<lparr>nd_adapter = zero_adapter\<lparr>ad_type := 1, ad_connect := Some (\<lambda>c e w. (- 2, w))\<rparr>, nd_context = None\<rparr>]\<rparr>))
      (Some (zero_message\<lparr>um_protocol := 1, um_payload := Some ''abc'', um_payload_size := 3\<rparr>)) () = (0, Some s, ()) \<and>
    sk_messages_sent s = 1 \<and> sk_bytes_sent s = 3"
proof -
  let ?n = "\<lparr>nd_adapter = zero_adapter\<lparr>ad_type := 1, ad_connect := Some (\<lambda>c e w. (- 2, w))\<rparr>, nd_context = None\<rparr>"
  let ?st = "empty_stack\<lparr>sk_adapters := [?n]\<rparr>"
  let ?m = "zero_message\<lparr>um_protocol := 1, um_payload := Some ''abc'', um_payload_size := 3\<rparr>"
  have valid: "validate_message env0 (Some ?m) = 0" by (simp add: validate_message_def zero_message_def word_le_nat_alt)
  have "send_run env0 ?st ?m () 0 (Some 3) ()"
    using send_run.sent [OF valid, of ?st 0 "()" "Some ''abc''" 3 "()" "- 2" "()" "()"]
    by (simp add: stage_defs find_adapter_node_def zero_adapter_def empty_stack_def)
  with stack_send_outcome [OF env0_ok(1), of ?st ?m "()" 0 "Some (count_sent ?st (Some 3))" "()"]
  have "protocol_stack_send env0 (Some ?st) (Some ?m) () = (0, Some (count_sent ?st (Some 3)), ())" by blast
  then show ?thesis by (simp add: count_sent_def empty_stack_def del: protocol_stack_send.simps)
qed

text \<open>
  An adapter of the receiving loop passes when it has no \<open>receive\<close>, brings nothing, or its decoder
  fails, which may have written to the message; it takes when it brings data that its decoder, if
  it has one, accepts.
\<close>

inductive passes :: "u32 \<Rightarrow> 'w protocol_adapter_node \<Rightarrow> unified_message \<times> 'w \<Rightarrow> unified_message \<times> 'w \<Rightarrow> bool" for t n where
  deaf: "ad_receive (nd_adapter n) = None \<Longrightarrow> passes t n (m, w) (m, w)"
| silent: "ad_receive (nd_adapter n) = Some f \<Longrightarrow> f (nd_context n) t w = (rc, (d, sz), w1) \<Longrightarrow>
    rc \<noteq> 0 \<or> d = None \<or> sz = 0 \<Longrightarrow> passes t n (m, w) (m, w1)"
| garbled: "ad_receive (nd_adapter n) = Some f \<Longrightarrow> f (nd_context n) t w = (0, (Some d, sz), w1) \<Longrightarrow> 0 < sz \<Longrightarrow>
    ad_decode (nd_adapter n) = Some g \<Longrightarrow> g (nd_context n) (Some d, sz) m w1 = (rc, m2, w2) \<Longrightarrow> rc \<noteq> 0 \<Longrightarrow>
    passes t n (m, w) (m2, w2)"

inductive takes :: "u32 \<Rightarrow> 'w protocol_adapter_node \<Rightarrow> unified_message \<times> 'w \<Rightarrow> nat \<Rightarrow> unified_message \<times> 'w \<Rightarrow> bool" for t n where
  raw: "ad_receive (nd_adapter n) = Some f \<Longrightarrow> f (nd_context n) t w = (0, (Some d, sz), w1) \<Longrightarrow> 0 < sz \<Longrightarrow>
    ad_decode (nd_adapter n) = None \<Longrightarrow> takes t n (m, w) sz (m\<lparr>um_payload := Some d, um_payload_size := sz\<rparr>, w1)"
| decoded: "ad_receive (nd_adapter n) = Some f \<Longrightarrow> f (nd_context n) t w = (0, (Some d, sz), w1) \<Longrightarrow> 0 < sz \<Longrightarrow>
    ad_decode (nd_adapter n) = Some g \<Longrightarrow> g (nd_context n) (Some d, sz) m w1 = (0, m2, w2) \<Longrightarrow>
    takes t n (m, w) sz (m2, w2)"

fun pass_all :: "u32 \<Rightarrow> 'w protocol_adapter_node list \<Rightarrow> unified_message \<times> 'w \<Rightarrow> unified_message \<times> 'w \<Rightarrow> bool" where
  "pass_all t [] a b \<longleftrightarrow> a = b"
| "pass_all t (n # ns) a c \<longleftrightarrow> (\<exists>b. passes t n a b \<and> pass_all t ns b c)"

lemma passes_step: "passes t n a b \<Longrightarrow> receive_loop (n # ns) t (fst a) (snd a) = receive_loop ns t (fst b) (snd b)"
  by (induction rule: passes.induct) auto

lemma takes_step: "takes t n a sz b \<Longrightarrow> receive_loop (n # ns) t (fst a) (snd a) = (Some (ad_type (nd_adapter n), sz), b)"
  by (induction rule: takes.induct) auto

lemma polls: "(\<exists>b. passes t n a b) \<or> (\<exists>sz b. takes t n a sz b)"
proof (cases "ad_receive (nd_adapter n)")
  case (Some f)
  obtain m w where a: "a = (m, w)" by fastforce
  obtain rc d sz w1 where r: "f (nd_context n) t w = (rc, (d, sz), w1)" by (metis prod_cases3 surj_pair)
  show ?thesis
  proof (cases "rc \<noteq> 0 \<or> d = None \<or> sz = 0")
    case True
    then show ?thesis unfolding a using silent [OF Some r] by blast
  next
    case False
    with r obtain x where x: "f (nd_context n) t w = (0, (Some x, sz), w1)" "0 < sz" by auto
    show ?thesis
    proof (cases "ad_decode (nd_adapter n)")
      case None
      then show ?thesis unfolding a using raw [OF Some x] by blast
    next
      case dec: (Some g)
      obtain rc2 m2 w2 where "g (nd_context n) (Some x, sz) m w1 = (rc2, m2, w2)" by (metis prod_cases3)
      then show ?thesis unfolding a using garbled [OF Some x dec] decoded [OF Some x dec] by (cases "rc2 = 0") blast+
    qed
  qed
qed (metis deaf surj_pair)

lemma loop_passes: "pass_all t ns a b \<Longrightarrow> receive_loop (ns @ ms) t (fst a) (snd a) = receive_loop ms t (fst b) (snd b)"
proof (induction ns arbitrary: a)
  case (Cons n ns)
  then obtain c where c: "passes t n a c" "pass_all t ns c b" by auto
  with passes_step [OF c(1), of "ns @ ms"] Cons.IH [OF c(2)] show ?case by (simp del: receive_loop.simps)
qed simp

lemma loop_cases:
  "(\<exists>b. pass_all t ns a b) \<or> (\<exists>pre n post b sz c. ns = pre @ n # post \<and> pass_all t pre a b \<and> takes t n b sz c)"
proof (induction ns arbitrary: a)
  case (Cons n ns)
  from polls [of t n a] consider b where "passes t n a b" | sz c where "takes t n a sz c" by blast
  then show ?case
  proof cases
    case 1
    from Cons.IH [of b] consider d where "pass_all t ns b d"
      | pre n' post d sz c where "ns = pre @ n' # post" "pass_all t pre b d" "takes t n' d sz c" by blast
    then show ?thesis
    proof cases
      case (1 d)
      with \<open>passes t n a b\<close> have "pass_all t (n # ns) a d" by (simp del: split_paired_Ex) blast
      then show ?thesis by blast
    next
      case (2 pre n' post d sz c)
      with \<open>passes t n a b\<close> have "n # ns = (n # pre) @ n' # post" "pass_all t (n # pre) a d" by (auto simp del: split_paired_Ex)
      with 2(3) show ?thesis by blast
    qed
  next
    case 2
    moreover have "n # ns = [] @ n # ns" "pass_all t [] a a" by simp_all
    ultimately show ?thesis by blast
  qed
qed simp

text \<open>The message and the stack after a receive, given what the loop brought.\<close>

definition mark_received :: "env \<Rightarrow> protocol_type \<Rightarrow> unified_message \<Rightarrow> unified_message" where
  "mark_received E type m = m\<lparr>um_protocol := type, um_direction := DIRECTION_RESPONSE,
     um_timestamp := time_ns E 0, um_message_id := 0\<rparr>"

text \<open>
  C7: a receive polls the adapters in the order of the list, each of them at most once. It
  succeeds exactly when some adapter takes after all those before it have passed. Then the
  message is what that adapter brought, marked as a response on the adapter's protocol with a new
  timestamp and no id, the callback has seen it, and one message and the received size are
  counted. Otherwise it times out with the stack unchanged, and the message holds what failed
  decoders left.
\<close>

theorem stack_receive_first:
  assumes "codes_ok E" "protocol_stack_receive E (Some stack) (Some m0) t w = (rc, stack', m', w')"
  shows "(rc = 0 \<longleftrightarrow> (\<exists>pre n post b sz c. sk_adapters stack = pre @ n # post \<and>
      pass_all t pre (zero_message, w) b \<and> takes t n b sz c)) \<and>
    (\<forall>pre n post b sz m1 w1. sk_adapters stack = pre @ n # post \<and>
        pass_all t pre (zero_message, w) b \<and> takes t n b sz (m1, w1) \<longrightarrow>
      m' = Some (mark_received E (ad_type (nd_adapter n)) m1) \<and>
      stack' = Some (stack\<lparr>sk_messages_received := sk_messages_received stack + 1,
        sk_bytes_received := sk_bytes_received stack + of_nat sz\<rparr>) \<and>
      w' = (case sk_message_callback stack of None \<Rightarrow> w1
        | Some cb \<Rightarrow> cb (mark_received E (ad_type (nd_adapter n)) m1) (sk_callback_user_data stack) w1)) \<and>
    (rc \<noteq> 0 \<longrightarrow> rc = err E AIRY_ERR_TIMEOUT \<and> stack' = Some stack \<and>
      (\<exists>m1. m' = Some m1 \<and> pass_all t (sk_adapters stack) (zero_message, w) (m1, w')))"
proof -
  have hit: "receive_loop (sk_adapters stack) t zero_message w = (Some (ad_type (nd_adapter n), sz), c)"
    if "sk_adapters stack = pre @ n # post" "pass_all t pre (zero_message, w) b" "takes t n b sz c" for pre n post b sz c
    using loop_passes [OF that(2), of "n # post"] takes_step [OF that(3), of post] that(1) by simp
  have miss: "receive_loop (sk_adapters stack) t zero_message w = (None, b)" if "pass_all t (sk_adapters stack) (zero_message, w) b" for b
    using loop_passes [OF that, of "[]"] by simp
  from loop_cases [of t "sk_adapters stack" "(zero_message, w)"] show ?thesis
  proof (elim disjE exE conjE)
    fix b assume p: "pass_all t (sk_adapters stack) (zero_message, w) b"
    from miss [OF p] assms p show ?thesis by (cases b) (auto dest!: hit)
  next
    fix pre n post b sz c
    assume p: "sk_adapters stack = pre @ n # post" "pass_all t pre (zero_message, w) b" "takes t n b sz c"
    have "rc = 0" using hit [OF p] assms(2) by (cases c) simp
    moreover have "m' = Some (mark_received E (ad_type (nd_adapter n')) m1) \<and>
      stack' = Some (stack\<lparr>sk_messages_received := sk_messages_received stack + 1,
        sk_bytes_received := sk_bytes_received stack + of_nat sz'\<rparr>) \<and>
      w' = (case sk_message_callback stack of None \<Rightarrow> w1
        | Some cb \<Rightarrow> cb (mark_received E (ad_type (nd_adapter n')) m1) (sk_callback_user_data stack) w1)"
      if "sk_adapters stack = pre' @ n' # post'" "pass_all t pre' (zero_message, w) b'" "takes t n' b' sz' (m1, w1)"
      for pre' n' post' b' sz' m1 w1
      using hit [OF that] assms(2) by (auto simp: mark_received_def Let_def split: option.splits)
    ultimately show ?thesis using p by blast
  qed
qed

theorem stack_receive_first_witness:
  "\<exists>s m. protocol_stack_receive env0 (Some (empty_stack\<lparr>sk_adapters :=
        [\<lparr>nd_adapter = zero_adapter, nd_context = None\<rparr>,
         \<lparr>nd_adapter = zero_adapter\<lparr>ad_type := 7, ad_receive := Some (\<lambda>c t w. (0, (Some ''abc'', 3), w))\<rparr>, nd_context = None\<rparr>]\<rparr>))
      (Some zero_message) 0 () = (0, Some s, Some m, ()) \<and>
    um_protocol m = 7 \<and> um_payload m = Some ''abc'' \<and> sk_bytes_received s = 3"
proof -
  let ?a = "\<lparr>nd_adapter = zero_adapter, nd_context = None\<rparr> :: unit protocol_adapter_node"
  let ?b = "\<lparr>nd_adapter = zero_adapter\<lparr>ad_type := 7, ad_receive := Some (\<lambda>c t w. (0, (Some ''abc'', 3), w))\<rparr>, nd_context = None\<rparr> :: unit protocol_adapter_node"
  let ?st = "empty_stack\<lparr>sk_adapters := [?a, ?b]\<rparr>" and ?m = "zero_message\<lparr>um_payload := Some ''abc'', um_payload_size := 3\<rparr>"
  have "passes 0 ?a (zero_message, ()) (zero_message, ())" by (rule passes.deaf) (simp add: zero_adapter_def)
  then have p: "sk_adapters ?st = [?a] @ ?b # [] \<and> pass_all 0 [?a] (zero_message, ()) (zero_message, ()) \<and>
      takes 0 ?b (zero_message, ()) 3 (?m, ())"
    using takes.raw [of ?b "\<lambda>c t w. (0, (Some ''abc'', 3), w)" 0 "()" "''abc''" 3 "()" zero_message]
    by (simp add: zero_adapter_def)
  obtain rc s m w where r: "protocol_stack_receive env0 (Some ?st) (Some zero_message) 0 () = (rc, s, m, w)"
    by (metis prod_cases4)
  from stack_receive_first [OF env0_ok(1) r] p have "rc = 0" by blast
  moreover from stack_receive_first [OF env0_ok(1) r, THEN conjunct2, THEN conjunct1, rule_format, OF p]
  have "m = Some (mark_received env0 7 ?m)" "s = Some (?st\<lparr>sk_messages_received := 1, sk_bytes_received := 3\<rparr>)"
    by (simp_all add: empty_stack_def)
  ultimately show ?thesis using r by (simp add: mark_received_def del: protocol_stack_receive.simps)
qed

section \<open>The manager owns its stacks\<close>

definition manager_wf :: "protocol_manager \<Rightarrow> 'w stack_store \<Rightarrow> bool" where
  "manager_wf mgr st \<longleftrightarrow> length (pm_stacks mgr) \<le> 32 \<and> distinct (pm_stacks mgr) \<and>
     set (pm_stacks mgr) \<subseteq> dom st"

text \<open>
  C10: a manager holds at most 32 different live stacks. Creating one adds exactly the new
  address or, when the table is full or memory runs out, changes nothing; destroying one
  removes exactly that address and frees exactly that stack.
\<close>

theorem manager_create_destroy:
  assumes "manager_wf mgr st" "fresh \<notin> dom st"
    "protocol_manager_create_stack E fresh (Some mgr) (Some config) st = (p, Some mgr1, st1)"
    "protocol_manager_destroy_stack (Some mgr1) (Some q) st1 w = (Some mgr2, st2, w2)"
  shows "manager_wf mgr1 st1 \<and> manager_wf mgr2 st2 \<and>
    set (pm_stacks mgr1) = set (pm_stacks mgr) \<union> set_option p \<and>
    (p = None \<longrightarrow> mgr1 = mgr \<and> st1 = st) \<and>
    set (pm_stacks mgr2) = set (pm_stacks mgr1) - {q} \<and>
    dom st2 = dom st1 - (set (pm_stacks mgr1) \<inter> {q})"
proof -
  have c: "manager_wf mgr1 st1 \<and> set (pm_stacks mgr1) = set (pm_stacks mgr) \<union> set_option p \<and>
    (p = None \<longrightarrow> mgr1 = mgr \<and> st1 = st)"
    using assms(1-3) by (auto simp: manager_wf_def simp del: protocol_stack_create.simps
        split: if_splits option.splits)
  show ?thesis
  proof (cases "find_idx (\<lambda>p. p = q) (pm_stacks mgr1)")
    case None
    then have "q \<notin> set (pm_stacks mgr1)" by (auto simp: find_idx_None)
    with None c assms(4) show ?thesis by auto
  next
    case (Some i)
    then have i: "i < length (pm_stacks mgr1)" "pm_stacks mgr1 ! i = q"
      by (auto simp: find_idx_Some)
    then have q: "q \<in> set (pm_stacks mgr1)" by auto
    have d: "distinct (pm_stacks mgr1)" using c by (simp add: manager_wf_def)
    have r: "mgr2 = mgr1\<lparr>pm_stacks := swap_remove i (pm_stacks mgr1)\<rparr>" "st2 = st1(q := None)"
      using assms(4) Some by auto
    from swap_remove_props [OF i(1) d] i c q show ?thesis by (auto simp: r manager_wf_def)
  qed
qed

theorem manager_create_destroy_witness:
  "\<exists>mgr1 st1 mgr2 st2. protocol_manager_create_stack env0 7 (Some \<lparr>pm_stacks = []\<rparr>)
      (Some (protocol_stack_config_default env0 None)) (Map.empty :: unit stack_store) = (Some 7, Some mgr1, st1) \<and>
    protocol_manager_destroy_stack (Some mgr1) (Some 7) st1 () = (Some mgr2, st2, ()) \<and>
    set (pm_stacks mgr2) = {}"
proof -
  obtain mgr1 st1 where c: "protocol_manager_create_stack env0 7 (Some \<lparr>pm_stacks = []\<rparr>)
      (Some (protocol_stack_config_default env0 None)) (Map.empty :: unit stack_store) = (Some 7, Some mgr1, st1)"
    by simp
  obtain mgr2 st2 where d: "protocol_manager_destroy_stack (Some mgr1) (Some 7) st1 () = (Some mgr2, st2, ())"
    by (cases "find_idx (\<lambda>p. p = 7) (pm_stacks mgr1)") auto
  have "manager_wf \<lparr>pm_stacks = []\<rparr> (Map.empty :: unit stack_store)" by (simp add: manager_wf_def)
  from manager_create_destroy [OF this _ c d] c d show ?thesis
    by (auto simp del: protocol_manager_create_stack.simps protocol_manager_destroy_stack.simps)
qed

end
