(* ===== verification/C_Heap.thy ===== *)
theory C_Heap
  imports Unified_Message "HOL-Library.Monad_Syntax"
begin

text \<open>
  The heap, for the code whose subject is memory: allocation, copies of strings and release.

  A block is a string, an array of pointers or an array of structures; an address is a block
  and an element in it. A pointer is an optional address, NULL being \<open>None\<close>. Only the start of a
  live block may be freed. A result \<open>None\<close> is undefined behaviour: a double free, a free of an
  inner or dead address, a read through NULL or a dead address. Static objects are blocks that
  nobody owns. \<open>'c\<close> is the type of the structures.
\<close>

section \<open>Blocks, allocation and release\<close>

type_synonym addr = "nat \<times> nat"
type_synonym pointer = "addr option"

datatype 'c block = Text cstring | Pointers "pointer list" | Structs "'c list"

record 'c heap =
  hp_block :: "nat \<Rightarrow> 'c block option"
  hp_next :: nat

definition heap_ok :: "'c heap \<Rightarrow> bool" where
  "heap_ok h \<longleftrightarrow> (\<forall>b. hp_next h \<le> b \<longrightarrow> hp_block h b = None)"

abbreviation live :: "'c heap \<Rightarrow> nat set" where "live h \<equiv> dom (hp_block h)"

text \<open>\<open>ok\<close> says whether the allocator has memory.\<close>

definition hp_alloc :: "bool \<Rightarrow> 'c block \<Rightarrow> 'c heap \<Rightarrow> pointer \<times> 'c heap" where
  "hp_alloc ok x h = (if ok then (Some (hp_next h, 0),
     h\<lparr>hp_block := (hp_block h)(hp_next h := Some x), hp_next := hp_next h + 1\<rparr>) else (None, h))"

definition hp_free :: "pointer \<Rightarrow> 'c heap \<Rightarrow> 'c heap option" where
  "hp_free p h = (case p of None \<Rightarrow> Some h
     | Some (b, i) \<Rightarrow> if i = 0 \<and> hp_block h b \<noteq> None then Some (h\<lparr>hp_block := (hp_block h)(b := None)\<rparr>) else None)"

primrec free_all :: "pointer list \<Rightarrow> 'c heap \<Rightarrow> 'c heap option" where
  "free_all [] h = Some h"
| "free_all (p # ps) h = do { h1 \<leftarrow> hp_free p h; free_all ps h1 }"

definition hp_write :: "nat \<Rightarrow> 'c block \<Rightarrow> 'c heap \<Rightarrow> 'c heap" where
  "hp_write b x h = h\<lparr>hp_block := (hp_block h)(b := Some x)\<rparr>"

text \<open>Reading a string, a pointer of an array, a structure.\<close>

definition text_at :: "addr \<Rightarrow> 'c heap \<Rightarrow> cstring option" where
  "text_at a h = (case hp_block h (fst a) of Some (Text s) \<Rightarrow> if snd a = 0 then Some s else None | _ \<Rightarrow> None)"

definition struct_at :: "addr \<Rightarrow> 'c heap \<Rightarrow> 'c option" where
  "struct_at a h = (case hp_block h (fst a) of
     Some (Structs cs) \<Rightarrow> if snd a < length cs then Some (cs ! snd a) else None | _ \<Rightarrow> None)"

definition pointers_at :: "addr \<Rightarrow> 'c heap \<Rightarrow> pointer list option" where
  "pointers_at a h = (case hp_block h (fst a) of Some (Pointers ps) \<Rightarrow> if snd a = 0 then Some ps else None | _ \<Rightarrow> None)"

definition put_struct :: "addr \<Rightarrow> 'c \<Rightarrow> 'c heap \<Rightarrow> 'c heap option" where
  "put_struct a c h = (case hp_block h (fst a) of
     Some (Structs cs) \<Rightarrow> if snd a < length cs then Some (hp_write (fst a) (Structs (cs[snd a := c])) h) else None
   | _ \<Rightarrow> None)"

text \<open>What a nullable string field holds, and a copy of a string of the caller.\<close>

definition read_text :: "'c heap \<Rightarrow> pointer \<Rightarrow> cstring option option" where
  "read_text h p = (case p of None \<Rightarrow> Some None | Some a \<Rightarrow> map_option Some (text_at a h))"

definition dup_text :: "bool \<Rightarrow> cstring option \<Rightarrow> 'c heap \<Rightarrow> pointer \<times> 'c heap" where
  "dup_text ok s h = (case s of None \<Rightarrow> (None, h) | Some t \<Rightarrow> hp_alloc ok (Text t) h)"

section \<open>Releasing exactly what is owned\<close>

primrec blocks :: "pointer list \<Rightarrow> nat list" where
  "blocks [] = []"
| "blocks (p # ps) = (case p of None \<Rightarrow> blocks ps | Some a \<Rightarrow> fst a # blocks ps)"

definition drop_blocks :: "nat set \<Rightarrow> 'c heap \<Rightarrow> 'c heap" where
  "drop_blocks S h = h\<lparr>hp_block := (\<lambda>b. if b \<in> S then None else hp_block h b)\<rparr>"

definition bases :: "pointer list \<Rightarrow> bool" where
  "bases ps \<longleftrightarrow> (\<forall>a. Some a \<in> set ps \<longrightarrow> snd a = 0)"

lemma block_list_append [simp]: "blocks (ps @ qs) = blocks ps @ blocks qs"
  by (induction ps) (auto split: option.split)

lemma blocks_Cons: "blocks (p # ps) = blocks [p] @ blocks ps"
  by (cases p) auto

lemma blocks_rev: "blocks (rev ps) = rev (blocks ps)"
  by (induction ps) (auto split: option.split)

lemma set_blocks: "set (blocks ps) = {b. \<exists>i. Some (b, i) \<in> set ps}"
  by (induction ps) (auto split: option.split)

lemma bases_simps [simp]:
  "bases []" "bases (None # ps) = bases ps" "bases (Some (b, i) # ps) = (i = 0 \<and> bases ps)"
  "bases (ps @ qs) = (bases ps \<and> bases qs)"
  by (auto simp: bases_def)

lemma drop_sel [simp]:
  "hp_block (drop_blocks S h) b = (if b \<in> S then None else hp_block h b)" "hp_next (drop_blocks S h) = hp_next h"
  by (simp_all add: drop_blocks_def)

lemma live_drop [simp]: "live (drop_blocks S h) = live h - S"
  by (auto simp: dom_def split: if_splits)

lemma drop_none [simp]: "drop_blocks {} h = h"
  by (simp add: drop_blocks_def)

lemma drop_drop [simp]: "drop_blocks S (drop_blocks R h) = drop_blocks (S \<union> R) h"
  by (auto simp: drop_blocks_def fun_eq_iff intro!: heap.equality)

text \<open>
  A run of frees succeeds exactly when its pointers are the starts of distinct live blocks,
  and then these are the blocks that are gone.
\<close>

lemma free_all_iff:
  "free_all ps h = Some h' \<longleftrightarrow>
    bases ps \<and> distinct (blocks ps) \<and> set (blocks ps) \<subseteq> live h \<and> h' = drop_blocks (set (blocks ps)) h"
proof (induction ps arbitrary: h)
  case (Cons p ps)
  show ?case
  proof (cases p)
    case (Some a)
    obtain b i where a: "a = (b, i)" by (cases a)
    have "h\<lparr>hp_block := (hp_block h)(b := None)\<rparr> = drop_blocks {b} h"
      by (auto simp: drop_blocks_def fun_eq_iff intro!: heap.equality)
    with Some a Cons.IH [of "drop_blocks {b} h"] show ?thesis
      by (auto simp: hp_free_def dom_def insert_commute Un_commute split: if_splits)
  qed (simp add: hp_free_def Cons.IH)
qed auto

lemma free_all_ok:
  "bases ps \<Longrightarrow> distinct (blocks ps) \<Longrightarrow> set (blocks ps) \<subseteq> live h \<Longrightarrow> free_all ps h = Some (drop_blocks (set (blocks ps)) h)"
  by (simp add: free_all_iff)

lemma free_all_append: "free_all (ps @ qs) h = do { h1 \<leftarrow> free_all ps h; free_all qs h1 }"
  by (induction ps arbitrary: h) (auto split: bind_split)

lemma hp_free_ok [simp]: "hp_free None h = Some h" "b \<in> live h \<Longrightarrow> hp_free (Some (b, 0)) h = Some (drop_blocks {b} h)"
  "hp_block h b = Some x \<Longrightarrow> hp_free (Some (b, 0)) h = Some (drop_blocks {b} h)"
  by (auto simp: hp_free_def drop_blocks_def fun_eq_iff intro!: heap.equality)

lemma free_all_NULL [simp]: "free_all (None # ps) h = free_all ps h"
  by simp

section \<open>Fresh blocks and unchanged blocks\<close>

definition same_on :: "nat set \<Rightarrow> 'c heap \<Rightarrow> 'c heap \<Rightarrow> bool" where
  "same_on S h h' \<longleftrightarrow> (\<forall>b \<in> S. hp_block h' b = hp_block h b)"

lemma same_on_refl [simp]: "same_on S h h"
  by (simp add: same_on_def)

lemma same_on_trans [trans]: "same_on S h h1 \<Longrightarrow> same_on S h1 h2 \<Longrightarrow> same_on S h h2"
  by (simp add: same_on_def)

lemma same_on_mono: "same_on S h h' \<Longrightarrow> R \<subseteq> S \<Longrightarrow> same_on R h h'"
  by (auto simp: same_on_def)

lemma same_on_drop [simp]: "same_on S h (drop_blocks R h) \<longleftrightarrow> (\<forall>b \<in> S \<inter> R. hp_block h b = None)"
  by (auto simp: same_on_def)

lemma fresh_dead: "heap_ok h \<Longrightarrow> hp_next h \<notin> live h"
  by (auto simp: heap_ok_def)

lemma live_below: "heap_ok h \<Longrightarrow> b \<in> live h \<Longrightarrow> b < hp_next h"
  by (metis heap_ok_def domIff not_le)

lemma heap_ok_drop [simp]: "heap_ok h \<Longrightarrow> heap_ok (drop_blocks S h)"
  by (simp add: heap_ok_def)

lemma read_text_same: "same_on S h h' \<Longrightarrow> set (blocks [p]) \<subseteq> S \<Longrightarrow> read_text h' p = read_text h p"
  by (auto simp: read_text_def text_at_def same_on_def split: option.splits)

lemma read_text_live: "read_text h p = Some s \<Longrightarrow> set (blocks [p]) \<subseteq> live h \<and> bases [p]"
  by (cases p) (auto simp: read_text_def text_at_def split: option.splits block.splits if_splits)

lemma read_all_live: "\<forall>p \<in> set ps. \<exists>s. read_text h p = Some s \<Longrightarrow> bases ps \<and> set (blocks ps) \<subseteq> live h"
proof (induction ps)
  case (Cons p ps)
  then obtain s where "read_text h p = Some s" by auto
  then have "set (blocks [p]) \<subseteq> live h \<and> bases [p]" by (rule read_text_live)
  with Cons show ?case by (cases p) auto
qed simp

lemma blocks_member: "p \<in> set ps \<Longrightarrow> set (blocks [p]) \<subseteq> set (blocks ps)"
  by (auto simp: set_blocks split: option.splits)

section \<open>Growing the heap\<close>

text \<open>\<open>h'\<close> is \<open>h\<close> and the fresh blocks that \<open>ps\<close> point to.\<close>

definition grows :: "'c heap \<Rightarrow> pointer list \<Rightarrow> 'c heap \<Rightarrow> bool" where
  "grows h ps h' \<longleftrightarrow> heap_ok h' \<and> same_on (live h) h h' \<and> live h' = live h \<union> set (blocks ps) \<and>
     set (blocks ps) \<inter> live h = {} \<and> distinct (blocks ps) \<and> bases ps"

lemma grows_refl: "heap_ok h \<Longrightarrow> grows h [] h"
  by (simp add: grows_def)

lemma grows_ok: "grows h ps h' \<Longrightarrow> heap_ok h'"
  by (simp add: grows_def)

lemma grows_trans:
  assumes "grows h ps h1" "grows h1 qs h2"
  shows "grows h (ps @ qs) h2"
proof -
  have l: "live h1 = live h \<union> set (blocks ps)" "set (blocks ps) \<inter> live h = {}"
    "live h2 = live h1 \<union> set (blocks qs)" "set (blocks qs) \<inter> live h1 = {}"
    using assms by (simp_all add: grows_def)
  have "same_on (live h1) h1 h2" "same_on (live h) h h1" using assms by (simp_all add: grows_def)
  moreover have "live h \<subseteq> live h1" unfolding l(1) by blast
  ultimately have "same_on (live h) h h2" by (blast intro: same_on_trans same_on_mono)
  moreover have "live h2 = live h \<union> set (blocks (ps @ qs))" by (simp add: l(1,3) Un_assoc)
  moreover have "set (blocks (ps @ qs)) \<inter> live h = {}" "set (blocks ps) \<inter> set (blocks qs) = {}"
    using l(2,4) unfolding l(1) block_list_append set_append by blast+
  ultimately show ?thesis using assms by (simp add: grows_def)
qed

lemma grows_alloc:
  assumes "heap_ok h" "hp_alloc ok x h = (p, h')"
  shows "grows h [p] h'"
  using assms fresh_dead [OF assms(1)] by (auto simp: grows_def hp_alloc_def heap_ok_def same_on_def split: if_splits)

lemma grows_dup:
  assumes "heap_ok h" "dup_text ok s h = (p, h')"
  shows "grows h [p] h'" "read_text h' p = Some (case s of None \<Rightarrow> None | Some x \<Rightarrow> if ok then Some x else None)"
proof -
  show "grows h [p] h'"
  proof (cases s)
    case None
    with assms show ?thesis by (simp add: dup_text_def grows_def)
  next
    case (Some x)
    with assms grows_alloc show ?thesis by (simp add: dup_text_def)
  qed
  show "read_text h' p = Some (case s of None \<Rightarrow> None | Some x \<Rightarrow> if ok then Some x else None)"
    using assms by (auto simp: dup_text_def hp_alloc_def read_text_def text_at_def split: option.splits if_splits)
qed

lemma grows_read: "grows h ps h' \<Longrightarrow> read_text h p = Some s \<Longrightarrow> read_text h' p = Some s"
  using read_text_same [of "live h" h h' p] read_text_live [of h p s] by (simp add: grows_def)

text \<open>Freeing what has been added gives the old heap back, apart from the next address.\<close>

definition same_blocks :: "'c heap \<Rightarrow> 'c heap \<Rightarrow> bool" where
  "same_blocks h h' \<longleftrightarrow> hp_block h' = hp_block h"

lemma grows_free:
  assumes "grows h ps h'" "set (blocks qs) = set (blocks ps)" "distinct (blocks qs)" "bases qs"
  shows "\<exists>h2. free_all qs h' = Some h2 \<and> same_blocks h h2 \<and> heap_ok h2"
proof -
  have "hp_block (drop_blocks (set (blocks qs)) h') = hp_block h"
  proof
    fix b
    show "hp_block (drop_blocks (set (blocks qs)) h') b = hp_block h b"
      using assms(1,2) by (cases "b \<in> live h") (auto simp: grows_def same_on_def)
  qed
  with assms show ?thesis by (auto simp: free_all_iff grows_def same_blocks_def)
qed

text \<open>Freeing only some of what has been added leaves the others.\<close>

lemma grows_free_some:
  assumes g: "grows h ps h'" and r: "distinct (blocks rs)" "bases rs" "set (blocks rs) \<subseteq> set (blocks ps)"
    and q: "distinct (blocks qs)" "bases qs" "set (blocks qs) = set (blocks ps) - set (blocks rs)"
  shows "\<exists>h2. free_all rs h' = Some h2 \<and> grows h qs h2 \<and> same_on (set (blocks qs)) h' h2"
proof -
  let ?h = "drop_blocks (set (blocks rs)) h'"
  have l: "live h' = live h \<union> set (blocks ps)" "set (blocks ps) \<inter> live h = {}" "heap_ok h'" "same_on (live h) h h'"
    using g by (simp_all add: grows_def)
  have "free_all rs h' = Some ?h" by (rule free_all_ok) (use r l(1) in auto)
  moreover have "same_on (live h) h ?h" using l(2,4) r(3) by (auto simp: same_on_def)
  moreover have "live ?h = live h \<union> set (blocks qs)" using l(1,2) r(3) q(3) by auto
  moreover have "set (blocks qs) \<inter> live h = {}" "same_on (set (blocks qs)) h' ?h" using l(2) q(3) by (auto simp: same_on_def)
  ultimately show ?thesis using q(1,2) l(3) by (auto simp: grows_def)
qed

text \<open>Writing to a block that was added changes nothing for the others.\<close>

lemma grows_write:
  assumes "grows h ps h1" "b \<in> set (blocks ps)"
  shows "grows h ps (hp_write b x h1)"
proof -
  have l: "live h1 = live h \<union> set (blocks ps)" "set (blocks ps) \<inter> live h = {}" "heap_ok h1" using assms(1) by (simp_all add: grows_def)
  then have b: "b \<in> live h1" "b \<notin> live h" using assms(2) by blast+
  have "heap_ok (hp_write b x h1)" using l(3) live_below [OF l(3) b(1)] by (simp add: heap_ok_def hp_write_def)
  moreover have "live (hp_write b x h1) = live h1" using b(1) by (auto simp: hp_write_def)
  moreover have "same_on (live h) h (hp_write b x h1)" using assms(1) b(2) by (auto simp: grows_def same_on_def hp_write_def)
  ultimately show ?thesis using assms(1) by (simp add: grows_def)
qed

text \<open>A step that replaces the blocks \<open>A\<close> of an owner by \<open>B\<close> and leaves the others alone.\<close>

definition owner_step :: "'c heap \<Rightarrow> nat set \<Rightarrow> 'c heap \<Rightarrow> nat set \<Rightarrow> bool" where
  "owner_step h A h' B \<longleftrightarrow> heap_ok h' \<and> same_on (live h - A) h h' \<and> live h' = (live h - A) \<union> B \<and> B \<inter> (live h - A) = {}"

lemma owner_step_refl: "heap_ok h \<Longrightarrow> A \<subseteq> live h \<Longrightarrow> owner_step h A h A"
  by (auto simp: owner_step_def)

lemma owner_step_trans:
  assumes "owner_step h A h1 B" "owner_step h1 B h2 C"
  shows "owner_step h A h2 C"
proof -
  have l: "live h1 = (live h - A) \<union> B" "B \<inter> (live h - A) = {}" "same_on (live h - A) h h1" using assms(1) by (simp_all add: owner_step_def)
  then have e: "live h1 - B = live h - A" by blast
  with assms(2) have "heap_ok h2" "same_on (live h - A) h1 h2" "live h2 = (live h - A) \<union> C" "C \<inter> (live h - A) = {}"
    by (simp_all add: owner_step_def)
  with same_on_trans [OF l(3)] show ?thesis by (simp add: owner_step_def)
qed

lemma grows_step: "grows h ps h' \<Longrightarrow> owner_step h {} h' (set (blocks ps))"
  by (simp add: grows_def owner_step_def)

section \<open>Acquiring and releasing\<close>

text \<open>
  The contract of a function that builds something on the heap and of the one that takes it down:
  whether the first succeeds or fails half way, after both the blocks are what they were.
\<close>

locale acquire_release =
  fixes acquire :: "'c heap \<Rightarrow> ('r option \<times> 'c heap) option" and release :: "'r \<Rightarrow> 'c heap \<Rightarrow> 'c heap option"
  assumes exact: "heap_ok h \<Longrightarrow> \<exists>r h1. acquire h = Some (r, h1) \<and>
    (case r of None \<Rightarrow> same_blocks h h1 \<and> heap_ok h1
     | Some x \<Rightarrow> \<exists>h2. release x h1 = Some h2 \<and> same_blocks h h2 \<and> heap_ok h2)"
begin

text \<open>Used over and over, nothing accumulates.\<close>

definition once :: "'c heap \<Rightarrow> 'c heap option" where
  "once h = do { (r, h1) \<leftarrow> acquire h; (case r of None \<Rightarrow> Some h1 | Some x \<Rightarrow> release x h1) }"

primrec again :: "nat \<Rightarrow> 'c heap \<Rightarrow> 'c heap option" where
  "again 0 h = Some h"
| "again (Suc n) h = do { h1 \<leftarrow> once h; again n h1 }"

lemma once_exact: "heap_ok h \<Longrightarrow> \<exists>h'. once h = Some h' \<and> same_blocks h h' \<and> heap_ok h'"
  using exact [of h] by (auto simp: once_def split: option.splits)

lemma again_exact: "heap_ok h \<Longrightarrow> \<exists>h'. again n h = Some h' \<and> same_blocks h h' \<and> heap_ok h'"
proof (induction n arbitrary: h)
  case (Suc n)
  obtain h1 where h1: "once h = Some h1" "same_blocks h h1" "heap_ok h1" using once_exact [OF Suc.prems] by blast
  from Suc.IH [OF h1(3)] h1 show ?case by (auto simp: same_blocks_def)
qed (simp add: same_blocks_def)

end

text \<open>A heap with one string of the program, for closed instances.\<close>

definition heap0 :: "'c heap" where
  "heap0 = \<lparr>hp_block = [0 \<mapsto> Text ''done''], hp_next = 1\<rparr>"

lemma heap0_ok [simp]: "heap_ok heap0" "live heap0 = {0}" "read_text heap0 (Some (0, 0)) = Some (Some ''done'')"
  by (auto simp: heap0_def heap_ok_def read_text_def text_at_def split: if_splits)

end
