(* ===== verification/Stack_Heap.thy ===== *)
theory Stack_Heap
  imports Protocol_Stack Protocol_Transformers C_Heap
begin

text \<open>
  The protocol stack in memory (\<open>common/src/unified_protocol.c\<close>): a structure with a linked list
  of nodes, each with an adapter structure of its own, and the encoded data of a send or receive.

  A block holds one structure. Of the stack's structure only the fields that matter for its memory
  are here; the counters and callbacks are in \<open>Protocol_Stack\<close>. A list in memory could be cyclic,
  so walking it is a partial function: that it ends on the lists the stack builds is proved.
\<close>

section \<open>Structures\<close>

record node_cell =
  no_adapter :: pointer
  no_context :: "ptr option"
  no_next :: pointer

record stack_cell =
  so_adapters :: pointer
  so_adapter_count :: nat
  so_custom_config :: pointer

datatype 'w stack_struct = NodeS node_cell | AdapterS "'w protocol_adapter" | StackS stack_cell

type_synonym 'w stack_heap = "'w stack_struct heap"

definition node_at :: "addr \<Rightarrow> 'w stack_heap \<Rightarrow> node_cell option" where
  "node_at a h = (case struct_at a h of Some (NodeS n) \<Rightarrow> Some n | _ \<Rightarrow> None)"

definition adapter_at :: "addr \<Rightarrow> 'w stack_heap \<Rightarrow> 'w protocol_adapter option" where
  "adapter_at a h = (case struct_at a h of Some (AdapterS ad) \<Rightarrow> Some ad | _ \<Rightarrow> None)"

definition stack_at :: "addr \<Rightarrow> 'w stack_heap \<Rightarrow> stack_cell option" where
  "stack_at a h = (case struct_at a h of Some (StackS s) \<Rightarrow> Some s | _ \<Rightarrow> None)"

definition zero_node :: node_cell where
  "zero_node = \<lparr>no_adapter = None, no_context = None, no_next = None\<rparr>"

section \<open>Operations\<close>

text \<open>
  The configuration is copied with its pointer \<open>custom_config\<close>, which the stack frees in the end.
  The name goes through a copy that is freed at once.
\<close>

fun heap_stack_create ::
  "env \<Rightarrow> (cstring \<times> pointer) option \<Rightarrow> 'w stack_heap \<Rightarrow> (addr option \<times> 'w stack_heap) option" where
  "heap_stack_create E None h = Some (None, h)"
| "heap_stack_create E (Some (name, custom)) h =
    (case hp_alloc (mem E 0) (Structs [StackS \<lparr>so_adapters = None, so_adapter_count = 0, so_custom_config = custom\<rparr>]) h of
       (None, h1) \<Rightarrow> Some (None, h1)
     | (Some stack, h1) \<Rightarrow>
        (case hp_alloc (mem E 1) (Text name) h1 of (name_copy, h2) \<Rightarrow>
           do { h3 \<leftarrow> hp_free name_copy h2; Some (Some stack, h3) }))"

partial_function (option) find_node :: "protocol_type \<Rightarrow> 'w stack_heap \<Rightarrow> pointer \<Rightarrow> pointer option" where
  "find_node type h p = (case p of None \<Rightarrow> Some None
     | Some a \<Rightarrow> do {
         n \<leftarrow> node_at a h;
         (case no_adapter n of None \<Rightarrow> find_node type h (no_next n)
          | Some d \<Rightarrow> do {
              ad \<leftarrow> adapter_at d h;
              (if ad_type ad = type then Some p else find_node type h (no_next n)) }) })"

fun heap_stack_register ::
  "env \<Rightarrow> addr option \<Rightarrow> 'w protocol_adapter \<Rightarrow> 'w \<times> 'w stack_heap \<Rightarrow> (int \<times> 'w \<times> 'w stack_heap) option" where
  "heap_stack_register E None adapter (w, h) = Some (err E AIRY_ERR_UNKNOWN, w, h)"
| "heap_stack_register E (Some stack) adapter (w, h) = do {
     s \<leftarrow> stack_at stack h;
     existing \<leftarrow> find_node (ad_type adapter) h (so_adapters s);
     (case existing of
        Some a \<Rightarrow> do {
          n \<leftarrow> node_at a h;
          d \<leftarrow> no_adapter n;
          ad \<leftarrow> adapter_at d h;
          (let w1 = (case ad_destroy ad of None \<Rightarrow> w | Some f \<Rightarrow> snd (f (no_context n) w)) in do {
             h1 \<leftarrow> put_struct d (AdapterS adapter) h;
             Some (0, case ad_init adapter of None \<Rightarrow> w1 | Some f \<Rightarrow> snd (f (no_context n) w1), h1) }) }
      | None \<Rightarrow>
         (case hp_alloc (mem E 0) (Structs [NodeS zero_node]) h of
            (None, h1) \<Rightarrow> Some (err E AIRY_ERR_OUT_OF_MEMORY, w, h1)
          | (Some node, h1) \<Rightarrow>
             (case hp_alloc (mem E 1) (Structs [AdapterS adapter]) h1 of
                (None, h2) \<Rightarrow> do { h3 \<leftarrow> hp_free (Some node) h2; Some (err E AIRY_ERR_OUT_OF_MEMORY, w, h3) }
              | (Some d, h2) \<Rightarrow> do {
                  h3 \<leftarrow> put_struct node (NodeS (zero_node\<lparr>no_adapter := Some d, no_context := None\<rparr>)) h2;
                  (case (case ad_init adapter of None \<Rightarrow> (0, w) | Some f \<Rightarrow> f None w) of (result, w1) \<Rightarrow>
                     if result \<noteq> 0 then do { h4 \<leftarrow> free_all [Some d, Some node] h3; Some (result, w1, h4) }
                     else do {
                       h4 \<leftarrow> put_struct node (NodeS \<lparr>no_adapter = Some d, no_context = None, no_next = so_adapters s\<rparr>) h3;
                       h5 \<leftarrow> put_struct stack (StackS (s\<lparr>so_adapters := Some node, so_adapter_count := so_adapter_count s + 1\<rparr>)) h4;
                       Some (0, w1, h5) }) }))) }"

text \<open>Destruction: an adapter structure is freed only behind the call of its \<open>destroy\<close>.\<close>

partial_function (option) destroy_chain :: "pointer \<Rightarrow> 'w \<Rightarrow> 'w stack_heap \<Rightarrow> ('w \<times> 'w stack_heap) option" where
  "destroy_chain p w h = (case p of None \<Rightarrow> Some (w, h)
     | Some a \<Rightarrow> do {
         n \<leftarrow> node_at a h;
         s \<leftarrow> (case no_adapter n of None \<Rightarrow> Some (w, h)
              | Some d \<Rightarrow> do {
                  ad \<leftarrow> adapter_at d h;
                  (case ad_destroy ad of None \<Rightarrow> Some (w, h)
                   | Some f \<Rightarrow> do { h1 \<leftarrow> hp_free (Some d) h; Some (snd (f (no_context n) w), h1) }) });
         h2 \<leftarrow> hp_free (Some a) (snd s);
         destroy_chain (no_next n) (fst s) h2 })"

fun heap_stack_destroy :: "addr option \<Rightarrow> 'w \<times> 'w stack_heap \<Rightarrow> ('w \<times> 'w stack_heap) option" where
  "heap_stack_destroy None (w, h) = Some (w, h)"
| "heap_stack_destroy (Some stack) (w, h) = do {
     s \<leftarrow> stack_at stack h;
     (w1, h1) \<leftarrow> destroy_chain (so_adapters s) w h;
     s1 \<leftarrow> stack_at stack h1;
     h2 \<leftarrow> free_all [so_custom_config s1, Some stack] h1;
     Some (w1, h2) }"

section \<open>The list of adapters\<close>

text \<open>The nodes of a list, each with its block, the block of its adapter and the adapter.\<close>

type_synonym 'w link = "nat \<times> nat \<times> 'w protocol_adapter"

primrec chain :: "'w stack_heap \<Rightarrow> pointer \<Rightarrow> 'w link list \<Rightarrow> bool" where
  "chain h p [] \<longleftrightarrow> p = None"
| "chain h p (x # xs) \<longleftrightarrow> p = Some (fst x, 0) \<and> hp_block h (fst (snd x)) = Some (Structs [AdapterS (snd (snd x))]) \<and>
     (\<exists>q. hp_block h (fst x) = Some (Structs [NodeS \<lparr>no_adapter = Some (fst (snd x), 0), no_context = None, no_next = q\<rparr>]) \<and>
       chain h q xs)"

definition chain_blocks :: "'w link list \<Rightarrow> nat list" where
  "chain_blocks xs = concat (map (\<lambda>x. [fst x, fst (snd x)]) xs)"

definition chain_nodes :: "'w link list \<Rightarrow> 'w protocol_adapter_node list" where
  "chain_nodes xs = map (\<lambda>x. \<lparr>nd_adapter = snd (snd x), nd_context = None\<rparr>) xs"

lemma chain_simps [simp]:
  "chain_blocks [] = []" "chain_blocks (x # xs) = fst x # fst (snd x) # chain_blocks xs"
  "chain_nodes [] = []" "chain_nodes (x # xs) = \<lparr>nd_adapter = snd (snd x), nd_context = None\<rparr> # chain_nodes xs"
  by (simp_all add: chain_blocks_def chain_nodes_def)

lemma at_block [simp]:
  "hp_block h b = Some (Structs [NodeS n]) \<Longrightarrow> node_at (b, 0) h = Some n"
  "hp_block h b = Some (Structs [AdapterS ad]) \<Longrightarrow> adapter_at (b, 0) h = Some ad"
  "hp_block h b = Some (Structs [StackS s]) \<Longrightarrow> stack_at (b, 0) h = Some s"
  "hp_block h b = Some (Structs [c]) \<Longrightarrow> put_struct (b, 0) c' h = Some (hp_write b (Structs [c']) h)"
  by (simp_all add: node_at_def adapter_at_def stack_at_def struct_at_def put_struct_def)

lemma write_sel [simp]: "hp_block (hp_write b x h) c = (if c = b then Some x else hp_block h c)" "hp_next (hp_write b x h) = hp_next h"
  by (simp_all add: hp_write_def)

lemma chain_live: "chain h p xs \<Longrightarrow> set (chain_blocks xs) \<subseteq> live h"
  by (induction xs arbitrary: p) auto

lemma chain_same: "chain h p xs \<Longrightarrow> same_on (set (chain_blocks xs)) h h' \<Longrightarrow> chain h' p xs"
  by (induction xs arbitrary: p) (auto simp: same_on_def)

text \<open>Finding a node ends, and finds the one of the model.\<close>

lemma find_chain:
  "chain h p xs \<Longrightarrow> find_node type h p =
     Some (map_option (\<lambda>i. (fst (xs ! i), 0)) (find_idx (\<lambda>n. ad_type (nd_adapter n) = type) (chain_nodes xs)))"
proof (induction xs arbitrary: p)
  case (Cons x xs)
  then obtain q where q: "p = Some (fst x, 0)" "hp_block h (fst (snd x)) = Some (Structs [AdapterS (snd (snd x))])"
    "hp_block h (fst x) = Some (Structs [NodeS \<lparr>no_adapter = Some (fst (snd x), 0), no_context = None, no_next = q\<rparr>])" "chain h q xs"
    by auto
  with Cons.IH [OF q(4)] show ?case
    by (subst find_node.simps) (simp add: option.map_comp comp_def)
qed (subst find_node.simps, simp)

lemma chain_update:
  assumes "chain h p xs" "distinct (chain_blocks xs)" "i < length xs"
  shows "chain (hp_write (fst (snd (xs ! i))) (Structs [AdapterS ad]) h) p (xs[i := (fst (xs ! i), fst (snd (xs ! i)), ad)])"
  using assms
proof (induction xs arbitrary: p i)
  case (Cons x xs)
  show ?case
  proof (cases i)
    case 0
    have "same_on (set (chain_blocks xs)) h (hp_write (fst (snd x)) (Structs [AdapterS ad]) h)"
      using Cons.prems(2) by (auto simp: same_on_def)
    with 0 Cons.prems chain_same show ?thesis by fastforce
  next
    case (Suc j)
    have "fst (snd (xs ! j)) \<in> set (chain_blocks xs)" using Cons.prems(3) Suc by (auto simp: chain_blocks_def)
    with Cons.prems(2) have "fst x \<noteq> fst (snd (xs ! j))" "fst (snd x) \<noteq> fst (snd (xs ! j))" by auto
    with Suc Cons.IH [of _ j] Cons.prems show ?thesis by auto
  qed
qed simp

text \<open>What destruction frees: every node, and an adapter that has a \<open>destroy\<close>.\<close>

definition kept :: "'w link list \<Rightarrow> 'w link list" where
  "kept xs = filter (\<lambda>x. ad_destroy (snd (snd x)) = None) xs"

definition freed :: "'w link list \<Rightarrow> nat set" where
  "freed xs = set (chain_blocks xs) - set (map (\<lambda>x. fst (snd x)) (kept xs))"

lemma kept_blocks: "fst ` snd ` set (kept xs) \<subseteq> set (chain_blocks xs)"
  by (auto simp: kept_def chain_blocks_def)

lemma freed_Cons:
  assumes "distinct (chain_blocks (x # xs))"
  shows "freed (x # xs) = freed xs \<union> {fst x} \<union> (if ad_destroy (snd (snd x)) = None then {} else {fst (snd x)})"
  using assms kept_blocks [of xs] by (auto simp: freed_def kept_def image_image)

lemma destroy_chain_exact:
  "chain h p xs \<Longrightarrow> distinct (chain_blocks xs) \<Longrightarrow>
   destroy_chain p w h = Some (destroy_nodes (chain_nodes xs) w, drop_blocks (freed xs) h)"
proof (induction xs arbitrary: p w h)
  case Nil
  then show ?case by (subst destroy_chain.simps) (simp add: freed_def)
next
  case (Cons x xs)
  then obtain q where q: "p = Some (fst x, 0)" "hp_block h (fst (snd x)) = Some (Structs [AdapterS (snd (snd x))])"
    "hp_block h (fst x) = Some (Structs [NodeS \<lparr>no_adapter = Some (fst (snd x), 0), no_context = None, no_next = q\<rparr>])" "chain h q xs"
    by auto
  let ?S = "{fst x} \<union> (if ad_destroy (snd (snd x)) = None then {} else {fst (snd x)})"
  let ?h = "drop_blocks ?S h"
  let ?w = "case ad_destroy (snd (snd x)) of None \<Rightarrow> w | Some f \<Rightarrow> snd (f None w)"
  have "same_on (set (chain_blocks xs)) h ?h" using Cons.prems(2) by (auto split: if_splits)
  from Cons.IH [OF chain_same [OF q(4) this]] Cons.prems(2) have
    r: "destroy_chain q ?w ?h = Some (destroy_nodes (chain_nodes xs) ?w, drop_blocks (freed xs \<union> ?S) h)" by simp
  have "destroy_chain p w h = destroy_chain q ?w ?h"
    using q Cons.prems(2) by (subst destroy_chain.simps) (auto simp: insert_commute split: option.splits)
  with r freed_Cons [OF Cons.prems(2)] show ?case by (simp add: Un_commute Un_left_commute cong: option.case_cong)
qed

section \<open>What a stack owns\<close>

definition stack_own :: "nat set \<Rightarrow> 'w stack_heap \<Rightarrow> nat \<Rightarrow> pointer \<Rightarrow> 'w link list \<Rightarrow> 'w protocol_stack \<Rightarrow> bool" where
  "stack_own F h b custom xs stack \<longleftrightarrow> heap_ok h \<and>
     (\<exists>p. hp_block h b = Some (Structs [StackS \<lparr>so_adapters = p, so_adapter_count = length xs, so_custom_config = custom\<rparr>]) \<and>
       chain h p xs) \<and>
     distinct (b # chain_blocks xs) \<and> F \<inter> set (b # chain_blocks xs) = {} \<and> live h = F \<union> set (b # chain_blocks xs) \<and>
     sk_adapters stack = chain_nodes xs \<and> sk_adapter_count stack = length xs"

lemma heap_ok_write: "heap_ok h \<Longrightarrow> b \<in> live h \<Longrightarrow> heap_ok (hp_write b x h)"
  using live_below by (fastforce simp: heap_ok_def)

lemma live_write: "b \<in> live h \<Longrightarrow> live (hp_write b x h) = live h"
  by (auto split: if_splits)

lemma chain_nodes_update: "i < length xs \<Longrightarrow>
   chain_nodes (xs[i := (a, d, ad)]) = (chain_nodes xs)[i := (chain_nodes xs ! i)\<lparr>nd_adapter := ad\<rparr>]"
  by (simp add: chain_nodes_def map_update)

lemma chain_blocks_update: "i < length xs \<Longrightarrow> chain_blocks (xs[i := (fst (xs ! i), fst (snd (xs ! i)), ad)]) = chain_blocks xs"
proof -
  assume "i < length xs"
  have "map (\<lambda>x. [fst x, fst (snd x)]) (xs[i := (fst (xs ! i), fst (snd (xs ! i)), ad)]) = map (\<lambda>x. [fst x, fst (snd x)]) (xs[i := xs ! i])"
    by (simp only: map_update fst_conv snd_conv)
  then show ?thesis by (simp add: chain_blocks_def)
qed

lemma chain_member: "i < length xs \<Longrightarrow> fst (xs ! i) \<in> set (chain_blocks xs) \<and> fst (snd (xs ! i)) \<in> set (chain_blocks xs)"
  by (auto simp: chain_blocks_def)

lemma chain_nth:
  "chain h p xs \<Longrightarrow> i < length xs \<Longrightarrow> hp_block h (fst (snd (xs ! i))) = Some (Structs [AdapterS (snd (snd (xs ! i)))]) \<and>
     (\<exists>q. hp_block h (fst (xs ! i)) = Some (Structs [NodeS \<lparr>no_adapter = Some (fst (snd (xs ! i)), 0), no_context = None, no_next = q\<rparr>]))"
proof (induction xs arbitrary: p i)
  case (Cons x xs)
  then show ?case by (cases i) auto
qed simp

text \<open>Registering an adapter whose type is known replaces the adapter in its block.\<close>

lemma stack_register_known:
  assumes o: "stack_own F h b custom xs stack"
    and i: "find_adapter_node stack (ad_type adapter) = Some i"
  shows "\<exists>w' h' xs' stack'. heap_stack_register E (Some (b, 0)) adapter (w, h) = Some (0, w', h') \<and>
    protocol_stack_register_adapter E (Some stack) adapter w = (0, Some stack', w') \<and>
    stack_own F h' b custom xs' stack' \<and> same_on F h h'"
proof -
  from o obtain p where
    s: "hp_block h b = Some (Structs [StackS \<lparr>so_adapters = p, so_adapter_count = length xs, so_custom_config = custom\<rparr>])"
      "chain h p xs" "distinct (b # chain_blocks xs)" "F \<inter> set (b # chain_blocks xs) = {}" "heap_ok h"
      "live h = F \<union> set (b # chain_blocks xs)" "sk_adapters stack = chain_nodes xs" "sk_adapter_count stack = length xs"
    by (auto simp: stack_own_def)
  have f: "find_idx (\<lambda>n. ad_type (nd_adapter n) = ad_type adapter) (chain_nodes xs) = Some i" using i s(7) by (simp add: find_adapter_node_def)
  then have il: "i < length xs" using find_idx_lt by (fastforce simp: chain_nodes_def)
  let ?a = "fst (xs ! i)" and ?d = "fst (snd (xs ! i))" and ?ad = "snd (snd (xs ! i))"
  let ?h = "hp_write ?d (Structs [AdapterS adapter]) h" and ?xs = "xs[i := (fst (xs ! i), fst (snd (xs ! i)), adapter)]"
  from chain_nth [OF s(2) il] obtain q where
    n: "hp_block h ?d = Some (Structs [AdapterS ?ad])" "hp_block h ?a = Some (Structs [NodeS \<lparr>no_adapter = Some (?d, 0), no_context = None, no_next = q\<rparr>])"
    by blast
  have d: "?d \<in> live h" "?d \<noteq> b" "?d \<notin> F" using chain_member [OF il] s(3,4,6) by auto
  have nd: "chain_nodes xs ! i = \<lparr>nd_adapter = ?ad, nd_context = None\<rparr>" using il by (simp add: chain_nodes_def)
  let ?w1 = "case ad_destroy ?ad of None \<Rightarrow> w | Some g \<Rightarrow> snd (g None w)"
  let ?w2 = "case ad_init adapter of None \<Rightarrow> ?w1 | Some g \<Rightarrow> snd (g None ?w1)"
  let ?st = "stack\<lparr>sk_adapters := (chain_nodes xs)[i := (chain_nodes xs ! i)\<lparr>nd_adapter := adapter\<rparr>]\<rparr>"
  have "heap_stack_register E (Some (b, 0)) adapter (w, h) = Some (0, ?w2, ?h)"
    using s(1) find_chain [OF s(2)] f n by (simp cong: option.case_cong)
  moreover have "protocol_stack_register_adapter E (Some stack) adapter w = (0, Some ?st, ?w2)"
    using i s(7) nd by (simp add: Let_def cong: option.case_cong)
  moreover have "stack_own F ?h b custom ?xs ?st"
    unfolding stack_own_def chain_blocks_update [OF il] live_write [OF d(1)] chain_nodes_update [OF il]
    using s d(2) heap_ok_write [OF s(5) d(1)] chain_update [OF s(2) _ il] by simp
  moreover have "same_on F h ?h" using d(3) by (auto simp: same_on_def)
  ultimately show ?thesis by blast
qed

text \<open>Blocks that are the same mean that the stack is.\<close>

lemma stack_own_same:
  assumes o: "stack_own F h b custom xs stack" and "hp_block h' = hp_block h" "hp_next h \<le> hp_next h'"
  shows "stack_own F h' b custom xs stack \<and> same_on F h h'"
proof -
  have "chain h' p xs" if "chain h p xs" for p by (rule chain_same [OF that]) (simp add: same_on_def assms(2))
  moreover have "heap_ok h'" using assms by (auto simp: stack_own_def heap_ok_def)
  ultimately show ?thesis using o assms(2) by (auto simp: stack_own_def same_on_def)
qed

text \<open>An adapter of a new type goes to the front, unless an allocation or its \<open>init\<close> fails.\<close>

lemma stack_register_new:
  assumes o: "stack_own F h b custom xs stack"
    and i: "find_adapter_node stack (ad_type adapter) = None"
  shows "\<exists>rc w' h' xs' stack'. heap_stack_register E (Some (b, 0)) adapter (w, h) = Some (rc, w', h') \<and>
    protocol_stack_register_adapter E (Some stack) adapter w = (rc, Some stack', w') \<and>
    stack_own F h' b custom xs' stack' \<and> same_on F h h'"
proof -
  from o obtain p where
    s: "hp_block h b = Some (Structs [StackS \<lparr>so_adapters = p, so_adapter_count = length xs, so_custom_config = custom\<rparr>])"
      "chain h p xs" "distinct (b # chain_blocks xs)" "F \<inter> set (b # chain_blocks xs) = {}" "heap_ok h"
      "live h = F \<union> set (b # chain_blocks xs)" "sk_adapters stack = chain_nodes xs" "sk_adapter_count stack = length xs"
    by (auto simp: stack_own_def)
  have f: "find_node (ad_type adapter) h p = Some None"
    using find_chain [OF s(2)] i s(7) by (simp add: find_adapter_node_def)
  let ?n = "hp_next h" and ?d = "Suc (hp_next h)"
  have n: "?n \<notin> live h" "?d \<notin> live h" using s(5) by (simp_all add: heap_ok_def domIff)
  have "b \<in> live h" using s(6) by simp
  with n have fresh: "?n \<notin> live h" "?d \<notin> live h" "?n \<noteq> b" "?d \<noteq> b" by metis+
  obtain result w1 where r: "(case ad_init adapter of None \<Rightarrow> (0, w) | Some g \<Rightarrow> g None w) = (result, w1)" by (meson surj_pair)
  show ?thesis
  proof (cases "mem E 0 \<and> mem E 1 \<and> result = 0")
    case True
    let ?h1 = "h\<lparr>hp_block := (hp_block h)(?n \<mapsto> Structs [NodeS \<lparr>no_adapter = Some (?d, 0), no_context = None, no_next = p\<rparr>],
      ?d \<mapsto> Structs [AdapterS adapter], b \<mapsto> Structs [StackS \<lparr>so_adapters = Some (?n, 0), so_adapter_count = length xs + 1, so_custom_config = custom\<rparr>]),
      hp_next := Suc ?d\<rparr>"
    have "heap_stack_register E (Some (b, 0)) adapter (w, h) = Some (0, w1, ?h1)"
      using s(1) f True r fresh by (simp add: hp_alloc_def zero_node_def put_struct_def hp_write_def fun_upd_twist)
    moreover have "stack_own F ?h1 b custom ((?n, ?d, adapter) # xs)
      (stack\<lparr>sk_adapters := \<lparr>nd_adapter = adapter, nd_context = None\<rparr> # sk_adapters stack, sk_adapter_count := sk_adapter_count stack + 1\<rparr>)"
    proof -
      have "chain ?h1 p xs" by (rule chain_same [OF s(2)]) (use fresh s(3,6) in \<open>auto simp: same_on_def\<close>)
      moreover have "heap_ok ?h1" using s(5,6) live_below [OF s(5), of b] by (auto simp: heap_ok_def)
      ultimately show ?thesis using s fresh by (auto simp: stack_own_def)
    qed
    moreover have "same_on F h ?h1" using s(4) fresh s(6) by (auto simp: same_on_def)
    moreover have "protocol_stack_register_adapter E (Some stack) adapter w = (0, Some (stack\<lparr>sk_adapters := \<lparr>nd_adapter = adapter, nd_context = None\<rparr> # sk_adapters stack,
      sk_adapter_count := sk_adapter_count stack + 1\<rparr>), w1)" using i True r by simp
    ultimately show ?thesis by blast
  next
    case False
    let ?rc = "if mem E 0 \<and> mem E 1 then result else err E AIRY_ERR_OUT_OF_MEMORY" and ?w = "if mem E 0 \<and> mem E 1 then w1 else w"
    have "\<exists>h'. heap_stack_register E (Some (b, 0)) adapter (w, h) = Some (?rc, ?w, h') \<and> hp_block h' = hp_block h \<and> hp_next h \<le> hp_next h'"
      using s(1) f False r fresh
      by (auto simp: hp_alloc_def zero_node_def put_struct_def hp_write_def hp_free_def fun_eq_iff dom_def split: if_splits)
    moreover have "protocol_stack_register_adapter E (Some stack) adapter w = (?rc, Some stack, ?w)" using i False r by auto
    ultimately show ?thesis using stack_own_same [OF o] by blast
  qed
qed

section \<open>The life of a stack\<close>

fun heap_adapters :: "addr \<Rightarrow> (env \<times> 'w protocol_adapter) list \<Rightarrow> 'w \<times> 'w stack_heap \<Rightarrow> (int list \<times> 'w \<times> 'w stack_heap) option" where
  "heap_adapters st [] (w, h) = Some ([], w, h)"
| "heap_adapters st ((E, ad) # ads) (w, h) = do {
     (rc, s) \<leftarrow> heap_stack_register E (Some st) ad (w, h);
     (rcs, s') \<leftarrow> heap_adapters st ads s;
     Some (rc # rcs, s') }"

fun value_adapters :: "(env \<times> 'w protocol_adapter) list \<Rightarrow> 'w protocol_stack \<times> 'w \<Rightarrow> int list \<times> 'w protocol_stack \<times> 'w" where
  "value_adapters [] (stack, w) = ([], stack, w)"
| "value_adapters ((E, ad) # ads) (stack, w) =
    (case protocol_stack_register_adapter E (Some stack) ad w of
       (rc, Some stack1, w1) \<Rightarrow> (case value_adapters ads (stack1, w1) of (rcs, s) \<Rightarrow> (rc # rcs, s))
     | (rc, None, w1) \<Rightarrow> ([rc], stack, w1))"

lemma stack_register_own:
  assumes "stack_own F h b custom xs stack"
  shows "\<exists>rc w' h' xs' stack'. heap_stack_register E (Some (b, 0)) adapter (w, h) = Some (rc, w', h') \<and>
    protocol_stack_register_adapter E (Some stack) adapter w = (rc, Some stack', w') \<and>
    stack_own F h' b custom xs' stack' \<and> same_on F h h'"
proof (cases "find_adapter_node stack (ad_type adapter)")
  case None
  then show ?thesis by (rule stack_register_new [OF assms])
next
  case (Some i)
  from stack_register_known [OF assms Some, of E w] show ?thesis by blast
qed

lemma adapters_own:
  "stack_own F h b custom xs stack \<Longrightarrow> \<exists>rcs w' h' xs' stack'. heap_adapters (b, 0) ads (w, h) = Some (rcs, w', h') \<and>
     value_adapters ads (stack, w) = (rcs, stack', w') \<and> stack_own F h' b custom xs' stack' \<and> same_on F h h'"
proof (induction ads arbitrary: w h xs stack)
  case (Cons q ads)
  obtain E ad where q: "q = (E, ad)" by (cases q)
  from stack_register_own [OF Cons.prems, of E ad w] obtain rc w1 h1 xs1 stack1 where
    r: "heap_stack_register E (Some (b, 0)) ad (w, h) = Some (rc, w1, h1)" "protocol_stack_register_adapter E (Some stack) ad w = (rc, Some stack1, w1)"
      "stack_own F h1 b custom xs1 stack1" "same_on F h h1" by blast
  from Cons.IH [OF r(3), of w1] obtain rcs w2 h2 xs2 stack2 where
    "heap_adapters (b, 0) ads (w1, h1) = Some (rcs, w2, h2)" "value_adapters ads (stack1, w1) = (rcs, stack2, w2)"
      "stack_own F h2 b custom xs2 stack2" "same_on F h1 h2" by blast
  with r(1,2) same_on_trans [OF r(4)] show ?case by (auto simp: q simp del: heap_stack_register.simps protocol_stack_register_adapter.simps)
qed auto

lemma stack_create_own:
  assumes "heap_ok h" "protocol_stack_create E (Some config) = Some (stack :: 'w protocol_stack)"
  shows "\<exists>h1. heap_stack_create E (Some (cf_name config, custom)) h = Some (Some (hp_next h, 0), h1) \<and>
    stack_own (live h) h1 (hp_next h) custom [] stack \<and> same_on (live h) h h1"
proof -
  let ?c = "Structs [StackS \<lparr>so_adapters = None, so_adapter_count = 0, so_custom_config = custom\<rparr>]"
  have m: "mem E 0" "sk_adapters stack = []" "sk_adapter_count stack = 0" using assms(2) by (auto split: if_splits)
  have "\<exists>h1. heap_stack_create E (Some (cf_name config, custom)) h = Some (Some (hp_next h, 0), h1) \<and>
    hp_block h1 = (hp_block h)(hp_next h \<mapsto> ?c) \<and> hp_next h < hp_next h1"
    using m(1) assms(1) by (auto simp: hp_alloc_def hp_free_def heap_ok_def fun_eq_iff)
  moreover have "hp_next h \<notin> live h" by (rule fresh_dead [OF assms(1)])
  ultimately show ?thesis using m assms(1) by (fastforce simp: stack_own_def heap_ok_def same_on_def)
qed

text \<open>The adapters that destruction leaves behind.\<close>

lemma kept_adapters:
  assumes "chain h p xs" "S \<inter> set (map (\<lambda>x. fst (snd x)) (kept xs)) = {}"
  shows "map (\<lambda>x. adapter_at (fst (snd x), 0) (drop_blocks S h)) (kept xs) =
    map Some (filter (\<lambda>ad. ad_destroy ad = None) (map nd_adapter (chain_nodes xs)))"
  using assms
proof (induction xs arbitrary: p)
  case (Cons x xs)
  then obtain q where "chain h q xs" by auto
  with Cons show ?case by (fastforce simp: kept_def adapter_at_def struct_at_def)
qed (simp add: kept_def)

lemma kept_distinct: "distinct (chain_blocks xs) \<Longrightarrow> distinct (map (\<lambda>x. fst (snd x)) (kept xs))"
proof (induction xs)
  case (Cons x xs)
  then show ?case using kept_blocks [of xs] by (auto simp: kept_def image_image)
qed (simp add: kept_def)

lemma stack_destroy_own:
  assumes o: "stack_own F h b custom xs stack" and c: "bases [custom]" "set (blocks [custom]) \<subseteq> F"
  shows "heap_stack_destroy (Some (b, 0)) (w, h) =
    Some (protocol_stack_destroy (Some stack) w, drop_blocks (set (blocks [custom]) \<union> {b} \<union> freed xs) h)"
proof -
  from o obtain p where
    s: "hp_block h b = Some (Structs [StackS \<lparr>so_adapters = p, so_adapter_count = length xs, so_custom_config = custom\<rparr>])"
      "chain h p xs" "distinct (b # chain_blocks xs)" "F \<inter> set (b # chain_blocks xs) = {}" "live h = F \<union> set (b # chain_blocks xs)"
      "sk_adapters stack = chain_nodes xs" by (auto simp: stack_own_def)
  let ?h = "drop_blocks (freed xs) h"
  have fr: "freed xs \<subseteq> set (chain_blocks xs)" by (auto simp: freed_def)
  then have b: "hp_block ?h b = Some (Structs [StackS \<lparr>so_adapters = p, so_adapter_count = length xs, so_custom_config = custom\<rparr>])"
    using s(1,3) by auto
  have "set (blocks [custom]) \<subseteq> live ?h" "b \<notin> set (blocks [custom])" "b \<in> live ?h" using c(2) s(3-5) fr by auto
  then have "free_all [custom, Some (b, 0)] ?h = Some (drop_blocks (set (blocks [custom]) \<union> {b}) ?h)"
    using c(1) by (subst free_all_iff) (cases custom; auto simp: insert_commute)
  with s(1) b destroy_chain_exact [OF s(2), of w] s(3,6) show ?thesis by (simp add: Un_assoc del: free_all.simps blocks.simps)
qed

text \<open>
  C8: the memory of a stack. Create a stack, register any adapters, replacing some of them and with
  any pattern of failed allocations and failed initialisers, and destroy it: every walk through the list
  ends, no call touches a block that is gone, codes and callbacks are those of the model, and
  afterwards exactly the custom configuration that was handed over is gone and exactly the adapter
  structures of the adapters without a \<open>destroy\<close> function are left behind.
\<close>

theorem stack_memory_exact:
  fixes ads :: "(env \<times> 'w protocol_adapter) list"
  assumes "heap_ok h" "protocol_stack_create E (Some config) = Some (stack :: 'w protocol_stack)"
    and "bases [custom]" "set (blocks [custom]) \<subseteq> live h"
  shows "\<exists>st h1 rcs w1 h2 stack' h3 ds. heap_stack_create E (Some (cf_name config, custom)) h = Some (Some st, h1) \<and>
    heap_adapters st ads (w, h1) = Some (rcs, w1, h2) \<and> value_adapters ads (stack, w) = (rcs, stack', w1) \<and>
    heap_stack_destroy (Some st) (w1, h2) = Some (protocol_stack_destroy (Some stack') w1, h3) \<and>
    same_on (live h - set (blocks [custom])) h h3 \<and> live h3 = live h - set (blocks [custom]) \<union> set ds \<and>
    distinct ds \<and> set ds \<inter> live h = {} \<and>
    map (\<lambda>d. adapter_at (d, 0) h3) ds = map Some (filter (\<lambda>ad. ad_destroy ad = None) (map nd_adapter (sk_adapters stack')))"
proof -
  let ?b = "hp_next h" and ?C = "set (blocks [custom])"
  from stack_create_own [OF assms(1,2), of custom] obtain h1 where
    c: "heap_stack_create E (Some (cf_name config, custom)) h = Some (Some (?b, 0), h1)" "stack_own (live h) h1 ?b custom [] stack"
      "same_on (live h) h h1" by blast
  from adapters_own [OF c(2), of ads w] obtain rcs w1 h2 xs stack' where
    r: "heap_adapters (?b, 0) ads (w, h1) = Some (rcs, w1, h2)" "value_adapters ads (stack, w) = (rcs, stack', w1)"
      "stack_own (live h) h2 ?b custom xs stack'" "same_on (live h) h1 h2" by blast
  let ?ds = "map (\<lambda>x. fst (snd x)) (kept xs)" and ?S = "?C \<union> {?b} \<union> freed xs"
  let ?h3 = "drop_blocks ?S h2"
  note d = stack_destroy_own [OF r(3) assms(3,4), of w1]
  from r(3) obtain p where s: "chain h2 p xs" "distinct (?b # chain_blocks xs)" "live h \<inter> set (?b # chain_blocks xs) = {}"
    "live h2 = live h \<union> set (?b # chain_blocks xs)" "sk_adapters stack' = chain_nodes xs" by (auto simp: stack_own_def)
  have ds: "set ?ds \<subseteq> set (chain_blocks xs)" using kept_blocks [of xs] by auto
  have S: "?S \<inter> set ?ds = {}" using s(2,3) ds assms(4) unfolding freed_def by (auto simp del: blocks.simps)
  have fr: "freed xs \<subseteq> set (chain_blocks xs)" by (auto simp: freed_def)
  have "same_on (live h - ?C) h h2" by (rule same_on_mono [OF same_on_trans [OF c(3) r(4)]]) blast
  moreover have "same_on (live h - ?C) h2 ?h3" using s(3) fr by (auto simp del: blocks.simps)
  ultimately have "same_on (live h - ?C) h ?h3" by (rule same_on_trans)
  moreover have "live ?h3 = live h - ?C \<union> set ?ds"
    using s(2-4) ds assms(4) unfolding live_drop freed_def list.set distinct.simps by blast
  moreover have "distinct ?ds" "set ?ds \<inter> live h = {}" using kept_distinct s(2,3) ds by auto
  moreover have "map (\<lambda>d. adapter_at (d, 0) ?h3) ?ds = map Some (filter (\<lambda>ad. ad_destroy ad = None) (map nd_adapter (sk_adapters stack')))"
    using kept_adapters [OF s(1) S] s(5) by (simp add: comp_def del: blocks.simps)
  ultimately show ?thesis using c(1) r(1,2) d by blast
qed

theorem stack_memory_exact_witness:
  "\<exists>st h1 rcs w1 h2 h3. heap_stack_create env0 (Some (''s'', Some (0, 0))) (heap0 :: unit stack_heap) = Some (Some st, h1) \<and>
    heap_adapters st [(env0, zero_adapter)] ((), h1) = Some (rcs, w1, h2) \<and>
    heap_stack_destroy (Some st) (w1, h2) = Some ((), h3) \<and> (\<exists>d. live h3 = {d} \<and> d \<noteq> 0 \<and> adapter_at (d, 0) h3 = Some zero_adapter)"
proof -
  let ?c = "(protocol_stack_config_default env0 (Some ''s''))\<lparr>cf_name := ''s''\<rparr>"
  obtain stack :: "unit protocol_stack" where st: "protocol_stack_create env0 (Some ?c) = Some stack" "sk_adapters stack = []" by simp
  have "bases [Some (0, 0)]" "set (blocks [Some (0, 0)]) \<subseteq> live (heap0 :: unit stack_heap)" by simp_all
  from stack_memory_exact [OF heap0_ok(1) st(1) this, of "[(env0, zero_adapter)]" "()"] obtain s h1 rcs w1 h2 stack' h3 ds where
    r: "heap_stack_create env0 (Some (''s'', Some (0, 0))) (heap0 :: unit stack_heap) = Some (Some s, h1)"
      "heap_adapters s [(env0, zero_adapter)] ((), h1) = Some (rcs, w1, h2)" "value_adapters [(env0, zero_adapter)] (stack, ()) = (rcs, stack', w1)"
      "heap_stack_destroy (Some s) (w1, h2) = Some (protocol_stack_destroy (Some stack') w1, h3)" "live h3 = {0} - {0} \<union> set ds"
      "set ds \<inter> {0} = {}" "map (\<lambda>d. adapter_at (d, 0) h3) ds = map Some (filter (\<lambda>ad. ad_destroy ad = None) (map nd_adapter (sk_adapters stack')))"
    by (simp del: heap_stack_create.simps heap_adapters.simps value_adapters.simps heap_stack_destroy.simps protocol_stack_destroy.simps) blast
  have "map nd_adapter (sk_adapters stack') = [zero_adapter]" using r(3) st(2) by (auto simp: zero_adapter_def find_adapter_node_def)
  with r(7) have "\<exists>d. ds = [d] \<and> adapter_at (d, 0) h3 = Some zero_adapter" by (cases ds) (auto simp: zero_adapter_def)
  then show ?thesis using r(1,2,4-6) by auto
qed

section \<open>The data of a send and of a receive\<close>

text \<open>
  An adapter's encoder and receiver give a block of their own. \<open>payload\<close> is the address of the
  message's payload; without an encoder that block is sent and stays the caller's.
\<close>

definition free_encoded :: "pointer \<Rightarrow> pointer \<Rightarrow> 'c heap \<Rightarrow> 'c heap option" where
  "free_encoded encoded_data payload h = (if encoded_data \<noteq> payload \<and> encoded_data \<noteq> None then hp_free encoded_data h else Some h)"

fun heap_stack_send :: "env \<Rightarrow> 'w protocol_stack option \<Rightarrow> unified_message option \<Rightarrow> pointer \<Rightarrow> 'w \<Rightarrow> 'c heap \<Rightarrow>
    (int \<times> 'w protocol_stack option \<times> 'w \<times> 'c heap) option" where
  "heap_stack_send E (Some stack) (Some message) payload w h =
    (let valid = validate_message E (Some message) in
     if valid \<noteq> 0 then Some (valid, Some stack, w, h)
     else case find_adapter_node stack (um_protocol message) of
       None \<Rightarrow> Some (err E AIRY_ERR_NOT_FOUND, Some stack, w, h)
     | Some i \<Rightarrow>
        (let node = sk_adapters stack ! i; adapter = nd_adapter node; ctx = nd_context node;
             (result, p, dat, w1, h1) =
               (case ad_encode adapter of
                  None \<Rightarrow> (0, payload, (um_payload message, um_payload_size message), w, h)
                | Some f \<Rightarrow> (case f ctx message w of (rc, dat, w1) \<Rightarrow>
                    (case dup_text True (fst dat) h of (p, h1) \<Rightarrow> (rc, p, dat, w1, h1))))
         in if result \<noteq> 0 then Some (result, Some stack, w1, h1)
            else
              (let (conn_result, w2) = (case ad_connect adapter of None \<Rightarrow> (0, w1)
                                        | Some f \<Rightarrow> f ctx (um_endpoint message) w1)
               in if conn_result \<noteq> 0 \<and> conn_result \<noteq> - 2
                  then do { h2 \<leftarrow> free_encoded p payload h1; Some (conn_result, Some stack, w2, h2) }
                  else
                    (let (send_result, w3) =
                           (case ad_send adapter of
                              Some f \<Rightarrow> f ctx dat w2
                            | None \<Rightarrow> (0, case sk_message_callback stack of None \<Rightarrow> w2
                                         | Some cb \<Rightarrow> cb message (sk_callback_user_data stack) w2))
                     in do {
                       h2 \<leftarrow> free_encoded p payload h1;
                       Some (if send_result \<noteq> 0 then (send_result, Some stack, w3, h2)
                         else (0, Some (stack\<lparr>sk_messages_sent := sk_messages_sent stack + 1,
                                sk_bytes_sent := sk_bytes_sent stack + of_nat (snd dat)\<rparr>), w3, h2)) }))))"
| "heap_stack_send E stack message payload w h = Some (err E AIRY_ERR_UNKNOWN, stack, w, h)"

fun heap_receive_loop :: "'w protocol_adapter_node list \<Rightarrow> u32 \<Rightarrow> unified_message \<Rightarrow> 'w \<Rightarrow> 'c heap \<Rightarrow>
    ((protocol_type \<times> nat \<times> pointer) option \<times> unified_message \<times> 'w \<times> 'c heap) option" where
  "heap_receive_loop [] timeout_ms message w h = Some (None, message, w, h)"
| "heap_receive_loop (node # nodes) timeout_ms message w h =
    (case ad_receive (nd_adapter node) of
       None \<Rightarrow> heap_receive_loop nodes timeout_ms message w h
     | Some rcv \<Rightarrow>
        (let (result, (decoded_data, decoded_size), w1) = rcv (nd_context node) timeout_ms w;
             (p, h1) = dup_text True decoded_data h in
         if result = 0 \<and> p \<noteq> None \<and> 0 < decoded_size
         then (case ad_decode (nd_adapter node) of
                 Some dec \<Rightarrow>
                   (let (dec_result, m1, w2) = dec (nd_context node) (decoded_data, decoded_size) message w1
                    in if dec_result \<noteq> 0 then do { h2 \<leftarrow> hp_free p h1; heap_receive_loop nodes timeout_ms m1 w2 h2 }
                       else Some (Some (ad_type (nd_adapter node), decoded_size, p), m1, w2, h1))
               | None \<Rightarrow> Some (Some (ad_type (nd_adapter node), decoded_size, p),
                   message\<lparr>um_payload := decoded_data, um_payload_size := decoded_size\<rparr>, w1, h1))
         else do { h2 \<leftarrow> hp_free p h1; heap_receive_loop nodes timeout_ms message w1 h2 }))"

fun heap_stack_receive :: "env \<Rightarrow> 'w protocol_stack option \<Rightarrow> unified_message option \<Rightarrow> u32 \<Rightarrow> 'w \<Rightarrow> 'c heap \<Rightarrow>
    (int \<times> 'w protocol_stack option \<times> unified_message option \<times> 'w \<times> 'c heap) option" where
  "heap_stack_receive E (Some stack) (Some message) timeout_ms w h = do {
     r \<leftarrow> heap_receive_loop (sk_adapters stack) timeout_ms zero_message w h;
     Some (case r of
       (Some (type, sz, p), m1, w1, h1) \<Rightarrow>
         (let m2 = m1\<lparr>um_protocol := type, um_direction := DIRECTION_RESPONSE,
                      um_timestamp := time_ns E 0, um_message_id := 0\<rparr>;
              stack1 = stack\<lparr>sk_messages_received := sk_messages_received stack + 1,
                sk_bytes_received := sk_bytes_received stack + of_nat sz\<rparr>;
              w2 = (case sk_message_callback stack1 of None \<Rightarrow> w1
                    | Some cb \<Rightarrow> cb m2 (sk_callback_user_data stack1) w1)
          in (0, Some stack1, Some m2, w2, h1))
     | (None, m1, w1, h1) \<Rightarrow> (err E AIRY_ERR_TIMEOUT, Some stack, Some m1, w1, h1)) }"
| "heap_stack_receive E stack message timeout_ms w h = Some (err E AIRY_ERR_TIMEOUT, stack, message, w, h)"

text \<open>A fresh copy that is freed again leaves every block as it was.\<close>

lemma dup_free:
  assumes "heap_ok h" "dup_text True s h = (p, h1)"
  shows "\<exists>h2. hp_free p h1 = Some h2 \<and> hp_block h2 = hp_block h \<and> heap_ok h2" "p = None \<longleftrightarrow> s = None"
    "p \<noteq> None \<Longrightarrow> p = Some (hp_next h, 0)"
  using assms by (auto simp: dup_text_def hp_alloc_def hp_free_def heap_ok_def fun_eq_iff split: option.splits)

lemma dup_free_encoded:
  assumes "heap_ok h" "dup_text True s h = (p, h1)" "set (blocks [payload]) \<subseteq> live h"
  shows "\<exists>h2. free_encoded p payload h1 = Some h2 \<and> hp_block h2 = hp_block h"
proof (cases "p = None")
  case True
  then have "h1 = h" using assms(2) by (auto simp: dup_text_def hp_alloc_def split: option.splits)
  with True show ?thesis by (simp add: free_encoded_def)
next
  case False
  then have "p \<noteq> payload" using dup_free(3) [OF assms(1,2)] fresh_dead [OF assms(1)] assms(3) by auto
  with False dup_free(1) [OF assms(1,2)] show ?thesis by (auto simp: free_encoded_def)
qed

text \<open>What a send leaves behind: the data of an encoder that reports a failure after it has set it.\<close>

definition send_leak :: "env \<Rightarrow> 'w protocol_stack \<Rightarrow> unified_message \<Rightarrow> 'w \<Rightarrow> cstring option" where
  "send_leak E stack m w = (case find_adapter_node stack (um_protocol m) of
     Some i \<Rightarrow> if validate_message E (Some m) = 0
       then (case encode_stage (sk_adapters stack ! i) m w of (rc, (d, sz), w1) \<Rightarrow> if rc \<noteq> 0 then d else None) else None
   | None \<Rightarrow> None)"

definition left_over :: "'c heap \<Rightarrow> cstring option \<Rightarrow> 'c heap \<Rightarrow> bool" where
  "left_over h d h' \<longleftrightarrow> (case d of None \<Rightarrow> hp_block h' = hp_block h
     | Some t \<Rightarrow> \<exists>b. b \<notin> live h \<and> hp_block h' = (hp_block h)(b \<mapsto> Text t))"

lemma dup_left_over: "heap_ok h \<Longrightarrow> dup_text True d h = (p, h1) \<Longrightarrow> left_over h d h1"
  using fresh_dead [of h] by (auto simp: left_over_def dup_text_def hp_alloc_def split: option.splits)

lemma send_data:
  assumes ok: "heap_ok h" and pl: "set (blocks [payload]) \<subseteq> live h"
  shows "\<exists>rc stack' w' h'. heap_stack_send E (Some stack) (Some message) payload w h = Some (rc, stack', w', h') \<and>
    protocol_stack_send E (Some stack) (Some message) w = (rc, stack', w') \<and> left_over h (send_leak E stack message w) h'"
proof (cases "find_adapter_node stack (um_protocol message)")
  case None
  then show ?thesis by (simp add: send_leak_def left_over_def)
next
  case (Some i)
  let ?ad = "nd_adapter (sk_adapters stack ! i)" and ?ctx = "nd_context (sk_adapters stack ! i)"
  show ?thesis
  proof (cases "ad_encode ?ad")
    case None
    have "free_encoded payload payload h = Some h" by (simp add: free_encoded_def)
    moreover have "send_leak E stack message w = None" using Some None by (simp add: send_leak_def encode_stage_def)
    ultimately show ?thesis using Some None by (auto simp: Let_def left_over_def split: prod.splits option.splits)
  next
    case f: (Some f)
    obtain rc d sz w1 where c: "f ?ctx message w = (rc, (d, sz), w1)" by (metis surj_pair)
    obtain p h1 where p: "dup_text True d h = (p, h1)" by (meson surj_pair)
    from dup_free_encoded [OF ok p pl] obtain h2 where h2: "free_encoded p payload h1 = Some h2" "hp_block h2 = hp_block h" by blast
    have leak: "send_leak E stack message w = (if validate_message E (Some message) = 0 \<and> rc \<noteq> 0 then d else None)"
      using Some f c by (simp add: send_leak_def encode_stage_def)
    have "left_over h None h" "left_over h None h2" "left_over h d h1"
      using h2(2) dup_left_over [OF ok p] by (simp_all add: left_over_def)
    with Some f c p h2(1) leak show ?thesis by (auto simp: Let_def split: prod.splits option.splits)
  qed
qed

text \<open>The loop of a receive: nothing is kept of the adapters it passes.\<close>

lemma receive_data:
  "heap_ok h \<Longrightarrow> \<exists>r m w' h'. heap_receive_loop nodes timeout_ms message w h = Some (r, m, w', h') \<and>
     receive_loop nodes timeout_ms message w = (map_option (\<lambda>(type, sz, p). (type, sz)) r, m, w') \<and> heap_ok h' \<and>
     (case r of None \<Rightarrow> hp_block h' = hp_block h
      | Some (type, sz, p) \<Rightarrow> \<exists>b dat. p = Some (b, 0) \<and> b \<notin> live h \<and> hp_block h' = (hp_block h)(b \<mapsto> Text dat) \<and>
          (\<exists>node \<in> set nodes. ad_type (nd_adapter node) = type \<and> (ad_decode (nd_adapter node) = None \<longrightarrow> um_payload m = Some dat)))"
proof (induction nodes arbitrary: message w h)
  case (Cons node nodes)
  show ?case
  proof (cases "ad_receive (nd_adapter node)")
    case None
    with Cons.IH [OF Cons.prems, of message w] show ?thesis by (fastforce split: option.splits)
  next
    case (Some rcv)
    obtain result d sz w1 where c: "rcv (nd_context node) timeout_ms w = (result, (d, sz), w1)" by (metis surj_pair)
    obtain p h1 where p: "dup_text True d h = (p, h1)" by (meson surj_pair)
    from dup_free(1) [OF Cons.prems p] obtain h2 where h2: "hp_free p h1 = Some h2" "hp_block h2 = hp_block h" "heap_ok h2" by blast
    note d = dup_free(2,3) [OF Cons.prems p]
    show ?thesis
    proof (cases "result = 0 \<and> d \<noteq> None \<and> 0 < sz")
      case False
      with Cons.IH [OF h2(3), of message w1] Some c p h2 d(1) show ?thesis by (fastforce split: option.splits)
    next
      case True
      then obtain dat where dat: "d = Some dat" by blast
      then have b: "p = Some (hp_next h, 0)" "hp_next h \<notin> live h" "hp_block h1 = (hp_block h)(hp_next h \<mapsto> Text dat)" "heap_ok h1"
        using p fresh_dead [OF Cons.prems] Cons.prems by (auto simp: dup_text_def hp_alloc_def heap_ok_def)
      show ?thesis
      proof (cases "ad_decode (nd_adapter node)")
        case None
        with True Some c p b dat show ?thesis by auto
      next
        case dec: (Some dec)
        obtain dr m1 w2 where e: "dec (nd_context node) (d, sz) message w1 = (dr, m1, w2)" by (metis surj_pair)
        show ?thesis
        proof (cases "dr = 0")
          case True
          with \<open>result = 0 \<and> d \<noteq> None \<and> 0 < sz\<close> Some c p b dat dec e show ?thesis by auto
        next
          case False
          with \<open>result = 0 \<and> d \<noteq> None \<and> 0 < sz\<close> Cons.IH [OF h2(3), of m1 w2] Some c p h2 b(1) dec e show ?thesis
            by (fastforce split: option.splits)
        qed
      qed
    qed
  qed
qed simp

text \<open>
  C9: the data of a send and of a receive. A send never frees the caller's payload and frees what
  the encoder made, so that no block changes, but for one case: the data of an encoder that sets
  it and then reports a failure stays behind as one new block. A receive that fails keeps nothing;
  one that succeeds leaves exactly one new block, with the received data. It is the payload when the
  adapter has no decoder, and is still there when a decoder has made the message from it.
\<close>

theorem stack_data_exact:
  assumes "heap_ok h" "codes_ok E" "set (blocks [payload]) \<subseteq> live h"
  shows "(\<exists>rc stack' w' h'. heap_stack_send E (Some stack) (Some message) payload w h = Some (rc, stack', w', h') \<and>
      protocol_stack_send E (Some stack) (Some message) w = (rc, stack', w') \<and> left_over h (send_leak E stack message w) h') \<and>
    (\<exists>rc stack' m w' h'. heap_stack_receive E (Some stack) (Some message) timeout_ms w h = Some (rc, stack', Some m, w', h') \<and>
      protocol_stack_receive E (Some stack) (Some message) timeout_ms w = (rc, stack', Some m, w') \<and>
      (rc \<noteq> 0 \<longrightarrow> hp_block h' = hp_block h) \<and>
      (rc = 0 \<longrightarrow> (\<exists>b dat. b \<notin> live h \<and> hp_block h' = (hp_block h)(b \<mapsto> Text dat) \<and>
        (\<exists>node \<in> set (sk_adapters stack). ad_type (nd_adapter node) = um_protocol m \<and>
          (ad_decode (nd_adapter node) = None \<longrightarrow> um_payload m = Some dat)))))"
proof -
  from receive_data [OF assms(1), of "sk_adapters stack" timeout_ms zero_message w] obtain r m w1 h1 where
    r: "heap_receive_loop (sk_adapters stack) timeout_ms zero_message w h = Some (r, m, w1, h1)"
      "receive_loop (sk_adapters stack) timeout_ms zero_message w = (map_option (\<lambda>(type, sz, p). (type, sz)) r, m, w1)"
      "case r of None \<Rightarrow> hp_block h1 = hp_block h
      | Some (type, sz, p) \<Rightarrow> \<exists>b dat. p = Some (b, 0) \<and> b \<notin> live h \<and> hp_block h1 = (hp_block h)(b \<mapsto> Text dat) \<and>
          (\<exists>node \<in> set (sk_adapters stack). ad_type (nd_adapter node) = type \<and> (ad_decode (nd_adapter node) = None \<longrightarrow> um_payload m = Some dat))"
    by blast
  have "err E AIRY_ERR_TIMEOUT \<noteq> 0" using assms(2) by (metis codes_ok_def less_irrefl)
  with r have "\<exists>rc stack' m w' h'. heap_stack_receive E (Some stack) (Some message) timeout_ms w h = Some (rc, stack', Some m, w', h') \<and>
      protocol_stack_receive E (Some stack) (Some message) timeout_ms w = (rc, stack', Some m, w') \<and>
      (rc \<noteq> 0 \<longrightarrow> hp_block h' = hp_block h) \<and>
      (rc = 0 \<longrightarrow> (\<exists>b dat. b \<notin> live h \<and> hp_block h' = (hp_block h)(b \<mapsto> Text dat) \<and>
        (\<exists>node \<in> set (sk_adapters stack). ad_type (nd_adapter node) = um_protocol m \<and>
          (ad_decode (nd_adapter node) = None \<longrightarrow> um_payload m = Some dat))))"
    by (cases r) (fastforce simp: Let_def)+
  with send_data [OF assms(1,3), of E stack message w] show ?thesis by blast
qed

theorem stack_data_exact_witness:
  "\<exists>m w' h' stack' b dat. heap_stack_receive env0 (Some (empty_stack\<lparr>sk_adapters := [\<lparr>nd_adapter = zero_adapter\<lparr>ad_type := 1,
      ad_receive := Some (\<lambda>ctx t w. (0, (Some ''x'', 1), w)), ad_decode := Some (\<lambda>ctx d m w. (0, m, w))\<rparr>, nd_context = None\<rparr>]\<rparr>))
      (Some zero_message) 0 () (heap0 :: unit heap) = Some (0, stack', Some m, w', h') \<and>
    um_payload m = None \<and> b \<noteq> 0 \<and> hp_block h' = (hp_block heap0)(b \<mapsto> Text dat)"
proof -
  let ?ad = "zero_adapter\<lparr>ad_type := 1, ad_receive := Some (\<lambda>ctx t w. (0, (Some ''x'', 1), w)), ad_decode := Some (\<lambda>ctx d m w. (0, m, w))\<rparr>"
  let ?st = "empty_stack\<lparr>sk_adapters := [\<lparr>nd_adapter = ?ad :: unit protocol_adapter, nd_context = None\<rparr>]\<rparr>"
  have "codes_ok env0" "set (blocks [None]) \<subseteq> live (heap0 :: unit heap)" by simp_all
  from stack_data_exact [OF heap0_ok(1) this, of ?st zero_message "()" 0, THEN conjunct2] obtain rc stack' m w' and h' :: "unit heap" where
    r: "heap_stack_receive env0 (Some ?st) (Some zero_message) 0 () (heap0 :: unit heap) = Some (rc, stack', Some m, w', h')"
      "protocol_stack_receive env0 (Some ?st) (Some zero_message) 0 () = (rc, stack', Some m, w')"
      "rc = 0 \<longrightarrow> (\<exists>b dat. b \<notin> live (heap0 :: unit heap) \<and> hp_block h' = (hp_block heap0)(b \<mapsto> Text dat))"
    by blast
  have "rc = 0" "um_payload m = None" using r(2) by (auto simp: Let_def zero_adapter_def zero_message_def empty_stack_def)
  with r(1,3) show ?thesis by (simp del: heap_stack_receive.simps)
qed

section \<open>Adapters and transformation contexts\<close>

text \<open>
  \<open>protocol_adapter_destroy\<close> frees the context of an adapter (\<open>protocol_toplevel_impl.c\<close>). A
  transformation context is one block (\<open>protocol_transformers.c\<close>).
\<close>

definition protocol_adapter_destroy :: "pointer \<Rightarrow> 'c heap \<Rightarrow> 'c heap option" where
  "protocol_adapter_destroy context h = (if context \<noteq> None then hp_free context h else Some h)"

definition heap_transform_create ::
  "env \<Rightarrow> cstring option \<Rightarrow> cstring option \<Rightarrow> transform_context heap \<Rightarrow> addr option \<times> transform_context heap" where
  "heap_transform_create E src_proto tgt_proto h = (case transform_context_create E src_proto tgt_proto of
     None \<Rightarrow> (None, h) | Some c \<Rightarrow> hp_alloc True (Structs [c]) h)"

definition transform_context_destroy :: "pointer \<Rightarrow> transform_context heap \<Rightarrow> transform_context heap option" where
  "transform_context_destroy ctx h = hp_free ctx h"

interpretation transform: acquire_release "\<lambda>h. Some (heap_transform_create E src_proto tgt_proto h)" "\<lambda>a. transform_context_destroy (Some a)"
proof
  fix h :: "transform_context heap"
  assume "heap_ok h"
  then show "\<exists>r h1. Some (heap_transform_create E src_proto tgt_proto h) = Some (r, h1) \<and>
    (case r of None \<Rightarrow> same_blocks h h1 \<and> heap_ok h1
     | Some x \<Rightarrow> \<exists>h2. transform_context_destroy (Some x) h1 = Some h2 \<and> same_blocks h h2 \<and> heap_ok h2)"
    by (auto simp: heap_transform_create_def transform_context_destroy_def hp_alloc_def hp_free_def heap_ok_def
      same_blocks_def fun_eq_iff split: option.splits)
qed

text \<open>
  The contexts of the A2A and MCP tables are static objects, no blocks of the heap: destroying
  such an adapter frees memory that was never allocated.
\<close>

lemma adapter_destroy_static: "b \<notin> live h \<Longrightarrow> protocol_adapter_destroy (Some (b, i)) h = None"
  by (auto simp: protocol_adapter_destroy_def hp_free_def domIff)

lemma adapter_destroy_owned:
  "grows h [Some (b, 0)] h' \<Longrightarrow> \<exists>h2. protocol_adapter_destroy (Some (b, 0)) h' = Some h2 \<and> same_blocks h h2"
  using grows_free [of h "[Some (b, 0)]" h' "[Some (b, 0)]"] by (auto simp: protocol_adapter_destroy_def bind_eq_Some_conv)

end
