(* ===== verification/A2a_Heap.thy ===== *)
theory A2a_Heap
  imports A2a_Adapter C_Heap
begin

text \<open>
  The A2A adapter in memory: who owns which block. The tasks of an adapter
  (\<open>a2a_v03_adapter_task.c\<close>), the cards and messages the router works on, and the functions that
  release them (\<open>a2a_v03_adapter.c\<close>, \<open>a2a_v03_adapter_route.c\<close>).

  \<open>A2a_Adapter\<close> has the same operations on values; here a task is a block with seven strings of
  its own, the adapter's array holds its address, and the theorems say that both agree and that
  nothing is leaked, freed twice or touched after its release. The strings a caller passes are
  values where they are only copied, and addresses where an old string is freed before the copy.
  Neither a handler nor the caller writes to the adapter's blocks.
\<close>

section \<open>Structures\<close>

record task_cell =
  tc_id :: pointer
  tc_session_id :: pointer
  tc_agent_id :: pointer
  tc_state :: a2a_task_state
  tc_description :: pointer
  tc_input_json :: pointer
  tc_output_json :: pointer
  tc_created_at :: u64
  tc_updated_at :: u64
  tc_progress :: real
  tc_error_message :: pointer
  tc_assigned_agent :: pointer

record message_cell =
  me_role :: pointer
  me_type :: a2a_message_type
  me_content_json :: pointer
  me_mime_type :: pointer
  me_file_name :: pointer
  me_file_data :: pointer
  me_file_data_size :: nat

record negotiation_cell =
  ne_action :: a2a_negotiation_action
  ne_task_id :: pointer
  ne_agent_id :: pointer
  ne_terms_json :: pointer
  ne_counter_proposal_json :: pointer
  ne_reason :: pointer

record skill_cell =
  sc_name :: pointer
  sc_description :: pointer
  sc_schema_json :: pointer

record card_cell =
  cc_id :: pointer
  cc_name :: pointer
  cc_description :: pointer
  cc_url :: pointer
  cc_version :: pointer
  cc_protocol_version :: int
  cc_capabilities :: u32
  cc_skills :: pointer
  cc_skill_count :: nat
  cc_provider_name :: pointer
  cc_provider_url :: pointer
  cc_documentation_url :: pointer
  cc_authentication_schemes_json :: pointer
  cc_capabilities_json :: pointer
  cc_available :: bool

datatype a2a_struct =
    TaskS task_cell | MessageS message_cell | NegotiationS negotiation_cell | SkillS skill_cell | CardS card_cell
  | ShellS

type_synonym a2a_heap = "a2a_struct heap"

text \<open>
  The adapter: its plain fields, the array of task addresses, and the pointer that each of its
  agents may own. They are kept beside the block of the structure itself (\<open>ShellS\<close>), which is
  missing when the adapter is the static one.
\<close>

record 'w heap_adapter =
  ha_shell :: "'w a2a_adapter"
  ha_tasks :: "addr list"
  ha_agent_json :: "pointer list"

definition zero_task :: task_cell where
  "zero_task = \<lparr>tc_id = None, tc_session_id = None, tc_agent_id = None, tc_state = A2A_TASK_SUBMITTED,
     tc_description = None, tc_input_json = None, tc_output_json = None, tc_created_at = 0, tc_updated_at = 0,
     tc_progress = 0, tc_error_message = None, tc_assigned_agent = None\<rparr>"

definition task_at :: "addr \<Rightarrow> a2a_heap \<Rightarrow> task_cell option" where
  "task_at a h = (case struct_at a h of Some (TaskS c) \<Rightarrow> Some c | _ \<Rightarrow> None)"

text \<open>The task value behind an address. No code assigns \<open>assigned_agent\<close>.\<close>

definition read_task :: "a2a_heap \<Rightarrow> addr \<Rightarrow> a2a_task option" where
  "read_task h a = do {
     c \<leftarrow> task_at a h;
     i \<leftarrow> read_text h (tc_id c); i \<leftarrow> i;
     session \<leftarrow> read_text h (tc_session_id c);
     agent \<leftarrow> read_text h (tc_agent_id c);
     description \<leftarrow> read_text h (tc_description c);
     input \<leftarrow> read_text h (tc_input_json c);
     out \<leftarrow> read_text h (tc_output_json c);
     message \<leftarrow> read_text h (tc_error_message c);
     (if tc_assigned_agent c = None then
       Some \<lparr>tk_id = i, tk_session_id = session, tk_agent_id = agent, tk_state = tc_state c,
         tk_description = description, tk_input_json = input, tk_output_json = out,
         tk_created_at = tc_created_at c, tk_updated_at = tc_updated_at c, tk_progress = tc_progress c,
         tk_error_message = message, tk_assigned_agent = None\<rparr>
      else None) }"

section \<open>The release functions\<close>

definition task_fields :: "task_cell \<Rightarrow> pointer list" where
  "task_fields c = [tc_id c, tc_session_id c, tc_agent_id c, tc_description c, tc_input_json c, tc_output_json c,
     tc_error_message c]"

fun a2a_task_destroy :: "pointer \<Rightarrow> a2a_heap \<Rightarrow> a2a_heap option" where
  "a2a_task_destroy None h = Some h"
| "a2a_task_destroy (Some a) h = do { c \<leftarrow> task_at a h; free_all (task_fields c @ [Some a]) h }"

definition message_fields :: "message_cell \<Rightarrow> pointer list" where
  "message_fields c = [me_role c, me_content_json c, me_mime_type c, me_file_name c, me_file_data c]"

fun a2a_message_destroy :: "pointer \<Rightarrow> a2a_heap \<Rightarrow> a2a_heap option" where
  "a2a_message_destroy None h = Some h"
| "a2a_message_destroy (Some a) h = (case struct_at a h of
     Some (MessageS c) \<Rightarrow> free_all (message_fields c @ [Some a]) h
   | _ \<Rightarrow> None)"

definition negotiation_fields :: "negotiation_cell \<Rightarrow> pointer list" where
  "negotiation_fields c = [ne_task_id c, ne_agent_id c, ne_terms_json c, ne_counter_proposal_json c, ne_reason c]"

fun a2a_negotiation_destroy :: "pointer \<Rightarrow> a2a_heap \<Rightarrow> a2a_heap option" where
  "a2a_negotiation_destroy None h = Some h"
| "a2a_negotiation_destroy (Some a) h = (case struct_at a h of
     Some (NegotiationS c) \<Rightarrow> free_all (negotiation_fields c @ [Some a]) h
   | _ \<Rightarrow> None)"

text \<open>A card gives up its strings and its array of skills, not the structure itself.\<close>

definition card_fields :: "card_cell \<Rightarrow> pointer list" where
  "card_fields c = [cc_id c, cc_name c, cc_description c, cc_url c, cc_version c, cc_provider_name c,
     cc_provider_url c, cc_documentation_url c, cc_authentication_schemes_json c, cc_capabilities_json c]"

fun skills_free :: "nat \<Rightarrow> addr \<Rightarrow> nat \<Rightarrow> a2a_heap \<Rightarrow> a2a_heap option" where
  "skills_free 0 a i h = Some h"
| "skills_free (Suc n) a i h = (case struct_at (fst a, snd a + i) h of
     Some (SkillS s) \<Rightarrow> do { h1 \<leftarrow> free_all [sc_name s, sc_description s, sc_schema_json s] h; skills_free n a (Suc i) h1 }
   | _ \<Rightarrow> None)"

definition card_release :: "card_cell \<Rightarrow> a2a_heap \<Rightarrow> a2a_heap option" where
  "card_release c h = do {
     h1 \<leftarrow> free_all (card_fields c) h;
     (case cc_skills c of None \<Rightarrow> Some h1
      | Some a \<Rightarrow> do { h2 \<leftarrow> skills_free (cc_skill_count c) a 0 h1; hp_free (Some a) h2 }) }"

fun a2a_agent_card_destroy :: "pointer \<Rightarrow> a2a_heap \<Rightarrow> a2a_heap option" where
  "a2a_agent_card_destroy None h = Some h"
| "a2a_agent_card_destroy (Some a) h = (case struct_at a h of Some (CardS c) \<Rightarrow> card_release c h | _ \<Rightarrow> None)"

fun cards_free_loop :: "pointer list \<Rightarrow> a2a_heap \<Rightarrow> a2a_heap option" where
  "cards_free_loop [] h = Some h"
| "cards_free_loop (None # ps) h = cards_free_loop ps h"
| "cards_free_loop (Some a # ps) h = do {
     h1 \<leftarrow> a2a_agent_card_destroy (Some a) h; h2 \<leftarrow> hp_free (Some a) h1; cards_free_loop ps h2 }"

fun a2a_cards_free :: "pointer \<Rightarrow> nat \<Rightarrow> a2a_heap \<Rightarrow> a2a_heap option" where
  "a2a_cards_free None count h = Some h"
| "a2a_cards_free (Some a) count h = do {
     ps \<leftarrow> pointers_at a h;
     (if count \<le> length ps
      then do { h1 \<leftarrow> cards_free_loop (take count ps) h; hp_free (Some a) h1 }
      else None) }"

text \<open>Element \<open>i\<close> of the response is destroyed through its address.\<close>

fun msgs_free_loop :: "nat \<Rightarrow> addr \<Rightarrow> nat \<Rightarrow> a2a_heap \<Rightarrow> a2a_heap option" where
  "msgs_free_loop 0 a i h = Some h"
| "msgs_free_loop (Suc n) a i h = do {
     h1 \<leftarrow> a2a_message_destroy (Some (fst a, snd a + i)) h; msgs_free_loop n a (Suc i) h1 }"

fun a2a_msgs_free :: "pointer \<Rightarrow> nat \<Rightarrow> a2a_heap \<Rightarrow> a2a_heap option" where
  "a2a_msgs_free None count h = Some h"
| "a2a_msgs_free (Some a) count h = msgs_free_loop count a 0 h"

text \<open>A list of agents holds its cards inline; only four strings of each are freed.\<close>

fun agent_list_loop :: "card_cell list \<Rightarrow> a2a_heap \<Rightarrow> a2a_heap option" where
  "agent_list_loop [] h = Some h"
| "agent_list_loop (c # cs) h = do {
     h1 \<leftarrow> free_all [cc_id c, cc_name c, cc_url c, cc_capabilities_json c] h; agent_list_loop cs h1 }"

definition zero_card_cell :: card_cell where
  "zero_card_cell = \<lparr>cc_id = None, cc_name = None, cc_description = None, cc_url = None, cc_version = None,
     cc_protocol_version = 0, cc_capabilities = 0, cc_skills = None, cc_skill_count = 0, cc_provider_name = None,
     cc_provider_url = None, cc_documentation_url = None, cc_authentication_schemes_json = None,
     cc_capabilities_json = None, cc_available = False\<rparr>"

fun a2a_free_agent_list ::
  "(card_cell list \<times> nat) option \<Rightarrow> a2a_heap \<Rightarrow> ((card_cell list \<times> nat) option \<times> a2a_heap) option" where
  "a2a_free_agent_list None h = Some (None, h)"
| "a2a_free_agent_list (Some (agents, count)) h = do {
     h1 \<leftarrow> agent_list_loop (take (min count A2A_V03_MAX_AGENTS) agents) h;
     Some (Some (replicate A2A_V03_MAX_AGENTS zero_card_cell, 0), h1) }"

section \<open>Tasks in memory\<close>

text \<open>An old string gives way to a copy of the caller's; \<open>q\<close> is the caller's pointer.\<close>

definition replace_text :: "bool \<Rightarrow> pointer \<Rightarrow> pointer \<Rightarrow> 'c heap \<Rightarrow> (pointer \<times> 'c heap) option" where
  "replace_text ok old q h = (case q of
     None \<Rightarrow> Some (old, h)
   | Some a \<Rightarrow> do { h1 \<leftarrow> hp_free old h; s \<leftarrow> text_at a h1; Some (hp_alloc ok (Text s) h1) })"

definition run_task_handler :: "'w a2a_adapter \<Rightarrow> addr \<Rightarrow> task_cell \<Rightarrow> 'w \<Rightarrow> a2a_heap \<Rightarrow> ('w \<times> a2a_heap) option" where
  "run_task_handler a t c w h = (case aa_task_handler a of
     None \<Rightarrow> Some (w, h)
   | Some f \<Rightarrow> do {
       T \<leftarrow> read_task h t;
       (case f T (tc_state c) (aa_task_handler_user_data a) w of
          (_, new_state, None, w1) \<Rightarrow> do { h1 \<leftarrow> put_struct t (TaskS (c\<lparr>tc_state := new_state\<rparr>)) h; Some (w1, h1) }
        | (_, new_state, Some s, w1) \<Rightarrow> (case hp_alloc True (Text s) h of (out, h1) \<Rightarrow> do {
            h2 \<leftarrow> hp_free (tc_output_json c) h1;
            h3 \<leftarrow> put_struct t (TaskS (c\<lparr>tc_state := new_state, tc_output_json := out\<rparr>)) h2;
            Some (w1, h3) })) })"

fun heap_create_task ::
  "env \<Rightarrow> 'w heap_adapter option \<Rightarrow> cstring option \<Rightarrow> cstring option \<Rightarrow> cstring option \<Rightarrow> bool \<Rightarrow> 'w \<Rightarrow> a2a_heap \<Rightarrow>
   (int \<times> pointer \<times> 'w heap_adapter option \<times> 'w \<times> a2a_heap) option" where
  "heap_create_task E (Some ad) agent_id description input_json True w h =
    (if \<not> aa_initialized (ha_shell ad) then Some (err E AIRY_ERR_STATE_ERROR, None, Some ad, w, h)
     else if A2A_V03_MAX_TASKS \<le> length (ha_tasks ad) then Some (err E AIRY_ERR_BUFFER_TOO_SMALL, None, Some ad, w, h)
     else case hp_alloc (mem E 0) (Structs [TaskS zero_task]) h of
         (None, h1) \<Rightarrow> Some (err E AIRY_ERR_OUT_OF_MEMORY, None, Some ad, w, h1)
       | (Some t, h1) \<Rightarrow>
          (case hp_alloc (mem E 1) (Text (tk_id (new_task E (length (ha_tasks ad)) agent_id description input_json))) h1 of
             (None, h2) \<Rightarrow> do { h3 \<leftarrow> hp_free (Some t) h2; Some (err E AIRY_ERR_OUT_OF_MEMORY, None, Some ad, w, h3) }
           | (Some i, h2) \<Rightarrow>
              (case dup_text (mem E 2) agent_id h2 of (pa, h3) \<Rightarrow>
               case dup_text (mem E 3) description h3 of (pd, h4) \<Rightarrow>
               case dup_text (mem E 4) input_json h4 of (pj, h5) \<Rightarrow>
               let c = zero_task\<lparr>tc_id := Some i, tc_agent_id := pa, tc_description := pd, tc_input_json := pj,
                     tc_output_json := None, tc_state := A2A_TASK_SUBMITTED, tc_created_at := wall_ms E 1,
                     tc_updated_at := wall_ms E 1, tc_progress := 0\<rparr>
               in do { h6 \<leftarrow> put_struct t (TaskS c) h5;
                       (w1, h7) \<leftarrow> run_task_handler (ha_shell ad) t c w h6;
                       Some (0, Some t, Some (ad\<lparr>ha_tasks := ha_tasks ad @ [t]\<rparr>), w1, h7) })))"
| "heap_create_task E ctx agent_id description input_json outs w h = Some (err E AIRY_ERR_UNKNOWN, None, ctx, w, h)"

text \<open>The search compares the stored names; reading them goes through the task blocks.\<close>

fun search_task :: "a2a_heap \<Rightarrow> cstring \<Rightarrow> addr list \<Rightarrow> addr option option" where
  "search_task h i [] = Some None"
| "search_task h i (t # ts) = do {
     c \<leftarrow> task_at t h; s \<leftarrow> read_text h (tc_id c); s \<leftarrow> s;
     (if s = i then Some (Some t) else search_task h i ts) }"

fun heap_update_task ::
  "env \<Rightarrow> 'w heap_adapter option \<Rightarrow> cstring option \<Rightarrow> a2a_task_state \<Rightarrow> pointer \<Rightarrow> real \<Rightarrow> a2a_heap \<Rightarrow> (int \<times> a2a_heap) option" where
  "heap_update_task E (Some ad) (Some task_id) new_state output_json progress h =
    (if \<not> aa_initialized (ha_shell ad) then Some (err E AIRY_ERR_STATE_ERROR, h)
     else do { found \<leftarrow> search_task h task_id (ha_tasks ad);
       (case found of None \<Rightarrow> Some (err E AIRY_ERR_NOT_FOUND, h)
        | Some t \<Rightarrow> do {
            c \<leftarrow> task_at t h;
            (out, h1) \<leftarrow> replace_text (mem E 0) (tc_output_json c) output_json h;
            h2 \<leftarrow> put_struct t (TaskS (c\<lparr>tc_state := new_state, tc_output_json := out, tc_progress := progress,
              tc_updated_at := wall_ms E 0\<rparr>)) h1;
            Some (0, h2) }) })"
| "heap_update_task E ctx task_id new_state output_json progress h = Some (err E AIRY_ERR_UNKNOWN, h)"

fun heap_cancel_task ::
  "env \<Rightarrow> 'w heap_adapter option \<Rightarrow> cstring option \<Rightarrow> pointer \<Rightarrow> a2a_heap \<Rightarrow> (int \<times> a2a_heap) option" where
  "heap_cancel_task E (Some ad) (Some task_id) reason h =
    (if \<not> aa_initialized (ha_shell ad) then Some (err E AIRY_ERR_STATE_ERROR, h)
     else do { found \<leftarrow> search_task h task_id (ha_tasks ad);
       (case found of None \<Rightarrow> Some (err E AIRY_ERR_NOT_FOUND, h)
        | Some t \<Rightarrow> do {
            c \<leftarrow> task_at t h;
            (m, h1) \<leftarrow> replace_text (mem E 0) (tc_error_message c) reason h;
            h2 \<leftarrow> put_struct t (TaskS (c\<lparr>tc_state := A2A_TASK_CANCELED, tc_updated_at := wall_ms E 0,
              tc_error_message := m\<rparr>)) h1;
            Some (0, h2) }) })"
| "heap_cancel_task E ctx task_id reason h = Some (err E AIRY_ERR_UNKNOWN, h)"

fun heap_stream_task_update ::
  "env \<Rightarrow> 'w heap_adapter option \<Rightarrow> cstring option \<Rightarrow> real \<Rightarrow> pointer \<Rightarrow> bool \<Rightarrow> 'w \<Rightarrow> a2a_heap \<Rightarrow>
   (int \<times> 'w \<times> a2a_heap) option" where
  "heap_stream_task_update E (Some ad) (Some task_id) progress chunk_json is_final w h =
    (if \<not> aa_initialized (ha_shell ad) then Some (err E AIRY_ERR_STATE_ERROR, w, h)
     else do { found \<leftarrow> search_task h task_id (ha_tasks ad);
       h3 \<leftarrow> (case found of None \<Rightarrow> Some h
        | Some t \<Rightarrow> do {
            c \<leftarrow> task_at t h;
            let c1 = c\<lparr>tc_progress := progress, tc_updated_at := wall_ms E 0\<rparr>;
            (if is_final then do {
               (out, h1) \<leftarrow> replace_text (mem E 0) (tc_output_json c) chunk_json h;
               put_struct t (TaskS (c1\<lparr>tc_state := A2A_TASK_COMPLETED, tc_output_json := out\<rparr>)) h1 }
             else put_struct t (TaskS c1) h) });
       chunk \<leftarrow> read_text h3 chunk_json;
       Some (0, case aa_streaming_handler (ha_shell ad) of None \<Rightarrow> w
         | Some f \<Rightarrow> f task_id progress chunk is_final (aa_streaming_handler_user_data (ha_shell ad)) w, h3) })"
| "heap_stream_task_update E ctx task_id progress chunk_json is_final w h = Some (err E AIRY_ERR_UNKNOWN, w, h)"

fun tasks_destroy :: "addr list \<Rightarrow> a2a_heap \<Rightarrow> a2a_heap option" where
  "tasks_destroy [] h = Some h"
| "tasks_destroy (t # ts) h = do { h1 \<leftarrow> a2a_task_destroy (Some t) h; tasks_destroy ts h1 }"

text \<open>The static card of \<open>a2a_v03_get_agent_card\<close> is \<open>cached\<close>.\<close>

definition copy_card_cell :: "env \<Rightarrow> a2a_internal_card \<Rightarrow> card_cell \<Rightarrow> a2a_heap \<Rightarrow> card_cell \<times> a2a_heap" where
  "copy_card_cell E ic c h =
    (case dup_text (mem E 0) (Some (ic_id ic)) h of (p0, h0) \<Rightarrow>
     case dup_text (mem E 1) (Some (ic_name ic)) h0 of (p1, h1) \<Rightarrow>
     case dup_text (mem E 2) (Some (ic_url ic)) h1 of (p2, h2) \<Rightarrow>
     case dup_text (mem E 3) (Some (ic_capabilities ic)) h2 of (p3, h3) \<Rightarrow>
       (c\<lparr>cc_id := p0, cc_name := p1, cc_url := p2, cc_capabilities_json := p3,
          cc_protocol_version := ic_version ic\<rparr>, h3))"

fun heap_get_agent_card ::
  "env \<Rightarrow> 'w heap_adapter option \<Rightarrow> cstring option \<Rightarrow> card_cell \<Rightarrow> a2a_heap \<Rightarrow> (bool \<times> card_cell \<times> a2a_heap) option" where
  "heap_get_agent_card E None None cached h = do { h1 \<leftarrow> card_release cached h; Some (False, zero_card_cell, h1) }"
| "heap_get_agent_card E (Some ad) (Some agent_id) cached h =
    (if \<not> aa_initialized (ha_shell ad) then Some (False, cached, h)
     else case find_agent (ha_shell ad) agent_id of
         None \<Rightarrow> Some (False, cached, h)
       | Some k \<Rightarrow> do {
           h1 \<leftarrow> card_release cached h;
           let ic = aa_agents (ha_shell ad) ! k;
           (case copy_card_cell E ic zero_card_cell h1 of (c, h2) \<Rightarrow>
              Some (True, c\<lparr>cc_capabilities := ic_capabilities_mask ic, cc_available := ic_available ic\<rparr>, h2)) })"
| "heap_get_agent_card E ctx agent_id cached h = Some (False, cached, h)"

fun heap_ctx_clear ::
  "env \<Rightarrow> 'w heap_adapter option \<Rightarrow> card_cell \<Rightarrow> a2a_heap \<Rightarrow> ('w heap_adapter option \<times> card_cell \<times> a2a_heap) option" where
  "heap_ctx_clear E None cached h = Some (None, cached, h)"
| "heap_ctx_clear E (Some ad) cached h =
    (let n = aa_agent_count (ha_shell ad) in do {
       h1 \<leftarrow> free_all (take n (ha_agent_json ad)) h;
       h2 \<leftarrow> tasks_destroy (ha_tasks ad) h1;
       (_, cached', h3) \<leftarrow> heap_get_agent_card E (None :: 'w heap_adapter option) None cached h2;
       Some (Some (ad\<lparr>ha_shell := (ha_shell ad)\<lparr>aa_initialized := False,
           aa_agents := map (\<lambda>c. c\<lparr>ic_capabilities_json := None\<rparr>) (take n (aa_agents (ha_shell ad))) @
             drop n (aa_agents (ha_shell ad)), aa_agent_count := 0\<rparr>, ha_tasks := [],
         ha_agent_json := replicate (min n (length (ha_agent_json ad))) None @ drop n (ha_agent_json ad)\<rparr>), cached', h3) })"

text \<open>Creation gives the block of the structure; \<open>a2a_v03_destroy\<close> gives it back.\<close>

definition heap_create :: "env \<Rightarrow> u32 \<Rightarrow> a2a_heap \<Rightarrow> int \<times> (addr \<times> 'w heap_adapter) option \<times> a2a_heap" where
  "heap_create E default_timeout_ms h = (case hp_alloc (mem E 0) (Structs [ShellS]) h of
     (None, h1) \<Rightarrow> (err E AIRY_ERR_OUT_OF_MEMORY, None, h1)
   | (Some p, h1) \<Rightarrow> (case a2a_v03_create E default_timeout_ms of
        (rc, None) \<Rightarrow> (rc, None, h1)
      | (rc, Some a) \<Rightarrow> (rc, Some (p, \<lparr>ha_shell = a, ha_tasks = [],
           ha_agent_json = replicate A2A_V03_MAX_AGENTS None\<rparr>), h1)))"

fun heap_destroy :: "env \<Rightarrow> (addr \<times> 'w heap_adapter) option \<Rightarrow> card_cell \<Rightarrow> a2a_heap \<Rightarrow> (card_cell \<times> a2a_heap) option" where
  "heap_destroy E None cached h = Some (cached, h)"
| "heap_destroy E (Some (p, ad)) cached h = do {
     (_, cached', h1) \<leftarrow> heap_ctx_clear E (Some ad) cached h;
     h2 \<leftarrow> hp_free (Some p) h1;
     Some (cached', h2) }"

definition heap_context_destroy ::
  "env \<Rightarrow> (addr \<times> 'w heap_adapter) option \<Rightarrow> card_cell \<Rightarrow> a2a_heap \<Rightarrow> (card_cell \<times> a2a_heap) option" where
  "heap_context_destroy E ctx cached h = (if ctx \<noteq> None then heap_destroy E ctx cached h else Some (cached, h))"

definition read_card :: "a2a_heap \<Rightarrow> card_cell \<Rightarrow> a2a_agent_card option" where
  "read_card h c = do {
     i \<leftarrow> read_text h (cc_id c); name \<leftarrow> read_text h (cc_name c); description \<leftarrow> read_text h (cc_description c);
     url \<leftarrow> read_text h (cc_url c); version \<leftarrow> read_text h (cc_version c);
     provider \<leftarrow> read_text h (cc_provider_name c); provider_url \<leftarrow> read_text h (cc_provider_url c);
     documentation \<leftarrow> read_text h (cc_documentation_url c);
     schemes \<leftarrow> read_text h (cc_authentication_schemes_json c); json \<leftarrow> read_text h (cc_capabilities_json c);
     (if cc_skills c = None then
       Some \<lparr>cd_id = i, cd_name = name, cd_description = description, cd_url = url, cd_version = version,
         cd_protocol_version = cc_protocol_version c, cd_capabilities = cc_capabilities c, cd_skills = [],
         cd_provider_name = provider, cd_provider_url = provider_url, cd_documentation_url = documentation,
         cd_authentication_schemes_json = schemes, cd_capabilities_json = json, cd_available = cc_available c\<rparr>
      else None) }"

section \<open>What a task owns\<close>

definition own :: "a2a_heap \<Rightarrow> addr \<Rightarrow> nat list" where
  "own h t = (case task_at t h of None \<Rightarrow> [] | Some c \<Rightarrow> blocks (task_fields c @ [Some t]))"

definition foot :: "a2a_heap \<Rightarrow> addr list \<Rightarrow> nat list" where
  "foot h ts = concat (map (own h) ts)"

text \<open>
  The tasks at \<open>ts\<close> have the values \<open>Ts\<close>, each owns its blocks alone, and every live block
  belongs to one of them or to the rest \<open>F\<close> of the program.
\<close>

definition tasks_own :: "nat set \<Rightarrow> a2a_heap \<Rightarrow> addr list \<Rightarrow> a2a_task list \<Rightarrow> bool" where
  "tasks_own F h ts Ts \<longleftrightarrow> heap_ok h \<and> map (read_task h) ts = map Some Ts \<and> (\<forall>t \<in> set ts. snd t = 0) \<and>
     distinct (foot h ts) \<and> F \<inter> set (foot h ts) = {} \<and> live h = F \<union> set (foot h ts)"

lemma read_task_iff:
  "read_task h t = Some T \<longleftrightarrow> (\<exists>c. task_at t h = Some c \<and> read_text h (tc_id c) = Some (Some (tk_id T)) \<and>
     read_text h (tc_session_id c) = Some (tk_session_id T) \<and> read_text h (tc_agent_id c) = Some (tk_agent_id T) \<and>
     read_text h (tc_description c) = Some (tk_description T) \<and> read_text h (tc_input_json c) = Some (tk_input_json T) \<and>
     read_text h (tc_output_json c) = Some (tk_output_json T) \<and>
     read_text h (tc_error_message c) = Some (tk_error_message T) \<and> tc_state c = tk_state T \<and>
     tc_created_at c = tk_created_at T \<and> tc_updated_at c = tk_updated_at T \<and> tc_progress c = tk_progress T \<and>
     tc_assigned_agent c = None \<and> tk_assigned_agent T = None)"
  by (cases T) (auto simp: read_task_def bind_eq_Some_conv simp del: not_None_eq split: if_splits)

lemma read_task_at: "read_task h t = Some T \<Longrightarrow> \<exists>c. task_at t h = Some c"
  by (auto simp: read_task_iff)

lemma task_at_live: "task_at t h = Some c \<Longrightarrow> fst t \<in> live h"
  by (auto simp: task_at_def struct_at_def split: option.splits block.splits)

lemma task_at_same: "same_on S h h' \<Longrightarrow> fst t \<in> S \<Longrightarrow> task_at t h' = task_at t h"
  by (simp add: task_at_def struct_at_def same_on_def)

lemma own_at [simp]: "task_at t h = Some c \<Longrightarrow> own h t = blocks (task_fields c) @ [fst t]"
  by (simp add: own_def)

lemma read_task_live:
  assumes "read_task h t = Some T" "task_at t h = Some c"
  shows "bases (task_fields c) \<and> set (own h t) \<subseteq> live h"
proof -
  have "\<forall>p \<in> set (task_fields c). \<exists>s. read_text h p = Some s"
    using assms by (auto simp: read_task_iff task_fields_def)
  then have "bases (task_fields c) \<and> set (blocks (task_fields c)) \<subseteq> live h"
    by (rule read_all_live)
  with task_at_live [OF assms(2)] assms(2) show ?thesis by simp
qed

text \<open>A task keeps its value while its own blocks stay as they are.\<close>

lemma read_task_same:
  assumes "read_task h t = Some T" "same_on S h h'" "set (own h t) \<subseteq> S"
  shows "read_task h' t = Some T" "own h' t = own h t"
proof -
  obtain c where c: "task_at t h = Some c" using assms(1) read_task_at by blast
  have t: "task_at t h' = Some c" using assms(2,3) c task_at_same [of S h h' t] by simp
  have "read_text h' p = read_text h p" if "p \<in> set (task_fields c)" for p
    using blocks_member [OF that] c assms(3) by (intro read_text_same [OF assms(2)]) (simp del: blocks.simps, blast)
  with assms(1) c t show "read_task h' t = Some T" by (auto simp: read_task_iff task_fields_def)
  from c t show "own h' t = own h t" by simp
qed

lemma tasks_own_same:
  assumes "map (read_task h) ts = map Some Ts" "same_on S h h'" "set (foot h ts) \<subseteq> S"
  shows "map (read_task h') ts = map Some Ts" "foot h' ts = foot h ts"
proof -
  have *: "read_task h' t = read_task h t \<and> own h' t = own h t" if "t \<in> set ts" for t
  proof -
    from that have "read_task h t \<in> set (map (read_task h) ts)" by simp
    then obtain T where "read_task h t = Some T" unfolding assms(1) by auto
    moreover from that assms(3) have "set (own h t) \<subseteq> S" by (auto simp: foot_def)
    ultimately show ?thesis using read_task_same [OF _ assms(2)] by simp
  qed
  with assms(1) show "map (read_task h') ts = map Some Ts" by (metis map_eq_conv)
  from * show "foot h' ts = foot h ts" unfolding foot_def by (metis map_eq_conv)
qed

lemma foot_simps [simp]: "foot h [] = []" "foot h (t # ts) = own h t @ foot h ts" "foot h (us @ vs) = foot h us @ foot h vs"
  by (simp_all add: foot_def)

text \<open>One task changes, the others and the rest of the program stay.\<close>

lemma tasks_own_change:
  assumes o: "tasks_own F h (us @ t # vs) (Us @ T # Vs)" "length us = length Us"
    and t: "read_task h' t = Some T'" "distinct (own h' t)" "heap_ok h'"
    and s: "same_on (F \<union> set (foot h us) \<union> set (foot h vs)) h h'"
    and l: "live h' = F \<union> set (foot h us) \<union> set (foot h vs) \<union> set (own h' t)"
    and d: "set (own h' t) \<inter> (F \<union> set (foot h us) \<union> set (foot h vs)) = {}"
  shows "tasks_own F h' (us @ t # vs) (Us @ T' # Vs)"
proof -
  have r: "map (read_task h) us = map Some Us" "map (read_task h) vs = map Some Vs"
    using o by (auto simp: tasks_own_def)
  note u = tasks_own_same [OF r(1) s] and v = tasks_own_same [OF r(2) s]
  have uv: "map (read_task h') us = map Some Us" "foot h' us = foot h us" "map (read_task h') vs = map Some Vs" "foot h' vs = foot h vs"
    using u v by auto
  show ?thesis using o(1) t l d unfolding tasks_own_def by (auto simp: uv)
qed

text \<open>A task joins, made of fresh blocks.\<close>

lemma tasks_own_add:
  assumes o: "tasks_own F h ts Ts" and t: "read_task h' t = Some T" "distinct (own h' t)" "heap_ok h'" "snd t = 0"
    and s: "same_on (live h) h h'" and l: "live h' = live h \<union> set (own h' t)" and d: "set (own h' t) \<inter> live h = {}"
  shows "tasks_own F h' (ts @ [t]) (Ts @ [T])"
proof -
  have r: "map (read_task h) ts = map Some Ts" and lv: "live h = F \<union> set (foot h ts)" using o by (auto simp: tasks_own_def)
  then have "map (read_task h') ts = map Some Ts" "foot h' ts = foot h ts"
    using tasks_own_same [OF r s] by auto
  with o t l d lv show ?thesis by (auto simp: tasks_own_def)
qed

text \<open>Destroying a task, and all of them, leaves exactly the rest.\<close>

lemma task_destroy_exact:
  assumes "read_task h t = Some T" "distinct (own h t)" "snd t = 0"
  shows "a2a_task_destroy (Some t) h = Some (drop_blocks (set (own h t)) h)"
proof -
  obtain c where c: "task_at t h = Some c" using assms(1) read_task_at by blast
  have "bases (task_fields c)" "set (own h t) \<subseteq> live h" using read_task_live [OF assms(1) c] by auto
  with assms c show ?thesis by (cases t) (simp add: free_all_iff)
qed

lemma tasks_destroy_exact:
  "tasks_own F h ts Ts \<Longrightarrow> tasks_destroy ts h = Some (drop_blocks (set (foot h ts)) h)"
proof (induction ts arbitrary: h Ts)
  case (Cons t ts)
  from Cons.prems obtain T Us where Ts: "Ts = T # Us" "read_task h t = Some T" "map (read_task h) ts = map Some Us"
    by (cases Ts) (auto simp: tasks_own_def)
  let ?h = "drop_blocks (set (own h t)) h"
  have o: "distinct (own h t)" "snd t = 0" "set (own h t) \<inter> set (foot h ts) = {}" "F \<inter> set (own h t) = {}"
    "distinct (foot h ts)" "F \<inter> set (foot h ts) = {}" "live h = F \<union> set (own h t) \<union> set (foot h ts)"
    "heap_ok h" "\<forall>t \<in> set ts. snd t = 0"
    using Cons.prems by (auto simp: tasks_own_def)
  have s: "same_on (set (foot h ts)) h ?h" using o(3) by auto
  note tasks_own_same [OF Ts(3) s]
  then have f: "map (read_task ?h) ts = map Some Us" "foot ?h ts = foot h ts" by simp_all
  have "tasks_own F ?h ts Us" unfolding tasks_own_def f live_drop using o by auto
  from Cons.IH [OF this] f(2) show ?case
    by (simp add: task_destroy_exact [OF Ts(2) o(1,2)] Un_commute del: a2a_task_destroy.simps)
qed simp

section \<open>The operations on tasks keep ownership and compute the values of the model\<close>

lemma search_task_find:
  "map (read_task h) ts = map Some Ts \<Longrightarrow>
   search_task h i ts = Some (map_option ((!) ts) (find_idx (\<lambda>t. tk_id t = i) Ts))"
proof (induction ts arbitrary: Ts)
  case (Cons t ts)
  then obtain T Us where Ts: "Ts = T # Us" "read_task h t = Some T" "map (read_task h) ts = map Some Us" by (cases Ts) auto
  then obtain c where "task_at t h = Some c" "read_text h (tc_id c) = Some (Some (tk_id T))" by (auto simp: read_task_iff)
  with Ts Cons.IH [OF Ts(3)] show ?case by (auto simp: option.map_comp comp_def split: option.split)
qed simp

lemma replace_text_ok:
  assumes "heap_ok h" "read_text h old = Some v" "read_text h q = Some s" "set (blocks [q]) \<inter> set (blocks [old]) = {}"
  shows "\<exists>p h'. replace_text ok old q h = Some (p, h') \<and> heap_ok h' \<and>
    read_text h' p = Some (case s of None \<Rightarrow> v | Some x \<Rightarrow> if ok then Some x else None) \<and>
    same_on (live h - set (blocks [old])) h h' \<and> live h' = live h - set (blocks [old]) \<union> set (blocks [p]) \<and>
    set (blocks [p]) \<inter> (live h - set (blocks [old])) = {}"
proof (cases q)
  case None
  with assms(1,2,3) read_text_live [OF assms(2)] show ?thesis by (auto simp: replace_text_def read_text_def)
next
  case (Some a)
  then obtain x where x: "text_at a h = Some x" "s = Some x" using assms(3) by (auto simp: read_text_def)
  let ?O = "set (blocks [old])"
  have "?O \<subseteq> live h" "bases [old]" using read_text_live [OF assms(2)] by auto
  then have f: "hp_free old h = Some (drop_blocks ?O h)" by (cases old) auto
  have t: "text_at a (drop_blocks ?O h) = Some x" using x(1) assms(4) Some by (auto simp: text_at_def split: option.splits)
  have n: "hp_next h \<notin> live h" using assms(1) by (rule fresh_dead)
  show ?thesis
  proof (cases ok)
    case True
    have "replace_text ok old q h = Some (hp_alloc True (Text x) (drop_blocks ?O h))" using f t Some True by (simp add: replace_text_def)
    with True x n assms(1) show ?thesis
      by (auto simp: hp_alloc_def read_text_def text_at_def same_on_def heap_ok_def)
  next
    case False
    then have "replace_text ok old q h = Some (None, drop_blocks ?O h)" using f t Some by (simp add: replace_text_def hp_alloc_def)
    with False x assms(1) show ?thesis by (auto simp: read_text_def)
  qed
qed

lemma put_task:
  assumes "task_at t h = Some c"
  shows "\<exists>h'. put_struct t (TaskS c') h = Some h' \<and> task_at t h' = Some c' \<and> live h' = live h \<and>
    same_on (- {fst t}) h h' \<and> hp_next h' = hp_next h"
proof -
  obtain cs where cs: "hp_block h (fst t) = Some (Structs cs)" "snd t < length cs"
    using assms by (auto simp: task_at_def struct_at_def split: option.splits block.splits if_splits)
  then have "put_struct t (TaskS c') h = Some (hp_write (fst t) (Structs (cs[snd t := TaskS c'])) h)" by (simp add: put_struct_def)
  with cs show ?thesis by (auto simp: task_at_def struct_at_def hp_write_def same_on_def)
qed

text \<open>One string of a task is replaced, its plain fields are set.\<close>

lemma task_replace:
  assumes h: "heap_ok h" "read_task h t = Some T" "task_at t h = Some c" "distinct (own h t)"
    and f: "task_fields c = A @ old # B" "task_fields c' = A @ p # B"
    and r: "heap_ok h1" "same_on (live h - set (blocks [old])) h h1" "live h1 = live h - set (blocks [old]) \<union> set (blocks [p])"
      "set (blocks [p]) \<inter> (live h - set (blocks [old])) = {}"
  shows "\<exists>h2. put_struct t (TaskS c') h1 = Some h2 \<and> heap_ok h2 \<and> task_at t h2 = Some c' \<and>
    (\<forall>q \<in> set (A @ B). read_text h2 q = read_text h q) \<and> read_text h2 p = read_text h1 p \<and> distinct (own h2 t) \<and>
    same_on (live h - set (own h t)) h h2 \<and> live h2 = (live h - set (own h t)) \<union> set (own h2 t) \<and>
    set (own h2 t) \<inter> (live h - set (own h t)) = {}"
proof -
  let ?O = "set (blocks [old])"
  have ownh: "own h t = blocks A @ blocks [old] @ blocks B @ [fst t]" using h(3) f(1) blocks_Cons [of old B] by simp
  have lv: "set (own h t) \<subseteq> live h" using read_task_live [OF h(2,3)] by simp
  have AB: "set (blocks (A @ B)) \<union> {fst t} \<subseteq> live h - ?O" using h(4) lv ownh by auto
  then have "task_at t h1 = Some c" using h(3) task_at_same [OF r(2)] by auto
  from put_task [OF this, of c'] obtain h2 where
    h2: "put_struct t (TaskS c') h1 = Some h2" "task_at t h2 = Some c'" "live h2 = live h1" "same_on (- {fst t}) h1 h2"
      "hp_next h2 = hp_next h1" by blast
  have ownh2: "own h2 t = blocks A @ blocks [p] @ blocks B @ [fst t]" using h2(2) f(2) blocks_Cons [of p B] by simp
  have ok2: "heap_ok h2" using r(1) h2(3,5) unfolding heap_ok_def by (metis domIff)
  have tp: "fst t \<notin> set (blocks [p])" using AB r(4) by auto
  have s2: "same_on (live h - ?O - {fst t}) h h2" using r(2) h2(4) by (auto simp: same_on_def)
  have "read_text h2 q = read_text h q" if "q \<in> set (A @ B)" for q
    using AB blocks_member [OF that] h(4) ownh by (intro read_text_same [OF s2]) (auto simp del: blocks.simps)
  moreover have "read_text h2 p = read_text h1 p" using tp by (intro read_text_same [OF h2(4)]) (auto simp del: blocks.simps)
  moreover have "distinct (own h2 t)" using h(4) r(4) AB unfolding ownh ownh2 by (cases p) auto
  moreover have "same_on (live h - set (own h t)) h h2" by (rule same_on_mono [OF s2]) (auto simp: ownh simp del: blocks.simps)
  moreover have "live h2 = (live h - set (own h t)) \<union> set (own h2 t)" using r(3) h2(3) AB ownh ownh2 lv by (auto simp del: blocks.simps)
  moreover have "set (own h2 t) \<inter> (live h - set (own h t)) = {}" using r(4) ownh ownh2 by (auto simp del: blocks.simps)
  ultimately show ?thesis using h2(1,2) ok2 by blast
qed

lemma change_in_task:
  assumes o: "tasks_own F h ts Ts" "k < length ts" "task_at (ts ! k) h = Some c"
    and f: "task_fields c = A @ old # B" "task_fields c' = A @ p # B"
    and r: "heap_ok h1" "same_on (live h - set (blocks [old])) h h1" "live h1 = live h - set (blocks [old]) \<union> set (blocks [p])"
      "set (blocks [p]) \<inter> (live h - set (blocks [old])) = {}"
    and g: "\<And>h2. task_at (ts ! k) h2 = Some c' \<Longrightarrow> \<forall>q \<in> set (A @ B). read_text h2 q = read_text h q \<Longrightarrow>
      read_text h2 p = read_text h1 p \<Longrightarrow> read_task h2 (ts ! k) = Some T'"
  shows "\<exists>h2. put_struct (ts ! k) (TaskS c') h1 = Some h2 \<and> tasks_own F h2 ts (Ts[k := T']) \<and> same_on F h h2"
proof -
  define t us vs Us Vs where d: "t = ts ! k" "us = take k ts" "vs = drop (Suc k) ts" "Us = take k Ts" "Vs = drop (Suc k) Ts"
  have len: "length ts = length Ts" using o(1) by (metis length_map tasks_own_def)
  have ts: "ts = us @ t # vs" "Ts = Us @ (Ts ! k) # Vs" "length us = length Us" "Ts[k := T'] = Us @ T' # Vs"
    using o(2) len by (simp_all add: d id_take_nth_drop upd_conv_take_nth_drop)
  have ok: "heap_ok h" and rd: "read_task h t = Some (Ts ! k)"
    using o(1,2) len nth_map [of k ts "read_task h"] nth_map [of k Ts Some] by (auto simp: tasks_own_def d)
  have dis: "distinct (own h t)" "F \<inter> set (foot h ts) = {}" and lv: "live h = F \<union> set (foot h ts)"
    and dd: "set (own h t) \<inter> (set (foot h us) \<union> set (foot h vs)) = {}"
    using o(1) unfolding tasks_own_def by (simp_all add: ts(1)) blast+
  have c: "task_at t h = Some c" using o(3) by (simp add: d)
  from task_replace [OF ok rd c dis(1) f r] obtain h2 where
    h2: "put_struct t (TaskS c') h1 = Some h2" "heap_ok h2" "task_at t h2 = Some c'"
      "\<forall>q \<in> set (A @ B). read_text h2 q = read_text h q" "read_text h2 p = read_text h1 p" "distinct (own h2 t)"
      "same_on (live h - set (own h t)) h h2" "live h2 = (live h - set (own h t)) \<union> set (own h2 t)"
      "set (own h2 t) \<inter> (live h - set (own h t)) = {}" by blast
  have rest: "live h - set (own h t) = F \<union> set (foot h us) \<union> set (foot h vs)" using lv dis(2) dd ts(1) by auto
  have "read_task h2 t = Some T'" using g [of h2] h2(3,4,5) by (simp add: d)
  from tasks_own_change [OF _ ts(3) this h2(6,2), of F h vs "Ts ! k" Vs] o(1) h2(7-9)
  have "tasks_own F h2 ts (Ts[k := T'])" unfolding rest by (simp add: ts(4) flip: ts(1,2))
  moreover have "same_on F h h2" by (rule same_on_mono [OF h2(7)]) (auto simp: rest)
  ultimately show ?thesis using h2(1) by (auto simp: d)
qed

lemma replace_in_task:
  assumes o: "tasks_own F h ts Ts" "k < length ts" "task_at (ts ! k) h = Some c"
    and f: "task_fields c = A @ old # B" "\<And>p. task_fields (mk p) = A @ p # B" "read_text h old = Some v"
    and q: "read_text h q = Some s" "set (blocks [q]) \<subseteq> F"
    and g: "\<And>h2 p. task_at (ts ! k) h2 = Some (mk p) \<Longrightarrow> \<forall>q \<in> set (A @ B). read_text h2 q = read_text h q \<Longrightarrow>
      read_text h2 p = Some (case s of None \<Rightarrow> v | Some x \<Rightarrow> if ok then Some x else None) \<Longrightarrow> read_task h2 (ts ! k) = Some T'"
  shows "\<exists>p h1 h2. replace_text ok old q h = Some (p, h1) \<and> put_struct (ts ! k) (TaskS (mk p)) h1 = Some h2 \<and>
    tasks_own F h2 ts (Ts[k := T']) \<and> same_on F h h2"
proof -
  have ok: "heap_ok h" and F: "F \<inter> set (foot h ts) = {}" using o(1) by (simp_all add: tasks_own_def)
  have "set (blocks [old]) \<subseteq> set (own h (ts ! k))"
    using o(3) f(1) blocks_member [of old "task_fields c"] by (simp del: blocks.simps) blast
  also have "\<dots> \<subseteq> set (foot h ts)" using nth_mem [OF o(2)] by (auto simp: foot_def)
  finally have "set (blocks [q]) \<inter> set (blocks [old]) = {}" using q(2) F by blast
  from replace_text_ok [OF ok f(3) q(1) this, of ok] obtain p h1 where
    r: "replace_text ok old q h = Some (p, h1)" "heap_ok h1"
      "read_text h1 p = Some (case s of None \<Rightarrow> v | Some x \<Rightarrow> if ok then Some x else None)"
      "same_on (live h - set (blocks [old])) h h1" "live h1 = live h - set (blocks [old]) \<union> set (blocks [p])"
      "set (blocks [p]) \<inter> (live h - set (blocks [old])) = {}" by (auto simp del: blocks.simps)
  have "\<exists>h2. put_struct (ts ! k) (TaskS (mk p)) h1 = Some h2 \<and> tasks_own F h2 ts (Ts[k := T']) \<and> same_on F h h2"
    using g [of _ p] r(3) by (intro change_in_task [OF o f(1) f(2) [of p] r(2,4,5,6)]) simp
  with r(1) show ?thesis by auto
qed

text \<open>The adapter in memory stands for the adapter \<open>A\<close> of the model.\<close>

definition adapter_own :: "nat set \<Rightarrow> a2a_heap \<Rightarrow> 'w heap_adapter \<Rightarrow> 'w a2a_adapter \<Rightarrow> bool" where
  "adapter_own F h ad A \<longleftrightarrow> tasks_own F h (ha_tasks ad) (aa_tasks A) \<and> A = (ha_shell ad)\<lparr>aa_tasks := aa_tasks A\<rparr> \<and>
     set (ha_agent_json ad) \<subseteq> {None}"

lemma adapter_own_shell:
  assumes "adapter_own F h ad A"
  shows "aa_initialized (ha_shell ad) = aa_initialized A" "aa_task_handler (ha_shell ad) = aa_task_handler A"
    "aa_task_handler_user_data (ha_shell ad) = aa_task_handler_user_data A"
    "aa_streaming_handler (ha_shell ad) = aa_streaming_handler A"
    "aa_streaming_handler_user_data (ha_shell ad) = aa_streaming_handler_user_data A"
    "length (ha_tasks ad) = length (aa_tasks A)" "heap_ok h"
proof -
  obtain Ts where A: "A = (ha_shell ad)\<lparr>aa_tasks := Ts\<rparr>" and o: "tasks_own F h (ha_tasks ad) Ts"
    using assms by (metis adapter_own_def)
  have "length (ha_tasks ad) = length Ts" "heap_ok h" using o unfolding tasks_own_def by (metis length_map, simp)
  then show "aa_initialized (ha_shell ad) = aa_initialized A" "aa_task_handler (ha_shell ad) = aa_task_handler A"
    "aa_task_handler_user_data (ha_shell ad) = aa_task_handler_user_data A"
    "aa_streaming_handler (ha_shell ad) = aa_streaming_handler A"
    "aa_streaming_handler_user_data (ha_shell ad) = aa_streaming_handler_user_data A"
    "length (ha_tasks ad) = length (aa_tasks A)" "heap_ok h"
    by (simp_all add: A)
qed

lemma adapter_own_set:
  "adapter_own F h ad A \<Longrightarrow> tasks_own F h' (ha_tasks ad) ((aa_tasks A)[k := f (aa_tasks A ! k)]) \<Longrightarrow>
   adapter_own F h' ad (set_task k f A)"
  unfolding adapter_own_def set_task_def by (cases A) auto

lemma search_own:
  assumes "adapter_own F h ad A"
  shows "search_task h i (ha_tasks ad) = Some (map_option ((!) (ha_tasks ad)) (find_task A i))"
  using assms search_task_find [of h "ha_tasks ad" "aa_tasks A" i] by (simp add: adapter_own_def tasks_own_def find_task_def)

lemma found_own:
  assumes "adapter_own F h ad A" "find_task A i = Some k"
  shows "k < length (ha_tasks ad)" "read_task h (ha_tasks ad ! k) = Some (aa_tasks A ! k)"
proof -
  have k: "k < length (aa_tasks A)" using assms(2) by (auto simp: find_task_def dest: find_idx_lt)
  have m: "map (read_task h) (ha_tasks ad) = map Some (aa_tasks A)" using assms(1) by (simp add: adapter_own_def tasks_own_def)
  then show l: "k < length (ha_tasks ad)" using k by (metis length_map)
  from m k l show "read_task h (ha_tasks ad ! k) = Some (aa_tasks A ! k)" by (metis nth_map)
qed

lemma update_task_heap:
  assumes o: "adapter_own F h ad A" and q: "read_text h output_json = Some s" "set (blocks [output_json]) \<subseteq> F"
  shows "\<exists>rc h' A'. heap_update_task E (Some ad) task_id new_state output_json progress h = Some (rc, h') \<and>
    a2a_v03_update_task E (Some A) task_id new_state s progress = (rc, Some A') \<and> adapter_own F h' ad A' \<and> same_on F h h'"
proof (cases "\<exists>i. task_id = Some i \<and> aa_initialized A \<and> find_task A i \<noteq> None")
  case False
  with o adapter_own_shell(1) [OF o] search_own [OF o] show ?thesis by (cases task_id) auto
next
  case True
  then obtain i k where i: "task_id = Some i" "aa_initialized A" "find_task A i = Some k" by auto
  note k = found_own [OF o i(3)]
  let ?t = "ha_tasks ad ! k" and ?T = "aa_tasks A ! k"
  obtain c where c: "task_at ?t h = Some c" using k(2) read_task_at by blast
  let ?f = "\<lambda>t. (task_output E s (t\<lparr>tk_state := new_state\<rparr>))\<lparr>tk_progress := progress, tk_updated_at := wall_ms E 0\<rparr>"
  have T: "tasks_own F h (ha_tasks ad) (aa_tasks A)" using o by (simp add: adapter_own_def)
  have "\<exists>p h1 h2. replace_text (mem E 0) (tc_output_json c) output_json h = Some (p, h1) \<and>
      put_struct ?t (TaskS (c\<lparr>tc_state := new_state, tc_output_json := p, tc_progress := progress, tc_updated_at := wall_ms E 0\<rparr>)) h1 = Some h2 \<and>
      tasks_own F h2 (ha_tasks ad) ((aa_tasks A)[k := ?f ?T]) \<and> same_on F h h2"
    using k(2) c q
    by (intro replace_in_task [OF T k(1) c, of "[tc_id c, tc_session_id c, tc_agent_id c, tc_description c, tc_input_json c]"
          "tc_output_json c" "[tc_error_message c]" _ "tk_output_json ?T" _ s])
       (auto simp: task_fields_def read_task_iff task_output_def strdup_def split: option.splits)
  with i c adapter_own_shell(1) [OF o] search_own [OF o] show ?thesis by (auto intro: adapter_own_set [OF o])
qed

lemma cancel_task_heap:
  assumes o: "adapter_own F h ad A" and q: "read_text h reason = Some s" "set (blocks [reason]) \<subseteq> F"
  shows "\<exists>rc h' A'. heap_cancel_task E (Some ad) task_id reason h = Some (rc, h') \<and>
    a2a_v03_cancel_task E (Some A) task_id s = (rc, Some A') \<and> adapter_own F h' ad A' \<and> same_on F h h'"
proof (cases "\<exists>i. task_id = Some i \<and> aa_initialized A \<and> find_task A i \<noteq> None")
  case False
  with o adapter_own_shell(1) [OF o] search_own [OF o] show ?thesis by (cases task_id) auto
next
  case True
  then obtain i k where i: "task_id = Some i" "aa_initialized A" "find_task A i = Some k" by auto
  note k = found_own [OF o i(3)]
  let ?t = "ha_tasks ad ! k" and ?T = "aa_tasks A ! k"
  obtain c where c: "task_at ?t h = Some c" using k(2) read_task_at by blast
  let ?f = "\<lambda>t. t\<lparr>tk_state := A2A_TASK_CANCELED, tk_updated_at := wall_ms E 0,
            tk_error_message := (case s of None \<Rightarrow> tk_error_message t | Some r \<Rightarrow> strdup E 0 r)\<rparr>"
  have T: "tasks_own F h (ha_tasks ad) (aa_tasks A)" using o by (simp add: adapter_own_def)
  have "\<exists>p h1 h2. replace_text (mem E 0) (tc_error_message c) reason h = Some (p, h1) \<and>
      put_struct ?t (TaskS (c\<lparr>tc_state := A2A_TASK_CANCELED, tc_updated_at := wall_ms E 0, tc_error_message := p\<rparr>)) h1 = Some h2 \<and>
      tasks_own F h2 (ha_tasks ad) ((aa_tasks A)[k := ?f ?T]) \<and> same_on F h h2"
    using k(2) c q
    by (intro replace_in_task [OF T k(1) c, of "[tc_id c, tc_session_id c, tc_agent_id c, tc_description c, tc_input_json c, tc_output_json c]"
          "tc_error_message c" "[]" _ "tk_error_message ?T" _ s])
       (auto simp: task_fields_def read_task_iff strdup_def split: option.splits)
  with i c adapter_own_shell(1) [OF o] search_own [OF o] show ?thesis by (auto intro: adapter_own_set [OF o])
qed

lemma stream_update_heap:
  assumes o: "adapter_own F h ad A" and q: "read_text h chunk_json = Some s" "set (blocks [chunk_json]) \<subseteq> F"
  shows "\<exists>rc h' A' w'. heap_stream_task_update E (Some ad) task_id progress chunk_json is_final w h = Some (rc, w', h') \<and>
    a2a_v03_stream_task_update E (Some A) task_id progress s is_final w = (rc, Some A', w') \<and> adapter_own F h' ad A' \<and> same_on F h h'"
proof (cases "\<exists>i. task_id = Some i \<and> aa_initialized A \<and> find_task A i \<noteq> None")
  case False
  with o q(1) adapter_own_shell [OF o] search_own [OF o] show ?thesis by (cases task_id) (auto split: option.split)
next
  case True
  then obtain i k where i: "task_id = Some i" "aa_initialized A" "find_task A i = Some k" by auto
  note k = found_own [OF o i(3)]
  let ?t = "ha_tasks ad ! k" and ?T = "aa_tasks A ! k" and ?f = "stream_into E progress s is_final"
  obtain c where c: "task_at ?t h = Some c" using k(2) read_task_at by blast
  have T: "tasks_own F h (ha_tasks ad) (aa_tasks A)" using o by (simp add: adapter_own_def)
  let ?q = "if is_final then chunk_json else None"
  let ?mk = "\<lambda>p. c\<lparr>tc_progress := progress, tc_updated_at := wall_ms E 0,
    tc_state := if is_final then A2A_TASK_COMPLETED else tc_state c, tc_output_json := p\<rparr>"
  have "\<exists>p h1 h2. replace_text (mem E 0) (tc_output_json c) ?q h = Some (p, h1) \<and>
      put_struct ?t (TaskS (?mk p)) h1 = Some h2 \<and>
      tasks_own F h2 (ha_tasks ad) ((aa_tasks A)[k := ?f ?T]) \<and> same_on F h h2"
    using k(2) c q
    by (intro replace_in_task [OF T k(1) c, of "[tc_id c, tc_session_id c, tc_agent_id c, tc_description c, tc_input_json c]"
          "tc_output_json c" "[tc_error_message c]" _ "tk_output_json ?T" _ "if is_final then s else None"])
       (auto simp: task_fields_def read_task_iff task_output_def stream_into_def strdup_def read_text_def split: option.splits)
  then obtain p h1 h2 where r: "replace_text (mem E 0) (tc_output_json c) ?q h = Some (p, h1)"
    "put_struct ?t (TaskS (?mk p)) h1 = Some h2" "tasks_own F h2 (ha_tasks ad) ((aa_tasks A)[k := ?f ?T])" "same_on F h h2" by blast
  have "read_text h2 chunk_json = Some s" using read_text_same [OF r(4) q(2)] q(1) by simp
  moreover have "\<not> is_final \<Longrightarrow> p = tc_output_json c \<and> h1 = h" using r(1) by (simp add: replace_text_def)
  ultimately show ?thesis using i c r adapter_own_shell [OF o] search_own [OF o] adapter_own_set [OF o, of h2 k ?f]
    by (cases is_final) (auto simp: set_task_def split: option.split)
qed

text \<open>A new task is made of fresh blocks.\<close>

definition new_cell :: "env \<Rightarrow> pointer \<Rightarrow> pointer \<Rightarrow> pointer \<Rightarrow> pointer \<Rightarrow> task_cell" where
  "new_cell E i pa pd pj = zero_task\<lparr>tc_id := i, tc_agent_id := pa, tc_description := pd, tc_input_json := pj,
     tc_output_json := None, tc_state := A2A_TASK_SUBMITTED, tc_created_at := wall_ms E 1,
     tc_updated_at := wall_ms E 1, tc_progress := 0\<rparr>"

lemma put_grown_task:
  assumes h: "heap_ok h" "grows h1 ps h2" "grows h [Some t] h1" "task_at t h1 = Some c" "set (task_fields c') = set ps \<union> {None}"
    "blocks (task_fields c') = blocks ps"
  shows "\<exists>h3. put_struct t (TaskS c') h2 = Some h3 \<and> task_at t h3 = Some c' \<and> heap_ok h3 \<and> same_on (live h) h h3 \<and>
    live h3 = live h \<union> set (own h3 t) \<and> set (own h3 t) \<inter> live h = {} \<and> distinct (own h3 t) \<and>
    (\<forall>p \<in> set ps. read_text h3 p = read_text h2 p)"
proof -
  have g: "grows h (Some t # ps) h2" using grows_trans [OF h(3,2)] by simp
  have t: "fst t \<notin> live h" "fst t \<in> live h1" "snd t = 0" using h(3) by (cases t; auto simp: grows_def)+
  have tn: "fst t \<notin> set (blocks ps)" using g by (auto simp: grows_def)
  have "task_at t h2 = Some c" using task_at_same [of "live h1" h1 h2 t] h(2,4) t(2) by (simp add: grows_def)
  from put_task [OF this, of c'] obtain h3 where
    h3: "put_struct t (TaskS c') h2 = Some h3" "task_at t h3 = Some c'" "live h3 = live h2" "same_on (- {fst t}) h2 h3"
      "hp_next h3 = hp_next h2" by blast
  have own: "own h3 t = blocks ps @ [fst t]" using h3(2) h(6) by simp
  have "heap_ok h3" using g h3(3,5) unfolding grows_def heap_ok_def by (metis domIff)
  moreover have "same_on (live h) h h3"
    using g t(1) by (intro same_on_trans [OF _ same_on_mono [OF h3(4)]]) (auto simp: grows_def)
  moreover have "live h3 = live h \<union> set (own h3 t)" "set (own h3 t) \<inter> live h = {}" "distinct (own h3 t)"
    using g unfolding own h3(3) by (auto simp: grows_def)
  moreover have "read_text h3 p = read_text h2 p" if "p \<in> set ps" for p
    using tn blocks_member [OF that] by (intro read_text_same [OF h3(4)]) blast
  ultimately show ?thesis using h3(1,2) by blast
qed

lemma new_task_own:
  assumes o: "tasks_own F h ts Ts"
    and t: "hp_alloc True (Structs [TaskS zero_task]) h = (Some t, h1)"
    and i: "hp_alloc True (Text (tk_id (new_task E n agent_id description input_json))) h1 = (Some i, h2)"
    and a: "dup_text (mem E 2) agent_id h2 = (pa, h3)" and d: "dup_text (mem E 3) description h3 = (pd, h4)"
    and j: "dup_text (mem E 4) input_json h4 = (pj, h5)"
  shows "\<exists>h6. put_struct t (TaskS (new_cell E (Some i) pa pd pj)) h5 = Some h6 \<and>
    task_at t h6 = Some (new_cell E (Some i) pa pd pj) \<and>
    tasks_own F h6 (ts @ [t]) (Ts @ [new_task E n agent_id description input_json]) \<and> same_on F h h6"
proof -
  let ?T = "new_task E n agent_id description input_json" and ?c = "new_cell E (Some i) pa pd pj"
  have ok: "heap_ok h" and F: "F \<subseteq> live h" using o by (simp_all add: tasks_own_def)
  note gt = grows_alloc [OF ok t]
  note gi = grows_alloc [OF grows_ok [OF gt] i]
  note ga = grows_dup [OF grows_ok [OF gi] a]
  note gd = grows_dup [OF grows_ok [OF ga(1)] d]
  note gj = grows_dup [OF grows_ok [OF gd(1)] j]
  have g: "grows h1 [Some i, pa, pd, pj] h5"
    using grows_trans [OF grows_trans [OF gi ga(1)] grows_trans [OF gd(1) gj(1)]] by simp
  have t0: "snd t = 0" "task_at t h1 = Some zero_task" using t by (auto simp: hp_alloc_def task_at_def struct_at_def)
  have f: "set (task_fields ?c) = set [Some i, pa, pd, pj] \<union> {None}" "blocks (task_fields ?c) = blocks [Some i, pa, pd, pj]"
    by (auto simp: task_fields_def new_cell_def zero_task_def split: option.splits)
  from put_grown_task [OF ok g gt t0(2) f] obtain h6 where
    h6: "put_struct t (TaskS ?c) h5 = Some h6" "task_at t h6 = Some ?c" "heap_ok h6" "same_on (live h) h h6"
      "live h6 = live h \<union> set (own h6 t)" "set (own h6 t) \<inter> live h = {}" "distinct (own h6 t)"
      "\<forall>p \<in> set [Some i, pa, pd, pj]. read_text h6 p = read_text h5 p" by blast
  have "read_text h2 (Some i) = Some (Some (tk_id ?T))" using i by (auto simp: hp_alloc_def read_text_def text_at_def)
  then have ri: "read_text h5 (Some i) = Some (Some (tk_id ?T))"
    by (rule grows_read [OF gj(1) grows_read [OF gd(1) grows_read [OF ga(1)]]])
  have rd: "read_text h5 pa = Some (tk_agent_id ?T)" "read_text h5 pd = Some (tk_description ?T)" "read_text h5 pj = Some (tk_input_json ?T)"
    using grows_read [OF gj(1) grows_read [OF gd(1) ga(2)]] grows_read [OF gj(1) gd(2)] gj(2)
    by (auto simp: new_task_def strdup_def split: option.splits)
  have none: "read_text h6 None = Some None" by (simp add: read_text_def)
  have "read_task h6 t = Some ?T"
    unfolding read_task_iff by (rule exI [of _ ?c]) (use h6(2,8) ri rd none in \<open>simp add: new_cell_def zero_task_def new_task_def\<close>)
  from tasks_own_add [OF o this h6(7,3) t0(1) h6(4,5,6)] h6 F show ?thesis by (blast intro: same_on_mono)
qed

text \<open>The handler's state and output go into the task that was created last.\<close>

lemma run_handler_own:
  assumes o: "tasks_own F h (ts @ [t]) (Ts @ [T])" and c: "task_at t h = Some c" "tc_output_json c = None"
    and A: "aa_task_handler a = aa_task_handler A" "aa_task_handler_user_data a = aa_task_handler_user_data A"
  shows "\<exists>T' w' h'. run_task_handler a t c w h = Some (w', h') \<and> handle_task A T w = (T', w') \<and>
    tasks_own F h' (ts @ [t]) (Ts @ [T']) \<and> same_on F h h'"
proof (cases "aa_task_handler A")
  case None
  with o A(1) show ?thesis by (simp add: run_task_handler_def handle_task_def)
next
  case (Some f)
  obtain rc st out w' where r: "f T (tk_state T) (aa_task_handler_user_data A) w = (rc, st, out, w')" by (metis prod_cases4)
  have "length (map (read_task h) (ts @ [t])) = length (map Some (Ts @ [T]))" using o by (simp only: tasks_own_def)
  then have l: "length ts = length Ts" by simp
  have ok: "heap_ok h" and rd: "read_task h t = Some T" using o l by (auto simp: tasks_own_def)
  have st: "tc_state c = tk_state T" using rd c(1) by (auto simp: read_task_iff)
  have fs: "task_fields c = [tc_id c, tc_session_id c, tc_agent_id c, tc_description c, tc_input_json c] @ None # [tc_error_message c]"
    by (simp add: task_fields_def c(2))
  let ?A = "[tc_id c, tc_session_id c, tc_agent_id c, tc_description c, tc_input_json c]"
  have k: "length ts < length (ts @ [t])" "task_at ((ts @ [t]) ! length ts) h = Some c" using c(1) by auto
  obtain p h1 where p: "dup_text True out h = (p, h1)" by (meson surj_pair)
  note g = grows_dup [OF ok p]
  let ?c = "c\<lparr>tc_state := st, tc_output_json := p\<rparr>" and ?T = "T\<lparr>tk_state := st, tk_output_json := out\<rparr>"
  have "read_text h None = Some (tk_output_json T)" using rd c by (auto simp: read_task_iff)
  then have no: "tk_output_json T = None" by (simp add: read_text_def)
  have "\<exists>h2. put_struct ((ts @ [t]) ! length ts) (TaskS ?c) h1 = Some h2 \<and> tasks_own F h2 (ts @ [t]) ((Ts @ [T])[length ts := ?T]) \<and> same_on F h h2"
    using g rd c(1)
    by (intro change_in_task [OF o k fs, of ?c p]) (auto simp: grows_def task_fields_def read_task_iff split: option.splits)
  then obtain h2 where h2: "put_struct t (TaskS ?c) h1 = Some h2" "tasks_own F h2 (ts @ [t]) (Ts @ [?T])" "same_on F h h2"
    by (metis l list_update_length nth_append_length)
  have "c\<lparr>tc_state := st, tc_output_json := None\<rparr> = c\<lparr>tc_state := st\<rparr>" using c(2) by (cases c) simp
  with Some A r rd st no p c(2) h2 show ?thesis
    by (cases out) (auto simp: run_task_handler_def handle_task_def dup_text_def)
qed

lemma tasks_own_blocks: "tasks_own F h ts Ts \<Longrightarrow> same_blocks h h' \<Longrightarrow> heap_ok h' \<Longrightarrow> tasks_own F h' ts Ts"
  using tasks_own_same [of h ts Ts UNIV h'] by (auto simp: tasks_own_def same_on_def same_blocks_def)

lemma create_task_heap:
  assumes o: "adapter_own F h ad A"
  shows "\<exists>rc p ad' w' h' t A'. heap_create_task E (Some ad) agent_id description input_json outs w h = Some (rc, p, Some ad', w', h') \<and>
    a2a_v03_create_task E (Some A) agent_id description input_json outs w = (rc, t, Some A', w') \<and>
    adapter_own F h' ad' A' \<and> same_on F h h' \<and> (case p of None \<Rightarrow> t = None | Some q \<Rightarrow> read_task h' q = t \<and> q \<in> set (ha_tasks ad'))"
proof (cases "outs \<and> aa_initialized A \<and> length (aa_tasks A) < A2A_V03_MAX_TASKS \<and> mem E 0")
  case False
  with o adapter_own_shell [OF o] show ?thesis by (cases outs) (auto simp: hp_alloc_def not_less)
next
  case True
  let ?n = "length (ha_tasks ad)" and ?x = "Structs [TaskS zero_task]"
  let ?T = "new_task E ?n agent_id description input_json"
  have T: "tasks_own F h (ha_tasks ad) (aa_tasks A)" and sh: "A = (ha_shell ad)\<lparr>aa_tasks := aa_tasks A\<rparr>"
    and js: "set (ha_agent_json ad) \<subseteq> {None}" using o by (simp_all add: adapter_own_def)
  note sel = adapter_own_shell [OF o]
  obtain t h1 where t: "hp_alloc True ?x h = (Some t, h1)" by (simp add: hp_alloc_def)
  show ?thesis
  proof (cases "mem E 1")
    case False
    have "snd t = 0" using t by (auto simp: hp_alloc_def)
    with grows_free [OF grows_alloc [OF sel(7) t], of "[Some t]"] obtain h3 where
      h3: "hp_free (Some t) h1 = Some h3" "same_blocks h h3" "heap_ok h3" by (cases t) (auto split: bind_splits)
    have "adapter_own F h3 ad A" using tasks_own_blocks [OF T h3(2,3)] sh js by (simp add: adapter_own_def)
    with True False t h3(1,2) sel show ?thesis by (auto simp: hp_alloc_def same_on_def same_blocks_def)
  next
    case m: True
    obtain i h2 where i: "hp_alloc True (Text (tk_id ?T)) h1 = (Some i, h2)" by (simp add: hp_alloc_def)
    obtain pa h3 where a: "dup_text (mem E 2) agent_id h2 = (pa, h3)" by (meson surj_pair)
    obtain pd h4 where d: "dup_text (mem E 3) description h3 = (pd, h4)" by (meson surj_pair)
    obtain pj h5 where j: "dup_text (mem E 4) input_json h4 = (pj, h5)" by (meson surj_pair)
    let ?c = "new_cell E (Some i) pa pd pj"
    from new_task_own [OF T t i a d j] obtain h6 where
      h6: "put_struct t (TaskS ?c) h5 = Some h6" "task_at t h6 = Some ?c" "tasks_own F h6 (ha_tasks ad @ [t]) (aa_tasks A @ [?T])"
        "same_on F h h6" by blast
    have "tc_output_json ?c = None" by (simp add: new_cell_def)
    from run_handler_own [OF h6(3,2) this sel(2,3), of w] obtain T' w' h' where
      r: "run_task_handler (ha_shell ad) t ?c w h6 = Some (w', h')" "handle_task A ?T w = (T', w')"
        "tasks_own F h' (ha_tasks ad @ [t]) (aa_tasks A @ [T'])" "same_on F h6 h'" by blast
    have "adapter_own F h' (ad\<lparr>ha_tasks := ha_tasks ad @ [t]\<rparr>) (A\<lparr>aa_tasks := aa_tasks A @ [T']\<rparr>)"
      using r(3) sh js unfolding adapter_own_def by (cases A) auto
    moreover have "read_task h' t = Some T'" using r(3) sel(6) by (auto simp: tasks_own_def)
    moreover have "heap_create_task E (Some ad) agent_id description input_json outs w h =
        Some (0, Some t, Some (ad\<lparr>ha_tasks := ha_tasks ad @ [t]\<rparr>), w', h')"
      using True m sel t i a d j h6(1) r(1) by (simp add: new_cell_def)
    ultimately show ?thesis using True m sel r(2) same_on_trans [OF h6(4) r(4)] by (auto simp: not_le)
  qed
qed

section \<open>The static card\<close>

text \<open>The value of a card without skills, and that its strings are its own.\<close>

definition card_own :: "a2a_heap \<Rightarrow> card_cell \<Rightarrow> a2a_agent_card \<Rightarrow> bool" where
  "card_own h c K \<longleftrightarrow> read_card h c = Some K \<and> distinct (blocks (card_fields c))"

abbreviation card_blocks :: "card_cell \<Rightarrow> nat set" where "card_blocks c \<equiv> set (blocks (card_fields c))"

lemma zero_card_own: "card_own h zero_card_cell zero_card" "card_blocks zero_card_cell = {}"
  by (simp_all add: card_own_def read_card_def zero_card_cell_def zero_card_def card_fields_def read_text_def)

lemma card_own_live:
  assumes "card_own h c K"
  shows "bases (card_fields c) \<and> card_blocks c \<subseteq> live h" "cc_skills c = None"
proof -
  have "\<forall>p \<in> set (card_fields c). \<exists>s. read_text h p = Some s"
    using assms by (auto simp: card_own_def read_card_def card_fields_def bind_eq_Some_conv)
  then show "bases (card_fields c) \<and> card_blocks c \<subseteq> live h" by (rule read_all_live)
  show "cc_skills c = None" using assms by (auto simp: card_own_def read_card_def bind_eq_Some_conv simp del: not_None_eq split: if_splits)
qed

lemma card_release_exact:
  assumes "card_own h c K"
  shows "card_release c h = Some (drop_blocks (card_blocks c) h)"
proof -
  have "free_all (card_fields c) h = Some (drop_blocks (card_blocks c) h)"
    using card_own_live [OF assms] assms by (intro free_all_ok) (auto simp: card_own_def)
  with card_own_live(2) [OF assms] show ?thesis by (simp add: card_release_def)
qed

lemma card_own_same:
  assumes "card_own h c K" "same_on S h h'" "card_blocks c \<subseteq> S"
  shows "card_own h' c K"
proof -
  have "read_text h' p = read_text h p" if "p \<in> set (card_fields c)" for p
    using blocks_member [OF that] assms(3) by (intro read_text_same [OF assms(2)]) blast
  with assms(1) show ?thesis by (simp add: card_own_def read_card_def card_fields_def)
qed

lemma card_own_flags:
  "card_own h c K \<Longrightarrow> card_own h (c\<lparr>cc_capabilities := x, cc_available := y\<rparr>) (K\<lparr>cd_capabilities := x, cd_available := y\<rparr>)"
  by (cases K) (auto simp: card_own_def card_fields_def read_card_def bind_eq_Some_conv split: if_splits)

lemma copy_card_own:
  assumes "heap_ok h" "copy_card_cell E ic zero_card_cell h = (c, h')"
  shows "grows h (card_fields c) h'" "card_own h' c (copy_card E ic)" "cc_capabilities c = 0" "\<not> cc_available c"
proof -
  obtain p0 h0 where a: "dup_text (mem E 0) (Some (ic_id ic)) h = (p0, h0)" by (meson surj_pair)
  obtain p1 h1 where b: "dup_text (mem E 1) (Some (ic_name ic)) h0 = (p1, h1)" by (meson surj_pair)
  obtain p2 h2 where d: "dup_text (mem E 2) (Some (ic_url ic)) h1 = (p2, h2)" by (meson surj_pair)
  obtain p3 h3 where e: "dup_text (mem E 3) (Some (ic_capabilities ic)) h2 = (p3, h3)" by (meson surj_pair)
  have c: "c = zero_card_cell\<lparr>cc_id := p0, cc_name := p1, cc_url := p2, cc_capabilities_json := p3,
      cc_protocol_version := ic_version ic\<rparr>" "h' = h3"
    using assms(2) a b d e by (simp_all add: copy_card_cell_def)
  note ga = grows_dup [OF assms(1) a]
  note gb = grows_dup [OF grows_ok [OF ga(1)] b]
  note gd = grows_dup [OF grows_ok [OF gb(1)] d]
  note ge = grows_dup [OF grows_ok [OF gd(1)] e]
  have g: "grows h [p0, p1, p2, p3] h3" using grows_trans [OF grows_trans [OF ga(1) gb(1)] grows_trans [OF gd(1) ge(1)]] by simp
  have f: "blocks (card_fields c) = blocks [p0, p1, p2, p3]" "bases (card_fields c) = bases [p0, p1, p2, p3]"
    by (auto simp: c card_fields_def zero_card_cell_def bases_def split: option.splits)
  then show G: "grows h (card_fields c) h'" using g c(2) by (simp add: grows_def)
  have "read_text h3 p0 = Some (strdup E 0 (ic_id ic))" "read_text h3 p1 = Some (strdup E 1 (ic_name ic))"
    "read_text h3 p2 = Some (strdup E 2 (ic_url ic))" "read_text h3 p3 = Some (strdup E 3 (ic_capabilities ic))"
    using grows_read [OF ge(1) grows_read [OF gd(1) grows_read [OF gb(1) ga(2)]]] grows_read [OF ge(1) grows_read [OF gd(1) gb(2)]]
      grows_read [OF ge(1) gd(2)] ge(2) by (simp_all add: strdup_def)
  then have "read_card h' c = Some (copy_card E ic)"
    by (simp add: c read_card_def zero_card_cell_def copy_card_def zero_card_def read_text_def)
  then show "card_own h' c (copy_card E ic)" using G by (simp add: card_own_def grows_def)
  show "cc_capabilities c = 0" "\<not> cc_available c" by (simp_all add: c zero_card_cell_def)
qed

text \<open>The tasks do not notice what happens to the rest of the program.\<close>

lemma tasks_own_frame:
  assumes "tasks_own F h ts Ts" "same_on (live h - F) h h'" "heap_ok h'" "live h' = F' \<union> (live h - F)" "F' \<inter> (live h - F) = {}"
  shows "tasks_own F' h' ts Ts"
proof -
  have l: "live h - F = set (foot h ts)" using assms(1) by (auto simp: tasks_own_def)
  have r: "map (read_task h) ts = map Some Ts" using assms(1) by (simp add: tasks_own_def)
  have "map (read_task h') ts = map Some Ts" "foot h' ts = foot h ts" using tasks_own_same [OF r assms(2)] l by auto
  with assms l show ?thesis by (auto simp: tasks_own_def)
qed

text \<open>The adapter and the static card, together with the rest \<open>F\<close> of the program.\<close>

definition state_own :: "nat set \<Rightarrow> a2a_heap \<Rightarrow> 'w heap_adapter \<Rightarrow> card_cell \<Rightarrow> 'w a2a_adapter \<Rightarrow> a2a_agent_card \<Rightarrow> bool" where
  "state_own F h ad c A K \<longleftrightarrow> adapter_own (F \<union> card_blocks c) h ad A \<and> card_own h c K \<and> F \<inter> card_blocks c = {}"

lemma state_own_ad:
  assumes "state_own F h ad c A K" "adapter_own (F \<union> card_blocks c) h' ad' A'" "same_on (F \<union> card_blocks c) h h'"
  shows "state_own F h' ad' c A' K \<and> same_on F h h'"
  using assms card_own_same [of h c K "F \<union> card_blocks c" h'] same_on_mono [OF assms(3), of F] by (auto simp: state_own_def)

lemma get_card_heap:
  assumes o: "state_own F h ad c A K"
  shows "\<exists>b c' h' r K'. heap_get_agent_card E (Some ad) agent_id c h = Some (b, c', h') \<and>
    a2a_v03_get_agent_card E (Some A) agent_id K = (r, K') \<and> b = (r \<noteq> None) \<and>
    state_own F h' ad c' A K' \<and> same_on F h h'"
proof -
  have ad: "adapter_own (F \<union> card_blocks c) h ad A" and cd: "card_own h c K" and F: "F \<inter> card_blocks c = {}"
    using o by (simp_all add: state_own_def)
  note sel = adapter_own_shell [OF ad]
  obtain Ts where A: "A = (ha_shell ad)\<lparr>aa_tasks := Ts\<rparr>" using ad by (auto simp: adapter_own_def)
  have find: "find_agent (ha_shell ad) i = find_agent A i" for i by (simp add: A find_agent_def)
  have ag: "aa_agents (ha_shell ad) = aa_agents A" by (simp add: A)
  show ?thesis
  proof (cases "\<exists>i k. agent_id = Some i \<and> aa_initialized A \<and> find_agent A i = Some k")
    case False
    with o sel find show ?thesis by (cases agent_id) (auto split: option.splits)
  next
    case True
    then obtain i k where i: "agent_id = Some i" "aa_initialized A" "find_agent A i = Some k" by auto
    let ?h = "drop_blocks (card_blocks c) h" and ?ic = "aa_agents A ! k"
    obtain d h' where d: "copy_card_cell E ?ic zero_card_cell ?h = (d, h')" by (meson surj_pair)
    note D = copy_card_own [OF heap_ok_drop [OF sel(7)] d]
    let ?d = "d\<lparr>cc_capabilities := ic_capabilities_mask ?ic, cc_available := ic_available ?ic\<rparr>"
    let ?K = "(copy_card E ?ic)\<lparr>cd_capabilities := ic_capabilities_mask ?ic, cd_available := ic_available ?ic\<rparr>"
    have fd: "card_fields ?d = card_fields d" by (simp add: card_fields_def)
    have own: "card_own h' ?d ?K" using D(2) by (rule card_own_flags)
    have T: "tasks_own (F \<union> card_blocks c) h (ha_tasks ad) (aa_tasks A)" using ad by (simp add: adapter_own_def)
    have lv: "F \<union> card_blocks c \<subseteq> live h" using T by (auto simp: tasks_own_def)
    have G: "heap_ok h'" "same_on (live h - card_blocks c) ?h h'" "live h' = live h - card_blocks c \<union> card_blocks ?d"
      "card_blocks ?d \<inter> (live h - card_blocks c) = {}" using D(1) by (simp_all add: grows_def fd)
    have s: "same_on (live h - card_blocks c) h h'" using G(2) by (auto simp: same_on_def)
    have Ts: "tasks_own (F \<union> card_blocks ?d) h' (ha_tasks ad) (aa_tasks A)"
      by (rule tasks_own_frame [OF T same_on_mono [OF s] G(1)]) (use lv F G(3,4) in auto)
    have "state_own F h' ad ?d A ?K"
      using Ts ad own G(4) lv F by (auto simp: state_own_def adapter_own_def)
    moreover have "same_on F h h'" by (rule same_on_mono [OF s]) (use lv F in auto)
    moreover have "heap_get_agent_card E (Some ad) agent_id c h = Some (True, ?d, h')"
      using i sel(1) find ag d card_release_exact [OF cd] by simp
    ultimately show ?thesis using i by auto
  qed
qed

section \<open>Clearing and destroying\<close>

lemma ctx_clear_heap:
  assumes o: "state_own F h ad c A K"
  shows "\<exists>ad' h' A'. heap_ctx_clear E (Some ad) c h = Some (Some ad', zero_card_cell, h') \<and>
    a2a_v03_ctx_clear (Some A) K = (Some A', zero_card) \<and> adapter_own F h' ad' A' \<and> live h' = F \<and> same_on F h h'"
proof -
  have ad: "adapter_own (F \<union> card_blocks c) h ad A" and cd: "card_own h c K" and F: "F \<inter> card_blocks c = {}"
    using o by (simp_all add: state_own_def)
  have T: "tasks_own (F \<union> card_blocks c) h (ha_tasks ad) (aa_tasks A)" and js: "set (ha_agent_json ad) \<subseteq> {None}"
    using ad by (simp_all add: adapter_own_def)
  obtain Ts where A: "A = (ha_shell ad)\<lparr>aa_tasks := Ts\<rparr>" using ad by (auto simp: adapter_own_def)
  let ?ts = "set (foot h (ha_tasks ad))" and ?n = "aa_agent_count (ha_shell ad)"
  let ?h1 = "drop_blocks ?ts h" and ?h2 = "drop_blocks (card_blocks c \<union> ?ts) h"
  have l: "live h = F \<union> card_blocks c \<union> ?ts" "(F \<union> card_blocks c) \<inter> ?ts = {}" "heap_ok h" using T by (simp_all add: tasks_own_def)
  have "blocks ps = [] \<and> bases ps" if "set ps \<subseteq> {None}" for ps :: "pointer list" using that by (induction ps) auto
  with js have j: "free_all (take ?n (ha_agent_json ad)) h = Some h"
    using free_all_iff [of "take ?n (ha_agent_json ad)" h h] by (metis (no_types, lifting) set_take_subset subset_trans distinct.simps(1) drop_none empty_set empty_subsetI)
  have "card_own ?h1 c K" by (rule card_own_same [OF cd, of "card_blocks c"]) (use l(2) in auto)
  from card_release_exact [OF this] have r: "card_release c ?h1 = Some ?h2" by simp
  have lv: "live ?h2 = F" using l(1,2) F by auto
  have s: "same_on F h ?h2" using l(2) F by auto
  let ?ad = "ad\<lparr>ha_shell := (ha_shell ad)\<lparr>aa_initialized := False,
           aa_agents := map (\<lambda>c. c\<lparr>ic_capabilities_json := None\<rparr>) (take ?n (aa_agents (ha_shell ad))) @
             drop ?n (aa_agents (ha_shell ad)), aa_agent_count := 0\<rparr>, ha_tasks := [],
         ha_agent_json := replicate (min ?n (length (ha_agent_json ad))) None @ drop ?n (ha_agent_json ad)\<rparr>"
  have "heap_ctx_clear E (Some ad) c h = Some (Some ?ad, zero_card_cell, ?h2)"
    using j tasks_destroy_exact [OF T] r by simp
  moreover have "set (ha_agent_json ?ad) \<subseteq> {None}" using js set_drop_subset [of ?n "ha_agent_json ad"] by auto
  ultimately show ?thesis using l(3) lv s by (auto simp: A adapter_own_def tasks_own_def)
qed

section \<open>Calls on the structure alone\<close>

text \<open>
  Registering agents and setting handlers write into the structure. Leaving moves the last agent
  into the gap, together with its pointer.
\<close>

definition on_shell :: "('w a2a_adapter option \<Rightarrow> int \<times> 'w a2a_adapter option) \<Rightarrow> 'w heap_adapter \<Rightarrow> 'w heap_adapter" where
  "on_shell f ad = ad\<lparr>ha_shell := the (snd (f (Some (ha_shell ad))))\<rparr>"

definition heap_register_agent :: "env \<Rightarrow> 'w heap_adapter \<Rightarrow> a2a_agent_card option \<Rightarrow> int \<times> 'w heap_adapter" where
  "heap_register_agent E ad info =
    (fst (a2a_v03_register_agent E (Some (ha_shell ad)) info), on_shell (\<lambda>a. a2a_v03_register_agent E a info) ad)"

definition heap_unregister_agent :: "env \<Rightarrow> 'w heap_adapter \<Rightarrow> cstring option \<Rightarrow> int \<times> 'w heap_adapter" where
  "heap_unregister_agent E ad i =
    (let ad1 = on_shell (\<lambda>a. a2a_v03_unregister_agent E a i) ad; last = aa_agent_count (ha_shell ad) - 1;
         json = ha_agent_json ad in
     (fst (a2a_v03_unregister_agent E (Some (ha_shell ad)) i),
      case i of None \<Rightarrow> ad1
      | Some x \<Rightarrow> (if \<not> aa_initialized (ha_shell ad) then ad1
          else case find_agent (ha_shell ad) x of None \<Rightarrow> ad1
          | Some k \<Rightarrow> if k < last \<and> last < length json then ad1\<lparr>ha_agent_json := json[k := json ! last]\<rparr> else ad1)))"

text \<open>Such a call does not depend on the tasks and keeps them.\<close>

definition tasks_aside :: "('w a2a_adapter option \<Rightarrow> int \<times> 'w a2a_adapter option) \<Rightarrow> bool" where
  "tasks_aside f \<longleftrightarrow> (\<forall>a Ts. the (snd (f (Some (a\<lparr>aa_tasks := Ts\<rparr>)))) = (the (snd (f (Some a))))\<lparr>aa_tasks := Ts\<rparr>)"

lemma calls_aside [simp]:
  "tasks_aside (\<lambda>a. a2a_v03_register_agent E a info)" "tasks_aside (\<lambda>a. a2a_v03_unregister_agent E a i)"
  "tasks_aside (\<lambda>a. a2a_v03_set_task_handler E a f ud)" "tasks_aside (\<lambda>a. a2a_v03_set_streaming_handler E a g ud)"
  unfolding tasks_aside_def
  by (cases info; cases i; auto simp: add_agent_def merge_agent_def find_agent_def Let_def split: option.splits prod.splits)+

lemma shell_step:
  assumes "adapter_own F h ad A" "tasks_aside f"
  shows "adapter_own F h (on_shell f ad) (the (snd (f (Some A))))"
proof -
  have A: "A = (ha_shell ad)\<lparr>aa_tasks := aa_tasks A\<rparr>" "tasks_own F h (ha_tasks ad) (aa_tasks A)" "set (ha_agent_json ad) \<subseteq> {None}"
    using assms(1) by (simp_all add: adapter_own_def)
  have "the (snd (f (Some A))) = (the (snd (f (Some (ha_shell ad)))))\<lparr>aa_tasks := aa_tasks A\<rparr>"
    using assms(2) A(1) unfolding tasks_aside_def by metis
  with A(2,3) show ?thesis by (simp add: adapter_own_def on_shell_def)
qed

lemma unregister_step:
  assumes "adapter_own F h ad A"
  shows "adapter_own F h (snd (heap_unregister_agent E ad i)) (the (snd (a2a_v03_unregister_agent E (Some A) i)))"
proof -
  let ?ad = "on_shell (\<lambda>a. a2a_v03_unregister_agent E a i) ad"
  have o: "adapter_own F h ?ad (the (snd (a2a_v03_unregister_agent E (Some A) i)))" by (rule shell_step [OF assms]) simp
  have n: "\<forall>p \<in> set (ha_agent_json ad). p = None" using assms by (auto simp: adapter_own_def)
  have "set ((ha_agent_json ad)[k := ha_agent_json ad ! l]) \<subseteq> {None}" if "l < length (ha_agent_json ad)" for k l
    using n nth_mem [OF that] set_update_subset_insert by fastforce
  with o show ?thesis
    by (auto simp: heap_unregister_agent_def adapter_own_def Let_def split: option.splits)
qed

section \<open>Sequences of calls\<close>

text \<open>The calls a program makes on one adapter; pointers lead to strings of its own.\<close>

datatype 'w task_call =
    Create env "cstring option" "cstring option" "cstring option"
  | Update env "cstring option" a2a_task_state pointer real
  | Cancel env "cstring option" pointer
  | Stream env "cstring option" real pointer bool
  | Card env "cstring option"
  | Join env "a2a_agent_card option"
  | Leave env "cstring option"
  | Handler env "'w task_handler option" "ptr option"
  | Streamer env "'w streaming_handler option" "ptr option"

fun call_text :: "'w task_call \<Rightarrow> pointer" where
  "call_text (Update E i st p x) = p"
| "call_text (Cancel E i p) = p"
| "call_text (Stream E i x p f) = p"
| "call_text _ = None"

type_synonym 'w memory = "'w heap_adapter \<times> card_cell \<times> 'w \<times> a2a_heap"

fun heap_call :: "'w task_call \<Rightarrow> 'w memory \<Rightarrow> 'w memory option" where
  "heap_call (Create E x y z) (ad, c, w, h) = (case heap_create_task E (Some ad) x y z True w h of
     Some (rc, p, Some ad', w', h') \<Rightarrow> Some (ad', c, w', h') | _ \<Rightarrow> None)"
| "heap_call (Update E i st p x) (ad, c, w, h) = do { (rc, h') \<leftarrow> heap_update_task E (Some ad) i st p x h; Some (ad, c, w, h') }"
| "heap_call (Cancel E i p) (ad, c, w, h) = do { (rc, h') \<leftarrow> heap_cancel_task E (Some ad) i p h; Some (ad, c, w, h') }"
| "heap_call (Stream E i x p f) (ad, c, w, h) = do {
     (rc, w', h') \<leftarrow> heap_stream_task_update E (Some ad) i x p f w h; Some (ad, c, w', h') }"
| "heap_call (Card E i) (ad, c, w, h) = do { (b, c', h') \<leftarrow> heap_get_agent_card E (Some ad) i c h; Some (ad, c', w, h') }"
| "heap_call (Join E info) (ad, c, w, h) = Some (snd (heap_register_agent E ad info), c, w, h)"
| "heap_call (Leave E i) (ad, c, w, h) = Some (snd (heap_unregister_agent E ad i), c, w, h)"
| "heap_call (Handler E f ud) (ad, c, w, h) = Some (on_shell (\<lambda>a. a2a_v03_set_task_handler E a f ud) ad, c, w, h)"
| "heap_call (Streamer E f ud) (ad, c, w, h) = Some (on_shell (\<lambda>a. a2a_v03_set_streaming_handler E a f ud) ad, c, w, h)"

fun heap_calls :: "'w task_call list \<Rightarrow> 'w memory \<Rightarrow> 'w memory option" where
  "heap_calls [] s = Some s"
| "heap_calls (q # qs) s = do { s1 \<leftarrow> heap_call q s; heap_calls qs s1 }"

text \<open>The same calls on values; \<open>str\<close> gives the caller's strings.\<close>

fun value_call ::
  "(pointer \<Rightarrow> cstring option) \<Rightarrow> 'w task_call \<Rightarrow> 'w a2a_adapter \<times> a2a_agent_card \<times> 'w \<Rightarrow> 'w a2a_adapter \<times> a2a_agent_card \<times> 'w" where
  "value_call str (Create E x y z) (A, K, w) =
    (case a2a_v03_create_task E (Some A) x y z True w of (rc, t, A', w') \<Rightarrow> (the A', K, w'))"
| "value_call str (Update E i st p x) (A, K, w) = (the (snd (a2a_v03_update_task E (Some A) i st (str p) x)), K, w)"
| "value_call str (Cancel E i p) (A, K, w) = (the (snd (a2a_v03_cancel_task E (Some A) i (str p))), K, w)"
| "value_call str (Stream E i x p f) (A, K, w) =
    (case a2a_v03_stream_task_update E (Some A) i x (str p) f w of (rc, A', w') \<Rightarrow> (the A', K, w'))"
| "value_call str (Card E i) (A, K, w) = (A, snd (a2a_v03_get_agent_card E (Some A) i K), w)"
| "value_call str (Join E info) (A, K, w) = (the (snd (a2a_v03_register_agent E (Some A) info)), K, w)"
| "value_call str (Leave E i) (A, K, w) = (the (snd (a2a_v03_unregister_agent E (Some A) i)), K, w)"
| "value_call str (Handler E f ud) (A, K, w) = (the (snd (a2a_v03_set_task_handler E (Some A) f ud)), K, w)"
| "value_call str (Streamer E f ud) (A, K, w) = (the (snd (a2a_v03_set_streaming_handler E (Some A) f ud)), K, w)"

fun value_calls ::
  "(pointer \<Rightarrow> cstring option) \<Rightarrow> 'w task_call list \<Rightarrow> 'w a2a_adapter \<times> a2a_agent_card \<times> 'w \<Rightarrow> 'w a2a_adapter \<times> a2a_agent_card \<times> 'w" where
  "value_calls str [] s = s"
| "value_calls str (q # qs) s = value_calls str qs (value_call str q s)"

definition text_given :: "nat set \<Rightarrow> a2a_heap \<Rightarrow> (pointer \<Rightarrow> cstring option) \<Rightarrow> pointer \<Rightarrow> bool" where
  "text_given F h str p \<longleftrightarrow> read_text h p = Some (str p) \<and> set (blocks [p]) \<subseteq> F"

lemma call_own:
  assumes o: "state_own F h ad c A K" and t: "text_given F h str (call_text q)"
  shows "\<exists>ad' c' w' h' A' K'. heap_call q (ad, c, w, h) = Some (ad', c', w', h') \<and> value_call str q (A, K, w) = (A', K', w') \<and>
    state_own F h' ad' c' A' K' \<and> same_on F h h'"
proof -
  have ad: "adapter_own (F \<union> card_blocks c) h ad A" using o by (simp add: state_own_def)
  have r: "read_text h (call_text q) = Some (str (call_text q))" "set (blocks [call_text q]) \<subseteq> F \<union> card_blocks c"
    using t by (auto simp: text_given_def)
  have keep: "state_own F h ad' c A' K" if "adapter_own (F \<union> card_blocks c) h ad' A'" for ad' A'
    using state_own_ad [OF o that] by simp
  show ?thesis
  proof (cases q)
    case (Create E x y z)
    from create_task_heap [OF ad, of E x y z True w] Create show ?thesis
      by (auto dest: state_own_ad [OF o] simp del: heap_create_task.simps a2a_v03_create_task.simps)
  next
    case (Update E i st p x)
    with r update_task_heap [OF ad, of p "str p" E i st x] show ?thesis
      by (auto dest: state_own_ad [OF o] simp del: blocks.simps heap_update_task.simps a2a_v03_update_task.simps)
  next
    case (Cancel E i p)
    with r cancel_task_heap [OF ad, of p "str p" E i] show ?thesis
      by (auto dest: state_own_ad [OF o] simp del: blocks.simps heap_cancel_task.simps a2a_v03_cancel_task.simps)
  next
    case (Stream E i x p f)
    with r stream_update_heap [OF ad, of p "str p" E i x f w] show ?thesis
      by (auto dest: state_own_ad [OF o] simp del: blocks.simps heap_stream_task_update.simps a2a_v03_stream_task_update.simps)
  next
    case (Card E i)
    with get_card_heap [OF o, of E i] show ?thesis
      by (auto simp del: heap_get_agent_card.simps a2a_v03_get_agent_card.simps)
  next
    case (Join E info)
    with shell_step [OF ad calls_aside(1), of E info] show ?thesis by (auto simp: heap_register_agent_def intro: keep)
  next
    case (Leave E i)
    with unregister_step [OF ad, of E i] show ?thesis by (auto intro: keep)
  next
    case (Handler E f ud)
    with shell_step [OF ad calls_aside(3), of E f ud] show ?thesis by (auto intro: keep)
  next
    case (Streamer E f ud)
    with shell_step [OF ad calls_aside(4), of E f ud] show ?thesis by (auto intro: keep)
  qed
qed

lemma calls_own:
  "state_own F h ad c A K \<Longrightarrow> \<forall>q \<in> set qs. text_given F h str (call_text q) \<Longrightarrow>
   \<exists>ad' c' w' h' A' K'. heap_calls qs (ad, c, w, h) = Some (ad', c', w', h') \<and> value_calls str qs (A, K, w) = (A', K', w') \<and>
     state_own F h' ad' c' A' K' \<and> same_on F h h'"
proof (induction qs arbitrary: ad c w h A K)
  case (Cons q qs)
  from call_own [OF Cons.prems(1), of str q w] Cons.prems(2) obtain ad' c' w' h' A' K' where
    r: "heap_call q (ad, c, w, h) = Some (ad', c', w', h')" "value_call str q (A, K, w) = (A', K', w')"
      "state_own F h' ad' c' A' K'" "same_on F h h'" by auto
  have "\<forall>q \<in> set qs. text_given F h' str (call_text q)"
    using Cons.prems(2) read_text_same [OF r(4)] by (simp add: text_given_def del: blocks.simps)
  from Cons.IH [OF r(3) this, of w'] r same_on_trans [OF r(4)] show ?case by fastforce
qed auto

lemma create_own:
  fixes E :: env
  assumes "heap_ok h" "mem E 0"
  shows "\<exists>p ad h1 a. heap_create E timeout h = (0, Some (p, ad :: 'w heap_adapter), h1) \<and> a2a_v03_create E timeout = (0, Some a) \<and>
    aa_initialized a \<and> aa_tasks a = [] \<and> aa_task_handler a = None \<and>
    state_own (insert (fst p) (live h)) h1 ad zero_card_cell a zero_card \<and> same_on (live h) h h1 \<and> fst p \<notin> live h \<and> snd p = 0"
proof -
  obtain p h1 where p: "hp_alloc True (Structs [ShellS]) h = (Some p, h1)" by (simp add: hp_alloc_def)
  obtain a :: "'w a2a_adapter" where
    a: "a2a_v03_create E timeout = (0, Some a)" "aa_tasks a = []" "aa_initialized a" "aa_task_handler a = None"
    using assms(2) by (simp add: a2a_v03_create_def zero_adapter_state_def)
  let ?ad = "\<lparr>ha_shell = a, ha_tasks = [], ha_agent_json = replicate A2A_V03_MAX_AGENTS None\<rparr>"
  have g: "grows h [Some p] h1" using grows_alloc [OF assms(1) p] .
  then have l: "live h1 = insert (fst p) (live h)" "heap_ok h1" "same_on (live h) h h1" "fst p \<notin> live h" "snd p = 0"
    by (cases p; auto simp: grows_def)+
  have "state_own (insert (fst p) (live h)) h1 ?ad zero_card_cell a zero_card"
    using l(1,2) a(2) by (cases a) (auto simp: state_own_def zero_card_own adapter_own_def tasks_own_def)
  moreover have "heap_create E timeout h = (0, Some (p, ?ad), h1)" using assms(2) p a(1) by (simp add: heap_create_def hp_alloc_def)
  ultimately show ?thesis using a l by blast
qed

text \<open>
  C35: the memory of an A2A adapter. Create an adapter, set handlers, register and unregister
  agents, make any calls on its tasks and its card with any pattern of allocation failures, and destroy it: no call reads or frees
  a block that is gone, the tasks and the card in memory have at every point the values of the
  model, and after the destruction every block of the heap is as it was before the creation.
\<close>

theorem a2a_memory_exact:
  fixes w :: 'w
  assumes "heap_ok h" "mem E 0" "\<forall>q \<in> set qs. text_given (live h) h str (call_text q)"
  shows "\<exists>p ad h1 ad' c w' h2 A K h3. heap_create E timeout h = (0, Some (p, ad :: 'w heap_adapter), h1) \<and>
    heap_calls qs (ad, zero_card_cell, w, h1) = Some (ad', c, w', h2) \<and>
    value_calls str qs (the (snd (a2a_v03_create E timeout)), zero_card, w) = (A, K, w') \<and>
    map (read_task h2) (ha_tasks ad') = map Some (aa_tasks A) \<and> read_card h2 c = Some K \<and>
    heap_context_destroy E (Some (p, ad')) c h2 = Some (zero_card_cell, h3) \<and> hp_block h3 = hp_block h"
proof -
  from create_own [OF assms(1,2)] obtain p ad h1 and a :: "'w a2a_adapter" where
    o: "heap_create E timeout h = (0, Some (p, ad), h1)" "a2a_v03_create E timeout = (0, Some a)"
      "state_own (insert (fst p) (live h)) h1 ad zero_card_cell a zero_card" "same_on (live h) h h1" "fst p \<notin> live h" "snd p = 0"
    by blast
  let ?F = "insert (fst p) (live h)"
  have "text_given ?F h1 str (call_text q)" if "q \<in> set qs" for q
    using assms(3) that read_text_same [OF o(4)] by (auto simp: text_given_def simp del: blocks.simps)
  then obtain ad' c w' h2 A K where
    r: "heap_calls qs (ad, zero_card_cell, w, h1) = Some (ad', c, w', h2)" "value_calls str qs (a, zero_card, w) = (A, K, w')"
      "state_own ?F h2 ad' c A K" "same_on ?F h1 h2" using calls_own [OF o(3), of qs str w] by blast
  from ctx_clear_heap [OF r(3), of E] obtain ad2 h3 where
    c: "heap_ctx_clear E (Some ad') c h2 = Some (Some ad2, zero_card_cell, h3)" "live h3 = ?F" "same_on ?F h2 h3" by blast
  have s: "same_on (live h) h h3"
    by (rule same_on_trans [OF o(4)], rule same_on_mono [OF same_on_trans [OF r(4) c(3)]]) blast
  have "fst p \<in> live h3" using c(2) by blast
  then have f: "hp_free (Some p) h3 = Some (drop_blocks {fst p} h3)" using o(6) by (cases p) auto
  have "hp_block (drop_blocks {fst p} h3) b = hp_block h b" for b
    using s o(5) c(2) by (cases "b \<in> live h") (auto simp: same_on_def)
  moreover have "heap_context_destroy E (Some (p, ad')) c h2 = Some (zero_card_cell, drop_blocks {fst p} h3)"
    using c(1) f by (simp add: heap_context_destroy_def del: heap_ctx_clear.simps)
  moreover have "map (read_task h2) (ha_tasks ad') = map Some (aa_tasks A)" "read_card h2 c = Some K"
    using r(3) by (auto simp: state_own_def adapter_own_def tasks_own_def card_own_def)
  ultimately show ?thesis using r(1,2) o(1,2) by fastforce
qed

theorem a2a_memory_exact_witness:
  "\<exists>p ad h1 ad' c h2 h3. heap_create env0 0 heap0 = (0, Some (p, ad :: unit heap_adapter), h1) \<and>
    heap_calls [Create env0 (Some ''a'') (Some ''b'') None, Update env0 (Some ''t'') A2A_TASK_WORKING (Some (0, 0)) 1]
      (ad, zero_card_cell, (), h1) = Some (ad', c, (), h2) \<and>
    heap_context_destroy env0 (Some (p, ad')) c h2 = Some (zero_card_cell, h3) \<and> hp_block h3 = hp_block (heap0 :: a2a_heap)"
proof -
  let ?qs = "[Create env0 (Some ''a'') (Some ''b'') None, Update env0 (Some ''t'') A2A_TASK_WORKING (Some (0, 0)) 1]"
  let ?s = "\<lambda>p. if p = None then None else Some ''done''"
  have "\<forall>q \<in> set ?qs. text_given (live heap0) heap0 ?s (call_text q)" by (simp add: text_given_def read_text_def [of _ None])
  from a2a_memory_exact [OF heap0_ok(1) env0_sel(2) this, of 0 "()"] show ?thesis
    by (auto simp del: heap_calls.simps value_calls.simps)
qed

end
