(* ===== verification/A2a_Release.thy ===== *)
theory A2a_Release
  imports A2a_Heap
begin

text \<open>
  The A2A router's temporary results in memory: the cards of a discovery and the messages of a
  reply, made by \<open>a2a_v03_discover_agents\<close> and \<open>a2a_v03_send_message\<close> and given back by
  \<open>a2a_cards_free\<close> and \<open>a2a_msgs_free\<close>; and what goes wrong when an owner is ignored.
\<close>

section \<open>Discovery\<close>

fun fill_cards ::
  "env \<Rightarrow> cstring option \<Rightarrow> nat \<Rightarrow> a2a_internal_card list \<Rightarrow> a2a_heap \<Rightarrow> (pointer list \<times> a2a_heap) option" where
  "fill_cards E capability room [] h = Some ([], h)"
| "fill_cards E capability room (c # cs) h =
    (if room = 0 then Some ([], h)
     else if \<not> agent_matches capability c then fill_cards E capability room cs h
     else case hp_alloc (mem E 0) (Structs [CardS zero_card_cell]) h of
         (None, h1) \<Rightarrow> fill_cards (later 1 E) capability room cs h1
       | (Some a, h1) \<Rightarrow> (case copy_card_cell (later 1 E) c zero_card_cell h1 of (d, h2) \<Rightarrow> do {
           h3 \<leftarrow> put_struct a (CardS d) h2;
           (ps, h4) \<leftarrow> fill_cards (later 5 E) capability (room - 1) cs h3;
           Some (Some a # ps, h4) }))"

fun heap_discover_agents ::
  "env \<Rightarrow> 'w a2a_adapter option \<Rightarrow> cstring option \<Rightarrow> cstring option \<Rightarrow> bool \<Rightarrow> a2a_heap \<Rightarrow>
   (int \<times> (pointer \<times> nat) option \<times> a2a_heap) option" where
  "heap_discover_agents E (Some a) capability skill_name True h =
    (if \<not> aa_initialized a then Some (err E AIRY_ERR_STATE_ERROR, None, h)
     else
       (let agents = take (aa_agent_count a) (aa_agents a);
            matched = discover_count capability agents 0
        in if 0 < matched
           then (case hp_alloc (mem E 0) (Pointers (replicate matched None)) h of
               (None, h1) \<Rightarrow> Some (err E AIRY_ERR_OUT_OF_MEMORY, Some (None, 0), h1)
             | (Some q, h1) \<Rightarrow> do {
                 (ps, h2) \<leftarrow> fill_cards (later 1 E) capability matched agents h1;
                 Some (0, Some (Some q, matched), hp_write (fst q) (Pointers (ps @ replicate (matched - length ps) None)) h2) })
           else Some (0, Some (None, matched), h)))"
| "heap_discover_agents E ctx capability skill_name outs h = Some (err E AIRY_ERR_UNKNOWN, None, h)"

text \<open>The cards behind a list of pointers, and the blocks they own.\<close>

definition card_at :: "addr \<Rightarrow> a2a_heap \<Rightarrow> card_cell option" where
  "card_at a h = (case struct_at a h of Some (CardS c) \<Rightarrow> Some c | _ \<Rightarrow> None)"

definition card_foot :: "a2a_heap \<Rightarrow> pointer \<Rightarrow> nat list" where
  "card_foot h p = (case p of None \<Rightarrow> [] | Some a \<Rightarrow>
     (case card_at a h of None \<Rightarrow> [] | Some c \<Rightarrow> blocks (card_fields c) @ [fst a]))"

definition card_rep :: "a2a_heap \<Rightarrow> pointer \<Rightarrow> a2a_agent_card option \<Rightarrow> bool" where
  "card_rep h p K = (case p of None \<Rightarrow> K = None
     | Some a \<Rightarrow> snd a = 0 \<and> (\<exists>c k. card_at a h = Some c \<and> card_own h c k \<and> K = Some k))"

definition cards_foot :: "a2a_heap \<Rightarrow> pointer list \<Rightarrow> nat list" where
  "cards_foot h ps = concat (map (card_foot h) ps)"

definition cards_own :: "nat set \<Rightarrow> a2a_heap \<Rightarrow> pointer list \<Rightarrow> a2a_agent_card option list \<Rightarrow> bool" where
  "cards_own F h ps Ks \<longleftrightarrow> heap_ok h \<and> list_all2 (card_rep h) ps Ks \<and> distinct (cards_foot h ps) \<and>
     F \<inter> set (cards_foot h ps) = {} \<and> live h = F \<union> set (cards_foot h ps)"

lemma cards_foot_simps [simp]:
  "cards_foot h [] = []" "cards_foot h (p # ps) = card_foot h p @ cards_foot h ps" "card_foot h None = []"
  by (simp_all add: cards_foot_def card_foot_def)

lemma card_rep_None [simp]: "card_rep h None K \<longleftrightarrow> K = None"
  by (simp add: card_rep_def)

lemma card_at_live: "card_at a h = Some c \<Longrightarrow> fst a \<in> live h"
  by (auto simp: card_at_def struct_at_def split: option.splits block.splits)

lemma card_rep_same:
  assumes "card_rep h p K" "same_on S h h'" "set (card_foot h p) \<subseteq> S"
  shows "card_rep h' p K \<and> card_foot h' p = card_foot h p"
proof (cases p)
  case (Some a)
  with assms(1) obtain c k where c: "snd a = 0" "card_at a h = Some c" "card_own h c k" "K = Some k" by (auto simp: card_rep_def)
  then have f: "card_blocks c \<subseteq> S" "fst a \<in> S" using assms(3) Some by (auto simp: card_foot_def)
  have "card_at a h' = Some c" using assms(2) c(2) f(2) by (simp add: card_at_def struct_at_def same_on_def)
  with c card_own_same [OF c(3) assms(2) f(1)] Some show ?thesis by (auto simp: card_rep_def card_foot_def)
qed (use assms(1) in simp)

lemma cards_rep_same:
  assumes "list_all2 (card_rep h) ps Ks" "same_on S h h'" "set (cards_foot h ps) \<subseteq> S"
  shows "list_all2 (card_rep h') ps Ks \<and> cards_foot h' ps = cards_foot h ps"
  using assms(1,3)
proof (induction rule: list_all2_induct)
  case (Cons p ps K Ks)
  then show ?case using card_rep_same [OF _ assms(2), of p K] by simp
qed simp

lemma card_destroy_exact:
  assumes "card_rep h (Some a) K" "distinct (card_foot h (Some a))"
  shows "do { h1 \<leftarrow> a2a_agent_card_destroy (Some a) h; hp_free (Some a) h1 } = Some (drop_blocks (set (card_foot h (Some a))) h)"
proof -
  from assms(1) obtain c k where c: "snd a = 0" "card_at a h = Some c" "card_own h c k" by (auto simp: card_rep_def)
  let ?h = "drop_blocks (card_blocks c) h"
  have "struct_at a h = Some (CardS c)" using c(2) by (auto simp: card_at_def split: option.splits a2a_struct.splits)
  then have r: "a2a_agent_card_destroy (Some a) h = Some ?h" using card_release_exact [OF c(3)] by simp
  have "fst a \<notin> card_blocks c" using assms(2) c(2) by (simp add: card_foot_def)
  then have "fst a \<in> live ?h" using card_at_live [OF c(2)] by auto
  then have "hp_free (Some a) ?h = Some (drop_blocks {fst a} ?h)" using c(1) by (cases a) auto
  with r c(2) show ?thesis by (simp add: card_foot_def)
qed

lemma cards_free_exact:
  "list_all2 (card_rep h) ps Ks \<Longrightarrow> distinct (cards_foot h ps) \<Longrightarrow>
   cards_free_loop ps h = Some (drop_blocks (set (cards_foot h ps)) h)"
proof (induction ps arbitrary: h Ks)
  case (Cons p ps)
  then obtain K Ks' where K: "Ks = K # Ks'" "card_rep h p K" "list_all2 (card_rep h) ps Ks'" by (auto simp: list_all2_Cons1)
  show ?case
  proof (cases p)
    case None
    with Cons.IH [OF K(3)] Cons.prems(2) show ?thesis by simp
  next
    case (Some a)
    let ?h = "drop_blocks (set (card_foot h p)) h"
    have s: "same_on (set (cards_foot h ps)) h ?h" using Cons.prems(2) by auto
    from cards_rep_same [OF K(3) s] have f: "list_all2 (card_rep ?h) ps Ks'" "cards_foot ?h ps = cards_foot h ps" by auto
    have "do { h1 \<leftarrow> a2a_agent_card_destroy (Some a) h; hp_free (Some a) h1 } = Some ?h"
      using card_destroy_exact [of h a K] K(2) Some Cons.prems(2) by simp
    moreover have "cards_free_loop ps ?h = Some (drop_blocks (set (cards_foot h ps)) ?h)"
      using Cons.IH [OF f(1)] f(2) Cons.prems(2) by simp
    ultimately show ?thesis using Some by (auto simp: bind_eq_Some_conv Un_commute simp del: a2a_agent_card_destroy.simps)
  qed
qed simp

lemma new_card_own:
  assumes ok: "heap_ok h" and a: "hp_alloc True (Structs [CardS zero_card_cell]) h = (Some a, h1)"
    and d: "copy_card_cell E ic zero_card_cell h1 = (d, h2)"
  shows "\<exists>h3. put_struct a (CardS d) h2 = Some h3 \<and> cards_own (live h) h3 [Some a] [Some (copy_card E ic)] \<and> same_on (live h) h h3"
proof -
  note ga = grows_alloc [OF ok a]
  note D = copy_card_own [OF grows_ok [OF ga] d]
  have g: "grows h (Some a # card_fields d) h2" using grows_trans [OF ga D(1)] by simp
  have a0: "a = (hp_next h, 0)" "hp_block h1 (hp_next h) = Some (Structs [CardS zero_card_cell])" using a by (auto simp: hp_alloc_def)
  have "hp_block h2 (hp_next h) = Some (Structs [CardS zero_card_cell])" using D(1) a0(2) by (metis domI grows_def same_on_def)
  then have p: "put_struct a (CardS d) h2 = Some (hp_write (hp_next h) (Structs [CardS d]) h2)" by (simp add: put_struct_def a0(1))
  let ?h3 = "hp_write (hp_next h) (Structs [CardS d]) h2"
  have na: "hp_next h \<notin> live h" "hp_next h \<notin> card_blocks d" "hp_next h \<in> live h2" using g by (auto simp: grows_def a0(1))
  have s: "same_on (- {hp_next h}) h2 ?h3" by (simp add: same_on_def hp_write_def)
  have l: "live ?h3 = live h2" using na(3) by (auto simp: hp_write_def)
  have "heap_ok h2" using g by (simp add: grows_def)
  then have ok3: "heap_ok ?h3" using live_below [OF _ na(3)] by (auto simp: heap_ok_def hp_write_def)
  have c: "card_at a ?h3 = Some d" by (simp add: card_at_def struct_at_def a0(1) hp_write_def)
  have "card_own ?h3 d (copy_card E ic)" using na(2) by (intro card_own_same [OF D(2) s]) auto
  then have rep: "card_rep ?h3 (Some a) (Some (copy_card E ic))" using c a0(1) by (simp add: card_rep_def)
  have f: "cards_foot ?h3 [Some a] = blocks (card_fields d) @ [hp_next h]" using c a0(1) by (simp add: card_foot_def)
  have "cards_own (live h) ?h3 [Some a] [Some (copy_card E ic)]"
    unfolding cards_own_def f l using g rep ok3 by (auto simp: grows_def a0(1))
  moreover have "same_on (live h) h ?h3"
    by (rule same_on_trans [OF _ same_on_mono [OF s]]) (use g na(1) in \<open>auto simp: grows_def\<close>)
  ultimately show ?thesis using p by blast
qed

lemma cards_own_Cons:
  assumes "cards_own F h1 [p] [K]" "cards_own (live h1) h2 ps Ks" "same_on (live h1) h1 h2"
  shows "cards_own F h2 (p # ps) (K # Ks)"
proof -
  have l: "live h1 = F \<union> set (card_foot h1 p)" "F \<inter> set (card_foot h1 p) = {}" "card_rep h1 p K" "distinct (card_foot h1 p)"
    using assms(1) by (simp_all add: cards_own_def)
  then have "card_rep h2 p K \<and> card_foot h2 p = card_foot h1 p" using card_rep_same [OF l(3) assms(3)] by simp
  with assms(2) l show ?thesis by (auto simp: cards_own_def)
qed

lemma fill_cards_own:
  "heap_ok h \<Longrightarrow> \<exists>ps h'. fill_cards E capability room cs h = Some (ps, h') \<and>
     cards_own (live h) h' ps (map Some (discover_fill E capability room cs)) \<and> same_on (live h) h h'"
proof (induction cs arbitrary: E room h)
  case (Cons c cs)
  show ?case
  proof (cases "room \<noteq> 0 \<and> agent_matches capability c \<and> mem E 0")
    case False
    with Cons.IH [OF Cons.prems] Cons.prems show ?thesis by (auto simp: cards_own_def hp_alloc_def)
  next
    case True
    obtain a h1 where a: "hp_alloc True (Structs [CardS zero_card_cell]) h = (Some a, h1)" by (simp add: hp_alloc_def)
    obtain d h2 where d: "copy_card_cell (later 1 E) c zero_card_cell h1 = (d, h2)" by (meson surj_pair)
    from new_card_own [OF Cons.prems a d] obtain h3 where
      h3: "put_struct a (CardS d) h2 = Some h3" "cards_own (live h) h3 [Some a] [Some (copy_card (later 1 E) c)]" "same_on (live h) h h3"
      by blast
    from Cons.IH [of h3 "later 5 E" "room - 1"] h3(2) obtain ps h4 where
      r: "fill_cards (later 5 E) capability (room - 1) cs h3 = Some (ps, h4)"
        "cards_own (live h3) h4 ps (map Some (discover_fill (later 5 E) capability (room - 1) cs))" "same_on (live h3) h3 h4"
      by (auto simp: cards_own_def)
    have "live h \<subseteq> live h3" using h3(2) by (auto simp: cards_own_def)
    then have "same_on (live h) h h4" using same_on_trans [OF h3(3) same_on_mono [OF r(3)]] by blast
    with True a d h3(1) r(1) cards_own_Cons [OF h3(2) r(2,3)] show ?thesis by simp
  qed
qed (auto simp: cards_own_def)

lemma fill_room: "length (discover_fill E capability room cs) \<le> room"
  by (induction cs arbitrary: E room) (auto simp: le_diff_conv, metis Suc_pred not_less_eq_eq)

lemma cards_foot_append [simp]: "cards_foot h (ps @ qs) = cards_foot h ps @ cards_foot h qs"
  by (simp add: cards_foot_def)

lemma cards_foot_None [simp]: "cards_foot h (replicate n None) = []"
  by (induction n) simp_all

text \<open>The filled array, given back.\<close>

lemma array_free:
  assumes g: "grows h [Some (b, 0)] h1" and o: "cards_own (live h1) h2 ps Ks" and s: "same_on (live h1) h1 h2"
    and n: "length ps \<le> m"
  defines "xs \<equiv> ps @ replicate (m - length ps) None"
  defines "h3 \<equiv> hp_write b (Pointers xs) h2"
  shows "list_all2 (card_rep h3) xs (Ks @ replicate (m - length ps) None)"
    "\<exists>h4. a2a_cards_free (Some (b, 0)) m h3 = Some h4 \<and> hp_block h4 = hp_block h \<and> heap_ok h4"
proof -
  let ?f = "set (cards_foot h2 ps)"
  have c: "live h2 = live h1 \<union> ?f" "live h1 \<inter> ?f = {}" "distinct (cards_foot h2 ps)" "list_all2 (card_rep h2) ps Ks"
    using o by (simp_all add: cards_own_def)
  have b: "b \<in> live h1" "b \<notin> live h" "live h1 = insert b (live h)" "same_on (live h) h h1" using g by (auto simp: grows_def)
  have "same_on (- {b}) h2 h3" by (simp add: h3_def same_on_def hp_write_def)
  from cards_rep_same [OF c(4) this] b(1) c(2) have r: "list_all2 (card_rep h3) ps Ks" "cards_foot h3 ps = cards_foot h2 ps" by auto
  moreover have "list_all2 (card_rep h3) (replicate k None) (replicate k None)" for k by (induction k) simp_all
  ultimately show x: "list_all2 (card_rep h3) xs (Ks @ replicate (m - length ps) None)"
    by (simp add: xs_def list_all2_appendI)
  have fx: "cards_foot h3 xs = cards_foot h2 ps" by (simp add: xs_def r(2))
  have f: "cards_free_loop xs h3 = Some (drop_blocks ?f h3)" using cards_free_exact [OF x] c(3) by (simp add: fx)
  have p: "pointers_at (b, 0) h3 = Some xs" by (simp add: pointers_at_def h3_def hp_write_def)
  have "b \<notin> ?f" using b(1) c(2) by blast
  then have "hp_block (drop_blocks ?f h3) b = Some (Pointers xs)" by (simp add: h3_def hp_write_def)
  from hp_free_ok(3) [OF this] have "hp_free (Some (b, 0)) (drop_blocks ?f h3) = Some (drop_blocks (insert b ?f) h3)" by simp
  then have "a2a_cards_free (Some (b, 0)) m h3 = Some (drop_blocks (insert b ?f) h3)" using p f n by (simp add: xs_def)
  moreover have "hp_block (drop_blocks (insert b ?f) h3) x = hp_block h x" for x
    using b c(1,2) s by (cases "x \<in> live h") (auto simp: h3_def hp_write_def same_on_def)
  moreover have "heap_ok h3" using o b(1) c(1) live_below [of h2 b] by (auto simp: cards_own_def h3_def heap_ok_def hp_write_def)
  ultimately show "\<exists>h4. a2a_cards_free (Some (b, 0)) m h3 = Some h4 \<and> hp_block h4 = hp_block h \<and> heap_ok h4" using heap_ok_drop by blast
qed

text \<open>Discovery, with the array and its cards given back.\<close>

lemma discover_free_ok:
  assumes "heap_ok h"
  shows "\<exists>rc out h1. heap_discover_agents E (Some a) capability skill True h = Some (rc, out, h1) \<and>
    rc = fst (a2a_v03_discover_agents E (Some a) capability skill True) \<and>
    (case out of None \<Rightarrow> hp_block h1 = hp_block h \<and> heap_ok h1
     | Some (p, n) \<Rightarrow> (\<exists>h2. a2a_cards_free p n h1 = Some h2 \<and> hp_block h2 = hp_block h \<and> heap_ok h2) \<and>
         (case p of None \<Rightarrow> n = 0 | Some q \<Rightarrow> \<exists>ps. pointers_at q h1 = Some ps \<and> length ps = n \<and>
            list_all2 (card_rep h1) ps (the (snd (a2a_v03_discover_agents E (Some a) capability skill True)))))"
proof -
  let ?as = "take (aa_agent_count a) (aa_agents a)"
  let ?m = "discover_count capability ?as 0"
  show ?thesis
  proof (cases "aa_initialized a \<and> 0 < ?m \<and> mem E 0")
    case False
    then show ?thesis using assms by (auto simp: hp_alloc_def)
  next
    case True
    obtain q h1 where q: "hp_alloc True (Pointers (replicate ?m None)) h = (Some q, h1)" by (simp add: hp_alloc_def)
    have g: "grows h [Some q] h1" by (rule grows_alloc [OF assms q])
    have q0: "q = (hp_next h, 0)" using q by (auto simp: hp_alloc_def)
    let ?fs = "discover_fill (later 1 E) capability ?m ?as"
    from fill_cards_own [OF grows_ok [OF g], of "later 1 E" capability ?m ?as] obtain ps h2 where
      r: "fill_cards (later 1 E) capability ?m ?as h1 = Some (ps, h2)" "cards_own (live h1) h2 ps (map Some ?fs)" "same_on (live h1) h1 h2"
      by blast
    have len: "length ps = length ?fs" using r(2) by (auto simp: cards_own_def dest: list_all2_lengthD)
    with fill_room [of "later 1 E" capability ?m ?as] have n: "length ps \<le> ?m" by simp
    note free = array_free [OF g [unfolded q0] r(2,3) n]
    let ?h3 = "hp_write (hp_next h) (Pointers (ps @ replicate (?m - length ps) None)) h2"
    have d: "heap_discover_agents E (Some a) capability skill True h = Some (0, Some (Some (hp_next h, 0), ?m), ?h3)"
      using True q r(1) q0 by simp
    have v: "a2a_v03_discover_agents E (Some a) capability skill True = (0, Some (map Some ?fs @ replicate (?m - length ?fs) None))"
      using True by simp
    have "pointers_at (hp_next h, 0) ?h3 = Some (ps @ replicate (?m - length ps) None)" by (simp add: pointers_at_def hp_write_def)
    with free n show ?thesis unfolding d v by (simp add: len)
  qed
qed

interpretation discovery: acquire_release
  "\<lambda>h. map_option snd (heap_discover_agents E (Some a) capability skill True h)" "\<lambda>(p, n). a2a_cards_free p n"
proof
  fix h :: a2a_heap
  assume "heap_ok h"
  from discover_free_ok [OF this, of E a capability skill] show
    "\<exists>r h1. map_option snd (heap_discover_agents E (Some a) capability skill True h) = Some (r, h1) \<and>
      (case r of None \<Rightarrow> same_blocks h h1 \<and> heap_ok h1
       | Some x \<Rightarrow> \<exists>h2. (case x of (p, n) \<Rightarrow> a2a_cards_free p n) h1 = Some h2 \<and> same_blocks h h2 \<and> heap_ok h2)"
    by (fastforce simp: same_blocks_def split: option.splits prod.splits simp del: heap_discover_agents.simps a2a_cards_free.simps)
qed

text \<open>
  Discovery in memory. The result is an array of pointers to cards with the values of the
  model, NULL where an allocation failed; giving it back with \<open>a2a_cards_free\<close> and the count that
  was returned frees the cards, their strings and the array, exactly once, whatever allocations
  failed, and leaves the heap as it was.
\<close>

theorem discover_free_exact:
  assumes "heap_ok h"
  shows "\<exists>rc out h1. heap_discover_agents E (Some a) capability skill True h = Some (rc, out, h1) \<and>
    rc = fst (a2a_v03_discover_agents E (Some a) capability skill True) \<and>
    (case out of None \<Rightarrow> hp_block h1 = hp_block h
     | Some (p, n) \<Rightarrow> (\<exists>h2. a2a_cards_free p n h1 = Some h2 \<and> hp_block h2 = hp_block h) \<and>
         (case p of None \<Rightarrow> n = 0 | Some q \<Rightarrow> \<exists>ps. pointers_at q h1 = Some ps \<and> length ps = n \<and>
            list_all2 (card_rep h1) ps (the (snd (a2a_v03_discover_agents E (Some a) capability skill True)))))"
  using discover_free_ok [OF assms, of E a capability skill]
  by (fastforce split: option.splits simp del: heap_discover_agents.simps a2a_cards_free.simps a2a_v03_discover_agents.simps)

theorem discover_free_exact_witness:
  "let a = fresh_a2a\<lparr>aa_agents := [zero_internal\<lparr>ic_id := ''x'', ic_available := True\<rparr>], aa_agent_count := 1\<rparr> in
   \<exists>p h1 h2. heap_discover_agents env0 (Some a) None None True heap0 = Some (0, Some (p, 1), h1) \<and>
     a2a_cards_free p 1 h1 = Some h2 \<and> hp_block h2 = hp_block heap0"
proof -
  let ?a = "fresh_a2a\<lparr>aa_agents := [zero_internal\<lparr>ic_id := ''x'', ic_available := True\<rparr>], aa_agent_count := 1\<rparr>"
  obtain rc out h1 where
    r: "heap_discover_agents env0 (Some ?a) None None True heap0 = Some (rc, out, h1)"
      "case out of None \<Rightarrow> hp_block h1 = hp_block heap0
     | Some (p, n) \<Rightarrow> (\<exists>h2. a2a_cards_free p n h1 = Some h2 \<and> hp_block h2 = hp_block heap0) \<and>
         (case p of None \<Rightarrow> n = 0 | Some q \<Rightarrow> \<exists>ps. pointers_at q h1 = Some ps \<and> length ps = n \<and>
            list_all2 (card_rep h1) ps (the (snd (a2a_v03_discover_agents env0 (Some ?a) None None True))))"
    using discover_free_exact [OF heap0_ok(1), of env0 ?a None None] by blast
  moreover have "\<exists>p. rc = 0 \<and> out = Some (p, 1)"
    using r(1) fresh_a2a(2) by (auto simp: agent_matches_def hp_alloc_def copy_card_cell_def dup_text_def bind_eq_Some_conv)
  ultimately show ?thesis by (auto simp del: heap_discover_agents.simps a2a_cards_free.simps)
qed

section \<open>Messages\<close>

text \<open>
  A reply is one block with an array of messages. Without a handler the adapter makes one
  message; a handler makes its own array of \<open>n\<close>.
\<close>

definition zero_message_cell :: message_cell where
  "zero_message_cell = \<lparr>me_role = None, me_type = A2A_MSG_TEXT, me_content_json = None, me_mime_type = None,
     me_file_name = None, me_file_data = None, me_file_data_size = 0\<rparr>"

definition heap_ack :: "env \<Rightarrow> a2a_heap \<Rightarrow> (pointer \<times> nat) option \<times> a2a_heap" where
  "heap_ack E h = (case hp_alloc (mem E 0) (Structs [MessageS zero_message_cell]) h of
     (None, h1) \<Rightarrow> (None, h1)
   | (Some a, h1) \<Rightarrow>
      (case dup_text (mem E 1) (Some ''assistant'') h1 of (r, h2) \<Rightarrow>
       case dup_text (mem E 2) (Some ''{\"status\":\"received\",\"ack\":true}'') h2 of (c, h3) \<Rightarrow>
       case dup_text (mem E 3) (Some ''application/json'') h3 of (m, h4) \<Rightarrow>
         (Some (Some a, 1), hp_write (fst a) (Structs [MessageS (zero_message_cell\<lparr>me_role := r,
            me_type := A2A_MSG_STRUCTURED, me_content_json := c, me_mime_type := m\<rparr>)]) h4)))"

text \<open>The messages of a block, each with strings of its own.\<close>

definition msgs_own :: "nat set \<Rightarrow> a2a_heap \<Rightarrow> nat \<Rightarrow> message_cell list \<Rightarrow> bool" where
  "msgs_own F h b ms \<longleftrightarrow> hp_block h b = Some (Structs (map MessageS ms)) \<and> ms \<noteq> [] \<and>
     (let fs = concat (map message_fields ms) in bases fs \<and> distinct (b # blocks fs) \<and>
        F \<inter> set (b # blocks fs) = {} \<and> live h = F \<union> set (b # blocks fs))"

lemma msgs_free_iff:
  assumes "msgs_own F h b ms"
  shows "a2a_msgs_free (Some (b, 0)) (length ms) h =
    (if length ms = 1 then Some (drop_blocks (live h - F) h) else None)"
proof -
  from assms obtain m ns where ms: "ms = m # ns" by (cases ms) (auto simp: msgs_own_def)
  have o: "hp_block h b = Some (Structs (map MessageS ms))" "bases (message_fields m)" "distinct (b # blocks (message_fields m))"
    "set (b # blocks (message_fields m)) \<subseteq> live h" "F \<inter> set (b # blocks (concat (map message_fields ms))) = {}"
    "live h = F \<union> set (b # blocks (concat (map message_fields ms)))"
    using assms by (auto simp: msgs_own_def ms)
  let ?S = "insert b (set (blocks (message_fields m)))"
  have "struct_at (b, 0) h = Some (MessageS m)" using o(1) by (simp add: struct_at_def ms)
  moreover have "free_all (message_fields m @ [Some (b, 0)]) h = Some (drop_blocks ?S h)" using o(2-4) by (simp add: free_all_iff)
  ultimately have d: "a2a_message_destroy (Some (b, 0)) h = Some (drop_blocks ?S h)" by simp
  show ?thesis
  proof (cases ns)
    case Nil
    then have "live h - F = ?S" using o(5,6) by (auto simp: ms)
    with d show ?thesis by (simp add: ms Nil del: a2a_message_destroy.simps)
  next
    case (Cons n ns')
    have "struct_at (b, 1) (drop_blocks ?S h) = None" by (simp add: struct_at_def)
    with d show ?thesis by (simp add: ms Cons)
  qed
qed

text \<open>
  C37: giving back a reply. \<open>a2a_msgs_free\<close> frees a reply of one message exactly. For a reply of
  more messages it runs into undefined behaviour: destroying the first message frees the whole
  array, and the second is read after that.
\<close>

theorem msgs_free_one_only:
  assumes "msgs_own F h b ms"
  shows "a2a_msgs_free (Some (b, 0)) (length ms) h =
    (if length ms = 1 then Some (drop_blocks (live h - F) h) else None)"
  using assms by (rule msgs_free_iff)

theorem msgs_free_one_only_witness:
  "\<exists>h. a2a_msgs_free (Some (0, 0)) 2 h = None \<and> live h = {0, 1}"
proof -
  let ?m = "zero_message_cell\<lparr>me_role := Some (1, 0)\<rparr>"
  let ?h = "\<lparr>hp_block = [0 \<mapsto> Structs [MessageS ?m, MessageS zero_message_cell], 1 \<mapsto> Text ''user''], hp_next = 2\<rparr>"
  have "msgs_own {} ?h 0 [?m, zero_message_cell]" by (auto simp: msgs_own_def message_fields_def zero_message_cell_def)
  from msgs_free_one_only [OF this] have "a2a_msgs_free (Some (0, 0)) 2 ?h = None" by (simp add: numeral_2_eq_2 del: a2a_msgs_free.simps)
  moreover have "live ?h = {0, 1}" by auto
  ultimately show ?thesis by blast
qed

text \<open>The reply the adapter makes itself has one message, so the router gives it back exactly.\<close>

lemma ack_free:
  assumes "heap_ok h"
  shows "case heap_ack E h of (None, h1) \<Rightarrow> hp_block h1 = hp_block h \<and> heap_ok h1
    | (Some (p, n), h1) \<Rightarrow> \<exists>h2. a2a_msgs_free p n h1 = Some h2 \<and> hp_block h2 = hp_block h \<and> heap_ok h2"
proof (cases "mem E 0")
  case False
  then show ?thesis using assms by (simp add: heap_ack_def hp_alloc_def)
next
  case True
  obtain a h1 where a: "hp_alloc True (Structs [MessageS zero_message_cell]) h = (Some a, h1)" by (simp add: hp_alloc_def)
  have a0: "a = (hp_next h, 0)" using a by (auto simp: hp_alloc_def)
  obtain r h2 where r: "dup_text (mem E 1) (Some ''assistant'') h1 = (r, h2)" by (meson surj_pair)
  obtain c h3 where c: "dup_text (mem E 2) (Some ''{\"status\":\"received\",\"ack\":true}'') h2 = (c, h3)" by (meson surj_pair)
  obtain m h4 where m: "dup_text (mem E 3) (Some ''application/json'') h3 = (m, h4)" by (meson surj_pair)
  note ga = grows_alloc [OF assms a]
  note gr = grows_dup(1) [OF grows_ok [OF ga] r]
  note gc = grows_dup(1) [OF grows_ok [OF gr] c]
  note gm = grows_dup(1) [OF grows_ok [OF gc] m]
  have g: "grows h [Some (hp_next h, 0), r, c, m] h4"
    using grows_trans [OF grows_trans [OF ga gr] grows_trans [OF gc gm]] by (simp add: a0)
  let ?m = "zero_message_cell\<lparr>me_role := r, me_type := A2A_MSG_STRUCTURED, me_content_json := c, me_mime_type := m\<rparr>"
  let ?h = "hp_write (hp_next h) (Structs [MessageS ?m]) h4"
  have ack: "heap_ack E h = (Some (Some (hp_next h, 0), 1), ?h)" using True a r c m by (simp add: heap_ack_def a0)
  have f: "blocks (message_fields ?m) = blocks [r, c, m]" "bases (message_fields ?m) = bases [r, c, m]"
    by (auto simp: message_fields_def zero_message_cell_def bases_def split: option.splits)
  have g': "heap_ok h4" "same_on (live h) h h4" "live h4 = live h \<union> set (hp_next h # blocks [r, c, m])"
    "set (hp_next h # blocks [r, c, m]) \<inter> live h = {}" "distinct (hp_next h # blocks [r, c, m])" "bases [r, c, m]"
    using g by (simp_all add: grows_def)
  have l: "live ?h = live h \<union> set (hp_next h # blocks [r, c, m])" using g'(3) by (auto simp: hp_write_def simp del: blocks.simps)
  have "msgs_own (live h) ?h (hp_next h) [?m]"
    unfolding msgs_own_def l using g'(4-6) f by (auto simp: hp_write_def simp del: blocks.simps)
  from msgs_free_iff [OF this] have "a2a_msgs_free (Some (hp_next h, 0)) 1 ?h = Some (drop_blocks (live ?h - live h) ?h)"
    by (simp del: a2a_msgs_free.simps)
  moreover have "hp_block (drop_blocks (live ?h - live h) ?h) b = hp_block h b" for b
    using g'(2,4) by (cases "b \<in> live h") (auto simp: hp_write_def same_on_def)
  moreover have "heap_ok ?h" using g'(1,3) live_below [of h4 "hp_next h"] by (simp add: heap_ok_def hp_write_def)
  ultimately show ?thesis unfolding ack by (auto simp del: a2a_msgs_free.simps)
qed

interpretation ack: acquire_release "\<lambda>h. Some (heap_ack E h)" "\<lambda>(p, n). a2a_msgs_free p n"
proof
  fix h :: a2a_heap
  assume "heap_ok h"
  from ack_free [OF this, of E] show "\<exists>r h1. Some (heap_ack E h) = Some (r, h1) \<and>
      (case r of None \<Rightarrow> same_blocks h h1 \<and> heap_ok h1
       | Some x \<Rightarrow> \<exists>h2. (case x of (p, n) \<Rightarrow> a2a_msgs_free p n) h1 = Some h2 \<and> same_blocks h h2 \<and> heap_ok h2)"
    by (cases "heap_ack E h") (auto simp: same_blocks_def split: option.splits simp del: a2a_msgs_free.simps)
qed

text \<open>Any number of replies and of discoveries, each given back, leaves no block behind.\<close>

lemma replies_given_back:
  assumes "heap_ok h"
  shows "\<exists>h1 h2. acquire_release.again (\<lambda>h. Some (heap_ack E h)) (\<lambda>(p, n). a2a_msgs_free p n) i h = Some h1 \<and>
     acquire_release.again (\<lambda>h. map_option snd (heap_discover_agents E (Some a) capability skill True h))
       (\<lambda>(p, n). a2a_cards_free p n) j h1 = Some h2 \<and> same_blocks h h2"
proof -
  from ack.again_exact [OF assms, of E i] obtain h1 where
    r: "acquire_release.again (\<lambda>h. Some (heap_ack E h)) (\<lambda>(p, n). a2a_msgs_free p n) i h = Some h1" "same_blocks h h1" "heap_ok h1"
    by blast
  from discovery.again_exact [OF r(3), of E a capability skill j] r(1,2) show ?thesis by (auto simp: same_blocks_def)
qed

section \<open>The adapter owns its tasks\<close>

lemma free_all_live: "free_all ps h = Some h' \<Longrightarrow> live h' \<subseteq> live h"
  by (auto simp: free_all_iff)

lemma task_destroy_dead: "fst t \<notin> live h \<Longrightarrow> a2a_task_destroy (Some t) h = None"
  using task_at_live [of t h] by (cases "task_at t h") auto

lemma tasks_destroy_dead: "t \<in> set ts \<Longrightarrow> fst t \<notin> live h \<Longrightarrow> tasks_destroy ts h = None"
proof (induction ts arbitrary: h)
  case (Cons u us)
  show ?case
  proof (cases "t = u")
    case True
    with Cons.prems(2) show ?thesis using task_destroy_dead by simp
  next
    case False
    have "fst t \<notin> live h'" if "a2a_task_destroy (Some u) h = Some h'" for h'
      using that Cons.prems(2) by (auto simp: bind_eq_Some_conv dest!: free_all_live)
    with False Cons show ?thesis
      by (cases "a2a_task_destroy (Some u) h") (auto simp del: a2a_task_destroy.simps)
  qed
qed simp

lemma free_nulls: "set ps \<subseteq> {None} \<Longrightarrow> free_all ps h = Some h"
  by (induction ps) auto

text \<open>
  C36: a task belongs to its adapter until the adapter is cleared. Destroying a task that
  \<open>a2a_v03_create_task\<close> or \<open>a2a_v03_get_task\<close> has handed out succeeds, but the adapter keeps its
  address, and destroying the context afterwards is undefined behaviour: the task is read
  and freed again.
\<close>

theorem task_owned_by_adapter:
  assumes "state_own F h ad c A K" "t \<in> set (ha_tasks ad)"
  shows "\<exists>h1. a2a_task_destroy (Some t) h = Some h1 \<and> heap_context_destroy E (Some (p, ad)) c h1 = None"
proof -
  have T: "tasks_own (F \<union> card_blocks c) h (ha_tasks ad) (aa_tasks A)" and j: "set (ha_agent_json ad) \<subseteq> {None}"
    using assms(1) by (simp_all add: state_own_def adapter_own_def)
  from assms(2) obtain us vs where ts: "ha_tasks ad = us @ t # vs" by (meson split_list)
  have "read_task h t \<in> set (map (read_task h) (ha_tasks ad))" using assms(2) by simp
  moreover have "map (read_task h) (ha_tasks ad) = map Some (aa_tasks A)" using T by (simp add: tasks_own_def)
  ultimately obtain Tk where Tk: "read_task h t = Some Tk" by (metis (no_types, lifting) imageE list.set_map)
  moreover have "distinct (own h t)" "snd t = 0" using T by (auto simp: tasks_own_def ts)
  ultimately have d: "a2a_task_destroy (Some t) h = Some (drop_blocks (set (own h t)) h)" using task_destroy_exact [OF Tk] by blast
  have "fst t \<in> set (own h t)" using read_task_at [OF Tk] by auto
  then have "fst t \<notin> live (drop_blocks (set (own h t)) h)" by simp
  note dead = tasks_destroy_dead [OF assms(2) this]
  have "set (take (aa_agent_count (ha_shell ad)) (ha_agent_json ad)) \<subseteq> {None}"
    using j set_take_subset [of "aa_agent_count (ha_shell ad)" "ha_agent_json ad"] by blast
  from free_nulls [OF this, of "drop_blocks (set (own h t)) h"] dead have "heap_ctx_clear E (Some ad) c (drop_blocks (set (own h t)) h) = None" by simp
  with d show ?thesis by (simp add: heap_context_destroy_def del: heap_ctx_clear.simps a2a_task_destroy.simps)
qed

text \<open>The usage example of the adapter's README: create, use and destroy a task, then destroy the context.\<close>

theorem task_owned_by_adapter_witness:
  "\<exists>p ad h1 t ad' h2 h3. heap_create env0 0 heap0 = (0, Some (p, ad :: unit heap_adapter), h1) \<and>
    heap_create_task env0 (Some ad) (Some ''agent-b'') (Some ''summarize report'') (Some ''{}'') True () h1 =
      Some (0, Some t, Some ad', (), h2) \<and>
    a2a_task_destroy (Some t) h2 = Some h3 \<and> heap_context_destroy env0 (Some (p, ad')) zero_card_cell h3 = None"
proof -
  from create_own [where 'w = unit, OF heap0_ok(1) env0_sel(2), of 0] obtain p ad h1 and a :: "unit a2a_adapter" where
    o: "heap_create env0 0 heap0 = (0, Some (p, ad), h1)" "aa_initialized a" "aa_tasks a = []" "aa_task_handler a = None"
      "state_own (insert (fst p) (live (heap0 :: a2a_heap))) h1 ad zero_card_cell a zero_card" by blast
  let ?F = "insert (fst p) (live (heap0 :: a2a_heap))"
  have "adapter_own (?F \<union> card_blocks zero_card_cell) h1 ad a" using o(5) by (simp add: state_own_def)
  from create_task_heap [OF this, of env0 "Some ''agent-b''" "Some ''summarize report''" "Some ''{}''" True "()"]
  obtain rc q ad' h2 r A' where
    c: "heap_create_task env0 (Some ad) (Some ''agent-b'') (Some ''summarize report'') (Some ''{}'') True () h1 = Some (rc, q, Some ad', (), h2)"
      "a2a_v03_create_task env0 (Some a) (Some ''agent-b'') (Some ''summarize report'') (Some ''{}'') True () = (rc, r, Some A', ())"
      "adapter_own (?F \<union> card_blocks zero_card_cell) h2 ad' A'" "same_on (?F \<union> card_blocks zero_card_cell) h1 h2"
      "case q of None \<Rightarrow> r = None | Some q \<Rightarrow> read_task h2 q = r \<and> q \<in> set (ha_tasks ad')"
    by (auto simp del: heap_create_task.simps a2a_v03_create_task.simps)
  have "rc = 0 \<and> r \<noteq> None" using c(2) o(2-4) by (auto split: prod.splits)
  then obtain t where t: "rc = 0" "q = Some t" "t \<in> set (ha_tasks ad')" using c(5) by (cases q) auto
  have "state_own ?F h2 ad' zero_card_cell A' zero_card" using state_own_ad [OF o(5) c(3,4)] by simp
  from task_owned_by_adapter [OF this t(3), of env0 p] c(1) o(1) t(1,2) show ?thesis by blast
qed

text \<open>
  Handing an update the task's own output text is undefined behaviour too: the text is freed
  before it is copied.
\<close>

lemma update_with_own_output:
  assumes o: "adapter_own F h ad A" and i: "aa_initialized A" "find_task A i = Some k"
    and p: "task_at (ha_tasks ad ! k) h = Some c" "tc_output_json c = Some p"
  shows "heap_update_task E (Some ad) (Some i) st (Some p) x h = None"
proof -
  note k = found_own [OF o i(2)]
  have "read_text h (Some p) = Some (tk_output_json (aa_tasks A ! k))" using k(2) p by (auto simp: read_task_iff)
  then have "set (blocks [Some p]) \<subseteq> live h" "bases [Some p]" using read_text_live by blast+
  then have "hp_free (Some p) h = Some (drop_blocks {fst p} h)" by (cases p) auto
  moreover have "text_at p (drop_blocks {fst p} h) = None" by (simp add: text_at_def)
  ultimately show ?thesis using i p search_own [OF o] adapter_own_shell(1) [OF o] by (simp add: replace_text_def)
qed

section \<open>Negotiations and agent lists\<close>

lemma negotiation_destroy_exact:
  assumes "struct_at (b, 0) h = Some (NegotiationS c)" "bases (negotiation_fields c)"
    "distinct (b # blocks (negotiation_fields c))" "set (blocks (negotiation_fields c)) \<subseteq> live h"
  shows "a2a_negotiation_destroy (Some (b, 0)) h = Some (drop_blocks (set (b # blocks (negotiation_fields c))) h)"
proof -
  have "b \<in> live h" using assms(1) by (auto simp: struct_at_def split: option.splits)
  with assms show ?thesis by (simp add: free_all_iff)
qed

text \<open>
  Freeing a list of agents twice is harmless, since the first time leaves it empty; but strings
  other than the four are lost.
\<close>

lemma agent_list_twice:
  "a2a_free_agent_list l h = Some (l', h') \<Longrightarrow> a2a_free_agent_list l' h' = Some (l', h')"
  by (cases l) (auto simp: bind_eq_Some_conv)

lemma agent_list_leaks:
  assumes "a2a_free_agent_list (Some (cs, n)) h = Some (l, h')" "b \<in> live h"
    "\<And>c. c \<in> set cs \<Longrightarrow> b \<notin> set (blocks [cc_id c, cc_name c, cc_url c, cc_capabilities_json c])"
  shows "b \<in> live h'"
proof -
  have "b \<in> live g'" if "agent_list_loop ds g = Some g'" "b \<in> live g" "set ds \<subseteq> set cs" for ds g g'
    using that
  proof (induction ds arbitrary: g)
    case (Cons d ds)
    then obtain g1 where g: "free_all [cc_id d, cc_name d, cc_url d, cc_capabilities_json d] g = Some g1" "agent_list_loop ds g1 = Some g'"
      by (auto simp: bind_eq_Some_conv simp del: free_all.simps)
    then have "b \<in> live g1" using assms(3) [of d] Cons.prems by (auto simp: free_all_iff simp del: free_all.simps blocks.simps)
    with Cons g show ?case by simp
  qed simp
  with assms show ?thesis using set_take_subset by (fastforce simp: bind_eq_Some_conv)
qed

end
