(* ===== verification/Mcp_Heap.thy ===== *)
theory Mcp_Heap
  imports Mcp_Adapter Mcp_Frame C_Heap
begin

text \<open>
  The MCP adapter and client in memory: the four tables of a context with the strings of their
  entries (\<open>mcp_v1_adapter.c\<close>), the results of sampling and completion, and the argument vector
  of the client (\<open>mcp_client_stdio.c\<close>).

  A structure is the list of the pointers it owns, in the order of its fields: name, description
  and schema of a tool or prompt; URI, name, description and type of a resource or template;
  text, type, URI and data of a content. Plain fields and handlers are in \<open>Mcp_Adapter\<close>.
\<close>

section \<open>Tables\<close>

type_synonym mcp_heap = "pointer list heap"

record table =
  tb_array :: pointer
  tb_count :: nat
  tb_capacity :: nat

record context_cell =
  xc_tools :: table
  xc_resources :: table
  xc_templates :: table
  xc_prompts :: table
  xc_server_name :: pointer
  xc_server_version :: pointer
  xc_max_tools :: nat
  xc_max_resources :: nat

definition no_table :: table where
  "no_table = \<lparr>tb_array = None, tb_count = 0, tb_capacity = 0\<rparr>"

definition entries_at :: "pointer \<Rightarrow> mcp_heap \<Rightarrow> pointer list list option" where
  "entries_at p h = (case p of None \<Rightarrow> Some []
     | Some a \<Rightarrow> (case hp_block h (fst a) of Some (Structs es) \<Rightarrow> if snd a = 0 then Some es else None | _ \<Rightarrow> None))"

text \<open>The copies of an entry's strings, as the allocations \<open>i\<close>, \<open>i + 1\<close>, ... of the call.\<close>

fun dup_all :: "env \<Rightarrow> nat \<Rightarrow> cstring option list \<Rightarrow> mcp_heap \<Rightarrow> pointer list \<times> mcp_heap" where
  "dup_all E i [] h = ([], h)"
| "dup_all E i (s # ss) h = (case dup_text (mem E i) s h of (p, h1) \<Rightarrow>
     case dup_all E (i + 1) ss h1 of (ps, h2) \<Rightarrow> (p # ps, h2))"

text \<open>
  \<open>AIRY_REALLOC\<close> of an array: a new block with the old contents, or NULL and the old block stays.
  The slots behind the old contents are not initialised.
\<close>

definition realloc :: "bool \<Rightarrow> pointer \<Rightarrow> nat \<Rightarrow> mcp_heap \<Rightarrow> (pointer \<times> mcp_heap) option" where
  "realloc ok p n h = (if ok then do {
       es \<leftarrow> entries_at p h;
       h1 \<leftarrow> hp_free p h;
       Some (hp_alloc True (Structs (take n es @ replicate (n - length es) [])) h1) }
     else Some (None, h))"

text \<open>The part that the four registration functions share.\<close>

definition table_add ::
  "env \<Rightarrow> nat option \<Rightarrow> table \<Rightarrow> cstring option list \<Rightarrow> mcp_heap \<Rightarrow> (int \<times> table \<times> mcp_heap) option" where
  "table_add E limit tb strs h =
    (if (case limit of None \<Rightarrow> False | Some n \<Rightarrow> n \<le> tb_count tb) then Some (err E AIRY_ERR_INVALID_PARAM, tb, h)
     else do {
       (grown, tb1, h1) \<leftarrow> (if tb_capacity tb \<le> tb_count tb then do {
            (p, h1) \<leftarrow> realloc (mem E 0) (tb_array tb) (tb_capacity tb * 2) h;
            Some (if p = None then (False, tb, h1) else (True, tb\<lparr>tb_array := p, tb_capacity := tb_capacity tb * 2\<rparr>, h1)) }
          else Some (True, tb, h));
       (if \<not> grown then Some (err E AIRY_ERR_NULL_POINTER, tb1, h1)
        else case dup_all E 1 strs h1 of (ps, h2) \<Rightarrow>
          (case tb_array tb1 of None \<Rightarrow> None
           | Some a \<Rightarrow> do {
               h3 \<leftarrow> put_struct (fst a, tb_count tb1) ps h2;
               Some (0, tb1\<lparr>tb_count := tb_count tb1 + 1\<rparr>, h3) })) })"

definition table_clear :: "table \<Rightarrow> mcp_heap \<Rightarrow> (table \<times> mcp_heap) option" where
  "table_clear tb h = do {
     es \<leftarrow> entries_at (tb_array tb) h;
     (if tb_count tb \<le> length es then do {
        h1 \<leftarrow> free_all (concat (take (tb_count tb) es)) h;
        h2 \<leftarrow> hp_free (tb_array tb) h1;
        Some (no_table, h2) }
      else None) }"

section \<open>The context\<close>

definition new_table :: "nat \<Rightarrow> pointer \<Rightarrow> table" where
  "new_table n p = \<lparr>tb_array = p, tb_count = 0, tb_capacity = n\<rparr>"

fun heap_mcp_create ::
  "env \<Rightarrow> mcp_v1_config option \<Rightarrow> mcp_heap \<Rightarrow> ((addr \<times> context_cell) option \<times> mcp_heap) option" where
  "heap_mcp_create E None h = Some (None, h)"
| "heap_mcp_create E (Some config) h =
    (case hp_alloc (mem E 0) (Structs [[]]) h of
       (None, h0) \<Rightarrow> Some (None, h0)
     | (Some ctx, h0) \<Rightarrow>
        (case dup_text (mem E 1) (cf_server_name config) h0 of (sn, h1) \<Rightarrow>
         case dup_text (mem E 2) (cf_server_version config) h1 of (sv, h2) \<Rightarrow>
         case hp_alloc (mem E 3) (Structs (replicate 32 [None, None, None])) h2 of (tools, h3) \<Rightarrow>
         if tools = None then do { h \<leftarrow> free_all [Some ctx] h3; Some (None, h) }
         else case hp_alloc (mem E 4) (Structs (replicate 16 [None, None, None, None])) h3 of (resources, h4) \<Rightarrow>
         if resources = None then do { h \<leftarrow> free_all [tools, Some ctx] h4; Some (None, h) }
         else case hp_alloc (mem E 5) (Structs (replicate 16 [None, None, None, None])) h4 of (templates, h5) \<Rightarrow>
         if templates = None then do { h \<leftarrow> free_all [resources, tools, Some ctx] h5; Some (None, h) }
         else case hp_alloc (mem E 6) (Structs (replicate 16 [None, None, None])) h5 of (prompts, h6) \<Rightarrow>
         if prompts = None then do { h \<leftarrow> free_all [templates, resources, tools, Some ctx] h6; Some (None, h) }
         else Some (Some (ctx, \<lparr>xc_tools = new_table 32 tools, xc_resources = new_table 16 resources,
           xc_templates = new_table 16 templates, xc_prompts = new_table 16 prompts,
           xc_server_name = sn, xc_server_version = sv, xc_max_tools = cf_max_tools config,
           xc_max_resources = cf_max_resources config\<rparr>), h6)))"

fun heap_mcp_clear :: "context_cell option \<Rightarrow> mcp_heap \<Rightarrow> (context_cell option \<times> mcp_heap) option" where
  "heap_mcp_clear None h = Some (None, h)"
| "heap_mcp_clear (Some x) h = do {
     (t, h1) \<leftarrow> table_clear (xc_tools x) h;
     (r, h2) \<leftarrow> table_clear (xc_resources x) h1;
     (u, h3) \<leftarrow> table_clear (xc_templates x) h2;
     (p, h4) \<leftarrow> table_clear (xc_prompts x) h3;
     h5 \<leftarrow> free_all [xc_server_name x, xc_server_version x] h4;
     Some (Some (x\<lparr>xc_tools := t, xc_resources := r, xc_templates := u, xc_prompts := p,
       xc_server_name := None, xc_server_version := None\<rparr>), h5) }"

fun heap_mcp_destroy :: "(addr \<times> context_cell) option \<Rightarrow> mcp_heap \<Rightarrow> mcp_heap option" where
  "heap_mcp_destroy None h = Some h"
| "heap_mcp_destroy (Some (ctx, x)) h = do { (_, h1) \<leftarrow> heap_mcp_clear (Some x) h; hp_free (Some ctx) h1 }"

definition tool_strings :: "mcp_tool \<Rightarrow> cstring option list" where
  "tool_strings t = [tl_name t, tl_description t, tl_input_schema_json t]"

definition resource_strings :: "mcp_resource \<Rightarrow> cstring option list" where
  "resource_strings r = [rs_uri r, rs_name r, rs_description r, rs_mime_type r]"

definition template_strings :: "mcp_resource_template \<Rightarrow> cstring option list" where
  "template_strings t = [rt_uri_template t, rt_name t, rt_description t, rt_mime_type t]"

definition prompt_strings :: "mcp_prompt \<Rightarrow> cstring option list" where
  "prompt_strings p = [pr_name p, pr_description p, pr_arguments_schema_json p]"

fun heap_register_tool ::
  "env \<Rightarrow> context_cell option \<Rightarrow> mcp_tool option \<Rightarrow> mcp_heap \<Rightarrow> (int \<times> context_cell option \<times> mcp_heap) option" where
  "heap_register_tool E (Some x) (Some tool) h = do {
     (rc, t, h1) \<leftarrow> table_add E (Some (xc_max_tools x)) (xc_tools x) (tool_strings tool) h;
     Some (rc, Some (x\<lparr>xc_tools := t\<rparr>), h1) }"
| "heap_register_tool E ctx _ h = Some (err E AIRY_ERR_UNKNOWN, ctx, h)"

fun heap_register_resource ::
  "env \<Rightarrow> context_cell option \<Rightarrow> mcp_resource option \<Rightarrow> mcp_heap \<Rightarrow> (int \<times> context_cell option \<times> mcp_heap) option" where
  "heap_register_resource E (Some x) (Some resource) h = do {
     (rc, t, h1) \<leftarrow> table_add E (Some (xc_max_resources x)) (xc_resources x) (resource_strings resource) h;
     Some (rc, Some (x\<lparr>xc_resources := t\<rparr>), h1) }"
| "heap_register_resource E ctx _ h = Some (err E AIRY_ERR_UNKNOWN, ctx, h)"

fun heap_register_template ::
  "env \<Rightarrow> context_cell option \<Rightarrow> mcp_resource_template option \<Rightarrow> mcp_heap \<Rightarrow> (int \<times> context_cell option \<times> mcp_heap) option" where
  "heap_register_template E (Some x) (Some tpl) h = do {
     (rc, t, h1) \<leftarrow> table_add E None (xc_templates x) (template_strings tpl) h;
     Some (rc, Some (x\<lparr>xc_templates := t\<rparr>), h1) }"
| "heap_register_template E ctx _ h = Some (err E AIRY_ERR_UNKNOWN, ctx, h)"

fun heap_register_prompt ::
  "env \<Rightarrow> context_cell option \<Rightarrow> mcp_prompt option \<Rightarrow> mcp_heap \<Rightarrow> (int \<times> context_cell option \<times> mcp_heap) option" where
  "heap_register_prompt E (Some x) (Some prompt) h = do {
     (rc, t, h1) \<leftarrow> table_add E (Some MCP_V1_MAX_PROMPTS) (xc_prompts x) (prompt_strings prompt) h;
     Some (rc, Some (x\<lparr>xc_prompts := t\<rparr>), h1) }"
| "heap_register_prompt E ctx _ h = Some (err E AIRY_ERR_UNKNOWN, ctx, h)"

section \<open>Results and arguments\<close>

fun heap_content_destroy :: "pointer \<Rightarrow> nat \<Rightarrow> mcp_heap \<Rightarrow> mcp_heap option" where
  "heap_content_destroy None n h = Some h"
| "heap_content_destroy (Some a) n h = do {
     es \<leftarrow> entries_at (Some a) h;
     (if n \<le> length es then do { h1 \<leftarrow> free_all (concat (take n es)) h; hp_free (Some a) h1 } else None) }"

record sampling_cell =
  sx_model :: pointer
  sx_content :: pointer
  sx_content_count :: nat
  sx_messages :: pointer
  sx_message_count :: nat
  sx_stop_reason :: pointer

fun mcp_sampling_result_destroy :: "sampling_cell option \<Rightarrow> mcp_heap \<Rightarrow> mcp_heap option" where
  "mcp_sampling_result_destroy None h = Some h"
| "mcp_sampling_result_destroy (Some r) h = do {
     h1 \<leftarrow> free_all [sx_model r, sx_stop_reason r] h; heap_content_destroy (sx_content r) (sx_content_count r) h1 }"

definition pointers_of :: "pointer \<Rightarrow> mcp_heap \<Rightarrow> pointer list option" where
  "pointers_of p h = (case p of None \<Rightarrow> Some [] | Some a \<Rightarrow> pointers_at a h)"

fun mcp_completion_result_destroy :: "(pointer \<times> nat) option \<Rightarrow> mcp_heap \<Rightarrow> mcp_heap option" where
  "mcp_completion_result_destroy None h = Some h"
| "mcp_completion_result_destroy (Some (values, n)) h = do {
     ps \<leftarrow> pointers_of values h;
     (if n \<le> length ps then do { h1 \<leftarrow> free_all (take n ps) h; hp_free values h1 } else None) }"

text \<open>
  The vector has a NULL behind its last string. Copying stops at the first failure and gives back
  what it has copied.
\<close>

fun copy_loop :: "env \<Rightarrow> nat \<Rightarrow> cstring list \<Rightarrow> pointer list \<Rightarrow> mcp_heap \<Rightarrow> (pointer list \<times> bool) \<times> mcp_heap" where
  "copy_loop E i [] ps h = ((ps, True), h)"
| "copy_loop E i (s # ss) ps h = (case dup_text (mem E i) (Some s) h of
     (None, h1) \<Rightarrow> ((ps, False), h1)
   | (Some a, h1) \<Rightarrow> copy_loop E (i + 1) ss (ps @ [Some a]) h1)"

definition heap_copy_argv :: "env \<Rightarrow> cstring list \<Rightarrow> mcp_heap \<Rightarrow> (addr option \<times> mcp_heap) option" where
  "heap_copy_argv E argv h = (case hp_alloc (mem E 0) (Pointers (replicate (length argv + 1) None)) h of
     (None, h1) \<Rightarrow> Some (None, h1)
   | (Some a, h1) \<Rightarrow>
      (case copy_loop E 1 argv [] h1 of
         ((ps, True), h2) \<Rightarrow> Some (Some a, hp_write (fst a) (Pointers (ps @ [None])) h2)
       | ((ps, False), h2) \<Rightarrow> do { h3 \<leftarrow> free_all (ps @ [Some a]) h2; Some (None, h3) }))"

fun until_null :: "pointer list \<Rightarrow> pointer list option" where
  "until_null [] = None"
| "until_null (None # ps) = Some []"
| "until_null (Some a # ps) = map_option ((#) (Some a)) (until_null ps)"

fun free_argv :: "pointer \<Rightarrow> mcp_heap \<Rightarrow> mcp_heap option" where
  "free_argv None h = Some h"
| "free_argv (Some a) h = do {
     ps \<leftarrow> pointers_at a h; qs \<leftarrow> until_null ps;
     h1 \<leftarrow> free_all qs h; hp_free (Some a) h1 }"

section \<open>The argument vector\<close>

lemma copy_loop_grows:
  "grows h0 (q # ps) h \<Longrightarrow> None \<notin> set ps \<Longrightarrow> copy_loop E i ss ps h = ((qs, b), h') \<Longrightarrow>
   grows h0 (q # qs) h' \<and> None \<notin> set qs \<and>
   (copy_argv_loop E i ss = None \<longleftrightarrow> \<not> b) \<and>
   (\<forall>xs. map (read_text h) ps = map (\<lambda>x. Some (Some x)) xs \<longrightarrow> b \<longrightarrow>
      map (read_text h') qs = map (\<lambda>x. Some (Some x)) (xs @ the (copy_argv_loop E i ss)))"
proof (induction ss arbitrary: i ps h)
  case (Cons s ss)
  obtain p h1 where p: "dup_text (mem E i) (Some s) h = (p, h1)" by (meson surj_pair)
  note g = grows_dup [OF grows_ok [OF Cons.prems(1)] p]
  show ?case
  proof (cases p)
    case None
    have "\<not> mem E i" using p None by (auto simp: dup_text_def hp_alloc_def split: if_splits)
    with Cons.prems p None g(1) show ?thesis by (auto simp: strdup_def dup_text_def hp_alloc_def)
  next
    case (Some a)
    then have m: "mem E i" using p by (auto simp: dup_text_def hp_alloc_def split: if_splits)
    have "grows h0 (q # ps @ [Some a]) h1" using grows_trans [OF Cons.prems(1) g(1)] Some by simp
    from Cons.IH [OF this, of "i + 1"] Cons.prems(2,3) p Some have IH:
      "grows h0 (q # qs) h' \<and> None \<notin> set qs \<and> (copy_argv_loop E (i + 1) ss = None \<longleftrightarrow> \<not> b)"
      "\<And>xs. map (read_text h1) (ps @ [Some a]) = map (\<lambda>x. Some (Some x)) xs \<Longrightarrow> b \<Longrightarrow>
        map (read_text h') qs = map (\<lambda>x. Some (Some x)) (xs @ the (copy_argv_loop E (i + 1) ss))" by auto
    have now: "map (read_text h1) (ps @ [Some a]) = map (\<lambda>x. Some (Some x)) (xs @ [s])" if "map (read_text h) ps = map (\<lambda>x. Some (Some x)) xs" for xs
    proof -
      have "read_text h1 r = read_text h r" if "r \<in> set ps" for r
      proof -
        have "read_text h r \<in> set (map (\<lambda>x. Some (Some x)) xs)" using that \<open>map (read_text h) ps = _\<close> by (metis image_eqI list.set_map)
        then show ?thesis using grows_read [OF g(1)] by auto
      qed
      with that g(2) m Some show ?thesis by (auto cong: map_cong)
    qed
    have "map (read_text h') qs = map (\<lambda>x. Some (Some x)) (xs @ s # the (copy_argv_loop E (i + 1) ss))"
      if "map (read_text h) ps = map (\<lambda>x. Some (Some x)) xs" b for xs
      using IH(2) [OF now [OF that(1)] that(2)] by simp
    with IH(1) m show ?thesis by (auto simp: strdup_def)
  qed
qed auto

lemma until_null_all: "None \<notin> set ps \<Longrightarrow> until_null (ps @ [None]) = Some ps"
proof (induction ps)
  case (Cons p ps)
  then show ?case by (cases p) auto
qed simp

lemma argv_exact:
  assumes "heap_ok h"
  shows "\<exists>r h1. heap_copy_argv E argv h = Some (r, h1) \<and>
    (case r of None \<Rightarrow> same_blocks h h1 \<and> heap_ok h1 \<and> copy_argv E argv = None
     | Some a \<Rightarrow> (\<exists>xs ps. copy_argv E argv = Some xs \<and> pointers_at a h1 = Some (ps @ [None]) \<and> map (read_text h1) ps = map (\<lambda>x. Some (Some x)) xs) \<and>
         (\<exists>h2. free_argv (Some a) h1 = Some h2 \<and> same_blocks h h2 \<and> heap_ok h2))"
proof (cases "mem E 0")
  case False
  then show ?thesis using assms by (simp add: heap_copy_argv_def hp_alloc_def copy_argv_def same_blocks_def)
next
  case True
  obtain a h1 where a: "hp_alloc True (Pointers (replicate (length argv + 1) None)) h = (Some a, h1)" by (simp add: hp_alloc_def)
  then have a0: "a = (hp_next h, 0)" by (auto simp: hp_alloc_def)
  obtain qs b h2 where c: "copy_loop E 1 argv [] h1 = ((qs, b), h2)" by (metis surj_pair)
  from copy_loop_grows [OF grows_alloc [OF assms a] _ c] have
    g: "grows h (Some a # qs) h2" "None \<notin> set qs" "copy_argv_loop E 1 argv = None \<longleftrightarrow> \<not> b"
      "b \<Longrightarrow> map (read_text h2) qs = map (\<lambda>x. Some (Some x)) (the (copy_argv_loop E 1 argv))" by auto
  have d: "bases (qs @ [Some a])" "distinct (blocks (qs @ [Some a]))" "set (blocks (qs @ [Some a])) = set (blocks (Some a # qs))"
    using g(1) a0 by (auto simp: grows_def)
  show ?thesis
  proof (cases b)
    case False
    from grows_free [OF g(1) d(3,2,1)] True a c False g(3) show ?thesis
      by (auto simp: heap_copy_argv_def copy_argv_def)
  next
    case b: True
    let ?h = "hp_write (hp_next h) (Pointers (qs @ [None])) h2"
    have w: "grows h (Some a # qs) ?h" using grows_write [OF g(1)] a0 by simp
    obtain h3 where h3: "free_all (qs @ [Some a]) ?h = Some h3" "same_blocks h h3" "heap_ok h3" using grows_free [OF w d(3,2,1)] by blast
    have p: "pointers_at a ?h = Some (qs @ [None])" by (simp add: a0 pointers_at_def hp_write_def)
    then have f: "free_argv (Some a) ?h = Some h3" using h3(1) until_null_all [OF g(2)] by (simp add: free_all_append)
    have s: "same_on (- {hp_next h}) h2 ?h" by (simp add: same_on_def hp_write_def)
    have "hp_next h \<notin> set (blocks qs)" using g(1) a0 by (auto simp: grows_def)
    then have "read_text ?h r = read_text h2 r" if "r \<in> set qs" for r
      using blocks_member [OF that] by (intro read_text_same [OF s]) blast
    then have "map (read_text ?h) qs = map (read_text h2) qs" by simp
    with b g(3,4) p f h3 True a c a0 show ?thesis by (auto simp: heap_copy_argv_def copy_argv_def simp del: free_argv.simps)
  qed
qed

interpretation argv: acquire_release "heap_copy_argv E argv" "\<lambda>a. free_argv (Some a)"
proof
  fix h :: mcp_heap
  assume "heap_ok h"
  from argv_exact [OF this, of E argv] obtain r h1 where
    r: "heap_copy_argv E argv h = Some (r, h1)" "r = None \<Longrightarrow> same_blocks h h1 \<and> heap_ok h1"
      "\<And>a. r = Some a \<Longrightarrow> \<exists>h2. free_argv (Some a) h1 = Some h2 \<and> same_blocks h h2 \<and> heap_ok h2"
    by (auto split: option.splits simp del: free_argv.simps)
  then show "\<exists>r h1. heap_copy_argv E argv h = Some (r, h1) \<and>
    (case r of None \<Rightarrow> same_blocks h h1 \<and> heap_ok h1
     | Some x \<Rightarrow> \<exists>h2. free_argv (Some x) h1 = Some h2 \<and> same_blocks h h2 \<and> heap_ok h2)"
    by (cases r) (auto simp del: free_argv.simps)
qed

section \<open>What a table owns\<close>

definition table_foot :: "mcp_heap \<Rightarrow> table \<Rightarrow> nat list" where
  "table_foot h tb = (case tb_array tb of None \<Rightarrow> []
     | Some a \<Rightarrow> (case hp_block h (fst a) of
         Some (Structs es) \<Rightarrow> blocks (concat (take (tb_count tb) es)) @ [fst a] | _ \<Rightarrow> []))"

text \<open>The table holds the strings \<open>vs\<close> of its entries, and each block once.\<close>

definition table_own :: "mcp_heap \<Rightarrow> table \<Rightarrow> cstring option list list \<Rightarrow> bool" where
  "table_own h tb vs \<longleftrightarrow> (\<exists>a es. tb_array tb = Some (a, 0) \<and> hp_block h a = Some (Structs es) \<and> length es = tb_capacity tb \<and>
     tb_count tb \<le> tb_capacity tb \<and> map (map (read_text h)) (take (tb_count tb) es) = map (map Some) vs \<and>
     distinct (table_foot h tb))"

lemma table_foot_at: "tb_array tb = Some (a, 0) \<Longrightarrow> hp_block h a = Some (Structs es) \<Longrightarrow>
  table_foot h tb = blocks (concat (take (tb_count tb) es)) @ [a]"
  by (simp add: table_foot_def)

lemma strings_readable:
  assumes "map (map (read_text h)) es = map (map Some) vs" "p \<in> set (concat es)"
  shows "\<exists>s. read_text h p = Some s"
proof -
  from assms(2) obtain e where e: "e \<in> set es" "p \<in> set e" by auto
  then have "map (read_text h) e \<in> set (map (map Some) vs)" using assms(1) by (metis image_eqI list.set_map)
  then obtain v where "map (read_text h) e = map Some v" by auto
  moreover have "read_text h p \<in> set (map (read_text h) e)" using e(2) by simp
  ultimately show ?thesis by auto
qed

lemma table_own_live:
  assumes "table_own h tb vs"
  shows "set (table_foot h tb) \<subseteq> live h"
proof -
  obtain a es where t: "tb_array tb = Some (a, 0)" "hp_block h a = Some (Structs es)"
    "map (map (read_text h)) (take (tb_count tb) es) = map (map Some) vs" using assms by (auto simp: table_own_def)
  have "set (blocks (concat (take (tb_count tb) es))) \<subseteq> live h"
    using read_all_live strings_readable [OF t(3)] by blast
  with t show ?thesis by (auto simp: table_foot_at)
qed

lemma strings_same:
  assumes "same_on S h h'" "set (blocks (concat es)) \<subseteq> S"
  shows "map (map (read_text h')) es = map (map (read_text h)) es"
proof -
  have "read_text h' p = read_text h p" if "e \<in> set es" "p \<in> set e" for e p
    using that blocks_member [of p "concat es"] assms(2) by (intro read_text_same [OF assms(1)]) auto
  then show ?thesis by simp
qed

lemma table_own_same:
  assumes "table_own h tb vs" "same_on S h h'" "set (table_foot h tb) \<subseteq> S"
  shows "table_own h' tb vs \<and> table_foot h' tb = table_foot h tb"
proof -
  obtain a es where t: "tb_array tb = Some (a, 0)" "hp_block h a = Some (Structs es)" "length es = tb_capacity tb"
    "tb_count tb \<le> tb_capacity tb" "map (map (read_text h)) (take (tb_count tb) es) = map (map Some) vs" "distinct (table_foot h tb)"
    using assms(1) by (auto simp: table_own_def)
  note f = table_foot_at [OF t(1,2)]
  have a: "hp_block h' a = Some (Structs es)" using assms(2,3) t(2) f by (auto simp: same_on_def)
  have "map (map (read_text h')) (take (tb_count tb) es) = map (map Some) vs"
    by (rule trans [OF strings_same [OF assms(2)] t(5)]) (use assms(3) f in simp)
  with t a table_foot_at [OF t(1) a] f show ?thesis by (auto simp: table_own_def)
qed

lemma table_own_length: "table_own h tb vs \<Longrightarrow> length vs = tb_count tb"
proof -
  assume "table_own h tb vs"
  then obtain es where es: "length es = tb_capacity tb" "tb_count tb \<le> tb_capacity tb"
    "map (map (read_text h)) (take (tb_count tb) es) = map (map Some) vs" by (auto simp: table_own_def)
  from arg_cong [OF es(3), of length] es(1,2) show ?thesis by simp
qed

text \<open>Clearing a table frees its strings and its array and nothing else.\<close>

lemma table_clear_exact:
  assumes "table_own h tb vs"
  shows "table_clear tb h = Some (no_table, drop_blocks (set (table_foot h tb)) h)"
proof -
  obtain a es where t: "tb_array tb = Some (a, 0)" "hp_block h a = Some (Structs es)" "length es = tb_capacity tb"
    "tb_count tb \<le> tb_capacity tb" "map (map (read_text h)) (take (tb_count tb) es) = map (map Some) vs" "distinct (table_foot h tb)"
    using assms by (auto simp: table_own_def)
  let ?ps = "concat (take (tb_count tb) es)"
  note f = table_foot_at [OF t(1,2)]
  have b: "bases ?ps \<and> set (blocks ?ps) \<subseteq> live h" using read_all_live strings_readable [OF t(5)] by blast
  have "free_all (?ps @ [Some (a, 0)]) h = Some (drop_blocks (set (table_foot h tb)) h)"
    using b t(2,6) f by (auto simp: free_all_iff)
  then show ?thesis using t by (auto simp: table_clear_def entries_at_def free_all_append bind_eq_Some_conv)
qed

section \<open>Adding to a table\<close>

primrec copies :: "env \<Rightarrow> nat \<Rightarrow> cstring option list \<Rightarrow> cstring option list" where
  "copies E i [] = []"
| "copies E i (s # ss) = strdup_safe E i s # copies E (i + 1) ss"

lemma dup_all_grows:
  "heap_ok h \<Longrightarrow> dup_all E i ss h = (ps, h') \<Longrightarrow> grows h ps h' \<and> map (read_text h') ps = map Some (copies E i ss)"
proof (induction ss arbitrary: i h h' ps)
  case Nil
  then show ?case by (simp add: grows_refl)
next
  case (Cons s ss)
  obtain p h1 where p: "dup_text (mem E i) s h = (p, h1)" by (meson surj_pair)
  obtain qs h2 where q: "dup_all E (i + 1) ss h1 = (qs, h2)" by (meson surj_pair)
  have e: "ps = p # qs" "h' = h2" using Cons.prems(2) p q by auto
  note g = grows_dup [OF Cons.prems(1) p]
  note IH = Cons.IH [OF grows_ok [OF g(1)] q]
  have "read_text h2 p = Some (strdup_safe E i s)"
    using grows_read [OF _ g(2)] IH by (auto simp: strdup_safe_def strdup_def split: option.splits)
  moreover have "grows h (p # qs) h2" using grows_trans [OF g(1)] IH by auto
  ultimately show ?case using IH e by simp
qed

lemma table_grow:
  assumes o: "table_own h tb vs" and ok: "heap_ok h" and n: "tb_capacity tb \<le> n"
  shows "\<exists>p h1. realloc True (tb_array tb) n h = Some (Some p, h1) \<and>
    table_own h1 (tb\<lparr>tb_array := Some p, tb_capacity := n\<rparr>) vs \<and>
    owner_step h (set (table_foot h tb)) h1 (set (table_foot h1 (tb\<lparr>tb_array := Some p, tb_capacity := n\<rparr>)))"
proof -
  obtain a es where t: "tb_array tb = Some (a, 0)" "hp_block h a = Some (Structs es)" "length es = tb_capacity tb"
    "tb_count tb \<le> tb_capacity tb" "map (map (read_text h)) (take (tb_count tb) es) = map (map Some) vs" "distinct (table_foot h tb)"
    using o by (auto simp: table_own_def)
  let ?b = "hp_next h" and ?es = "es @ replicate (n - length es) []" and ?k = "tb_count tb"
  let ?h1 = "snd (hp_alloc True (Structs ?es) (drop_blocks {a} h))" and ?tb = "tb\<lparr>tb_array := Some (?b, 0), tb_capacity := n\<rparr>"
  have r: "realloc True (tb_array tb) n h = Some (Some (?b, 0), ?h1)"
    using t(1-3) n by (simp add: realloc_def entries_at_def hp_alloc_def)
  have fr: "?b \<notin> live h" using ok by (rule fresh_dead)
  have f: "table_foot h tb = blocks (concat (take ?k es)) @ [a]" by (rule table_foot_at [OF t(1,2)])
  have h1: "hp_block ?h1 ?b = Some (Structs ?es)" "live ?h1 = insert ?b (live h - {a})" "same_on (live h - {a}) h ?h1" "heap_ok ?h1"
    using fr ok by (auto simp: hp_alloc_def same_on_def heap_ok_def)
  have tk: "take ?k ?es = take ?k es" using t(3,4) by simp
  have f1: "table_foot ?h1 ?tb = blocks (concat (take ?k es)) @ [?b]" using table_foot_at [OF _ h1(1), of ?tb] tk by simp
  have lv: "set (blocks (concat (take ?k es))) \<subseteq> live h - {a}" using table_own_live [OF o] t(6) f by auto
  have "map (map (read_text ?h1)) (take ?k es) = map (map Some) vs" by (rule trans [OF strings_same [OF h1(3) lv] t(5)])
  then have "table_own ?h1 ?tb vs"
    unfolding table_own_def f1 using h1(1) t(3,4,6) n tk lv fr f by auto
  moreover have "owner_step h (set (table_foot h tb)) ?h1 (set (table_foot ?h1 ?tb))"
    unfolding f f1 owner_step_def using h1(2-4) lv fr by (auto simp: same_on_def)
  ultimately show ?thesis using r by blast
qed

lemma table_put:
  assumes o: "table_own h tb vs" and ok: "heap_ok h" and n: "tb_count tb < tb_capacity tb"
    and d: "dup_all E i ss h = (ps, h1)" and a: "tb_array tb = Some p"
  shows "\<exists>h2. put_struct (fst p, tb_count tb) ps h1 = Some h2 \<and>
    table_own h2 (tb\<lparr>tb_count := tb_count tb + 1\<rparr>) (vs @ [copies E i ss]) \<and>
    owner_step h (set (table_foot h tb)) h2 (set (table_foot h2 (tb\<lparr>tb_count := tb_count tb + 1\<rparr>)))"
proof -
  obtain a es where t: "tb_array tb = Some (a, 0)" "hp_block h a = Some (Structs es)" "length es = tb_capacity tb"
    "map (map (read_text h)) (take (tb_count tb) es) = map (map Some) vs" "distinct (table_foot h tb)"
    using o by (auto simp: table_own_def)
  let ?k = "tb_count tb" and ?tb = "tb\<lparr>tb_count := tb_count tb + 1\<rparr>"
  note g = dup_all_grows [OF ok d]
  let ?es = "es[?k := ps]" and ?F = "blocks (concat (take (tb_count tb) es))"
  let ?h2 = "hp_write a (Structs ?es) h1"
  have al: "a \<in> live h" using t(2) by blast
  have l1: "same_on (live h) h h1" "live h1 = live h \<union> set (blocks ps)" "set (blocks ps) \<inter> live h = {}" "distinct (blocks ps)" "heap_ok h1"
    using g by (simp_all add: grows_def)
  have "hp_block h1 a = Some (Structs es)" using l1(1) al t(2) by (simp add: same_on_def)
  then have p: "put_struct (fst p, ?k) ps h1 = Some ?h2" using t(1,3) a n by (auto simp: put_struct_def)
  have f: "table_foot h tb = ?F @ [a]" by (rule table_foot_at [OF t(1,2)])
  have tk: "take (Suc ?k) ?es = take ?k es @ [ps]" using n t(3) by (simp add: take_Suc_conv_app_nth)
  have b2: "hp_block ?h2 a = Some (Structs ?es)" by (simp add: hp_write_def)
  have f2: "table_foot ?h2 ?tb = ?F @ blocks ps @ [a]" using table_foot_at [OF _ b2, of ?tb] t(1) tk by simp
  have lv: "set ?F \<subseteq> live h - {a}" using table_own_live [OF o] t(5) f by auto
  have s2: "same_on (- {a}) h1 ?h2" by (simp add: same_on_def hp_write_def)
  have sF: "same_on (live h - {a}) h ?h2" by (rule same_on_trans [OF same_on_mono [OF l1(1)] same_on_mono [OF s2]]) auto
  have "map (map (read_text ?h2)) (take ?k es) = map (map Some) vs" by (rule trans [OF strings_same [OF sF lv] t(4)])
  moreover have "map (read_text ?h2) ps = map Some (copies E i ss)"
    using strings_same [OF s2, of "[ps]"] g al l1(3) by auto
  moreover have "distinct (table_foot ?h2 ?tb)" unfolding f2 using t(5) f l1(3,4) lv al by auto
  ultimately have "table_own ?h2 ?tb (vs @ [copies E i ss])" using t(1,3) b2 tk n by (auto simp: table_own_def)
  moreover have "owner_step h (set (table_foot h tb)) ?h2 (set (table_foot ?h2 ?tb))"
  proof -
    have "live ?h2 = live h1" using al l1(2) by (auto simp: hp_write_def)
    moreover have "heap_ok ?h2" using l1(5) live_below [OF l1(5), of a] al l1(2) by (auto simp: heap_ok_def hp_write_def)
    moreover have "same_on (live h - set (table_foot h tb)) h ?h2" by (rule same_on_mono [OF sF]) (auto simp: f)
    ultimately show ?thesis unfolding owner_step_def f f2 using l1(2,3) lv al by auto
  qed
  ultimately show ?thesis using p by blast
qed

lemma table_add_own:
  assumes o: "table_own h tb vs" and ok: "heap_ok h" and c: "0 < tb_capacity tb"
    and l: "case limit of None \<Rightarrow> True | Some n \<Rightarrow> length vs < n"
  shows "case grow_table E (length vs) (tb_capacity tb) of
      Inl e \<Rightarrow> table_add E limit tb ss h = Some (e, tb, h)
    | Inr cap \<Rightarrow> length vs < cap \<and> (\<exists>tb' h'. table_add E limit tb ss h = Some (0, tb', h') \<and>
        table_own h' tb' (vs @ [copies E 1 ss]) \<and> tb_capacity tb' = cap \<and>
        owner_step h (set (table_foot h tb)) h' (set (table_foot h' tb')))"
proof -
  have n: "length vs = tb_count tb" "tb_count tb \<le> tb_capacity tb" using table_own_length [OF o] o by (auto simp: table_own_def)
  have lim: "\<not> (case limit of None \<Rightarrow> False | Some n \<Rightarrow> n \<le> tb_count tb)" using l n(1) by (auto split: option.splits)
  show ?thesis
  proof (cases "tb_capacity tb \<le> tb_count tb")
    case False
    obtain p where p: "tb_array tb = Some p" using o by (auto simp: table_own_def)
    obtain ps h1 where d: "dup_all E 1 ss h = (ps, h1)" by (meson surj_pair)
    from table_put [OF o ok _ d p] False lim n(1) p d show ?thesis by (auto simp: grow_table_def table_add_def)
  next
    case full: True
    show ?thesis
    proof (cases "mem E 0")
      case False
      with full lim n(1) show ?thesis by (auto simp: grow_table_def table_add_def realloc_def)
    next
      case True
      let ?cap = "tb_capacity tb * 2"
      from table_grow [OF o ok, of ?cap] obtain p h1 where
        g: "realloc True (tb_array tb) ?cap h = Some (Some p, h1)" "table_own h1 (tb\<lparr>tb_array := Some p, tb_capacity := ?cap\<rparr>) vs"
          "owner_step h (set (table_foot h tb)) h1 (set (table_foot h1 (tb\<lparr>tb_array := Some p, tb_capacity := ?cap\<rparr>)))" by auto
      obtain ps h2 where d: "dup_all E 1 ss h1 = (ps, h2)" by (meson surj_pair)
      have "heap_ok h1" using g(3) by (simp add: owner_step_def)
      from table_put [OF g(2) this _ d, of p] n(2) c obtain h3 where
        p: "put_struct (fst p, tb_count tb) ps h2 = Some h3"
          "table_own h3 (tb\<lparr>tb_array := Some p, tb_capacity := ?cap, tb_count := tb_count tb + 1\<rparr>) (vs @ [copies E 1 ss])"
          "owner_step h1 (set (table_foot h1 (tb\<lparr>tb_array := Some p, tb_capacity := ?cap\<rparr>))) h3
            (set (table_foot h3 (tb\<lparr>tb_array := Some p, tb_capacity := ?cap, tb_count := tb_count tb + 1\<rparr>)))" by auto
      from owner_step_trans [OF g(3) p(3)] True full lim n g(1) d p(1,2) c show ?thesis
        by (auto simp: grow_table_def table_add_def)
    qed
  qed
qed

section \<open>What a context owns\<close>

definition tables_foot :: "mcp_heap \<Rightarrow> table list \<Rightarrow> nat list" where
  "tables_foot h ts = concat (map (table_foot h) ts)"

definition tables_own :: "nat set \<Rightarrow> mcp_heap \<Rightarrow> table list \<Rightarrow> cstring option list list list \<Rightarrow> bool" where
  "tables_own F h ts vss \<longleftrightarrow> heap_ok h \<and> list_all2 (table_own h) ts vss \<and> distinct (tables_foot h ts) \<and>
     F \<inter> set (tables_foot h ts) = {} \<and> live h = F \<union> set (tables_foot h ts)"

lemma tables_foot_simps [simp]:
  "tables_foot h [] = []" "tables_foot h (t # ts) = table_foot h t @ tables_foot h ts"
  "tables_foot h (us @ vs) = tables_foot h us @ tables_foot h vs"
  by (simp_all add: tables_foot_def)

lemma tables_own_same:
  "list_all2 (table_own h) ts vss \<Longrightarrow> same_on S h h' \<Longrightarrow> set (tables_foot h ts) \<subseteq> S \<Longrightarrow>
   list_all2 (table_own h') ts vss \<and> tables_foot h' ts = tables_foot h ts"
proof (induction rule: list_all2_induct)
  case (Cons t ts vs vss)
  then show ?case using table_own_same [of h t vs S h'] by simp
qed simp

lemma tables_step:
  assumes o: "tables_own F h (us @ t # ws) (uss @ vs # wss)" "length us = length uss"
    and t: "table_own h' t' vs'" "owner_step h (set (table_foot h t)) h' (set (table_foot h' t'))"
  shows "tables_own F h' (us @ t' # ws) (uss @ vs' # wss)" "same_on F h h'"
proof -
  have l: "live h = F \<union> set (tables_foot h us) \<union> set (table_foot h t) \<union> set (tables_foot h ws)" and
    d: "set (table_foot h t) \<inter> (F \<union> set (tables_foot h us) \<union> set (tables_foot h ws)) = {}"
    and a: "list_all2 (table_own h) us uss" "list_all2 (table_own h) ws wss"
    using o by (auto simp: tables_own_def list_all2_append)
  let ?R = "F \<union> set (tables_foot h us) \<union> set (tables_foot h ws)"
  have R: "live h - set (table_foot h t) = ?R" using l d by auto
  then have s: "same_on ?R h h'" "live h' = ?R \<union> set (table_foot h' t')" "set (table_foot h' t') \<inter> ?R = {}" "heap_ok h'"
    using t(2) by (auto simp: owner_step_def)
  from tables_own_same [OF a(1) s(1)] tables_own_same [OF a(2) s(1)]
  have "list_all2 (table_own h') us uss \<and> tables_foot h' us = tables_foot h us"
    "list_all2 (table_own h') ws wss \<and> tables_foot h' ws = tables_foot h ws" by auto
  moreover have "distinct (table_foot h' t')" using t(1) by (auto simp: table_own_def)
  ultimately show "tables_own F h' (us @ t' # ws) (uss @ vs' # wss)"
    using o s(2-4) t(1) by (auto simp: tables_own_def list_all2_append)
  show "same_on F h h'" by (rule same_on_mono [OF s(1)]) auto
qed

text \<open>The context in memory stands for the context \<open>ctx\<close> of the model.\<close>

definition ctx_values :: "'w mcp_context \<Rightarrow> cstring option list list list" where
  "ctx_values ctx = [map (tool_strings \<circ> te_tool) (mc_tools ctx), map (resource_strings \<circ> re_resource) (mc_resources ctx),
     map template_strings (mc_resource_templates ctx), map (prompt_strings \<circ> pe_prompt) (mc_prompts ctx)]"

definition tables :: "context_cell \<Rightarrow> table list" where
  "tables x = [xc_tools x, xc_resources x, xc_templates x, xc_prompts x]"

definition names_own :: "mcp_heap \<Rightarrow> context_cell \<Rightarrow> 'w mcp_context \<Rightarrow> bool" where
  "names_own h x ctx \<longleftrightarrow> read_text h (xc_server_name x) = Some (cf_server_name (mc_config ctx)) \<and>
     read_text h (xc_server_version x) = Some (cf_server_version (mc_config ctx)) \<and>
     distinct (blocks [xc_server_name x, xc_server_version x])"

abbreviation names :: "context_cell \<Rightarrow> nat set" where
  "names x \<equiv> set (blocks [xc_server_name x, xc_server_version x])"

definition context_own :: "nat set \<Rightarrow> mcp_heap \<Rightarrow> context_cell \<Rightarrow> 'w mcp_context \<Rightarrow> bool" where
  "context_own F h x ctx \<longleftrightarrow> tables_own (F \<union> names x) h (tables x) (ctx_values ctx) \<and> names_own h x ctx \<and> F \<inter> names x = {} \<and>
     map tb_capacity (tables x) = [mc_tool_capacity ctx, mc_resource_capacity ctx, mc_template_capacity ctx, mc_prompt_capacity ctx] \<and>
     (\<forall>t \<in> set (tables x). 0 < tb_capacity t) \<and>
     xc_max_tools x = cf_max_tools (mc_config ctx) \<and> xc_max_resources x = cf_max_resources (mc_config ctx)"

lemma names_own_same: "names_own h x ctx \<Longrightarrow> same_on S h h' \<Longrightarrow> names x \<subseteq> S \<Longrightarrow> names_own h' x ctx"
  using read_text_same [of S h h' "xc_server_name x"] read_text_same [of S h h' "xc_server_version x"]
    blocks_member [of _ "[xc_server_name x, xc_server_version x]"]
  by (simp add: names_own_def del: blocks.simps) (metis insert_iff subset_trans)

lemma context_step:
  assumes o: "context_own F h x ctx"
    and e: "tables x = us @ t # ws" "ctx_values ctx = uss @ vs # wss" "length us = length uss"
    and t: "table_own h' t' vs'" "owner_step h (set (table_foot h t)) h' (set (table_foot h' t'))"
    and e': "tables x' = us @ t' # ws" "ctx_values ctx' = uss @ vs' # wss" "xc_server_name x' = xc_server_name x"
      "xc_server_version x' = xc_server_version x" "xc_max_tools x' = xc_max_tools x" "xc_max_resources x' = xc_max_resources x"
      "mc_config ctx' = mc_config ctx" "0 < tb_capacity t'"
    and c: "map tb_capacity (tables x') = [mc_tool_capacity ctx', mc_resource_capacity ctx', mc_template_capacity ctx', mc_prompt_capacity ctx']"
  shows "context_own F h' x' ctx' \<and> same_on F h h'"
proof -
  have T: "tables_own (F \<union> names x) h (us @ t # ws) (uss @ vs # wss)" using o e by (simp add: context_own_def)
  note s = tables_step [OF T e(3) t]
  have "names_own h' x ctx" using o names_own_same [of h x ctx, OF _ s(2)] by (simp add: context_own_def del: blocks.simps)
  then have "names_own h' x' ctx'" using e' by (simp add: names_own_def)
  moreover have "same_on F h h'" by (rule same_on_mono [OF s(2)]) auto
  ultimately show ?thesis using o s(1) e e' c by (auto simp: context_own_def)
qed

lemma context_own_parts:
  assumes "context_own F h x ctx" "tables x = us @ t # ws" "ctx_values ctx = uss @ vs # wss" "length us = length uss"
  shows "heap_ok h" "table_own h t vs" "0 < tb_capacity t" "length vs = tb_count t"
  using assms table_own_length by (auto simp: context_own_def tables_own_def list_all2_append)

lemma context_add:
  assumes o: "context_own F h x ctx"
    and e: "tables x = us @ t # ws" "ctx_values ctx = uss @ vs # wss" "length us = length uss"
    and l: "case limit of None \<Rightarrow> True | Some n \<Rightarrow> length vs < n"
    and mk: "\<And>t'. tables (mk t') = us @ t' # ws" "\<And>t'. xc_server_name (mk t') = xc_server_name x"
      "\<And>t'. xc_server_version (mk t') = xc_server_version x" "\<And>t'. xc_max_tools (mk t') = xc_max_tools x"
      "\<And>t'. xc_max_resources (mk t') = xc_max_resources x"
    and up: "\<And>cap. ctx_values (up cap) = uss @ (vs @ [copies E 1 ss]) # wss" "\<And>cap. mc_config (up cap) = mc_config ctx"
      "\<And>cap. [mc_tool_capacity (up cap), mc_resource_capacity (up cap), mc_template_capacity (up cap), mc_prompt_capacity (up cap)] =
        map tb_capacity us @ cap # map tb_capacity ws"
  shows "case grow_table E (length vs) (tb_capacity t) of
      Inl e \<Rightarrow> table_add E limit t ss h = Some (e, t, h)
    | Inr cap \<Rightarrow> length vs < cap \<and> (\<exists>t' h'. table_add E limit t ss h = Some (0, t', h') \<and>
        context_own F h' (mk t') (up cap) \<and> same_on F h h')"
proof -
  note p = context_own_parts [OF o e]
  note add = table_add_own [OF p(2,1,3) l, of E ss]
  show ?thesis
  proof (cases "grow_table E (length vs) (tb_capacity t)")
    case (Inr cap)
    with add obtain t' h' where a: "length vs < cap" "table_add E limit t ss h = Some (0, t', h')"
      "table_own h' t' (vs @ [copies E 1 ss])" "tb_capacity t' = cap"
      "owner_step h (set (table_foot h t)) h' (set (table_foot h' t'))" by auto
    have "context_own F h' (mk t') (up cap) \<and> same_on F h h'"
      by (rule context_step [OF o e a(3,5)]) (use a(1,4) mk up in auto)
    with Inr a(1,2) show ?thesis by auto
  qed (use add in simp)
qed

lemma copies_strings:
  "copies E (Suc 0) (tool_strings t) = tool_strings (copy_tool E t)"
  "copies E (Suc 0) (resource_strings r) = resource_strings (copy_resource E r)"
  "copies E (Suc 0) (template_strings u) = template_strings (copy_template E u)"
  "copies E (Suc 0) (prompt_strings p) = prompt_strings (copy_prompt E p)"
  by (simp_all add: tool_strings_def resource_strings_def template_strings_def prompt_strings_def copy_tool_def
    copy_resource_def copy_template_def copy_prompt_def eval_nat_numeral)

lemma register_tool_heap:
  assumes o: "context_own F h x ctx"
  shows "\<exists>rc x' h' ctx'. heap_register_tool E (Some x) tool h = Some (rc, Some x', h') \<and>
    mcp_v1_register_tool E (Some ctx) tool handler ud = Some (rc, Some ctx') \<and> context_own F h' x' ctx' \<and> same_on F h h'"
proof -
  let ?vs = "map (tool_strings \<circ> te_tool) (mc_tools ctx)"
  have c: "xc_max_tools x = cf_max_tools (mc_config ctx)" "xc_max_resources x = cf_max_resources (mc_config ctx)"
    "tb_capacity (xc_tools x) = mc_tool_capacity ctx" using o by (simp_all add: context_own_def tables_def)
  have n: "tb_count (xc_tools x) = length (mc_tools ctx)"
    using context_own_parts(4) [OF o, of "[]" "xc_tools x" _ "[]" ?vs] by (simp add: tables_def ctx_values_def)
  show ?thesis
  proof (cases "\<exists>t. tool = Some t \<and> length (mc_tools ctx) < cf_max_tools (mc_config ctx)")
    case False
    with c n o show ?thesis by (cases tool) (auto simp: table_add_def not_less)
  next
    case True
    then obtain t where t: "tool = Some t" "length (mc_tools ctx) < cf_max_tools (mc_config ctx)" by blast
    let ?up = "\<lambda>cap. ctx\<lparr>mc_tool_capacity := cap, mc_tools := mc_tools ctx @ [\<lparr>te_tool = copy_tool E t, te_handler = handler, te_user_data = ud\<rparr>]\<rparr>"
    have "case grow_table E (length ?vs) (tb_capacity (xc_tools x)) of
        Inl e \<Rightarrow> table_add E (Some (xc_max_tools x)) (xc_tools x) (tool_strings t) h = Some (e, xc_tools x, h)
      | Inr cap \<Rightarrow> length ?vs < cap \<and> (\<exists>t' h'. table_add E (Some (xc_max_tools x)) (xc_tools x) (tool_strings t) h = Some (0, t', h') \<and>
        context_own F h' (x\<lparr>xc_tools := t'\<rparr>) (?up cap) \<and> same_on F h h')"
      by (rule context_add [OF o, of "[]" _ _ "[]"])
         (use t c o in \<open>auto simp: tables_def ctx_values_def copies_strings context_own_def\<close>)
    with t c o show ?thesis by (auto split: sum.splits)
  qed
qed

lemma register_resource_heap:
  assumes o: "context_own F h x ctx"
  shows "\<exists>rc x' h' ctx'. heap_register_resource E (Some x) resource h = Some (rc, Some x', h') \<and>
    mcp_v1_register_resource E (Some ctx) resource handler ud = Some (rc, Some ctx') \<and> context_own F h' x' ctx' \<and> same_on F h h'"
proof -
  let ?vs = "map (resource_strings \<circ> re_resource) (mc_resources ctx)"
  have c: "xc_max_tools x = cf_max_tools (mc_config ctx)" "xc_max_resources x = cf_max_resources (mc_config ctx)"
    "tb_capacity (xc_resources x) = mc_resource_capacity ctx" using o by (simp_all add: context_own_def tables_def)
  have n: "tb_count (xc_resources x) = length (mc_resources ctx)"
    using context_own_parts(4) [OF o, of "[xc_tools x]" "xc_resources x" _ "[map (tool_strings \<circ> te_tool) (mc_tools ctx)]" ?vs] by (simp add: tables_def ctx_values_def)
  show ?thesis
  proof (cases "\<exists>t. resource = Some t \<and> length (mc_resources ctx) < cf_max_resources (mc_config ctx)")
    case False
    with c n o show ?thesis by (cases resource) (auto simp: table_add_def not_less)
  next
    case True
    then obtain t where t: "resource = Some t" "length (mc_resources ctx) < cf_max_resources (mc_config ctx)" by blast
    let ?up = "\<lambda>cap. ctx\<lparr>mc_resource_capacity := cap, mc_resources := mc_resources ctx @ [\<lparr>re_resource = copy_resource E t, re_handler = handler, re_user_data = ud\<rparr>]\<rparr>"
    have "case grow_table E (length ?vs) (tb_capacity (xc_resources x)) of
        Inl e \<Rightarrow> table_add E (Some (xc_max_resources x)) (xc_resources x) (resource_strings t) h = Some (e, xc_resources x, h)
      | Inr cap \<Rightarrow> length ?vs < cap \<and> (\<exists>t' h'. table_add E (Some (xc_max_resources x)) (xc_resources x) (resource_strings t) h = Some (0, t', h') \<and>
        context_own F h' (x\<lparr>xc_resources := t'\<rparr>) (?up cap) \<and> same_on F h h')"
      by (rule context_add [OF o, of "[xc_tools x]" _ _ "[map (tool_strings \<circ> te_tool) (mc_tools ctx)]"])
         (use t c o in \<open>auto simp: tables_def ctx_values_def copies_strings context_own_def\<close>)
    with t c o show ?thesis by (auto split: sum.splits)
  qed
qed

lemma register_template_heap:
  assumes o: "context_own F h x ctx"
  shows "\<exists>rc x' h' ctx'. heap_register_template E (Some x) tpl h = Some (rc, Some x', h') \<and>
    mcp_v1_register_resource_template E (Some ctx) tpl = Some (rc, Some ctx') \<and> context_own F h' x' ctx' \<and> same_on F h h'"
proof -
  let ?vs = "map template_strings (mc_resource_templates ctx)"
  have c: "xc_max_tools x = cf_max_tools (mc_config ctx)" "xc_max_resources x = cf_max_resources (mc_config ctx)"
    "tb_capacity (xc_templates x) = mc_template_capacity ctx" using o by (simp_all add: context_own_def tables_def)
  have n: "tb_count (xc_templates x) = length (mc_resource_templates ctx)"
    using context_own_parts(4) [OF o, of "[xc_tools x, xc_resources x]" "xc_templates x" _ "[map (tool_strings \<circ> te_tool) (mc_tools ctx), map (resource_strings \<circ> re_resource) (mc_resources ctx)]" ?vs] by (simp add: tables_def ctx_values_def)
  show ?thesis
  proof (cases "\<exists>t. tpl = Some t \<and> True")
    case False
    with c n o show ?thesis by (cases tpl) (auto simp: table_add_def not_less)
  next
    case True
    then obtain t where t: "tpl = Some t" "True" by blast
    let ?up = "\<lambda>cap. ctx\<lparr>mc_template_capacity := cap, mc_resource_templates := mc_resource_templates ctx @ [copy_template E t]\<rparr>"
    have "case grow_table E (length ?vs) (tb_capacity (xc_templates x)) of
        Inl e \<Rightarrow> table_add E (None) (xc_templates x) (template_strings t) h = Some (e, xc_templates x, h)
      | Inr cap \<Rightarrow> length ?vs < cap \<and> (\<exists>t' h'. table_add E (None) (xc_templates x) (template_strings t) h = Some (0, t', h') \<and>
        context_own F h' (x\<lparr>xc_templates := t'\<rparr>) (?up cap) \<and> same_on F h h')"
      by (rule context_add [OF o, of "[xc_tools x, xc_resources x]" _ _ "[map (tool_strings \<circ> te_tool) (mc_tools ctx), map (resource_strings \<circ> re_resource) (mc_resources ctx)]"])
         (use t c o in \<open>auto simp: tables_def ctx_values_def copies_strings context_own_def\<close>)
    with t c o show ?thesis by (auto split: sum.splits)
  qed
qed

lemma register_prompt_heap:
  assumes o: "context_own F h x ctx"
  shows "\<exists>rc x' h' ctx'. heap_register_prompt E (Some x) prompt h = Some (rc, Some x', h') \<and>
    mcp_v1_register_prompt E (Some ctx) prompt handler ud = Some (rc, Some ctx') \<and> context_own F h' x' ctx' \<and> same_on F h h'"
proof -
  let ?vs = "map (prompt_strings \<circ> pe_prompt) (mc_prompts ctx)"
  have c: "xc_max_tools x = cf_max_tools (mc_config ctx)" "xc_max_resources x = cf_max_resources (mc_config ctx)"
    "tb_capacity (xc_prompts x) = mc_prompt_capacity ctx" using o by (simp_all add: context_own_def tables_def)
  have n: "tb_count (xc_prompts x) = length (mc_prompts ctx)"
    using context_own_parts(4) [OF o, of "[xc_tools x, xc_resources x, xc_templates x]" "xc_prompts x" _ "[map (tool_strings \<circ> te_tool) (mc_tools ctx), map (resource_strings \<circ> re_resource) (mc_resources ctx), map template_strings (mc_resource_templates ctx)]" ?vs] by (simp add: tables_def ctx_values_def)
  show ?thesis
  proof (cases "\<exists>t. prompt = Some t \<and> length (mc_prompts ctx) < MCP_V1_MAX_PROMPTS")
    case False
    with c n o show ?thesis by (cases prompt) (auto simp: table_add_def not_less)
  next
    case True
    then obtain t where t: "prompt = Some t" "length (mc_prompts ctx) < MCP_V1_MAX_PROMPTS" by blast
    let ?up = "\<lambda>cap. ctx\<lparr>mc_prompt_capacity := cap, mc_prompts := mc_prompts ctx @ [\<lparr>pe_prompt = copy_prompt E t, pe_handler = handler, pe_user_data = ud\<rparr>]\<rparr>"
    have "case grow_table E (length ?vs) (tb_capacity (xc_prompts x)) of
        Inl e \<Rightarrow> table_add E (Some (MCP_V1_MAX_PROMPTS)) (xc_prompts x) (prompt_strings t) h = Some (e, xc_prompts x, h)
      | Inr cap \<Rightarrow> length ?vs < cap \<and> (\<exists>t' h'. table_add E (Some (MCP_V1_MAX_PROMPTS)) (xc_prompts x) (prompt_strings t) h = Some (0, t', h') \<and>
        context_own F h' (x\<lparr>xc_prompts := t'\<rparr>) (?up cap) \<and> same_on F h h')"
      by (rule context_add [OF o, of "[xc_tools x, xc_resources x, xc_templates x]" _ _ "[map (tool_strings \<circ> te_tool) (mc_tools ctx), map (resource_strings \<circ> re_resource) (mc_resources ctx), map template_strings (mc_resource_templates ctx)]"])
         (use t c o in \<open>auto simp: tables_def ctx_values_def copies_strings context_own_def\<close>)
    with t c o show ?thesis by (auto split: sum.splits)
  qed
qed

section \<open>Clearing and destroying\<close>

lemma clear_first:
  assumes "tables_own F h (t # ts) (vs # vss)"
  shows "\<exists>h1. table_clear t h = Some (no_table, h1) \<and> tables_own F h1 ts vss \<and> same_on F h h1"
proof -
  let ?h = "drop_blocks (set (table_foot h t)) h"
  have o: "table_own h t vs" "list_all2 (table_own h) ts vss" "heap_ok h" "distinct (tables_foot h ts)"
    "set (table_foot h t) \<inter> (F \<union> set (tables_foot h ts)) = {}" "F \<inter> set (tables_foot h ts) = {}"
    "live h = F \<union> set (table_foot h t) \<union> set (tables_foot h ts)"
    using assms by (auto simp: tables_own_def)
  have s: "same_on (F \<union> set (tables_foot h ts)) h ?h" using o(5) by auto
  from tables_own_same [OF o(2) s] have f: "list_all2 (table_own ?h) ts vss" "tables_foot ?h ts = tables_foot h ts" by auto
  have "tables_own F ?h ts vss" unfolding tables_own_def f live_drop using f(1) o(3-7) by auto
  with table_clear_exact [OF o(1)] same_on_mono [OF s, of F] show ?thesis by auto
qed

lemma mcp_clear_heap:
  assumes o: "context_own F h x ctx"
  shows "\<exists>x' h'. heap_mcp_clear (Some x) h = Some (Some x', h') \<and> heap_ok h' \<and> live h' = F \<and> same_on F h h' \<and>
    tables x' = [no_table, no_table, no_table, no_table]"
proof -
  let ?F = "F \<union> names x"
  have "tables_own ?F h (tables x) (ctx_values ctx)" and n: "names_own h x ctx" "F \<inter> names x = {}"
    using o by (simp_all add: context_own_def)
  then obtain h1 where h1: "table_clear (xc_tools x) h = Some (no_table, h1)" "same_on ?F h h1"
    "tables_own ?F h1 [xc_resources x, xc_templates x, xc_prompts x] (tl (ctx_values ctx))"
    using clear_first [of ?F h "xc_tools x"] by (fastforce simp: tables_def ctx_values_def simp del: blocks.simps)
  then obtain h2 where h2: "table_clear (xc_resources x) h1 = Some (no_table, h2)" "same_on ?F h1 h2"
    "tables_own ?F h2 [xc_templates x, xc_prompts x] (tl (tl (ctx_values ctx)))"
    using clear_first [of ?F h1 "xc_resources x"] by (fastforce simp: ctx_values_def simp del: blocks.simps)
  then obtain h3 where h3: "table_clear (xc_templates x) h2 = Some (no_table, h3)" "same_on ?F h2 h3"
    "tables_own ?F h3 [xc_prompts x] (tl (tl (tl (ctx_values ctx))))"
    using clear_first [of ?F h2 "xc_templates x"] by (fastforce simp: ctx_values_def simp del: blocks.simps)
  then obtain h4 where h4: "table_clear (xc_prompts x) h3 = Some (no_table, h4)" "same_on ?F h3 h4" "tables_own ?F h4 [] []"
    using clear_first [of ?F h3 "xc_prompts x"] by (fastforce simp: ctx_values_def simp del: blocks.simps)
  have s: "same_on ?F h h4" by (rule same_on_trans [OF same_on_trans [OF h1(2) h2(2)] same_on_trans [OF h3(2) h4(2)]])
  have l4: "live h4 = ?F" "heap_ok h4" using h4(3) by (simp_all add: tables_own_def)
  have "names_own h4 x ctx" using names_own_same [OF n(1) s] by blast
  then have b: "bases [xc_server_name x, xc_server_version x] \<and> names x \<subseteq> live h4" "distinct (blocks [xc_server_name x, xc_server_version x])"
    by (auto simp: names_own_def intro!: read_all_live simp del: blocks.simps)
  then have f: "free_all [xc_server_name x, xc_server_version x] h4 = Some (drop_blocks (names x) h4)" using free_all_ok by blast
  have l5: "live (drop_blocks (names x) h4) = F" unfolding live_drop l4(1) using n(2) by blast
  have "same_on F h4 (drop_blocks (names x) h4)" using n(2) by (auto simp del: blocks.simps)
  with s have "same_on F h (drop_blocks (names x) h4)" by (meson same_on_mono same_on_trans sup_ge1)
  moreover have "heap_mcp_clear (Some x) h = Some (Some (x\<lparr>xc_tools := no_table, xc_resources := no_table, xc_templates := no_table,
      xc_prompts := no_table, xc_server_name := None, xc_server_version := None\<rparr>), drop_blocks (names x) h4)"
    using h1(1) h2(1) h3(1) h4(1) f by (simp del: free_all.simps blocks.simps)
  ultimately show ?thesis using l4(2) l5 by (auto simp: tables_def simp del: blocks.simps)
qed

section \<open>Creating\<close>

text \<open>The blocks of a creation, in the order of the allocations that succeed.\<close>

lemma empty_table_own:
  assumes "hp_block h b = Some (Structs (replicate n e))"
  shows "table_own h (new_table n (Some (b, 0))) []" "table_foot h (new_table n (Some (b, 0))) = [b]"
  using assms by (auto simp: table_own_def table_foot_def new_table_def)

text \<open>The block and the two strings that come first.\<close>

lemma mcp_create_start:
  assumes "heap_ok h" "mem E 0"
  shows "\<exists>sn sv h0 h1 h2. hp_alloc (mem E 0) (Structs [[]]) h = (Some (hp_next h, 0), h0) \<and>
    dup_text (mem E 1) (cf_server_name config) h0 = (sn, h1) \<and> dup_text (mem E 2) (cf_server_version config) h1 = (sv, h2) \<and>
    grows h [Some (hp_next h, 0), sn, sv] h2 \<and> read_text h2 sn = Some (strdup_safe E 1 (cf_server_name config)) \<and>
    read_text h2 sv = Some (strdup_safe E 2 (cf_server_version config))"
proof -
  obtain h0 where a: "hp_alloc True (Structs [[]]) h = (Some (hp_next h, 0), h0)" by (simp add: hp_alloc_def)
  obtain sn h1 where n: "dup_text (mem E 1) (cf_server_name config) h0 = (sn, h1)" by (meson surj_pair)
  obtain sv h2 where v: "dup_text (mem E 2) (cf_server_version config) h1 = (sv, h2)" by (meson surj_pair)
  note ga = grows_alloc [OF assms(1) a]
  note gn = grows_dup [OF grows_ok [OF ga] n]
  note gv = grows_dup [OF grows_ok [OF gn(1)] v]
  have "grows h [Some (hp_next h, 0), sn, sv] h2" using grows_trans [OF grows_trans [OF ga gn(1)] gv(1)] by simp
  moreover have "read_text h2 sn = Some (strdup_safe E 1 (cf_server_name config))"
    using grows_read [OF gv(1) gn(2)] by (cases "cf_server_name config") (auto simp: strdup_def)
  moreover have "read_text h2 sv = Some (strdup_safe E 2 (cf_server_version config))"
    using gv(2) by (cases "cf_server_version config") (auto simp: strdup_def)
  ultimately show ?thesis using a n v assms(2) by auto
qed

text \<open>All allocations of a creation, as if none of them ended it.\<close>

lemma mcp_create_chain:
  assumes "heap_ok h" "mem E 0"
  obtains sn sv t r u p h0 h1 h2 h3 h4 h5 h6 where
    "hp_alloc (mem E 0) (Structs [[]]) h = (Some (hp_next h, 0), h0)" "dup_text (mem E 1) (cf_server_name config) h0 = (sn, h1)"
    "dup_text (mem E 2) (cf_server_version config) h1 = (sv, h2)"
    "hp_alloc (mem E 3) (Structs (replicate 32 [None, None, None])) h2 = (t, h3)"
    "hp_alloc (mem E 4) (Structs (replicate 16 [None, None, None, None])) h3 = (r, h4)"
    "hp_alloc (mem E 5) (Structs (replicate 16 [None, None, None, None])) h4 = (u, h5)"
    "hp_alloc (mem E 6) (Structs (replicate 16 [None, None, None])) h5 = (p, h6)"
    "grows h [Some (hp_next h, 0), sn, sv] h2" "grows h2 [t] h3" "grows h3 [r] h4" "grows h4 [u] h5" "grows h5 [p] h6"
    "read_text h2 sn = Some (strdup_safe E 1 (cf_server_name config))" "read_text h2 sv = Some (strdup_safe E 2 (cf_server_version config))"
proof -
  from mcp_create_start [OF assms, of config] obtain sn sv h0 h1 h2 where
    st: "hp_alloc (mem E 0) (Structs [[]]) h = (Some (hp_next h, 0), h0)" "dup_text (mem E 1) (cf_server_name config) h0 = (sn, h1)"
      "dup_text (mem E 2) (cf_server_version config) h1 = (sv, h2)" "grows h [Some (hp_next h, 0), sn, sv] h2"
      "read_text h2 sn = Some (strdup_safe E 1 (cf_server_name config))" "read_text h2 sv = Some (strdup_safe E 2 (cf_server_version config))"
    by blast
  obtain t h3 where t: "hp_alloc (mem E 3) (Structs (replicate 32 [None, None, None])) h2 = (t, h3)" by (meson surj_pair)
  note gt = grows_alloc [OF grows_ok [OF st(4)] t]
  obtain r h4 where r: "hp_alloc (mem E 4) (Structs (replicate 16 [None, None, None, None])) h3 = (r, h4)" by (meson surj_pair)
  note gr = grows_alloc [OF grows_ok [OF gt] r]
  obtain u h5 where u: "hp_alloc (mem E 5) (Structs (replicate 16 [None, None, None, None])) h4 = (u, h5)" by (meson surj_pair)
  note gu = grows_alloc [OF grows_ok [OF gr] u]
  obtain p h6 where p: "hp_alloc (mem E 6) (Structs (replicate 16 [None, None, None])) h5 = (p, h6)" by (meson surj_pair)
  note gp = grows_alloc [OF grows_ok [OF gu] p]
  show ?thesis by (rule that [OF st(1-3) t r u p st(4) gt gr gu gp st(5,6)])
qed

lemma alloc_result: "hp_alloc ok x h = (p, h') \<Longrightarrow> (p = None \<longleftrightarrow> \<not> ok) \<and> (ok \<longrightarrow> p = Some (hp_next h, 0) \<and> hp_block h' (hp_next h) = Some x)"
  by (auto simp: hp_alloc_def split: if_splits)

lemma names_left:
  assumes g: "grows h (c # sn # sv # ts) h1" and r: "read_text h1 sn = Some n" "read_text h1 sv = Some v"
  shows "\<exists>h'. free_all (rev ts @ [c]) h1 = Some h' \<and> grows h [sn, sv] h' \<and> read_text h' sn = Some n \<and> read_text h' sv = Some v"
proof -
  let ?rs = "rev ts @ [c]"
  have b: "blocks (c # sn # sv # ts) = blocks [c] @ blocks [sn, sv] @ blocks ts" "blocks ?rs = rev (blocks ts) @ blocks [c]"
    using block_list_append [of "[c]" "[sn, sv] @ ts"] block_list_append [of "[sn, sv]" ts] by (auto simp: blocks_rev)
  have d: "distinct (blocks [c] @ blocks [sn, sv] @ blocks ts)" "bases [sn, sv]" "bases ?rs"
    using g b(1) unfolding grows_def by (auto simp: bases_def simp del: blocks.simps)
  have q: "set (blocks [sn, sv]) = set (blocks (c # sn # sv # ts)) - set (blocks ?rs)"
    using d(1) unfolding b by (auto simp del: blocks.simps)
  from grows_free_some [OF g _ d(3) _ _ d(2) q] d(1) obtain h' where
    h': "free_all ?rs h1 = Some h'" "grows h [sn, sv] h'" "same_on (set (blocks [sn, sv])) h1 h'"
    unfolding b by (auto simp del: blocks.simps)
  have "read_text h' z = read_text h1 z" if "z \<in> set [sn, sv]" for z by (rule read_text_same [OF h'(3) blocks_member [OF that]])
  with h'(1,2) r show ?thesis by auto
qed

text \<open>
  A context that cannot be created completely leaks. When the structure is allocated but one
  of the four tables is not, \<open>mcp_v1_context_create\<close> frees the tables made so far and the structure
  and returns NULL, but not the copies of the server's name and version: after the call they are
  still live, and nothing points to them.
\<close>

theorem mcp_create_leaks:
  assumes "heap_ok h" "mem E 0" "\<not> (mem E 3 \<and> mem E 4 \<and> mem E 5 \<and> mem E 6)"
  shows "\<exists>sn sv h'. heap_mcp_create E (Some config) h = Some (None, h') \<and> grows h [sn, sv] h' \<and>
    read_text h' sn = Some (strdup_safe E 1 (cf_server_name config)) \<and>
    read_text h' sv = Some (strdup_safe E 2 (cf_server_version config))"
proof -
  obtain sn sv t r u p h0 h1 h2 h3 h4 h5 h6 where c:
    "hp_alloc (mem E 0) (Structs [[]]) h = (Some (hp_next h, 0), h0)" "dup_text (mem E 1) (cf_server_name config) h0 = (sn, h1)"
    "dup_text (mem E 2) (cf_server_version config) h1 = (sv, h2)"
    "hp_alloc (mem E 3) (Structs (replicate 32 [None, None, None])) h2 = (t, h3)"
    "hp_alloc (mem E 4) (Structs (replicate 16 [None, None, None, None])) h3 = (r, h4)"
    "hp_alloc (mem E 5) (Structs (replicate 16 [None, None, None, None])) h4 = (u, h5)"
    "hp_alloc (mem E 6) (Structs (replicate 16 [None, None, None])) h5 = (p, h6)"
    "grows h [Some (hp_next h, 0), sn, sv] h2" "grows h2 [t] h3" "grows h3 [r] h4" "grows h4 [u] h5" "grows h5 [p] h6"
    "read_text h2 sn = Some (strdup_safe E 1 (cf_server_name config))" "read_text h2 sv = Some (strdup_safe E 2 (cf_server_version config))"
    by (rule mcp_create_chain [OF assms(1,2), where config = config])
  note g3 = grows_trans [OF c(8,9)] and n3 = grows_read [OF c(9) c(13)] grows_read [OF c(9) c(14)]
  note g4 = grows_trans [OF g3 c(10)] and n4 = grows_read [OF c(10) n3(1)] grows_read [OF c(10) n3(2)]
  note g5 = grows_trans [OF g4 c(11)] and n5 = grows_read [OF c(11) n4(1)] grows_read [OF c(11) n4(2)]
  note g6 = grows_trans [OF g5 c(12)] and n6 = grows_read [OF c(12) n5(1)] grows_read [OF c(12) n5(2)]
  note left = names_left [OF g3 [simplified append_Cons append_Nil] n3] names_left [OF g4 [simplified append_Cons append_Nil] n4]
    names_left [OF g5 [simplified append_Cons append_Nil] n5] names_left [OF g6 [simplified append_Cons append_Nil] n6]
  consider "t = None" | "t \<noteq> None" "r = None" | "t \<noteq> None" "r \<noteq> None" "u = None"
    | "t \<noteq> None" "r \<noteq> None" "u \<noteq> None" "p = None"
    using assms(3) alloc_result [OF c(4)] alloc_result [OF c(5)] alloc_result [OF c(6)] alloc_result [OF c(7)] by blast
  then show ?thesis
    by cases (use left c(1-7) in \<open>intro exI [of _ sn] exI [of _ sv]; auto simp del: free_all.simps\<close>)+
qed

section \<open>The life of a context\<close>

datatype 'w mcp_call =
    RegTool env "mcp_tool option" "'w mcp_tool_handler option" "ptr option"
  | RegResource env "mcp_resource option" "'w mcp_resource_handler option" "ptr option"
  | RegTemplate env "mcp_resource_template option"
  | RegPrompt env "mcp_prompt option" "'w mcp_prompt_handler option" "ptr option"

fun register_heap :: "'w mcp_call \<Rightarrow> context_cell \<Rightarrow> mcp_heap \<Rightarrow> (int \<times> context_cell option \<times> mcp_heap) option" where
  "register_heap (RegTool E t f ud) x h = heap_register_tool E (Some x) t h"
| "register_heap (RegResource E r f ud) x h = heap_register_resource E (Some x) r h"
| "register_heap (RegTemplate E t) x h = heap_register_template E (Some x) t h"
| "register_heap (RegPrompt E p f ud) x h = heap_register_prompt E (Some x) p h"

fun register_value :: "'w mcp_call \<Rightarrow> 'w mcp_context \<Rightarrow> (int \<times> 'w mcp_context option) option" where
  "register_value (RegTool E t f ud) ctx = mcp_v1_register_tool E (Some ctx) t f ud"
| "register_value (RegResource E r f ud) ctx = mcp_v1_register_resource E (Some ctx) r f ud"
| "register_value (RegTemplate E t) ctx = mcp_v1_register_resource_template E (Some ctx) t"
| "register_value (RegPrompt E p f ud) ctx = mcp_v1_register_prompt E (Some ctx) p f ud"

fun heap_registers :: "'w mcp_call list \<Rightarrow> context_cell \<Rightarrow> mcp_heap \<Rightarrow> (int list \<times> context_cell \<times> mcp_heap) option" where
  "heap_registers [] x h = Some ([], x, h)"
| "heap_registers (q # qs) x h = (case register_heap q x h of
     Some (rc, Some x1, h1) \<Rightarrow> map_option (\<lambda>(rcs, s). (rc # rcs, s)) (heap_registers qs x1 h1) | _ \<Rightarrow> None)"

fun value_registers :: "'w mcp_call list \<Rightarrow> 'w mcp_context \<Rightarrow> (int list \<times> 'w mcp_context) option" where
  "value_registers [] ctx = Some ([], ctx)"
| "value_registers (q # qs) ctx = (case register_value q ctx of
     Some (rc, Some c1) \<Rightarrow> map_option (\<lambda>(rcs, s). (rc # rcs, s)) (value_registers qs c1) | _ \<Rightarrow> None)"

lemma mcp_register_own:
  assumes "context_own F h x ctx"
  shows "\<exists>rc x' h' ctx'. register_heap q x h = Some (rc, Some x', h') \<and> register_value q ctx = Some (rc, Some ctx') \<and>
    context_own F h' x' ctx' \<and> same_on F h h'"
proof (cases q)
  case (RegTool E t f ud)
  with register_tool_heap [OF assms, of E t f ud] show ?thesis by simp
next
  case (RegResource E r f ud)
  with register_resource_heap [OF assms, of E r f ud] show ?thesis by simp
next
  case (RegTemplate E t)
  with register_template_heap [OF assms, of E t] show ?thesis by simp
next
  case (RegPrompt E p f ud)
  with register_prompt_heap [OF assms, of E p f ud] show ?thesis by simp
qed

lemma registers_own:
  "context_own F h x ctx \<Longrightarrow> \<exists>rcs x' h' ctx'. heap_registers qs x h = Some (rcs, x', h') \<and>
     value_registers qs ctx = Some (rcs, ctx') \<and> context_own F h' x' ctx' \<and> same_on F h h'"
proof (induction qs arbitrary: h x ctx)
  case (Cons q qs)
  from mcp_register_own [OF Cons.prems, of q] obtain rc x1 h1 c1 where
    r: "register_heap q x h = Some (rc, Some x1, h1)" "register_value q ctx = Some (rc, Some c1)" "context_own F h1 x1 c1" "same_on F h h1"
    by blast
  from Cons.IH [OF r(3)] r same_on_trans [OF r(4)] show ?case by fastforce
qed simp

text \<open>The four empty tables in the final heap.\<close>

lemma mcp_create_tables:
  assumes "mem E 3" "mem E 4" "mem E 5" "mem E 6"
    "hp_alloc (mem E 3) (Structs (replicate 32 [None, None, None])) h2 = (t, h3)"
    "hp_alloc (mem E 4) (Structs (replicate 16 [None, None, None, None])) h3 = (r, h4)"
    "hp_alloc (mem E 5) (Structs (replicate 16 [None, None, None, None])) h4 = (u, h5)"
    "hp_alloc (mem E 6) (Structs (replicate 16 [None, None, None])) h5 = (p, h6)"
    "grows h3 [r] h4" "grows h4 [u] h5" "grows h5 [p] h6"
  shows "list_all2 (table_own h6) [new_table 32 t, new_table 16 r, new_table 16 u, new_table 16 p] [[], [], [], []]"
    "tables_foot h6 [new_table 32 t, new_table 16 r, new_table 16 u, new_table 16 p] = blocks [t, r, u, p]"
    "t \<noteq> None" "r \<noteq> None" "u \<noteq> None" "p \<noteq> None"
proof -
  have keep: "hp_block h3 b = Some y \<Longrightarrow> hp_block h6 b = Some y" "hp_block h4 b = Some y \<Longrightarrow> hp_block h6 b = Some y"
    "hp_block h5 b = Some y \<Longrightarrow> hp_block h6 b = Some y" for b y
    using grows_trans [OF assms(9) grows_trans [OF assms(10,11)]] grows_trans [OF assms(10,11)] assms(11)
    unfolding grows_def same_on_def by (metis domI)+
  have a: "t = Some (hp_next h2, 0)" "hp_block h3 (hp_next h2) = Some (Structs (replicate 32 [None, None, None]))"
    "r = Some (hp_next h3, 0)" "hp_block h4 (hp_next h3) = Some (Structs (replicate 16 [None, None, None, None]))"
    "u = Some (hp_next h4, 0)" "hp_block h5 (hp_next h4) = Some (Structs (replicate 16 [None, None, None, None]))"
    "p = Some (hp_next h5, 0)" "hp_block h6 (hp_next h5) = Some (Structs (replicate 16 [None, None, None]))"
    using assms(1-8) alloc_result by blast+
  note own = empty_table_own [OF keep(1) [OF a(2)]] empty_table_own [OF keep(2) [OF a(4)]] empty_table_own [OF keep(3) [OF a(6)]]
    empty_table_own [OF a(8)]
  show "list_all2 (table_own h6) [new_table 32 t, new_table 16 r, new_table 16 u, new_table 16 p] [[], [], [], []]"
    "tables_foot h6 [new_table 32 t, new_table 16 r, new_table 16 u, new_table 16 p] = blocks [t, r, u, p]"
    "t \<noteq> None" "r \<noteq> None" "u \<noteq> None" "p \<noteq> None" using own a by simp_all
qed

lemma mcp_create_own:
  assumes "heap_ok h" "\<forall>i \<in> {0, 3, 4, 5, 6}. mem E i"
    and cr: "mcp_v1_context_create E (Some config) = Some (ctx :: 'w mcp_context)"
  shows "\<exists>x h'. heap_mcp_create E (Some config) h = Some (Some ((hp_next h, 0), x), h') \<and>
    context_own (insert (hp_next h) (live h)) h' x ctx \<and> same_on (live h) h h'"
proof -
  have m: "mem E 0" "mem E 3" "mem E 4" "mem E 5" "mem E 6" using assms(2) by auto
  obtain sn sv t r u p h0 h1 h2 h3 h4 h5 h6 where c:
    "hp_alloc (mem E 0) (Structs [[]]) h = (Some (hp_next h, 0), h0)" "dup_text (mem E 1) (cf_server_name config) h0 = (sn, h1)"
    "dup_text (mem E 2) (cf_server_version config) h1 = (sv, h2)"
    "hp_alloc (mem E 3) (Structs (replicate 32 [None, None, None])) h2 = (t, h3)"
    "hp_alloc (mem E 4) (Structs (replicate 16 [None, None, None, None])) h3 = (r, h4)"
    "hp_alloc (mem E 5) (Structs (replicate 16 [None, None, None, None])) h4 = (u, h5)"
    "hp_alloc (mem E 6) (Structs (replicate 16 [None, None, None])) h5 = (p, h6)"
    "grows h [Some (hp_next h, 0), sn, sv] h2" "grows h2 [t] h3" "grows h3 [r] h4" "grows h4 [u] h5" "grows h5 [p] h6"
    "read_text h2 sn = Some (strdup_safe E 1 (cf_server_name config))" "read_text h2 sv = Some (strdup_safe E 2 (cf_server_version config))"
    by (rule mcp_create_chain [OF assms(1) m(1), where config = config])
  note T = mcp_create_tables [OF m(2-5) c(4-7,10-12)]
  let ?x = "\<lparr>xc_tools = new_table 32 t, xc_resources = new_table 16 r, xc_templates = new_table 16 u,
    xc_prompts = new_table 16 p, xc_server_name = sn, xc_server_version = sv,
    xc_max_tools = cf_max_tools config, xc_max_resources = cf_max_resources config\<rparr>"
  let ?F = "insert (hp_next h) (live h)"
  note g = grows_trans [OF grows_trans [OF c(9,10)] grows_trans [OF c(11,12)]]
  note names = grows_read [OF g c(13)] grows_read [OF g c(14)]
  have b: "blocks ([Some (hp_next h, 0), sn, sv] @ ([t] @ [r]) @ [u] @ [p]) = hp_next h # blocks [sn, sv] @ blocks [t, r, u, p]"
    using block_list_append [of "[sn, sv]" "[t, r, u, p]"] by simp
  have l: "live h6 = live h \<union> set (hp_next h # blocks [sn, sv] @ blocks [t, r, u, p])"
    "set (hp_next h # blocks [sn, sv] @ blocks [t, r, u, p]) \<inter> live h = {}"
    "distinct (hp_next h # blocks [sn, sv] @ blocks [t, r, u, p])" "heap_ok h6" "same_on (live h) h h6"
    using grows_trans [OF c(8) g] unfolding grows_def b by blast+
  have v: "ctx_values ctx = [[], [], [], []]" and cx: "ctx = zero_context\<lparr>mc_config := config\<lparr>cf_server_name := strdup_safe E 1 (cf_server_name config),
      cf_server_version := strdup_safe E 2 (cf_server_version config)\<rparr>, mc_tool_capacity := 32, mc_resource_capacity := 16,
      mc_template_capacity := 16, mc_prompt_capacity := 16, mc_log_level := MCP_LOG_INFO, mc_request_counter := 0\<rparr>"
    using cr by (auto simp: ctx_values_def zero_context_def split: if_splits)
  have "tables_own (?F \<union> names ?x) h6 (tables ?x) (ctx_values ctx)"
    unfolding tables_own_def tables_def context_cell.simps T(2) v using T(1) l by (auto simp del: blocks.simps)
  moreover have "names_own h6 ?x ctx" using names l(3) by (simp add: names_own_def cx del: blocks.simps)
  moreover have "?F \<inter> names ?x = {}" using l(2,3) by (auto simp del: blocks.simps)
  ultimately have "context_own ?F h6 ?x ctx" by (simp add: context_own_def tables_def new_table_def cx del: blocks.simps)
  moreover have "heap_mcp_create E (Some config) h = Some (Some ((hp_next h, 0), ?x), h6)" using c(1-7) m T(3-6) by auto
  ultimately show ?thesis using l(5) by blast
qed

text \<open>
  C14: the memory of an MCP context. Create a context, register any tools, resources, templates and
  prompts with any pattern of allocation failures, so that tables grow and move, and destroy it: no call
  touches a block that is gone, the calls return the codes of the model and the tables hold
  its strings, and after the destruction every block of the heap is as it was before the creation.
\<close>

theorem mcp_memory_exact:
  fixes qs :: "'w mcp_call list"
  assumes "heap_ok h" "mcp_v1_context_create E (Some config) = Some (ctx :: 'w mcp_context)"
  shows "\<exists>c x h1 rcs x' h2 ctx' h3. heap_mcp_create E (Some config) h = Some (Some (c, x), h1) \<and>
    heap_registers qs x h1 = Some (rcs, x', h2) \<and> value_registers qs ctx = Some (rcs, ctx') \<and>
    list_all2 (table_own h2) (tables x') (ctx_values ctx') \<and>
    heap_mcp_destroy (Some (c, x')) h2 = Some h3 \<and> hp_block h3 = hp_block h"
proof -
  have "\<forall>i \<in> {0, 3, 4, 5, 6}. mem E i" using assms(2) by (auto split: if_splits)
  from mcp_create_own [OF assms(1) this assms(2)] obtain x h1 where
    c: "heap_mcp_create E (Some config) h = Some (Some ((hp_next h, 0), x), h1)" "context_own (insert (hp_next h) (live h)) h1 x ctx"
      "same_on (live h) h h1" by blast
  let ?F = "insert (hp_next h) (live h)"
  from registers_own [OF c(2), of qs] obtain rcs x' h2 ctx' where
    r: "heap_registers qs x h1 = Some (rcs, x', h2)" "value_registers qs ctx = Some (rcs, ctx')" "context_own ?F h2 x' ctx'" "same_on ?F h1 h2"
    by blast
  from mcp_clear_heap [OF r(3)] obtain y h3 where
    d: "heap_mcp_clear (Some x') h2 = Some (Some y, h3)" "live h3 = ?F" "same_on ?F h2 h3" by blast
  have s: "same_on (live h) h h3" by (rule same_on_trans [OF c(3)], rule same_on_mono [OF same_on_trans [OF r(4) d(3)]]) blast
  have "hp_next h \<in> live h3" using d(2) by blast
  then have f: "hp_free (Some (hp_next h, 0)) h3 = Some (drop_blocks {hp_next h} h3)" by simp
  have "hp_block (drop_blocks {hp_next h} h3) b = hp_block h b" for b
    using s d(2) fresh_dead [OF assms(1)] by (cases "b \<in> live h") (auto simp: same_on_def)
  moreover have "heap_mcp_destroy (Some ((hp_next h, 0), x')) h2 = Some (drop_blocks {hp_next h} h3)"
    using d(1) f by (simp del: heap_mcp_clear.simps)
  moreover have "list_all2 (table_own h2) (tables x') (ctx_values ctx')" using r(3) by (simp add: context_own_def tables_own_def)
  ultimately show ?thesis using c(1) r(1,2) by blast
qed

theorem mcp_memory_exact_witness:
  "\<exists>c x h1 rcs x' h2 h3. heap_mcp_create env0 (Some mcp_v1_config_default) heap0 = Some (Some (c, x), h1) \<and>
    heap_registers [RegTool env0 (Some \<lparr>tl_name = Some ''echo'', tl_description = None, tl_input_schema_json = Some ''{}'',
      tl_required_caps = 0\<rparr>) None None :: unit mcp_call] x h1 = Some (rcs, x', h2) \<and>
    heap_mcp_destroy (Some (c, x')) h2 = Some h3 \<and> hp_block h3 = hp_block (heap0 :: mcp_heap)"
proof -
  have "mcp_v1_context_create env0 (Some mcp_v1_config_default) = Some (fresh_mcp :: unit mcp_context)" by (rule fresh_mcp_create)
  from mcp_memory_exact [OF heap0_ok(1) this, of "[RegTool env0 (Some \<lparr>tl_name = Some ''echo'', tl_description = None,
    tl_input_schema_json = Some ''{}'', tl_required_caps = 0\<rparr>) None None]"] show ?thesis by blast
qed

theorem mcp_create_leaks_witness:
  "\<exists>sn sv h'. heap_mcp_create (env0\<lparr>mem := \<lambda>i. i \<noteq> 6\<rparr>) (Some mcp_v1_config_default) heap0 = Some (None, h') \<and>
    grows (heap0 :: mcp_heap) [sn, sv] h' \<and> read_text h' sn = Some (Some ''AgentRT MCP Server'')"
proof -
  let ?E = "env0\<lparr>mem := \<lambda>i. i \<noteq> 6\<rparr>"
  have "strdup_safe ?E 1 (cf_server_name mcp_v1_config_default) = Some ''AgentRT MCP Server''"
    by (simp add: mcp_v1_config_default_def strdup_safe_def strdup_def)
  with mcp_create_leaks [OF heap0_ok(1), of ?E mcp_v1_config_default] show ?thesis by auto
qed

section \<open>Results of handlers\<close>

text \<open>
  The release functions free each string of the content once and then the arrays. The messages
  of a sampling result are not among what is freed.
\<close>

lemma content_destroy_exact:
  assumes "entries_at p h = Some es" "n \<le> length es" "free_all (concat (take n es) @ [p]) h = Some h'"
  shows "heap_content_destroy p n h = Some h'"
proof (cases p)
  case None
  then show ?thesis using assms by (auto simp: entries_at_def)
next
  case (Some a)
  with assms show ?thesis by (auto simp: free_all_append split: bind_splits)
qed

lemma entries_at_drop: "set (blocks [p]) \<inter> S = {} \<Longrightarrow> entries_at p (drop_blocks S h) = entries_at p h"
  by (auto simp: entries_at_def split: option.splits)

lemma sampling_destroy_exact:
  assumes "entries_at (sx_content r) h = Some es" "sx_content_count r \<le> length es"
    and f: "free_all ([sx_model r, sx_stop_reason r] @ concat (take (sx_content_count r) es) @ [sx_content r]) h = Some h'"
  shows "mcp_sampling_result_destroy (Some r) h = Some h'"
    "sx_messages r = Some a \<Longrightarrow> hp_block h (fst a) = Some x \<Longrightarrow>
     fst a \<notin> set (blocks ([sx_model r, sx_stop_reason r] @ concat (take (sx_content_count r) es) @ [sx_content r])) \<Longrightarrow>
     hp_block h' (fst a) = Some x"
proof -
  let ?n = "[sx_model r, sx_stop_reason r]" and ?c = "concat (take (sx_content_count r) es) @ [sx_content r]"
  from f obtain h1 where h1: "free_all ?n h = Some h1" "free_all ?c h1 = Some h'"
    unfolding free_all_append [of ?n] by (auto split: bind_splits simp del: free_all.simps)
  have "set (blocks [sx_content r]) \<inter> set (blocks ?n) = {}"
    using f unfolding free_all_iff block_list_append by (auto simp del: blocks.simps)
  then have "entries_at (sx_content r) h1 = Some es"
    using h1(1) assms(1) entries_at_drop unfolding free_all_iff by metis
  from content_destroy_exact [OF this assms(2) h1(2)] h1(1) show "mcp_sampling_result_destroy (Some r) h = Some h'"
    by (simp del: free_all.simps)
  show "hp_block h' (fst a) = Some x" if "sx_messages r = Some a" "hp_block h (fst a) = Some x"
    "fst a \<notin> set (blocks ([sx_model r, sx_stop_reason r] @ ?c))"
    using f that(2,3) unfolding free_all_iff by (simp del: blocks.simps)
qed

lemma completion_destroy_exact:
  assumes "pointers_of p h = Some ps" "n \<le> length ps" "free_all (take n ps @ [p]) h = Some h'"
  shows "mcp_completion_result_destroy (Some (p, n)) h = Some h'"
  using assms by (auto simp: free_all_append split: bind_splits)

end
