(* ===== verification/Spec2Isabelle.thy ===== *)
theory Spec2Isabelle
  imports Protocol_Registry Protocol_Catalog Protocol_Transformers A2a_Auth A2a_Route Mcp_Callbacks Mcp_Client Protocol_Detect
    Stack_Heap A2a_Release Mcp_Heap
begin

text \<open>
  A verification development of the AgentRT protocol library: the layer that carries agent
  messages between protocols. Paths below are relative to \<open>src/\<close>.

  \<^bold>\<open>The program.\<close> A unified message (\<open>common/src/unified_protocol.c\<close>) travels through a protocol
  stack whose adapters encode, send, receive and decode it; a manager keeps the stacks
  (\<open>common/src/protocols_impl.c\<close>). A registry (\<open>core/registry\<close>) records the protocols with their
  state, dependencies and statistics, a catalogue fills it at start-up, and an interface
  answers queries by name and type. Transformers (\<open>core/transformers\<close>) turn messages of one
  protocol into another, and a probe (\<open>core/router\<close>) classifies request bodies. Two standard
  adapters implement the stack's function table: A2A (\<open>standards/a2a\<close>: agents, tasks, messages,
  authentication, a JSON request router) and MCP (\<open>standards/mcp\<close>: tools, resources, prompts,
  streaming, a transport, and a client that talks to external servers over pipes and HTTP).

  \<^bold>\<open>The theories.\<close>
  \<^item> \<open>Airy_Prelude\<close>: error codes, the environment of a call, C strings and numbers,
    \<open>snprintf\<close> into bounded buffers, look-ups in arrays, and the locale of tables keyed by name.
  \<^item> \<open>Unified_Message\<close>: \<open>unified_message_t\<close>, validation, the JSON text (\<open>umsg_to_json\<close>) and the
    decoder (\<open>unified_decode.c\<close>).
  \<^item> \<open>Protocol_Registry\<close>, \<open>Protocol_Catalog\<close>: \<open>protocol_registry.c\<close>; the built-in table, the
    providers and \<open>airy_protocol_interface.c\<close>.
  \<^item> \<open>Protocol_Stack\<close>, \<open>Protocol_Transformers\<close>, \<open>Protocol_Detect\<close>: the stack and its manager; the
    transformers; the probe and the HTTP POST helper.
  \<^item> \<open>Sha256\<close>, \<open>A2a_Auth\<close>, \<open>A2a_Adapter\<close>, \<open>A2a_Route\<close>: the hash and the MAC; credentials, tokens,
    signatures and sessions; agents, tasks, messages and callbacks; the request router.
  \<^item> \<open>Json_Text\<close>, \<open>Cjson\<close>: the JSON string writer with a reference reader; the cJSON library as a
    parameter.
  \<^item> \<open>Mcp_Adapter\<close>, \<open>Mcp_Stream\<close>, \<open>Mcp_Transport\<close>, \<open>Mcp_Callbacks\<close>: the adapter's tables and
    handlers; event streams, sampling and logging; \<open>mcp_transport.c\<close>; the callbacks.
  \<^item> \<open>Mcp_Frame\<close>, \<open>Mcp_Client_Http\<close>, \<open>Mcp_Client\<close>: the client's frame parser and pipes; its HTTP
    exchange; its exchange of requests, handshake, tool calls and life cycle.
  \<^item> \<open>C_Heap\<close>, \<open>Stack_Heap\<close>, \<open>A2a_Heap\<close>, \<open>A2a_Release\<close>, \<open>Mcp_Heap\<close>: memory. A heap of blocks with
    allocation and release, where touching a dead block has no result; the protocol stack's linked
    list and the data of its messages; the A2A adapter's tasks and cards, and what callers give
    back; the MCP adapter's tables, results and the client's argument vector. Each operation is
    there once more on addresses, and is proved to act on them as the value model says.
  \<^item> This theory: the function tables of the A2A and MCP adapters as members of a protocol
    stack, the client's requests at the probe, and the client and the transport at the two
    ends of a pair of pipes.

  \<^bold>\<open>How code becomes definitions.\<close> A structure is a record, an enumeration a datatype or, where
  the code stores arbitrary numbers, a number; integers whose width matters are words. A
  function is a definition of the same name that takes the state it works on and returns it
  with the code, every early return being a branch. A pointer that may be NULL is an option,
  and so is an output parameter that may be absent. An array with a count is the list of its
  used slots together with its capacity. A handler is a function on a world type \<open>'w\<close> that
  stands for everything outside. Outside the memory theories strings and arrays are values. A result \<open>None\<close> around a whole call means, as each theory
  says, that the code reads or writes outside an object, calls through NULL, or has not
  returned because the operating system has not answered yet; the theorems that say a call
  returns state \<open>Some\<close>.

  Code outside the repository is a parameter. The environment \<open>env\<close> has the numbers of the error
  codes, whether each allocation of a call succeeds, and the readings of the clocks; \<open>codes_ok\<close>,
  \<open>strncpy_ok\<close> and \<open>mem_ok\<close> are the facts about it that theorems assume. The cJSON library is the
  record \<open>cjson\<close>, curl one \<open>curl_run\<close>. What \<open>poll\<close>, \<open>read\<close>, \<open>write\<close> and \<open>connect\<close> answer are lists of
  events that the loops consume, so that every interleaving of partial reads, interruptions
  and failures is some list. \<open>memcpy_ok\<close> is what \<open>memcpy\<close> promises of the copy in the
  frame parser, which may overlap; \<open>spaced\<close> says that it does not.

  \<^bold>\<open>What is shown.\<close> (The properties have the numbers C1, C2, and so on, in the theories.)
  \<^item> Data: the JSON form of MCP strings, lists and frames is read back as written, and lists and
    answers are complete when they fit; where they are cut or written outside is stated. The JSON
    form of a message gives its payload back up to the first quote, which it does not escape.
  \<^item> Registry, stack and catalogue: reachable states respect all array bounds; registration,
    activation, dependencies, heartbeats, sending and receiving behave as specified on
    every branch. A send succeeds exactly when each of its stages does, and a receive takes from
    the first adapter that has something.
  \<^item> A2A: SHA-256 and HMAC agree with reference definitions of the standards; authentication
    accepts exactly the right credential and locks out after repeated failures; agents and tasks
    behave as tables keyed by name; the tokens behave as lists of expiry times, also when logins
    share a text; every routed request keeps the adapter well formed and is answered, except for
    the two kinds for which the code goes wrong (\<open>goes_wrong\<close>: a state number outside the
    enumeration, and a reply of several messages); a task created over the wire can be read and
    cancelled over the wire.
  \<^item> MCP: calling a tool refines a look-up in the map of first registrations; tables never
    overflow while in use; a message sent over a pipe or cut into arbitrary reads arrives whole,
    at the client as long as \<open>spaced\<close> holds; the state of a transport is true; the first tool call
    of a client performs the handshake
    and returns the response with its own id; connecting and disconnecting leave no descriptor
    and no child behind.
  \<^item> Memory: through any sequence of calls and any pattern of failed allocations no operation of
    the stack, of the A2A adapter's tasks or of the MCP adapter's tables touches a dead block, the
    blocks hold the values of the model, and destruction gives back every block once. Where the
    code leaks, frees twice or reads freed memory, the theorem says exactly when.
  The contracts are locales, each interpreted on the definitions of the code: \<open>name_table\<close> of
  the prelude (the registry and the agents), \<open>wire_codec\<close> of \<open>Unified_Message\<close>, \<open>stream_hash\<close> of
  \<open>Sha256\<close>, \<open>item_format\<close> of \<open>Json_Text\<close> (the rows of the MCP lists), \<open>first_wins\<close> of \<open>Mcp_Adapter\<close>
  (tools, resources and prompts) and \<open>acquire_release\<close> of \<open>C_Heap\<close> (discovered cards, replies, the
  argument vector and transformation contexts).

  \<^bold>\<open>Bounds and fuel.\<close> No definition uses fuel. Loops over data are structural or have a measure;
  loops that wait for the outside consume events, and the waiting loop of the client, whose
  number of turns depends on the peer, is a partial function whose return is proved for a
  peer that answers. Walking a linked list in memory is a partial function too, and is proved to
  end on the lists the stack builds. Texts given to \<open>snprintf\<close> are shorter than \<open>2 ^ 31\<close>, texts are C strings
  without NUL where the code treats them so, and numbers that become doubles are below
  \<open>2 ^ 53\<close>.

  \<^bold>\<open>Not modelled.\<close> Logging and the error stack (\<open>airy_err_push_ex\<close>), which no result depends on;
  the release of temporary buffers inside one call outside the memory theories; the layout of
  structures in bytes; atomics and threads, which the code uses for flags only; the Windows
  branches; the test programs.
\<close>

section \<open>Requests by address\<close>

text \<open>
  The table's request callback is given the address of a unified message and returns the address
  of a text: the messages and texts in memory, and the next address that is not in use.
\<close>

record message_memory =
  mm_messages :: "ptr \<Rightarrow> unified_message option"
  mm_texts :: "ptr \<Rightarrow> cstring option"
  mm_next :: ptr

definition message_at :: "ptr option \<Rightarrow> message_memory \<Rightarrow> unified_message option" where
  "message_at r mm = (case r of None \<Rightarrow> None | Some q \<Rightarrow> mm_messages mm q)"

definition put_text :: "cstring option \<Rightarrow> message_memory \<Rightarrow> ptr option \<times> message_memory" where
  "put_text t mm = (case t of None \<Rightarrow> (None, mm)
     | Some x \<Rightarrow> (Some (mm_next mm), mm\<lparr>mm_texts := (mm_texts mm)(mm_next mm := Some x), mm_next := mm_next mm + 1\<rparr>))"

section \<open>The A2A adapter in a protocol stack\<close>

text \<open>
  Outside a stack, an A2A adapter lives in memory: contexts by address, the static card of
  \<open>a2a_v03_get_agent_card\<close>, and what the transports and handlers work on.
\<close>

record 'u a2a_world =
  aw_contexts :: "ptr \<Rightarrow> 'u a2a_adapter option"
  aw_cached :: a2a_agent_card
  aw_memory :: message_memory
  aw_outside :: 'u

definition context_at :: "ptr option \<Rightarrow> 'u a2a_world \<Rightarrow> 'u a2a_adapter option" where
  "context_at c w = (case c of None \<Rightarrow> None | Some q \<Rightarrow> aw_contexts w q)"

definition put_context :: "ptr option \<Rightarrow> 'u a2a_adapter option \<Rightarrow> 'u a2a_world \<Rightarrow> 'u a2a_world" where
  "put_context c a w = (case c of None \<Rightarrow> w | Some q \<Rightarrow> w\<lparr>aw_contexts := (aw_contexts w)(q := a)\<rparr>)"

text \<open>
  The callbacks on addresses. \<open>astray\<close> is what a callback leaves behind whose model has the result
  \<open>None\<close>.
\<close>

definition a2a_handle_at ::
  "env \<Rightarrow> cjson \<Rightarrow> ('u a2a_world \<Rightarrow> int \<times> 'u a2a_world) \<Rightarrow> ptr option \<Rightarrow> ptr option \<Rightarrow> 'u a2a_world \<Rightarrow> int \<times> ptr option \<times> 'u a2a_world" where
  "a2a_handle_at E C astray c r w =
    (case a2a_adapter_handle_request_cb E C (map_option (\<lambda>a. (a, aw_cached w, aw_outside w)) (context_at c w))
        (message_at r (aw_memory w)) True of
       None \<Rightarrow> (case astray w of (rc, w') \<Rightarrow> (rc, None, w'))
     | Some (rc, out, st) \<Rightarrow>
        (let w1 = (case st of None \<Rightarrow> w | Some (a, cached, u) \<Rightarrow> (put_context c (Some a) w)\<lparr>aw_cached := cached, aw_outside := u\<rparr>) in
         case put_text out (aw_memory w1) of (p, mm) \<Rightarrow> (rc, p, w1\<lparr>aw_memory := mm\<rparr>)))"

text \<open>
  The function table of the adapter. \<open>raw\<close> and \<open>unraw\<close> stand for the memory layout of a
  message, which the encoder reads as a C string and the decoder overwrites; \<open>ctx\<close> is the address
  of the adapter's own static context.
\<close>

definition a2a_v03_adapter_internal ::
  "env \<Rightarrow> cjson \<Rightarrow> (unified_message \<Rightarrow> cstring) \<Rightarrow> (char list \<Rightarrow> unified_message) \<Rightarrow>
   ('u a2a_world \<Rightarrow> int \<times> 'u a2a_world) \<Rightarrow> ptr \<Rightarrow> 'u a2a_world protocol_adapter" where
  "a2a_v03_adapter_internal E C raw unraw astray ctx =
    \<lparr>ad_type = AIRY_PROTOCOL_A2A, ad_name = Some ''A2A v0.3 Protocol Adapter'', ad_version = Some ''0.3.0'',
     ad_description = Some ''Agent-to-Agent Protocol v0.3 adapter'',
     ad_init = Some (\<lambda>c w. case a2a_adapter_init_cb E (context_at c w) of (rc, a) \<Rightarrow> (rc, put_context c a w)),
     ad_destroy = Some (\<lambda>c w. case a2a_adapter_destroy_cb (context_at c w) (aw_cached w) of
       (rc, a, card') \<Rightarrow> (rc, (put_context c a w)\<lparr>aw_cached := card'\<rparr>)),
     ad_encode = Some (\<lambda>c m w. case a2a_adapter_encode_cb E (c \<noteq> None) (Some (raw m)) True of
       (rc, out) \<Rightarrow> (rc, case out of None \<Rightarrow> (None, 0) | Some (d, s) \<Rightarrow> (Some d, s), w)),
     ad_decode = Some (\<lambda>c (d, s) m w. case a2a_adapter_decode_cb E (c \<noteq> None) d s (Some (raw m)) of
       (rc, out) \<Rightarrow> (rc, case out of None \<Rightarrow> m | Some bs \<Rightarrow> if rc = 0 then unraw bs else m, w)),
     ad_connect = Some (\<lambda>c e w. case a2a_adapter_connect_cb E (context_at c w) (Some e) of
       (rc, a) \<Rightarrow> (rc, put_context c a w)),
     ad_disconnect = Some (\<lambda>c w. case a2a_adapter_disconnect_cb E (context_at c w) of
       (rc, a) \<Rightarrow> (rc, put_context c a w)),
     ad_is_connected = Some (\<lambda>c w. (a2a_adapter_is_connected_cb (context_at c w), w)),
     ad_send = Some (\<lambda>c (d, s) w. case a2a_adapter_send_cb E (context_at c w) d s (aw_outside w) of
       (rc, a, u) \<Rightarrow> (rc, (put_context c a w)\<lparr>aw_outside := u\<rparr>)),
     ad_receive = Some (\<lambda>c t w. case a2a_adapter_receive_cb E (context_at c w) True t (aw_outside w) of
       (rc, data, a, u) \<Rightarrow> (rc, case data of None \<Rightarrow> (None, 0) | Some ds \<Rightarrow> ds,
          (put_context c a w)\<lparr>aw_outside := u\<rparr>)),
     ad_handle_request = Some (a2a_handle_at E C astray),
     ad_get_version = Some (\<lambda>c s w. case a2a_adapter_get_version_cb E True s of
       (rc, t) \<Rightarrow> (rc, case t of None \<Rightarrow> [] | Some v \<Rightarrow> v, w)),
     ad_capabilities = Some (\<lambda>c w. (a2a_adapter_capabilities_cb, w)),
     ad_get_stats = Some (\<lambda>c s w. case a2a_adapter_get_stats_cb E (context_at c w) True s of
       (rc, t) \<Rightarrow> (rc, case t of None \<Rightarrow> [] | Some v \<Rightarrow> v, w)),
     ad_context = Some ctx, ad_user_data = None\<rparr>"

lemma a2a_table [simp]:
  "ad_type (a2a_v03_adapter_internal E C raw unraw astray ctx) = AIRY_PROTOCOL_A2A"
  "ad_context (a2a_v03_adapter_internal E C raw unraw astray ctx) = Some ctx"
  "ad_init (a2a_v03_adapter_internal E C raw unraw astray ctx) =
    Some (\<lambda>c w. case a2a_adapter_init_cb E (context_at c w) of (rc, a) \<Rightarrow> (rc, put_context c a w))"
  by (simp_all add: a2a_v03_adapter_internal_def)

text \<open>The nodes of a stack have no context: registration never sets one.\<close>

definition no_contexts :: "'w protocol_stack \<Rightarrow> bool" where
  "no_contexts stack \<longleftrightarrow> list_all (\<lambda>n. nd_context n = None) (sk_adapters stack)"

lemma no_contexts_kept:
  "protocol_stack_create E config = Some stack \<Longrightarrow> no_contexts stack"
  "protocol_stack_register_adapter E (Some stack) ad w = (rc, Some stack', w') \<Longrightarrow> no_contexts stack \<Longrightarrow> no_contexts stack'"
  by (cases config; auto simp: no_contexts_def split: if_splits)
    (auto simp: no_contexts_def list_all_length nth_list_update nth_Cons find_adapter_node_def find_idx_Some
      split: option.splits if_splits prod.splits nat.splits)

text \<open>
  C40: the A2A adapter in a protocol stack is never initialised. Registration hands its initialiser
  the context of the list node, which is NULL, instead of the context the adapter's table binds,
  and the initialiser refuses it. A stack without an adapter of that type therefore refuses the
  adapter and stays as it is; one that has an adapter of that type replaces it all the same and
  reports success, after destroying the old one. Called with its own context the same initialiser
  succeeds and leaves a context that is ready to connect and send.
\<close>

theorem stack_refuses_a2a:
  fixes w :: "'u a2a_world"
  assumes "codes_ok E" "mem E 0" "mem E 1" "aw_contexts w ctx \<noteq> None" "no_contexts stack"
    "ad = a2a_v03_adapter_internal E C raw unraw astray ctx"
  shows "protocol_stack_register_adapter E (Some stack) ad w =
      (case find_adapter_node stack AIRY_PROTOCOL_A2A of
         None \<Rightarrow> (err E AIRY_ERR_UNKNOWN, Some stack, w)
       | Some i \<Rightarrow> (0, Some (stack\<lparr>sk_adapters := (sk_adapters stack)[i := \<lparr>nd_adapter = ad, nd_context = None\<rparr>]\<rparr>),
           case ad_destroy (nd_adapter (sk_adapters stack ! i)) of None \<Rightarrow> w | Some f \<Rightarrow> snd (f None w))) \<and>
    (case ad_init ad of
       Some f \<Rightarrow> \<exists>a w'. (\<forall>v. f None v = (err E AIRY_ERR_UNKNOWN, v)) \<and> f (ad_context ad) w = (0, w') \<and>
         aw_contexts w' ctx = Some a \<and> a2a_v03_is_initialized (Some a) \<and> a2a_reachable a
     | None \<Rightarrow> False)"
proof -
  obtain c where c: "aw_contexts w ctx = Some c" using assms(4) by blast
  obtain a :: "'u a2a_adapter" where a: "a2a_v03_context_create E (Some a2a_v03_config_default) = Some a"
      "aa_initialized a"
    using assms(2) by (auto simp: a2a_v03_create_def)
  have "a2a_reachable a" using a(1) by (rule r_create)
  with a c have "\<exists>a w'. (case a2a_adapter_init_cb E (context_at (Some ctx) w) of
      (rc, a) \<Rightarrow> (rc, put_context (Some ctx) a w)) = (0, w') \<and>
      aw_contexts w' ctx = Some a \<and> a2a_v03_is_initialized (Some a) \<and> a2a_reachable a"
    by (simp add: context_at_def put_context_def a2a_v03_is_initialized_def del: a2a_v03_context_create.simps)
  moreover have null: "(case a2a_adapter_init_cb E (context_at None v) of (rc, a) \<Rightarrow> (rc, put_context None a v)) = (err E AIRY_ERR_UNKNOWN, v)"
    for v :: "'u a2a_world" by (simp add: context_at_def put_context_def)
  moreover have "protocol_stack_register_adapter E (Some stack) ad w =
      (case find_adapter_node stack AIRY_PROTOCOL_A2A of
         None \<Rightarrow> (err E AIRY_ERR_UNKNOWN, Some stack, w)
       | Some i \<Rightarrow> (0, Some (stack\<lparr>sk_adapters := (sk_adapters stack)[i := \<lparr>nd_adapter = ad, nd_context = None\<rparr>]\<rparr>),
           case ad_destroy (nd_adapter (sk_adapters stack ! i)) of None \<Rightarrow> w | Some f \<Rightarrow> snd (f None w)))"
  proof (cases "find_adapter_node stack AIRY_PROTOCOL_A2A")
    case None
    then show ?thesis using assms(1-3) null [of w] by (simp add: assms(6))
  next
    case (Some i)
    then have "nd_context (sk_adapters stack ! i) = None"
      using assms(5) by (auto simp: no_contexts_def find_adapter_node_def find_idx_Some list_all_length)
    then show ?thesis using Some null
      by (cases "sk_adapters stack ! i") (simp add: assms(6) Let_def split: option.split)
  qed
  ultimately show ?thesis by (simp add: assms(6))
qed

theorem stack_refuses_a2a_witness:
  "\<exists>stack :: unit a2a_world protocol_stack. \<exists>w.
    protocol_stack_create env0 (Some (protocol_stack_config_default env0 None)) = Some stack \<and>
    protocol_stack_register_adapter env0 (Some stack)
      (a2a_v03_adapter_internal env0 cjson0 (\<lambda>_. []) (\<lambda>_. zero_message) (Pair 0) 8) w =
    (- 1, Some stack, w)"
proof -
  obtain stack :: "unit a2a_world protocol_stack" where
    s: "protocol_stack_create env0 (Some (protocol_stack_config_default env0 None)) = Some stack"
      "sk_adapters stack = []" by simp
  let ?w = "\<lparr>aw_contexts = (\<lambda>_. Some fresh_a2a), aw_cached = zero_card, aw_memory = \<lparr>mm_messages = (\<lambda>_. None), mm_texts = (\<lambda>_. None), mm_next = 1\<rparr>, aw_outside = ()\<rparr>"
  have f: "find_adapter_node stack AIRY_PROTOCOL_A2A = None" by (simp add: find_adapter_node_def s)
  from stack_refuses_a2a [OF env0_ok(1) env0_sel(2) env0_sel(2) _ no_contexts_kept(1) [OF s(1)] refl, of ?w 8 cjson0 "\<lambda>_. []" "\<lambda>_. zero_message" "Pair 0"]
  have "protocol_stack_register_adapter env0 (Some stack)
      (a2a_v03_adapter_internal env0 cjson0 (\<lambda>_. []) (\<lambda>_. zero_message) (Pair 0) 8) ?w = (- 1, Some stack, ?w)"
    by (simp add: f del: protocol_stack_register_adapter.simps)
  with s(1) show ?thesis by blast
qed

section \<open>The MCP adapter in a protocol stack\<close>

record 'u mcp_world =
  mw_contexts :: "ptr \<Rightarrow> 'u mcp_context option"
  mw_memory :: message_memory
  mw_io :: "'u mcp_io"

definition mcp_at :: "ptr option \<Rightarrow> 'u mcp_world \<Rightarrow> 'u mcp_context option" where
  "mcp_at c w = (case c of None \<Rightarrow> None | Some q \<Rightarrow> mw_contexts w q)"

definition put_mcp :: "ptr option \<Rightarrow> 'u mcp_context option \<Rightarrow> 'u mcp_world \<Rightarrow> 'u mcp_world" where
  "put_mcp c a w = (case c of None \<Rightarrow> w | Some q \<Rightarrow> w\<lparr>mw_contexts := (mw_contexts w)(q := a)\<rparr>)"

definition put_world :: "'u \<Rightarrow> 'u mcp_world \<Rightarrow> 'u mcp_world" where
  "put_world u w = w\<lparr>mw_io := (mw_io w)\<lparr>io_world := u\<rparr>\<rparr>"

definition mcp_handle_at ::
  "env \<Rightarrow> (cstring \<Rightarrow> cstring \<Rightarrow> cstring option) \<Rightarrow> ('u mcp_world \<Rightarrow> int \<times> 'u mcp_world) \<Rightarrow> ptr option \<Rightarrow> ptr option \<Rightarrow>
   'u mcp_world \<Rightarrow> int \<times> ptr option \<times> 'u mcp_world" where
  "mcp_handle_at E get_str astray c r w =
    (case mcp_adapter_handle_request E get_str (mcp_at c w) (message_at r (mw_memory w)) (Some None) (io_world (mw_io w)) of
       None \<Rightarrow> (case astray w of (rc, w') \<Rightarrow> (rc, None, w'))
     | Some (rc, out, a, u) \<Rightarrow>
        (case put_text (case out of None \<Rightarrow> None | Some t \<Rightarrow> t) (mw_memory w) of (p, mm) \<Rightarrow>
           (rc, p, (put_world u (put_mcp c a w))\<lparr>mw_memory := mm\<rparr>)))"

text \<open>
  The function table of the adapter. \<open>get_str\<close> is the look-up of a string member by the JSON
  library and \<open>ctx\<close> the address of the static context.
\<close>

definition mcp_v1_adapter_internal ::
  "env \<Rightarrow> (cstring \<Rightarrow> cstring \<Rightarrow> cstring option) \<Rightarrow> ('u mcp_world \<Rightarrow> int \<times> 'u mcp_world) \<Rightarrow> ptr \<Rightarrow>
   'u mcp_world protocol_adapter" where
  "mcp_v1_adapter_internal E get_str astray ctx =
    \<lparr>ad_type = AIRY_PROTOCOL_MCP, ad_name = Some ''MCP v1.0 Protocol Adapter'', ad_version = Some MCP_V1_VERSION,
     ad_description = Some ''Model Context Protocol v1.0 adapter'',
     ad_init = Some (\<lambda>c w. case mcp_adapter_init E (mcp_at c w) of (rc, a) \<Rightarrow> (rc, put_mcp c a w)),
     ad_destroy = Some (\<lambda>c w. case mcp_adapter_destroy (mcp_at c w) of (rc, a) \<Rightarrow> (rc, put_mcp c a w)),
     ad_encode = Some (\<lambda>c m w.
       case mcp_adapter_encode E get_str (mcp_at c w) (Some m) (Some (None, 0)) (io_world (mw_io w)) of
         None \<Rightarrow> (case astray w of (rc, w') \<Rightarrow> (rc, (None, 0), w'))
       | Some (rc, out, a, u) \<Rightarrow> (rc, case out of None \<Rightarrow> (None, 0) | Some d \<Rightarrow> d, put_world u (put_mcp c a w))),
     ad_decode = Some (\<lambda>c (d, s) m w.
       case mcp_adapter_decode E get_str (mcp_at c w) d s (Some m) (io_world (mw_io w)) of
         None \<Rightarrow> (case astray w of (rc, w') \<Rightarrow> (rc, m, w'))
       | Some (rc, out, a, u) \<Rightarrow> (rc, case out of None \<Rightarrow> m | Some m' \<Rightarrow> m', put_world u (put_mcp c a w))),
     ad_connect = Some (\<lambda>c e w. case mcp_adapter_connect E (mcp_at c w) (Some e) (mw_io w) of
       (rc, a, io) \<Rightarrow> (rc, (put_mcp c a w)\<lparr>mw_io := io\<rparr>)),
     ad_disconnect = Some (\<lambda>c w. case mcp_adapter_disconnect E (mcp_at c w) of (rc, a) \<Rightarrow> (rc, put_mcp c a w)),
     ad_is_connected = Some (\<lambda>c w. (mcp_adapter_is_connected (mcp_at c w) (mw_io w), w)),
     ad_send = Some (\<lambda>c (d, s) w. case mcp_adapter_send E (mcp_at c w) d s (mw_io w) of
         None \<Rightarrow> astray w
       | Some (rc, io) \<Rightarrow> (rc, w\<lparr>mw_io := io\<rparr>)),
     ad_receive = Some (\<lambda>c t w. case mcp_adapter_receive_adapter E (mcp_at c w) (Some (None, 0)) t (mw_io w) of
         None \<Rightarrow> (case astray w of (rc, w') \<Rightarrow> (rc, (None, 0), w'))
       | Some (rc, out, io) \<Rightarrow> (rc, case out of None \<Rightarrow> (None, 0) | Some d \<Rightarrow> d, w\<lparr>mw_io := io\<rparr>)),
     ad_handle_request = Some (mcp_handle_at E get_str astray),
     ad_get_version = Some (\<lambda>c s w. case mcp_adapter_get_version E True s of
       (rc, t) \<Rightarrow> (rc, case t of None \<Rightarrow> [] | Some v \<Rightarrow> v, w)),
     ad_capabilities = Some (\<lambda>c w. (mcp_adapter_capabilities, w)),
     ad_get_stats = Some (\<lambda>c s w. case mcp_adapter_get_stats E True s of
       (rc, t) \<Rightarrow> (rc, case t of None \<Rightarrow> [] | Some v \<Rightarrow> v, w)),
     ad_context = Some ctx, ad_user_data = None\<rparr>"

text \<open>The MCP adapter is refused for the same reason.\<close>

theorem stack_refuses_mcp:
  fixes w :: "'u mcp_world"
  assumes "codes_ok E" "mem E 0" "mem E 1" "find_adapter_node stack AIRY_PROTOCOL_MCP = None"
  shows "protocol_stack_register_adapter E (Some stack) (mcp_v1_adapter_internal E get_str astray ctx) w =
    (err E AIRY_ERR_UNKNOWN, Some stack, w)"
  using assms by (simp add: mcp_v1_adapter_internal_def mcp_at_def put_mcp_def)

text \<open>
  Called with its own context the initialiser succeeds, and a tool registered there is served:
  the context is live, with empty tables.
\<close>

lemma mcp_init_own:
  fixes w :: "'u mcp_world"
  assumes "mem_ok E" "mw_contexts w ctx \<noteq> None"
  shows "\<exists>f a w'. ad_init (mcp_v1_adapter_internal E get_str astray ctx) = Some f \<and> f (Some ctx) w = (0, w') \<and>
    mw_contexts w' ctx = Some a \<and> mcp_live a \<and> mc_tools a = []"
proof -
  obtain c where c: "mw_contexts w ctx = Some c" using assms(2) by blast
  obtain a :: "'u mcp_context" where a: "mcp_v1_context_create E (Some mcp_v1_config_default) = Some a" "mc_tools a = []"
    using assms(1) by (auto simp: zero_context_def)
  have "mcp_live a" using a(1) by (rule l_create)
  with a c show ?thesis
    by (simp add: mcp_v1_adapter_internal_def mcp_at_def put_mcp_def del: mcp_v1_context_create.simps)
qed

section \<open>The client's requests at the detector\<close>

text \<open>
  The calls of the MCP client are recognised as MCP by the body probe, when the JSON library
  reads back the request it printed; the handshake that has to come first is not: its methods
  lie outside the namespaces the probe knows, and it counts them as plain JSON-RPC.
\<close>

theorem client_requests_detected:
  assumes "cjson_ok C" "q = request_text C i m ps" "q \<noteq> []"
    and reads: "cj_parse_len C q = Some (rpc_request i m (parse_or_empty C 1 (Some ps)))"
    and members: "\<And>ms k. cj_item_cs C (JObj ms) k = map_of ms k"
  shows "(m = ''tools/list'' \<or> m = ''tools/call'' \<longrightarrow> proto_detect_body C (Some q) = AIRY_PROTOCOL_MCP) \<and>
    (m = ''initialize'' \<or> m = ''notifications/initialized'' \<longrightarrow> proto_detect_body C (Some q) = AIRY_PROTOCOL_JSON_RPC)"
  using assms(3) reads
  by (auto simp: proto_detect_body_def rpc_request_def members str_of_def method_has_prefix_def strncmp_eq_def)

theorem client_requests_detected_witness:
  "let doc = rpc_request 1 ''tools/call'' (Some (JObj [])) in
   proto_detect_body (cjson_reading [JObj [], doc]) (Some (json_text doc)) = AIRY_PROTOCOL_MCP"
proof -
  let ?doc = "rpc_request 1 ''tools/call'' (Some (JObj []))"
  let ?C = "cjson_reading [JObj [], ?doc]"
  have p: "parse_or_empty ?C 1 (Some ''{}'') = Some (JObj [])" by (simp add: parse_or_empty_def cjson_reading_def)
  have t: "request_text ?C 1 ''tools/call'' ''{}'' = json_text ?doc" unfolding request_text_def p by (simp add: cjson_reading_def)
  have r: "cj_parse_len ?C (json_text ?doc) = Some ?doc" by (simp add: cjson_reading_def rpc_request_def)
  have "json_text ?doc \<noteq> []" by (simp add: rpc_request_def)
  moreover have "cj_item_cs ?C (JObj ms) k = map_of ms k" for ms k by (simp add: cjson_reading_def)
  ultimately show ?thesis
    using client_requests_detected [of ?C "json_text ?doc" 1 "''tools/call''" "''{}''"] r t p by simp
qed

section \<open>The client and the adapter's transport on two pipes\<close>

text \<open>The server's end takes as many messages as were sent.\<close>

fun receive_many :: "env \<Rightarrow> 'v mcp_transport \<Rightarrow> in_event list \<Rightarrow> 'v \<Rightarrow> nat \<Rightarrow> (cstring list \<times> in_event list \<times> 'v) option" where
  "receive_many F t evs v 0 = Some ([], evs, v)"
| "receive_many F t evs v (Suc n) = (case mcp_trans_receive F (Some t) True evs v of
     Some (rc, Some (b, k), es, v') \<Rightarrow> if rc = 0
       then map_option (\<lambda>(bs, r). (b # bs, r)) (receive_many F t es v' n) else None
   | _ \<Rightarrow> None)"

lemma wire_header: "wire b = stdio_header (length b) @ b"
  by (simp add: wire_def frame_head_def stdio_header_def)

lemma receive_many_wire:
  assumes "mem F 0" "tp_type t = MCP_TRANSPORT_STDIO" "tp_state t = MCP_TRANSPORT_CONNECTED"
    "MCP_CLIENT_MAX_MESSAGE_SIZE \<le> tp_max_message_size t"
  shows "list_all body_ok qs \<Longrightarrow> steady evs \<Longrightarrow> input_bytes evs = concat (map wire qs) @ r \<Longrightarrow>
    \<exists>evs'. receive_many F t evs v (length qs) = Some (qs, evs', v) \<and> input_bytes evs' = r"
proof (induction qs arbitrary: evs)
  case (Cons q qs)
  have q: "q \<noteq> []" "length q \<le> MCP_CLIENT_MAX_MESSAGE_SIZE" using Cons.prems(1) by (simp_all add: body_ok_def)
  then have "length q < 10 ^ 11" "length q \<le> tp_max_message_size t" using assms(4) by simp_all
  note len = this
  have "input_bytes evs = stdio_header (length q) @ q @ concat (map wire qs) @ r"
    using Cons.prems(3) wire_header [of q] by simp
  from receive_frame [OF assms(1) q(1) len(1) assms(2,3) len(2) Cons.prems(2), of "concat (map wire qs) @ r" v] this
  obtain es where 1: "mcp_trans_receive F (Some t) True evs v = Some (0, Some (q, length q), es, v)" "steady es"
    "input_bytes es = concat (map wire qs) @ r" by (auto simp del: mcp_trans_receive.simps)
  from Cons.IH [OF _ 1(2,3)] Cons.prems(1) 1(1) show ?case by (auto simp del: mcp_trans_receive.simps)
qed simp

text \<open>
  C39: the MCP client and a server that uses the MCP transport understand each other. Whatever requests
  the client has written to the one pipe arrive at the transport as they were, in order and with
  nothing left over, and whatever answers the transport has written to the other arrive at the client,
  however both streams are cut into reads, as long as no read of the client brings more behind a
  frame than the frame has; beyond that the parser's \<open>memcpy\<close> overlaps itself. (Messages are
  non-empty C strings of at most 10 MB, and the transport's maximum is not below that, as in its
  default configuration.)
\<close>

theorem client_server_pipe:
  fixes t :: "'v mcp_transport"
  assumes "memcpy_ok cp" "mem_ok E" "codes_ok E" "codes_ok F" "mem F 0" "0 < timeout_ms"
    "tp_type t = MCP_TRANSPORT_STDIO" "tp_state t = MCP_TRANSPORT_CONNECTED" "MCP_CLIENT_MAX_MESSAGE_SIZE \<le> tp_max_message_size t"
    "list_all body_ok qs" "list_all2 (\<lambda>q out. \<exists>ws ws'. stdio_send_message E ws q = Some (0, out, ws')) qs outs"
    "steady evs" "input_bytes evs = concat outs"
    "list_all body_ok rs" "list_all2 (\<lambda>r out. \<exists>oevs oevs' t' w w'.
      mcp_transport_send F (Some t) (Some r) (length r) oevs w = Some (0, t', out, oevs', w')) rs outs'"
    "list_all benign revs" "concat (map bytes_of revs) = concat outs'" "spaced 0 (sizes revs) (map length outs')"
  shows "(\<exists>evs'. receive_many F t evs v (length qs) = Some (qs, evs', v) \<and> input_bytes evs' = []) \<and>
    (\<exists>p revs'. read_many E cp frame_parser_init timeout_ms revs (length rs) = Some (rs, p, revs') \<and>
      fp_buf p @ concat (map bytes_of revs') = [])"
proof -
  have "outs = map wire qs"
    using assms(11,10) by (induction rule: list_all2_induct) (auto simp: body_ok_def intro: send_ok [OF assms(3)])
  with receive_many_wire [OF assms(5,7-10,12), of "[]" v] assms(13) have
    "\<exists>evs'. receive_many F t evs v (length qs) = Some (qs, evs', v) \<and> input_bytes evs' = []" by simp
  moreover have "outs' = map wire rs"
    using assms(15,14)
    by (induction rule: list_all2_induct) (auto simp: body_ok_def wire_header simp del: mcp_transport_send.simps dest!: send_stdio_bytes [OF assms(4,7), rotated])
  with read_many_wire [OF assms(1,2,6,14), of frame_parser_init revs "[]"] assms(16-18) have
    "\<exists>p revs'. read_many E cp frame_parser_init timeout_ms revs (length rs) = Some (rs, p, revs') \<and>
      fp_buf p @ concat (map bytes_of revs') = []" by (simp add: frame_parser_init_def comp_def)
  ultimately show ?thesis by blast
qed

theorem client_server_pipe_witness:
  "(\<exists>evs'. receive_many env0 pipe_end [I_bytes (wire ''{}'')] () 1 = Some ([''{}''], evs', ())) \<and>
    (\<exists>p revs'. read_many env0 (\<lambda>b off n. take n (drop off b)) frame_parser_init 1000 [Chunk (wire ''[]'')] 1 = Some ([''[]''], p, revs'))"
proof -
  have d: "digit 2 = CHR ''2''" by code_simp
  have h: "frame_head ''{}'' = ''Content-Length: 2'' @ [CR, LF, CR, LF]" "stdio_header 2 = ''Content-Length: 2'' @ [CR, LF, CR, LF]"
    by (simp_all add: frame_head_def stdio_header_def show_nat.simps d d [unfolded numeral_2_eq_2])
  have q: "stdio_send_message env0 [Wrote 21, Wrote 2] ''{}'' = Some (0, wire ''{}'', [])"
    by (simp add: stdio_send_message_def wire_def h)
  have r: "mcp_transport_send env0 (Some pipe_end) (Some ''[]'') (length ''[]'') [O_wrote 21, O_wrote 2] () =
      Some (0, Some pipe_end, wire ''[]'', [], ())"
    by (simp add: send_stdio_def write_two_def printed_bytes_def wire_header h [unfolded numeral_2_eq_2])
  have "length (wire ''[]'') \<le> 4096" using frame_head_length [of "''[]''"] by (simp add: wire_def)
  then have e: "list_all benign [Chunk (wire ''[]'')]" "steady [I_bytes (wire ''{}'')]"
    by (simp_all add: steady_def wire_def frame_head_def)
  have "wire ''[]'' \<noteq> []" by (simp add: wire_def frame_head_def)
  then have sp: "spaced 0 (sizes [Chunk (wire ''[]'')]) (map length [wire ''[]''])" by simp
  have b: "list_all body_ok [''{}'']" "list_all body_ok [''[]'']" by (simp_all add: body_ok_def)
  have "list_all2 (\<lambda>q out. \<exists>ws ws'. stdio_send_message env0 ws q = Some (0, out, ws')) [''{}''] [wire ''{}'']" using q by auto
  moreover have "list_all2 (\<lambda>r out. \<exists>oevs oevs' t' w w'.
      mcp_transport_send env0 (Some pipe_end) (Some r) (length r) oevs w = Some (0, t', out, oevs', w')) [''[]''] [wire ''[]'']"
    using r by (auto simp del: mcp_transport_send.simps)
  ultimately show ?thesis
    using client_server_pipe [OF memcpy_ok_take env0_ok(3) env0_ok(1) env0_ok(1) env0_sel(2) _ pipe_end_sel(1,2) _ b(1) _ e(2) _ b(2) _ e(1) _ sp,
      of 1000 "[wire ''{}'']" "()"]
    by (auto simp del: receive_many.simps read_many.simps)
qed

end
